(* ===== verification/Prelude.thy ===== *)
theory Prelude
  imports Main "HOL-Library.Word"
begin

text \<open>
  Shared vocabulary of the development: Go's machine integers and byte slices, the big-endian
  conversions of \<^verbatim>\<open>math/big\<close> (\<open>Int.SetBytes\<close>, \<open>Int.Bytes\<close>) and \<^verbatim>\<open>encoding/binary\<close>, Go's
  \<open>copy\<close> and slice expressions, and the word lemmas that the component theories use.
\<close>

unbundle bit_operations_syntax

section \<open>Types\<close>

text \<open>\<open>byte\<close>, \<open>uint64\<close> and \<open>[]byte\<close> of Go.\<close>

type_synonym byte = "8 word"
type_synonym u64 = "64 word"
type_synonym bytes = "byte list"

text \<open>
  The lemmas that read the value of a word built from natural numbers or from a narrower word,
  for use as \<open>simp add: word_conv\<close>.
\<close>

named_theorems word_conv

section \<open>Big-endian byte strings\<close>

text \<open>
  \<open>be_nat\<close> is the value of a big-endian byte string (\<open>big.Int.SetBytes\<close>,
  \<open>binary.BigEndian.Uint64\<close>); \<open>nat_be\<close> the shortest big-endian string of a number
  (\<open>big.Int.Bytes\<close>: empty for zero, no leading zero byte).
\<close>

definition be_nat :: "bytes \<Rightarrow> nat" where
  "be_nat bs = foldl (\<lambda>acc b. acc * 256 + unat b) 0 bs"

fun nat_be :: "nat \<Rightarrow> bytes" where
  "nat_be n = (if n = 0 then [] else nat_be (n div 256) @ [word_of_nat (n mod 256)])"

declare nat_be.simps [simp del]

lemma be_nat_Nil [simp]: "be_nat [] = 0"
  by (simp add: be_nat_def)

lemma be_nat_snoc [simp]: "be_nat (bs @ [b]) = be_nat bs * 256 + unat b"
  by (simp add: be_nat_def)

lemma be_nat_append: "be_nat (xs @ ys) = be_nat xs * 256 ^ length ys + be_nat ys"
proof (induction ys rule: rev_induct)
  case (snoc y ys)
  then show ?case by (simp flip: append_assoc add: algebra_simps)
qed simp

lemma be_nat_Cons: "be_nat (b # bs) = unat b * 256 ^ length bs + be_nat bs"
  using be_nat_append [of "[b]" bs] by (simp add: be_nat_def)

lemma unat_byte_lt: "unat (b :: byte) < 256"
  using unsigned_less [of b, where ?'a = nat] by simp

lemma be_nat_lt: "be_nat bs < 256 ^ length bs"
proof (induction bs rule: rev_induct)
  case (snoc b bs)
  have "be_nat bs * 256 + unat b < (be_nat bs + 1) * 256"
    using unat_byte_lt [of b] by (simp add: algebra_simps)
  also have "\<dots> \<le> 256 ^ length bs * 256"
    using snoc by (intro mult_le_mono1) simp
  finally show ?case by simp
qed simp

lemma nat_be_0 [simp]: "nat_be 0 = []"
  by (simp add: nat_be.simps)

lemma nat_be_step: "n \<noteq> 0 \<Longrightarrow> nat_be n = nat_be (n div 256) @ [word_of_nat (n mod 256)]"
  by (subst nat_be.simps) simp

lemma be_nat_nat_be [simp]: "be_nat (nat_be n) = n"
proof (induction n rule: nat_be.induct)
  case (1 n)
  show ?case
  proof (cases "n = 0")
    case False
    then show ?thesis
      using 1 by (subst nat_be_step) (simp_all add: unat_of_nat)
  qed simp
qed

lemma nat_be_eq_Nil [simp]: "nat_be n = [] \<longleftrightarrow> n = 0"
  by (metis be_nat_Nil be_nat_nat_be nat_be_0)

lemma hd_nat_be: "n \<noteq> 0 \<Longrightarrow> hd (nat_be n) \<noteq> 0"
proof (induction n rule: nat_be.induct)
  case (1 n)
  show ?case
  proof (cases "n < 256")
    case True
    then have "nat_be n = [word_of_nat n]"
      using 1(2) by (subst nat_be_step) simp_all
    moreover have "unat (word_of_nat n :: byte) = n"
      using True by (simp add: unat_of_nat)
    ultimately show ?thesis using 1(2) by auto
  next
    case False
    then have "n div 256 \<noteq> 0" by simp
    with 1 show ?thesis
      by (subst nat_be_step) auto
  qed
qed

lemma nat_be_be_nat: "bs = [] \<or> hd bs \<noteq> 0 \<Longrightarrow> nat_be (be_nat bs) = bs"
proof (induction bs rule: rev_induct)
  case (snoc b bs)
  show ?case
  proof (cases bs)
    case Nil
    then have "unat b \<noteq> 0" using snoc by (simp add: unat_eq_0)
    then show ?thesis using Nil unat_byte_lt [of b]
      by (simp add: nat_be_step be_nat_def)
  next
    case (Cons c cs)
    then have IH: "nat_be (be_nat bs) = bs" using snoc by simp
    then have "be_nat bs \<noteq> 0" using Cons by (metis list.distinct(1) nat_be_0)
    then show ?thesis using IH unat_byte_lt [of b]
      by (simp add: nat_be_step)
  qed
qed simp

lemma length_nat_be: "length (nat_be n) \<le> k \<longleftrightarrow> n < 256 ^ k"
proof (induction k arbitrary: n)
  case 0
  then show ?case by simp
next
  case (Suc k)
  show ?case
  proof (cases "n = 0")
    case False
    have "length (nat_be n) \<le> Suc k \<longleftrightarrow> length (nat_be (n div 256)) \<le> k"
      using False by (simp add: nat_be_step)
    also have "\<dots> \<longleftrightarrow> n div 256 < 256 ^ k" by (rule Suc.IH)
    also have "\<dots> \<longleftrightarrow> n < 256 ^ Suc k"
      by (simp add: div_less_iff_less_mult mult.commute)
    finally show ?thesis .
  qed simp
qed

lemma word_of_nat_mod_256: "(word_of_nat (n mod 256) :: byte) = word_of_nat n"
  by (simp add: word_unat_eq_iff unsigned_of_nat take_bit_eq_mod)

lemma nat_be_digits:
  "n < 256 ^ k \<Longrightarrow> 256 ^ k \<le> 256 * n \<Longrightarrow>
    nat_be n = map (\<lambda>j. word_of_nat (n div 256 ^ j)) (rev [0..<k])"
proof (induction k arbitrary: n)
  case 0
  then show ?case by simp
next
  case (Suc k)
  have n: "n \<noteq> 0" using Suc.prems(2) by (cases n) auto
  have step: "nat_be n = nat_be (n div 256) @ [word_of_nat n]"
    using n by (simp add: nat_be_step word_of_nat_mod_256)
  have "[0..<Suc k] = 0 # map Suc [0..<k]"
    by (simp only: upt_conv_Cons map_Suc_upt zero_less_Suc)
  then have idx: "rev [0..<Suc k] = map Suc (rev [0..<k]) @ [0]"
    by (simp only: rev.simps rev_map)
  show ?case
  proof (cases "k = 0")
    case True
    then show ?thesis using step Suc.prems(1) by simp
  next
    case False
    have "n div 256 < 256 ^ k"
      using Suc.prems(1) by (simp add: div_less_iff_less_mult mult.commute)
    moreover have "256 ^ k \<le> 256 * (n div 256)"
    proof -
      obtain m where m: "k = Suc m" using False by (cases k) auto
      have "256 ^ m \<le> n div 256"
        using Suc.prems(2) m by (simp add: less_eq_div_iff_mult_less_eq)
      then show ?thesis using m by simp
    qed
    ultimately have "nat_be (n div 256) =
        map (\<lambda>j. word_of_nat (n div 256 div 256 ^ j)) (rev [0..<k])"
      by (rule Suc.IH)
    then show ?thesis unfolding idx using step
      by (simp add: div_mult2_eq comp_def)
  qed
qed

section \<open>Go slices\<close>

text \<open>
  \<open>go_slice xs i j\<close> is \<open>xs[i:j]\<close> and \<open>go_copy out pos src\<close> is \<open>copy(out[pos:], src)\<close> with its
  return value; \<open>None\<close> is the run-time panic of an index out of range.
\<close>

definition go_copy :: "bytes \<Rightarrow> nat \<Rightarrow> bytes \<Rightarrow> (nat \<times> bytes) option" where
  "go_copy out pos src =
    (if pos \<le> length out
     then let n = min (length out - pos) (length src)
          in Some (n, take pos out @ take n src @ drop (pos + n) out)
     else None)"

definition go_slice :: "bytes \<Rightarrow> int \<Rightarrow> int \<Rightarrow> bytes option" where
  "go_slice xs i j =
    (if 0 \<le> i \<and> i \<le> j \<and> j \<le> int (length xs)
     then Some (take (nat j - nat i) (drop (nat i) xs)) else None)"

lemma go_copy_fits:
  "pos + length src \<le> length out \<Longrightarrow>
    go_copy out pos src = Some (length src, take pos out @ src @ drop (pos + length src) out)"
  by (simp add: go_copy_def Let_def)

section \<open>Values of words\<close>

lemma unat_ucast_u64: "unat (ucast (b :: byte) :: u64) = unat b"
  using unat_byte_lt [of b] by (simp add: unsigned_ucast_eq take_bit_eq_mod)

lemma unat_tag: "unat t + n < 256 \<Longrightarrow> unat (t + word_of_nat n :: byte) = unat t + n"
  by (simp add: unat_word_ariths unsigned_of_nat take_bit_eq_mod)

lemma unat_untag: "unat t \<le> unat b \<Longrightarrow> unat (b - t :: byte) = unat b - unat t"
  by (simp add: unat_sub word_le_nat_alt)

lemma retag: "unat (b :: byte) = unat t + n \<Longrightarrow> b = t + word_of_nat n"
  using unat_byte_lt [of b] by (simp add: word_unat_eq_iff unat_tag)

lemma take_map_nth: "k \<le> length b \<Longrightarrow> take k b = map ((!) b) [0..<k]"
  by (simp add: list_eq_iff_nth_eq)

lemma unat_of_nat_u64: "n < 2 ^ 64 \<Longrightarrow> unat (word_of_nat n :: u64) = n"
  by (simp add: unsigned_of_nat take_bit_eq_mod)

lemma unat_u64_lt: "unat (x :: u64) < 2 ^ 64"
  using unsigned_less [of x, where ?'a = nat] by simp

lemma unat_of_nat_byte: "n < 256 \<Longrightarrow> unat (word_of_nat n :: byte) = n"
  by (simp add: unsigned_of_nat take_bit_eq_mod)

lemma sint_neg_iff: "sint (x :: u64) < 0 \<longleftrightarrow> 2 ^ 63 \<le> unat x"
proof -
  have "sint x < 0 \<longleftrightarrow> bit (unat x) 63"
    using bit_last_iff [of x] by (simp add: bit_unsigned_iff)
  also have "\<dots> \<longleftrightarrow> odd (unat x div 2 ^ 63)"
    by (simp add: bit_iff_odd)
  also have "\<dots> \<longleftrightarrow> 2 ^ 63 \<le> unat x"
  proof (cases "2 ^ 63 \<le> unat x")
    case True
    then have "unat x div 2 ^ 63 = 1"
      using unat_u64_lt [of x] by (intro div_nat_eqI) simp_all
    then show ?thesis using True by simp
  qed simp
  finally show ?thesis .
qed

lemma unat_abs_diff:
  fixes p h :: u64
  assumes "unat p < 2 ^ 63" and "unat h < 2 ^ 63"
  shows "unat (if sint (p - h) < 0 then - (p - h) else p - h) = (unat p - unat h) + (unat h - unat p)"
proof (cases "unat h \<le> unat p")
  case True
  then have "unat (p - h) = unat p - unat h" by (simp add: unat_sub word_le_nat_alt)
  moreover have "\<not> sint (p - h) < 0" using calculation assms by (simp add: sint_neg_iff)
  ultimately show ?thesis using True by simp
next
  case False
  then have u: "unat (h - p) = unat h - unat p" by (simp add: unat_sub word_le_nat_alt)
  have "2 ^ 63 \<le> unat (p - h)" using assms False by (simp add: unat_sub_if_size word_size)
  then show ?thesis using False u by (simp add: sint_neg_iff)
qed

lemmas unat_convs [word_conv] = unat_of_nat_u64 unat_of_nat_byte unat_ucast_u64

section \<open>Big integers\<close>

text \<open>
  \<open>big.Int\<close> values are mathematical integers. \<open>Div\<close> is Euclidean division and panics (\<open>None\<close>) on a
  zero divisor; \<open>Uint64\<close> takes the low 64 bits of the absolute value; \<open>BitLen\<close> is the length of the
  absolute value in bits.
\<close>

definition big_div :: "int \<Rightarrow> int \<Rightarrow> int option" where
  "big_div x d = (if d = 0 then None else if 0 < d then Some (x div d) else Some (- (x div (- d))))"

definition big_Uint64 :: "int \<Rightarrow> u64" where
  "big_Uint64 x = word_of_nat (nat \<bar>x\<bar>)"

fun bitlen :: "nat \<Rightarrow> nat" where
  "bitlen n = (if n = 0 then 0 else Suc (bitlen (n div 2)))"

declare bitlen.simps [simp del]

lemma bitlen_le: "bitlen n \<le> k \<longleftrightarrow> n < 2 ^ k"
proof (induction k arbitrary: n)
  case 0
  then show ?case by (simp add: bitlen.simps)
next
  case (Suc k)
  show ?case
  proof (cases "n = 0")
    case False
    then have "bitlen n \<le> Suc k \<longleftrightarrow> bitlen (n div 2) \<le> k"
      by (subst bitlen.simps) simp
    also have "\<dots> \<longleftrightarrow> n < 2 ^ Suc k"
      unfolding Suc.IH by (simp add: div_less_iff_less_mult mult.commute)
    finally show ?thesis .
  qed (simp add: bitlen.simps)
qed

lemma big_div_pos [simp]: "0 < d \<Longrightarrow> big_div x d = Some (x div d)"
  by (simp add: big_div_def)

lemma big_div_None [simp]: "big_div x d = None \<longleftrightarrow> d = 0"
  by (simp add: big_div_def)

lemma unat_big_Uint64: "0 \<le> x \<Longrightarrow> x < 2 ^ 64 \<Longrightarrow> unat (big_Uint64 x) = nat x"
  unfolding big_Uint64_def by (subst unat_of_nat_u64) (simp_all add: nat_less_iff)

lemma list_all2_ConsE:
  "list_all2 P (x # xs) ys \<Longrightarrow> (\<And>z zs. ys = z # zs \<Longrightarrow> P x z \<Longrightarrow> list_all2 P xs zs \<Longrightarrow> Q) \<Longrightarrow> Q"
  by (auto simp: list_all2_Cons1)

lemma list_all2_NilE: "list_all2 P [] ys \<Longrightarrow> (ys = [] \<Longrightarrow> Q) \<Longrightarrow> Q"
  by simp

end
