(* ===== verification/RlpEncode.thy ===== *)
theory RlpEncode
  imports Prelude
begin

text \<open>
  The encoder of package \<^verbatim>\<open>rlp\<close> (src/rlp/encode.go): integer and header output, the encoding buffer
  with its back-patched list headers, the writers for the reflected kinds of values, and the
  conversion to bytes, with the proof that the result is the encoding the package documents.
\<close>

section \<open>Integers and headers\<close>

text \<open>The kinds of an RLP value (\<open>Kind\<close> of decode.go).\<close>

datatype Kind = KByte | KString | KList

abbreviation u64_byte :: "nat \<Rightarrow> u64 \<Rightarrow> byte" where
  "u64_byte k i \<equiv> ucast (drop_bit k i)"

text \<open>
  \<open>putint\<close> writes the shortest big-endian form of its argument by an eight-way switch. The model
  returns the bytes written; the number of bytes returned in Go is their length.
\<close>

definition putint :: "u64 \<Rightarrow> bytes" where
  "putint i =
    (if i < 2 ^ 8 then [u64_byte 0 i]
     else if i < 2 ^ 16 then [u64_byte 8 i, u64_byte 0 i]
     else if i < 2 ^ 24 then [u64_byte 16 i, u64_byte 8 i, u64_byte 0 i]
     else if i < 2 ^ 32 then [u64_byte 24 i, u64_byte 16 i, u64_byte 8 i, u64_byte 0 i]
     else if i < 2 ^ 40 then
       [u64_byte 32 i, u64_byte 24 i, u64_byte 16 i, u64_byte 8 i, u64_byte 0 i]
     else if i < 2 ^ 48 then
       [u64_byte 40 i, u64_byte 32 i, u64_byte 24 i, u64_byte 16 i, u64_byte 8 i, u64_byte 0 i]
     else if i < 2 ^ 56 then
       [u64_byte 48 i, u64_byte 40 i, u64_byte 32 i, u64_byte 24 i, u64_byte 16 i, u64_byte 8 i,
        u64_byte 0 i]
     else
       [u64_byte 56 i, u64_byte 48 i, u64_byte 40 i, u64_byte 32 i, u64_byte 24 i, u64_byte 16 i,
        u64_byte 8 i, u64_byte 0 i])"

text \<open>\<open>intsize\<close> counts the bytes by repeated shifting.\<close>

lemma drop_bit_8_div: "unat (drop_bit 8 (i :: u64)) = unat i div 256"
  unfolding unat_drop_bit_eq by (simp add: drop_bit_eq_div)

function intsize_loop :: "u64 \<Rightarrow> nat \<Rightarrow> nat" where
  "intsize_loop i size' =
     (let i' = drop_bit 8 i in if i' = 0 then size' else intsize_loop i' (size' + 1))"
  by pat_completeness auto
termination
proof (relation "measure (\<lambda>(i, _). unat i)", goal_cases)
  case (2 i size' i')
  then have "unat i div 256 \<noteq> 0"
    by (metis drop_bit_8_div unat_eq_0)
  then show ?case using 2 by (simp add: drop_bit_8_div)
qed simp

lemma u64_byte_eq: "u64_byte k i = word_of_nat (unat i div 2 ^ k)"
  unfolding word_unat_eq_iff unsigned_ucast_eq unat_drop_bit_eq unsigned_of_nat
  by (simp add: drop_bit_eq_div take_bit_eq_mod)

lemma putint_nat_be:
  assumes "i \<noteq> 0"
  shows "putint i = nat_be (unat i)"
proof -
  have bnd: "unat i < 2 ^ 64" using unsigned_less [of i, where ?'a = nat] by simp
  have digits: "nat_be (unat i) = map (\<lambda>j. word_of_nat (unat i div 256 ^ j)) (rev [0..<k])"
    if "unat i < 256 ^ k" "256 ^ k \<le> 256 * unat i" for k
    using that by (rule nat_be_digits)
  have "unat i \<noteq> 0" using assms by (simp add: unat_eq_0)
  then show ?thesis
    using digits [of 1] digits [of 2] digits [of 3] digits [of 4] digits [of 5] digits [of 6]
      digits [of 7] digits [of 8] bnd
    by (simp add: putint_def u64_byte_eq word_less_nat_alt upt_rec)
qed

lemma putint_0 [simp]: "putint 0 = [0]"
  by (simp add: putint_def)

lemma intsize_loop_nat_be:
  "intsize_loop i s = s + length (nat_be (unat i div 256))"
proof (induction i s rule: intsize_loop.induct)
  case (1 i s)
  show ?case
  proof (cases "drop_bit 8 i = 0")
    case True
    then have "unat i div 256 = 0" by (metis drop_bit_8_div unat_eq_0)
    with True show ?thesis by (subst intsize_loop.simps) (simp add: Let_def del: div_eq_0_iff)
  next
    case False
    then have "unat i div 256 \<noteq> 0" by (metis drop_bit_8_div unat_eq_0)
    then show ?thesis using False 1 [OF refl False]
      by (subst intsize_loop.simps)
        (simp add: Let_def drop_bit_8_div nat_be_step [of "unat i div 256"] del: div_eq_0_iff)
  qed
qed

declare intsize_loop.simps [simp del]

definition intsize :: "u64 \<Rightarrow> nat" where
  "intsize i = intsize_loop i 1"

lemma intsize_nat_be: "i \<noteq> 0 \<Longrightarrow> intsize i = length (nat_be (unat i))"
  by (simp add: intsize_def intsize_loop_nat_be nat_be_step [of "unat i"] unat_eq_0)

definition headsize :: "u64 \<Rightarrow> nat" where
  "headsize sz = (if sz < 56 then 1 else 1 + intsize sz)"

definition puthead :: "byte \<Rightarrow> byte \<Rightarrow> u64 \<Rightarrow> bytes" where
  "puthead smalltag largetag sz =
    (if sz < 56 then [smalltag + ucast sz]
     else let sizebytes = putint sz in (largetag + word_of_nat (length sizebytes)) # sizebytes)"

section \<open>The encoding buffer\<close>

text \<open>
  \<open>encbuf\<close>: \<open>str\<close> holds everything but the list headers, \<open>lheads\<close> the headers with the
  offset in \<open>str\<close> at which each is inserted, \<open>lhsize\<close> the total size of the finished headers.
  The auxiliary \<open>sizebuf\<close> carries no state between calls and is left out. A \<open>*listhead\<close> is
  modelled by its index in \<open>lheads\<close>.
\<close>

record listhead =
  lh_offset :: int
  lh_size :: int

record encbuf =
  str :: bytes
  lheads :: "listhead list"
  lhsize :: int

datatype enc_error = ErrNegativeBigInt

definition encbuf_reset :: "encbuf \<Rightarrow> encbuf" where
  "encbuf_reset w = w\<lparr>lhsize := 0, str := [], lheads := []\<rparr>"

definition encbuf_size :: "encbuf \<Rightarrow> int" where
  "encbuf_size w = int (length (str w)) + lhsize w"

definition encbuf_Write :: "encbuf \<Rightarrow> bytes \<Rightarrow> encbuf" where
  "encbuf_Write w b = w\<lparr>str := str w @ b\<rparr>"

definition encodeStringHeader :: "nat \<Rightarrow> encbuf \<Rightarrow> encbuf" where
  "encodeStringHeader sz w =
    (if sz < 56 then w\<lparr>str := str w @ [0x80 + word_of_nat sz]\<rparr>
     else let sizebytes = putint (word_of_nat sz) in
       w\<lparr>str := str w @ (0xB7 + word_of_nat (length sizebytes)) # sizebytes\<rparr>)"

definition encodeString :: "bytes \<Rightarrow> encbuf \<Rightarrow> encbuf" where
  "encodeString b w =
    (if length b = 1 \<and> b ! 0 \<le> 0x7F then w\<lparr>str := str w @ [b ! 0]\<rparr>
     else let w' = encodeStringHeader (length b) w in w'\<lparr>str := str w' @ b\<rparr>)"

definition encbuf_list :: "encbuf \<Rightarrow> nat \<times> encbuf" where
  "encbuf_list w =
    (length (lheads w),
     w\<lparr>lheads := lheads w @ [\<lparr>lh_offset = int (length (str w)), lh_size = lhsize w\<rparr>]\<rparr>)"

definition encbuf_listEnd :: "nat \<Rightarrow> encbuf \<Rightarrow> encbuf" where
  "encbuf_listEnd lh w =
    (let head = lheads w ! lh;
         sz = encbuf_size w - lh_offset head - lh_size head;
         w' = w\<lparr>lheads := (lheads w)[lh := head\<lparr>lh_size := sz\<rparr>]\<rparr>
     in if sz < 56 then w'\<lparr>lhsize := lhsize w' + 1\<rparr>
        else w'\<lparr>lhsize := lhsize w' + 1 + int (intsize (word_of_int sz))\<rparr>)"

definition listhead_encode :: "listhead \<Rightarrow> bytes" where
  "listhead_encode head = puthead 0xC0 0xF7 (word_of_int (lh_size head))"

section \<open>Writers\<close>

text \<open>
  The reflected values \<open>makeWriter\<close> distinguishes, one constructor per writer: \<open>SliceVal\<close> carries
  the \<open>tail\<close> tag of makeSliceWriter, \<open>PtrVal\<close> the \<open>nilKind\<close> that makePtrWriter determines. Types
  with an \<open>EncodeRLP\<close> method of their own run arbitrary code and are not covered.
\<close>

datatype rval =
    RawValue bytes
  | BigIntPtr "int option"
  | BigIntNoPtr int
  | UintVal u64
  | BoolVal bool
  | StringVal bytes
  | BytesVal bytes
  | ByteArrayVal bytes
  | SliceVal bool "rval list"
  | StructVal "rval list"
  | InterfaceVal "rval option"
  | PtrVal Kind "rval option"

definition writeUint :: "u64 \<Rightarrow> encbuf \<Rightarrow> encbuf" where
  "writeUint i w =
    (if i = 0 then w\<lparr>str := str w @ [0x80]\<rparr>
     else if i < 128 then w\<lparr>str := str w @ [ucast i]\<rparr>
     else let s = putint i in w\<lparr>str := str w @ (0x80 + word_of_nat (length s)) # s\<rparr>)"

definition writeBool :: "bool \<Rightarrow> encbuf \<Rightarrow> encbuf" where
  "writeBool b w = (if b then w\<lparr>str := str w @ [0x01]\<rparr> else w\<lparr>str := str w @ [0x80]\<rparr>)"

definition writeBigInt :: "int \<Rightarrow> encbuf \<Rightarrow> enc_error + encbuf" where
  "writeBigInt i w =
    (if i < 0 then Inl ErrNegativeBigInt
     else if i = 0 then Inr (w\<lparr>str := str w @ [0x80]\<rparr>)
     else Inr (encodeString (nat_be (nat i)) w))"

definition writeString :: "bytes \<Rightarrow> encbuf \<Rightarrow> encbuf" where
  "writeString s w =
    (if length s = 1 \<and> s ! 0 \<le> 0x7f then w\<lparr>str := str w @ [s ! 0]\<rparr>
     else let w' = encodeStringHeader (length s) w in w'\<lparr>str := str w' @ s\<rparr>)"

fun writeVal :: "rval \<Rightarrow> encbuf \<Rightarrow> enc_error + encbuf"
  and writeVals :: "rval list \<Rightarrow> encbuf \<Rightarrow> enc_error + encbuf" where
  "writeVal (RawValue b) w = Inr (w\<lparr>str := str w @ b\<rparr>)"
| "writeVal (BigIntPtr None) w = Inr (w\<lparr>str := str w @ [0x80]\<rparr>)"
| "writeVal (BigIntPtr (Some i)) w = writeBigInt i w"
| "writeVal (BigIntNoPtr i) w = writeBigInt i w"
| "writeVal (UintVal i) w = Inr (writeUint i w)"
| "writeVal (BoolVal b) w = Inr (writeBool b w)"
| "writeVal (StringVal s) w = Inr (writeString s w)"
| "writeVal (BytesVal b) w = Inr (encodeString b w)"
| "writeVal (ByteArrayVal b) w = Inr (encodeString b w)"
| "writeVal (SliceVal tail vs) w =
     (if tail then writeVals vs w
      else let (lh, w1) = encbuf_list w in
        case writeVals vs w1 of Inl e \<Rightarrow> Inl e | Inr w2 \<Rightarrow> Inr (encbuf_listEnd lh w2))"
| "writeVal (StructVal vs) w =
     (let (lh, w1) = encbuf_list w in
        case writeVals vs w1 of Inl e \<Rightarrow> Inl e | Inr w2 \<Rightarrow> Inr (encbuf_listEnd lh w2))"
| "writeVal (InterfaceVal None) w = Inr (w\<lparr>str := str w @ [0xC0]\<rparr>)"
| "writeVal (InterfaceVal (Some v)) w = writeVal v w"
| "writeVal (PtrVal nilKind None) w =
     (if nilKind = KString then Inr (w\<lparr>str := str w @ [0x80]\<rparr>)
      else let (lh, w1) = encbuf_list w in Inr (encbuf_listEnd lh w1))"
| "writeVal (PtrVal nilKind (Some v)) w = writeVal v w"
| "writeVals [] w = Inr w"
| "writeVals (v # vs) w = (case writeVal v w of Inl e \<Rightarrow> Inl e | Inr w' \<Rightarrow> writeVals vs w')"

section \<open>Producing the output\<close>

text \<open>
  \<open>toBytes\<close> copies the string data and the headers into a buffer of \<open>size()\<close> bytes; \<open>None\<close> is a
  panic (a slice or header out of range).
\<close>

fun toBytes_loop :: "bytes \<Rightarrow> listhead list \<Rightarrow> nat \<Rightarrow> nat \<Rightarrow> bytes \<Rightarrow> bytes option" where
  "toBytes_loop s [] strpos pos out =
     (case go_slice s (int strpos) (int (length s)) of None \<Rightarrow> None
      | Some src \<Rightarrow> map_option snd (go_copy out pos src))"
| "toBytes_loop s (head # heads) strpos pos out =
     (case go_slice s (int strpos) (lh_offset head) of None \<Rightarrow> None
      | Some src \<Rightarrow> (case go_copy out pos src of None \<Rightarrow> None
        | Some (n, out1) \<Rightarrow>
            (let pos1 = pos + n; strpos1 = strpos + n; enc = listhead_encode head in
             if pos1 + length enc \<le> length out1
             then (case go_copy out1 pos1 enc of None \<Rightarrow> None
               | Some (_, out2) \<Rightarrow> toBytes_loop s heads strpos1 (pos1 + length enc) out2)
             else None)))"

definition toBytes :: "encbuf \<Rightarrow> bytes option" where
  "toBytes w =
    (if encbuf_size w < 0 then None
     else toBytes_loop (str w) (lheads w) 0 0 (replicate (nat (encbuf_size w)) 0))"

definition EncodeToBytes :: "rval \<Rightarrow> (enc_error + bytes) option" where
  "EncodeToBytes v =
    (case writeVal v \<lparr>str = [], lheads = [], lhsize = 0\<rparr> of
       Inl e \<Rightarrow> Some (Inl e)
     | Inr w \<Rightarrow> map_option Inr (toBytes w))"

text \<open>
  Callers of the encoder that drop its error work on the empty slice it returns then.
\<close>

definition rlp_bytes :: "rval \<Rightarrow> bytes" where
  "rlp_bytes v = (case EncodeToBytes v of Some (Inr b) \<Rightarrow> b | _ \<Rightarrow> [])"

section \<open>Reference encoding\<close>

text \<open>
  The encoding rules of the package documentation, by recursion on the value, with no buffer and
  no back-patching.
\<close>

definition enc_head :: "byte \<Rightarrow> byte \<Rightarrow> nat \<Rightarrow> bytes" where
  "enc_head smalltag largetag n =
    (if n < 56 then [smalltag + word_of_nat n]
     else (largetag + word_of_nat (length (nat_be n))) # nat_be n)"

definition enc_string :: "bytes \<Rightarrow> bytes" where
  "enc_string b = (case b of [x] \<Rightarrow> if x < 0x80 then [x] else enc_head 0x80 0xB7 1 @ [x]
     | _ \<Rightarrow> enc_head 0x80 0xB7 (length b) @ b)"

definition enc_list :: "bytes \<Rightarrow> bytes" where
  "enc_list payload = enc_head 0xC0 0xF7 (length payload) @ payload"

fun enc_val :: "rval \<Rightarrow> bytes" where
  "enc_val (RawValue b) = b"
| "enc_val (BigIntPtr i) = (case i of None \<Rightarrow> enc_string [] | Some i \<Rightarrow> enc_string (nat_be (nat i)))"
| "enc_val (BigIntNoPtr i) = enc_string (nat_be (nat i))"
| "enc_val (UintVal i) = enc_string (nat_be (unat i))"
| "enc_val (BoolVal b) = enc_string (if b then [1] else [])"
| "enc_val (StringVal s) = enc_string s"
| "enc_val (BytesVal b) = enc_string b"
| "enc_val (ByteArrayVal b) = enc_string b"
| "enc_val (SliceVal tail vs) =
     (if tail then concat (map enc_val vs) else enc_list (concat (map enc_val vs)))"
| "enc_val (StructVal vs) = enc_list (concat (map enc_val vs))"
| "enc_val (InterfaceVal v) = (case v of None \<Rightarrow> enc_list [] | Some v \<Rightarrow> enc_val v)"
| "enc_val (PtrVal nilKind v) =
     (case v of None \<Rightarrow> if nilKind = KString then enc_string [] else enc_list []
      | Some v \<Rightarrow> enc_val v)"

fun has_negative :: "rval \<Rightarrow> bool" where
  "has_negative (BigIntPtr i) = (case i of None \<Rightarrow> False | Some i \<Rightarrow> i < 0)"
| "has_negative (BigIntNoPtr i) = (i < 0)"
| "has_negative (SliceVal tail vs) = (\<exists>v \<in> set vs. has_negative v)"
| "has_negative (StructVal vs) = (\<exists>v \<in> set vs. has_negative v)"
| "has_negative (InterfaceVal v) = (case v of None \<Rightarrow> False | Some v \<Rightarrow> has_negative v)"
| "has_negative (PtrVal nilKind v) = (case v of None \<Rightarrow> False | Some v \<Rightarrow> has_negative v)"
| "has_negative _ = False"

lemma enc_head_puthead:
  assumes "n < 2 ^ 64"
  shows "puthead smalltag largetag (word_of_nat n) = enc_head smalltag largetag n"
proof -
  have u: "unat (word_of_nat n :: u64) = n"
    using assms by (simp add: unsigned_of_nat take_bit_eq_mod)
  have b: "ucast (word_of_nat n :: u64) = (word_of_nat n :: byte)"
    by (simp add: word_unat_eq_iff unsigned_ucast_eq unsigned_of_nat take_bit_eq_mod mod_mod_cancel)
  show ?thesis
  proof (cases "n < 56")
    case True
    then show ?thesis using u b by (simp add: puthead_def enc_head_def word_less_nat_alt)
  next
    case False
    then have "(word_of_nat n :: u64) \<noteq> 0" using u by auto
    then show ?thesis using False u
      by (simp add: puthead_def enc_head_def word_less_nat_alt putint_nat_be Let_def)
  qed
qed

lemma length_enc_head:
  assumes "n < 2 ^ 64"
  shows "length (enc_head st lt n) = (if n < 56 then 1 else 1 + intsize (word_of_nat n))"
proof -
  have u: "unat (word_of_nat n :: u64) = n"
    using assms by (simp add: unsigned_of_nat take_bit_eq_mod)
  show ?thesis
  proof (cases "n < 56")
    case False
    then have "(word_of_nat n :: u64) \<noteq> 0" using u by auto
    then show ?thesis using False u by (simp add: enc_head_def intsize_nat_be)
  qed (simp add: enc_head_def)
qed

lemma str_encodeStringHeader:
  assumes "n < 2 ^ 64"
  shows "encodeStringHeader n w = w\<lparr>str := str w @ enc_head 0x80 0xB7 n\<rparr>"
proof (cases "n < 56")
  case True
  then show ?thesis by (simp add: encodeStringHeader_def enc_head_def)
next
  case False
  have u: "unat (word_of_nat n :: u64) = n"
    using assms by (simp add: unsigned_of_nat take_bit_eq_mod)
  then have "(word_of_nat n :: u64) \<noteq> 0" using False by auto
  then show ?thesis using False u
    by (simp add: encodeStringHeader_def enc_head_def putint_nat_be Let_def)
qed

lemma byte_le_127: "(x :: byte) \<le> 0x7F \<longleftrightarrow> x < 0x80"
  by (auto simp: word_le_nat_alt word_less_nat_alt)

lemma encodeString_enc:
  assumes "length b < 2 ^ 64"
  shows "encodeString b w = w\<lparr>str := str w @ enc_string b\<rparr>"
proof (cases b)
  case Nil
  then show ?thesis
    by (simp add: encodeString_def enc_string_def str_encodeStringHeader Let_def)
next
  case (Cons x xs)
  then show ?thesis using assms
    by (cases xs)
      (auto simp: encodeString_def enc_string_def str_encodeStringHeader byte_le_127 Let_def)
qed

lemma writeString_enc:
  "length s < 2 ^ 64 \<Longrightarrow> writeString s w = w\<lparr>str := str w @ enc_string s\<rparr>"
  using encodeString_enc [of s w] by (simp add: writeString_def encodeString_def)

lemma writeUint_enc: "writeUint i w = w\<lparr>str := str w @ enc_string (nat_be (unat i))\<rparr>"
proof -
  have b: "length (nat_be (unat i)) \<le> 8"
    using unsigned_less [of i, where ?'a = nat] by (simp add: length_nat_be)
  consider "i = 0" | "i \<noteq> 0" "i < 128" | "i \<noteq> 0" "\<not> i < 128" by blast
  then show ?thesis
  proof cases
    case 1
    then show ?thesis by (simp add: writeUint_def enc_string_def enc_head_def)
  next
    case 2
    then have n: "unat i \<noteq> 0" "unat i < 128" by (auto simp: word_less_nat_alt unat_eq_0)
    then have "nat_be (unat i) = [word_of_nat (unat i)]" by (simp add: nat_be_step)
    moreover have "(word_of_nat (unat i) :: byte) < 0x80"
      using n by (simp add: word_less_nat_alt unsigned_ucast_eq take_bit_eq_mod)
    ultimately show ?thesis using 2 by (simp add: writeUint_def enc_string_def)
  next
    case 3
    then have n: "128 \<le> unat i" by (auto simp: word_less_nat_alt)
    have "enc_string (nat_be (unat i)) =
        enc_head 0x80 0xB7 (length (nat_be (unat i))) @ nat_be (unat i)"
    proof (cases "unat i < 256")
      case True
      then have "nat_be (unat i) = [word_of_nat (unat i)]" using n by (simp add: nat_be_step)
      moreover have "\<not> (word_of_nat (unat i) :: byte) < 0x80"
        using n True by (simp add: word_less_nat_alt unsigned_ucast_eq take_bit_eq_mod)
      ultimately show ?thesis by (simp add: enc_string_def)
    next
      case False
      then have "\<not> length (nat_be (unat i)) \<le> 1" by (simp add: length_nat_be)
      then show ?thesis
        by (cases "nat_be (unat i)"; cases "tl (nat_be (unat i))") (auto simp: enc_string_def)
    qed
    then show ?thesis using 3 b
      by (simp add: writeUint_def putint_nat_be enc_head_def Let_def)
  qed
qed

lemma writeBigInt_enc:
  "0 \<le> i \<Longrightarrow> length (nat_be (nat i)) < 2 ^ 64 \<Longrightarrow>
    writeBigInt i w = Inr (w\<lparr>str := str w @ enc_string (nat_be (nat i))\<rparr>)"
  by (auto simp: writeBigInt_def encodeString_enc enc_string_def enc_head_def)

section \<open>The buffer represents the reference encoding\<close>

text \<open>
  \<open>render\<close> interleaves string data and headers; \<open>grows e w r\<close> says that the call that returned
  \<open>r\<close> appended to buffer \<open>w\<close> data that renders to \<open>e\<close> and accounted for its size.
\<close>

fun heads_ok :: "int \<Rightarrow> int \<Rightarrow> listhead list \<Rightarrow> bool" where
  "heads_ok lo hi [] = (lo \<le> hi)"
| "heads_ok lo hi (h # hs) = (lo \<le> lh_offset h \<and> heads_ok (lh_offset h) hi hs)"

fun render :: "int \<Rightarrow> bytes \<Rightarrow> listhead list \<Rightarrow> bytes" where
  "render lo s [] = s"
| "render lo s (h # hs) = take (nat (lh_offset h - lo)) s @ listhead_encode h @
     render (lh_offset h) (drop (nat (lh_offset h - lo)) s) hs"

lemma heads_ok_le: "heads_ok lo hi hs \<Longrightarrow> lo \<le> hi"
  by (induction hs arbitrary: lo) fastforce+

lemma heads_ok_append:
  "heads_ok lo mid hs1 \<Longrightarrow> heads_ok mid hi hs2 \<Longrightarrow> heads_ok lo hi (hs1 @ hs2)"
proof (induction hs1 arbitrary: lo)
  case Nil
  then show ?case by (cases hs2) auto
qed simp

lemma render_skip:
  "heads_ok (lo + int (length s1)) hi hs \<Longrightarrow>
    render lo (s1 @ s2) hs = s1 @ render (lo + int (length s1)) s2 hs"
proof (cases hs)
  case (Cons h hs')
  assume "heads_ok (lo + int (length s1)) hi hs"
  then have "nat (lh_offset h - lo) = length s1 + nat (lh_offset h - (lo + int (length s1)))"
    using Cons by (simp only: heads_ok.simps) arith
  then show ?thesis using Cons by simp
qed simp

lemma render_append:
  "heads_ok lo (lo + int (length s1)) hs1 \<Longrightarrow> heads_ok (lo + int (length s1)) hi hs2 \<Longrightarrow>
    render lo (s1 @ s2) (hs1 @ hs2) = render lo s1 hs1 @ render (lo + int (length s1)) s2 hs2"
proof (induction hs1 arbitrary: lo s1)
  case Nil
  then show ?case by (simp add: render_skip)
next
  case (Cons h hs1)
  let ?n = "nat (lh_offset h - lo)"
  have le: "lh_offset h \<le> lo + int (length s1)"
    using Cons.prems(1) heads_ok_le by auto
  then have n: "?n \<le> length s1" "int ?n = lh_offset h - lo" using Cons.prems(1) by auto
  have l: "lh_offset h + int (length (drop ?n s1)) = lo + int (length s1)"
    using n by (simp add: of_nat_diff)
  have "render (lh_offset h) (drop ?n s1 @ s2) (hs1 @ hs2) =
      render (lh_offset h) (drop ?n s1) hs1 @ render (lo + int (length s1)) s2 hs2"
    using Cons.IH [of "lh_offset h" "drop ?n s1", unfolded l] Cons.prems by simp
  then show ?case using n by simp
qed

definition grows :: "bytes \<Rightarrow> encbuf \<Rightarrow> enc_error + encbuf \<Rightarrow> bool" where
  "grows e w r \<longleftrightarrow>
    (\<exists>s hs. r = Inr (w\<lparr>str := str w @ s, lheads := lheads w @ hs,
           lhsize := lhsize w + (int (length e) - int (length s))\<rparr>) \<and>
       heads_ok (int (length (str w))) (int (length (str w)) + int (length s)) hs \<and>
       render (int (length (str w))) s hs = e)"

lemma grows_atom: "grows b w (Inr (w\<lparr>str := str w @ b\<rparr>))"
  unfolding grows_def by (rule exI [of _ b], rule exI [of _ "[]"]) simp

lemma grows_nil: "grows [] w (Inr w)"
  using grows_atom [of "[]" w] by simp

lemma grows_seq:
  assumes "grows e1 w (Inr w1)" "grows e2 w1 r"
  shows "grows (e1 @ e2) w r"
proof -
  from assms(1) obtain s1 hs1 where
    w1: "w1 = w\<lparr>str := str w @ s1, lheads := lheads w @ hs1,
           lhsize := lhsize w + (int (length e1) - int (length s1))\<rparr>" and
    h1: "heads_ok (int (length (str w))) (int (length (str w)) + int (length s1)) hs1" and
    r1: "render (int (length (str w))) s1 hs1 = e1"
    by (auto simp: grows_def)
  from assms(2) obtain s2 hs2 where
    r: "r = Inr (w1\<lparr>str := str w1 @ s2, lheads := lheads w1 @ hs2,
           lhsize := lhsize w1 + (int (length e2) - int (length s2))\<rparr>)" and
    h2: "heads_ok (int (length (str w1))) (int (length (str w1)) + int (length s2)) hs2" and
    r2: "render (int (length (str w1))) s2 hs2 = e2"
    by (auto simp: grows_def)
  have "heads_ok (int (length (str w))) (int (length (str w)) + int (length (s1 @ s2))) (hs1 @ hs2)"
    using heads_ok_append [OF h1] h2 w1 by (simp add: algebra_simps)
  moreover have "render (int (length (str w))) (s1 @ s2) (hs1 @ hs2) = e1 @ e2"
    using render_append [OF h1] h2 w1 r1 r2 by (simp add: algebra_simps)
  ultimately show ?thesis unfolding grows_def
    using r w1 by (intro exI [of _ "s1 @ s2"] exI [of _ "hs1 @ hs2"]) simp
qed

lemma grows_list:
  assumes "encbuf_list w = (lh, w1)" "grows e w1 (Inr w2)" "length e < 2 ^ 63"
  shows "grows (enc_list e) w (Inr (encbuf_listEnd lh w2))"
proof -
  let ?old = "\<lparr>lh_offset = int (length (str w)), lh_size = lhsize w\<rparr>"
  have w1: "w1 = w\<lparr>lheads := lheads w @ [?old]\<rparr>" and lh: "lh = length (lheads w)"
    using assms(1) by (auto simp: encbuf_list_def)
  from assms(2) obtain s hs where
    w2: "w2 = w1\<lparr>str := str w1 @ s, lheads := lheads w1 @ hs,
           lhsize := lhsize w1 + (int (length e) - int (length s))\<rparr>" and
    h: "heads_ok (int (length (str w))) (int (length (str w)) + int (length s)) hs" and
    r: "render (int (length (str w))) s hs = e"
    using w1 by (auto simp: grows_def)
  let ?new = "?old\<lparr>lh_size := int (length e)\<rparr>"
  have hd: "listhead_encode ?new = enc_head 0xC0 0xF7 (length e)"
    using assms(3) enc_head_puthead [of "length e" "0xC0" "0xF7"] by (simp add: listhead_encode_def)
  have upd: "(lheads w @ ?old # hs)[lh := x] = lheads w @ x # hs" for x
    using lh by (simp add: list_update_append)
  have len: "int (length (enc_list e)) - int (length s) =
      int (length e) - int (length s) + int (length (enc_head 0xC0 0xF7 (length e)))"
    by (simp add: enc_list_def)
  have nth: "lheads w2 ! lh = ?old"
    using w1 w2 lh by simp
  have sz: "encbuf_size w2 - lh_offset ?old - lh_size ?old = int (length e)"
    using w1 w2 by (simp add: encbuf_size_def)
  have hsz: "int (length (enc_head 0xC0 0xF7 (length e))) =
      (if int (length e) < 56 then 1 else 1 + int (intsize (word_of_int (int (length e)))))"
    using assms(3) by (simp add: length_enc_head)
  have upd2: "(lheads w2)[lh := x] = lheads w @ x # hs" for x
    using w1 w2 upd by simp
  have "encbuf_listEnd lh w2 = w\<lparr>str := str w @ s, lheads := lheads w @ ?new # hs,
      lhsize := lhsize w + (int (length (enc_list e)) - int (length s))\<rparr>"
    unfolding len encbuf_listEnd_def Let_def nth sz hsz upd2
    using w1 w2 by simp
  moreover have "heads_ok (int (length (str w))) (int (length (str w)) + int (length s)) (?new # hs)"
    using h by simp
  moreover have "render (int (length (str w))) s (?new # hs) = enc_list e"
    using r hd by (simp add: enc_list_def)
  ultimately show ?thesis unfolding grows_def
    by (intro exI [of _ s] exI [of _ "?new # hs"]) simp
qed

lemma length_enc_string: "length b \<le> length (enc_string b)"
  by (auto simp: enc_string_def split: list.splits)

lemma length_enc_list: "length e \<le> length (enc_list e)"
  by (simp add: enc_list_def)

lemma enc_empty [simp]: "enc_string [] = [0x80]" "enc_string [1] = [1]" "enc_list [] = [0xC0]"
  by (simp_all add: enc_string_def enc_list_def enc_head_def)

lemma grows_string:
  assumes "length (enc_string b) < 2 ^ 63"
  shows "grows (enc_string b) w (Inr (encodeString b w))"
    and "grows (enc_string b) w (Inr (writeString b w))"
proof -
  have "length b < 2 ^ 64" using length_enc_string [of b] assms by simp
  then show "grows (enc_string b) w (Inr (encodeString b w))"
    and "grows (enc_string b) w (Inr (writeString b w))"
    by (simp_all add: encodeString_enc writeString_enc grows_atom)
qed

lemma grows_bigint:
  assumes "0 \<le> i" "length (enc_string (nat_be (nat i))) < 2 ^ 63"
  shows "grows (enc_string (nat_be (nat i))) w (writeBigInt i w)"
proof -
  have "length (nat_be (nat i)) < 2 ^ 64"
    using length_enc_string [of "nat_be (nat i)"] assms(2) by simp
  then show ?thesis using assms(1) by (simp add: writeBigInt_enc grows_atom)
qed

lemma grows_bool: "grows (enc_string (if b then [1] else [])) w (Inr (writeBool b w))"
  by (simp add: writeBool_def grows_atom)

lemma grows_list_case:
  assumes "encbuf_list w = (lh, w1)" "grows e w1 r" "length (enc_list e) < 2 ^ 63"
  shows "grows (enc_list e) w
    (case r of Inl err \<Rightarrow> Inl err | Inr w2 \<Rightarrow> Inr (encbuf_listEnd lh w2))"
proof -
  obtain w2 where "r = Inr w2" using assms(2) by (auto simp: grows_def)
  then show ?thesis
    using assms grows_list [of w lh w1 e w2] length_enc_list [of e] by simp
qed

lemma grows_seq_case:
  assumes "grows e1 w r" "\<And>w1. r = Inr w1 \<Longrightarrow> grows e2 w1 (f w1)"
  shows "grows (e1 @ e2) w (case r of Inl err \<Rightarrow> Inl err | Inr w1 \<Rightarrow> f w1)"
proof -
  obtain w1 where "r = Inr w1" using assms(1) by (auto simp: grows_def)
  then show ?thesis using assms grows_seq by auto
qed

lemma writeVal_grows:
  "\<not> has_negative v \<Longrightarrow> length (enc_val v) < 2 ^ 63 \<Longrightarrow> grows (enc_val v) w (writeVal v w)"
  "\<not> (\<exists>v \<in> set vs. has_negative v) \<Longrightarrow> length (concat (map enc_val vs)) < 2 ^ 63 \<Longrightarrow>
     grows (concat (map enc_val vs)) w (writeVals vs w)"
proof (induction v w and vs w rule: writeVal_writeVals.induct)
  case (10 tail vs w)
  obtain lh w1 where l: "encbuf_list w = (lh, w1)" by fastforce
  show ?case
  proof (cases tail)
    case True
    then show ?thesis using 10 by simp
  next
    case False
    then have "grows (concat (map enc_val vs)) w1 (writeVals vs w1)"
      using 10 l length_enc_list [of "concat (map enc_val vs)"] by simp
    then show ?thesis using False 10 l grows_list_case [OF l] by simp
  qed
next
  case (11 vs w)
  obtain lh w1 where l: "encbuf_list w = (lh, w1)" by fastforce
  then have "grows (concat (map enc_val vs)) w1 (writeVals vs w1)"
    using 11 length_enc_list [of "concat (map enc_val vs)"] by simp
  then show ?case using 11 l grows_list_case [OF l] by simp
next
  case (14 nilKind w)
  obtain lh w1 where l: "encbuf_list w = (lh, w1)" by fastforce
  then show ?case using 14 grows_list [OF l grows_nil] by (simp add: grows_atom)
next
  case (17 v vs w)
  then show ?case by (simp add: grows_seq_case)
qed (auto simp: grows_atom grows_nil grows_string grows_bigint grows_bool writeUint_enc)

lemma writeVal_negative:
  "has_negative v \<Longrightarrow> writeVal v w = Inl ErrNegativeBigInt"
  "\<exists>v \<in> set vs. has_negative v \<Longrightarrow> writeVals vs w = Inl ErrNegativeBigInt"
proof (induction v w and vs w rule: writeVal_writeVals.induct)
  case (17 v vs w)
  then show ?case
    by (cases "writeVal v w"; cases "projl (writeVal v w)") auto
qed (auto simp: writeBigInt_def encbuf_list_def)

lemma toBytes_loop_render:
  assumes "heads_ok (int strpos) (int (length s)) heads"
    and "pos + length (render (int strpos) (drop strpos s) heads) = length out"
  shows "toBytes_loop s heads strpos pos out =
    Some (take pos out @ render (int strpos) (drop strpos s) heads)"
  using assms
proof (induction heads arbitrary: strpos pos out)
  case Nil
  then show ?case
    by (simp add: go_slice_def go_copy_fits)
next
  case (Cons h hs)
  define n where "n = nat (lh_offset h - int strpos)"
  have off: "lh_offset h = int (strpos + n)" "strpos + n \<le> length s"
    using Cons.prems(1) heads_ok_le [of "lh_offset h" "int (length s)" hs] n_def by auto
  let ?piece = "take n (drop strpos s)" and ?enc = "listhead_encode h"
  have len: "length ?piece = n" using off by simp
  let ?tail = "render (int (strpos + n)) (drop (strpos + n) s) hs"
  have r: "render (int strpos) (drop strpos s) (h # hs) = ?piece @ ?enc @ ?tail"
    using off by (simp add: add.commute)
  have fit: "pos + n + length ?enc + length ?tail = length out"
    using Cons.prems(2) unfolding r using len by simp
  have slice: "go_slice s (int strpos) (lh_offset h) = Some ?piece"
    using off by (simp add: go_slice_def nat_add_distrib)
  have c1: "go_copy out pos ?piece = Some (n, take pos out @ ?piece @ drop (pos + n) out)"
    using fit len go_copy_fits [of pos ?piece out] by simp
  let ?out1 = "take pos out @ ?piece @ drop (pos + n) out"
  have l1: "length ?out1 = length out" using fit len by simp
  have c2: "go_copy ?out1 (pos + n) ?enc = Some (length ?enc,
      take (pos + n) ?out1 @ ?enc @ drop (pos + n + length ?enc) ?out1)"
    using fit l1 by (intro go_copy_fits) simp
  let ?out2 = "take (pos + n) ?out1 @ ?enc @ drop (pos + n + length ?enc) ?out1"
  have l2: "length ?out2 = length out" using fit l1 by simp
  have t2: "take (pos + n + length ?enc) ?out2 = take pos out @ ?piece @ ?enc"
    using fit len by simp
  have "toBytes_loop s hs (strpos + n) (pos + n + length ?enc) ?out2 =
      Some (take (pos + n + length ?enc) ?out2 @ ?tail)"
    using Cons.IH [of "strpos + n" "pos + n + length ?enc" ?out2] Cons.prems(1) off fit l2 by simp
  then show ?case unfolding r t2
    using slice c1 c2 fit l1 by (simp add: Let_def)
qed

section \<open>Correctness of the encoder\<close>

lemma EncodeToBytes_val:
  assumes "length (enc_val v) < 2 ^ 63"
  shows "EncodeToBytes v =
    Some (if has_negative v then Inl ErrNegativeBigInt else Inr (enc_val v))"
proof (cases "has_negative v")
  case True
  then show ?thesis by (simp add: EncodeToBytes_def writeVal_negative)
next
  case False
  let ?w0 = "\<lparr>str = [], lheads = [], lhsize = 0\<rparr>"
  from writeVal_grows(1) [OF False assms, of ?w0] obtain s hs where
    w: "writeVal v ?w0 = Inr \<lparr>str = s, lheads = hs,
        lhsize = int (length (enc_val v)) - int (length s)\<rparr>" and
    ok: "heads_ok 0 (int (length s)) hs" and r: "render 0 s hs = enc_val v"
    by (auto simp: grows_def)
  have "toBytes \<lparr>str = s, lheads = hs, lhsize = int (length (enc_val v)) - int (length s)\<rparr> =
      Some (enc_val v)"
    using toBytes_loop_render [of 0 s hs 0 "replicate (length (enc_val v)) 0"] ok r
    by (simp add: toBytes_def encbuf_size_def)
  then show ?thesis using False w by (simp add: EncodeToBytes_def)
qed

text \<open>
  C25. The buffered encoder returns exactly the bytes of the reference encoding, and fails, with
  the negative-integer error, exactly on values that contain a negative big integer; it never
  panics. The bound is Go's: slice lengths are below \<open>2 ^ 63\<close>.
\<close>

theorem EncodeToBytes_correct:
  assumes "length (enc_val v) < 2 ^ 63"
  shows "EncodeToBytes v =
    Some (if has_negative v then Inl ErrNegativeBigInt else Inr (enc_val v))"
  by (rule EncodeToBytes_val [OF assms])

theorem EncodeToBytes_correct_witness:
  "EncodeToBytes (StructVal [UintVal 1024, SliceVal False [BytesVal [1, 2, 3], BoolVal True],
      BigIntPtr (Some (-1))]) = Some (Inl ErrNegativeBigInt) \<and>
   EncodeToBytes (StructVal [UintVal 1024, SliceVal False [BytesVal [1, 2, 3], BoolVal True],
      BigIntPtr None]) = Some (Inr [0xCA, 0x82, 4, 0, 0xC5, 0x83, 1, 2, 3, 1, 0x80])"
proof -
  have e: "nat_be 1024 = [4, 0]" "nat_be (nat (-1)) = []"
    by (simp_all add: nat_be_step)
  show ?thesis
    using EncodeToBytes_correct [of "StructVal [UintVal 1024,
        SliceVal False [BytesVal [1, 2, 3], BoolVal True], BigIntPtr (Some (-1))]"]
      EncodeToBytes_correct [of "StructVal [UintVal 1024,
        SliceVal False [BytesVal [1, 2, 3], BoolVal True], BigIntPtr None]"]
    by (simp add: e enc_string_def enc_list_def enc_head_def)
qed

end
