(* ===== verification/RlpRaw.thy ===== *)
theory RlpRaw
  imports RlpEncode
begin

text \<open>
  Splitting of encoded input without a decoding stream (src/rlp/raw.go): \<open>readKind\<close>, \<open>readSize\<close>, the
  \<open>Split\<close> functions and \<open>CountValues\<close>, with the proof that exactly the canonical encodings are accepted.
\<close>

section \<open>Splitting encoded input\<close>

text \<open>The errors of decode.go and the ones of \<^verbatim>\<open>io\<close> it returns.\<close>

datatype rlp_error =
    ErrUnexpectedEOF | ErrEOF | EOL | ErrExpectedString | ErrExpectedList | ErrCanonInt
  | ErrCanonSize | ErrElemTooLarge | ErrValueTooLarge | ErrMoreThanOneValue
  | ErrNotInList | ErrNotAtEOL | ErrUintOverflow | ErrInvalidBool u64
  | ErrInputTooLong | ErrInputTooShort | ErrTooFewElements | ErrWrongEmptyKind

definition readSize :: "bytes \<Rightarrow> byte \<Rightarrow> rlp_error + u64" where
  "readSize b slen =
    (if length b < unat slen then Inl ErrUnexpectedEOF
     else let at = (\<lambda>k sh. push_bit sh (ucast (b ! k) :: u64));
       s = (if slen = 1 then at 0 0
            else if slen = 2 then at 0 8 OR at 1 0
            else if slen = 3 then at 0 16 OR at 1 8 OR at 2 0
            else if slen = 4 then at 0 24 OR at 1 16 OR at 2 8 OR at 3 0
            else if slen = 5 then at 0 32 OR at 1 24 OR at 2 16 OR at 3 8 OR at 4 0
            else if slen = 6 then at 0 40 OR at 1 32 OR at 2 24 OR at 3 16 OR at 4 8 OR at 5 0
            else if slen = 7 then
              at 0 48 OR at 1 40 OR at 2 32 OR at 3 24 OR at 4 16 OR at 5 8 OR at 6 0
            else if slen = 8 then
              at 0 56 OR at 1 48 OR at 2 40 OR at 3 32 OR at 4 24 OR at 5 16 OR at 6 8 OR at 7 0
            else 0)
     in if s < 56 \<or> b ! 0 = 0 then Inl ErrCanonSize else Inr s)"

text \<open>
  \<open>readKind\<close> is the switch on the first byte (\<open>readKind_tag\<close>) followed by the check that the
  content fits into the input.
\<close>

definition readKind_tag :: "byte \<Rightarrow> bytes \<Rightarrow> rlp_error + (Kind \<times> u64 \<times> u64)" where
  "readKind_tag b rest =
    (if b < 0x80 then Inr (KByte, 0, 1)
     else if b < 0xB8 then
       (let contentsize = ucast (b - 0x80) :: u64 in
        if contentsize = 1 \<and> length (b # rest) > 1 \<and> (b # rest) ! 1 < 128 then Inl ErrCanonSize
        else Inr (KString, 1, contentsize))
     else if b < 0xC0 then
       (case readSize rest (b - 0xB7) of Inl e \<Rightarrow> Inl e
        | Inr contentsize \<Rightarrow> Inr (KString, ucast (b - 0xB7) + 1, contentsize))
     else if b < 0xF8 then Inr (KList, 1, ucast (b - 0xC0))
     else
       (case readSize rest (b - 0xF7) of Inl e \<Rightarrow> Inl e
        | Inr contentsize \<Rightarrow> Inr (KList, ucast (b - 0xF7) + 1, contentsize)))"

definition readKind :: "bytes \<Rightarrow> rlp_error + (Kind \<times> u64 \<times> u64)" where
  "readKind buf =
    (case buf of [] \<Rightarrow> Inl ErrUnexpectedEOF
     | b # rest \<Rightarrow>
        (case readKind_tag b rest of Inl e \<Rightarrow> Inl e
         | Inr (k, tagsize, contentsize) \<Rightarrow>
             if contentsize > word_of_nat (length buf) - tagsize then Inl ErrValueTooLarge
             else Inr (k, tagsize, contentsize)))"

definition Split :: "bytes \<Rightarrow> rlp_error + (Kind \<times> bytes \<times> bytes)" where
  "Split b =
    (case readKind b of Inl e \<Rightarrow> Inl e
     | Inr (k, ts, cs) \<Rightarrow>
         Inr (k, take (unat (ts + cs) - unat ts) (drop (unat ts) b), drop (unat (ts + cs)) b))"

definition SplitString :: "bytes \<Rightarrow> rlp_error + (bytes \<times> bytes)" where
  "SplitString b =
    (case Split b of Inl e \<Rightarrow> Inl e
     | Inr (k, content, rest) \<Rightarrow>
         if k = KList then Inl ErrExpectedString else Inr (content, rest))"

definition SplitList :: "bytes \<Rightarrow> rlp_error + (bytes \<times> bytes)" where
  "SplitList b =
    (case Split b of Inl e \<Rightarrow> Inl e
     | Inr (k, content, rest) \<Rightarrow>
         if k \<noteq> KList then Inl ErrExpectedList else Inr (content, rest))"

definition ListSize :: "u64 \<Rightarrow> u64" where
  "ListSize contentSize = word_of_nat (headsize contentSize) + contentSize"

partial_function (option) CountValues_loop :: "bytes \<Rightarrow> nat \<Rightarrow> (rlp_error + nat) option" where
  "CountValues_loop b i =
    (if length b > 0 then
       (case readKind b of Inl e \<Rightarrow> Some (Inl e)
        | Inr (_, tagsize, sz) \<Rightarrow> CountValues_loop (drop (unat (tagsize + sz)) b) (i + 1))
     else Some (Inr i))"

definition CountValues :: "bytes \<Rightarrow> (rlp_error + nat) option" where
  "CountValues b = CountValues_loop b 0"

text \<open>
  The canonical encodings: \<open>kind_ok\<close> says which contents may carry which kind (a single byte
  below 128 is always of kind \<open>Byte\<close>), \<open>raw_enc\<close> is the encoding with its shortest header.
\<close>

definition kind_ok :: "Kind \<Rightarrow> bytes \<Rightarrow> bool" where
  "kind_ok k c =
    (case k of KByte \<Rightarrow> length c = 1 \<and> c ! 0 < 0x80
     | KString \<Rightarrow> \<not> (length c = 1 \<and> c ! 0 < 0x80)
     | KList \<Rightarrow> True)"

definition raw_head :: "Kind \<Rightarrow> nat \<Rightarrow> bytes" where
  "raw_head k n =
    (case k of KByte \<Rightarrow> [] | KString \<Rightarrow> enc_head 0x80 0xB7 n | KList \<Rightarrow> enc_head 0xC0 0xF7 n)"

definition raw_enc :: "Kind \<Rightarrow> bytes \<Rightarrow> bytes" where
  "raw_enc k c = raw_head k (length c) @ c"

section \<open>Size fields\<close>

lemma be_nat_or_step:
  assumes "unat (s :: u64) < 2 ^ 56"
  shows "unat (push_bit 8 s OR ucast (b :: byte)) = unat s * 256 + unat b"
proof -
  have "push_bit 8 s AND ucast b = 0"
    by (rule bit_word_eqI) (auto simp: bit_simps dest: bit_imp_le_length)
  then have "push_bit 8 s OR ucast b = push_bit 8 s + ucast b"
    by (simp add: disjunctive_add_eq_or)
  moreover have "unat (push_bit 8 s) = unat s * 256"
    unfolding unsigned_push_bit_eq using assms by (simp add: push_bit_eq_mult take_bit_eq_mod)
  moreover have "unat (ucast b :: u64) = unat b"
    using unat_byte_lt [of b] by (simp add: unsigned_ucast_eq take_bit_eq_mod)
  ultimately show ?thesis using assms unat_byte_lt [of b]
    by (simp add: unat_word_ariths)
qed

definition be_u64 :: "bytes \<Rightarrow> u64" where
  "be_u64 bs = foldl (\<lambda>s b. push_bit 8 s OR ucast b) 0 bs"

lemma unat_be_u64: "length bs \<le> 8 \<Longrightarrow> unat (be_u64 bs) = be_nat bs"
proof (induction bs rule: rev_induct)
  case (snoc b bs)
  have "(256::nat) ^ length bs \<le> 256 ^ 7" using snoc.prems by (intro power_increasing) auto
  then have "be_nat bs < 2 ^ 56" using be_nat_lt [of bs] by simp
  then show ?case using snoc be_nat_or_step [of "be_u64 bs" b] by (simp add: be_u64_def)
qed (simp add: be_u64_def)

lemma readSize_be:
  assumes "unat slen \<in> {1..8}"
  shows "readSize b slen =
    (if length b < unat slen then Inl ErrUnexpectedEOF
     else if be_nat (take (unat slen) b) < 56 \<or> b ! 0 = 0 then Inl ErrCanonSize
     else Inr (be_u64 (take (unat slen) b)))"
proof (cases "length b < unat slen")
  case True
  then show ?thesis by (simp add: readSize_def)
next
  case False
  let ?t = "take (unat slen) b"
  have t: "?t = map ((!) b) [0..<unat slen]" using False by (simp add: take_map_nth)
  have lt: "be_u64 ?t < 56 \<longleftrightarrow> be_nat ?t < 56"
    using assms unat_be_u64 [of ?t, OF order_trans, of "unat slen"] by (simp add: word_less_nat_alt)
  have "slen \<in> word_of_nat ` {1..8}"
    using assms by (intro image_eqI [where x = "unat slen"]) simp_all
  moreover have "{1..8::nat} = {1, 2, 3, 4, 5, 6, 7, 8}" by auto
  ultimately have "slen \<in> {1, 2, 3, 4, 5, 6, 7, 8}" by auto
  then have "readSize b slen =
      (if be_u64 ?t < 56 \<or> b ! 0 = 0 then Inl ErrCanonSize else Inr (be_u64 ?t))"
    using False unfolding t
    by (elim insertE emptyE)
      (simp_all add: readSize_def be_u64_def Let_def upt_rec push_bit_or or.assoc
        flip: numeral_2_eq_2)
  then show ?thesis using False lt by simp
qed

section \<open>Only canonical headers are accepted\<close>

lemma long_head_sound:
  assumes "readSize rest slen = Inr cs" "unat slen \<in> {1..8}" "unat b = unat large + unat slen"
  shows "unat slen \<le> length rest" "take (unat slen + 1) (b # rest) = enc_head small large (unat cs)"
proof -
  let ?t = "take (unat slen) rest"
  have len: "unat slen \<le> length rest" and cs: "cs = be_u64 ?t"
    and big: "\<not> be_nat ?t < 56" and nz: "rest ! 0 \<noteq> 0"
    using assms(1) by (auto simp: readSize_be [OF assms(2)] split: if_splits)
  have l: "length ?t = unat slen" using len by simp
  have cs': "unat cs = be_nat ?t" using cs l assms(2) by (simp add: unat_be_u64)
  have "?t \<noteq> []" using l assms(2) by auto
  then have "hd ?t \<noteq> 0" using nz by (simp add: hd_conv_nth)
  then have nb: "nat_be (unat cs) = ?t" using cs' nat_be_be_nat [of ?t] by simp
  show "unat slen \<le> length rest" by (rule len)
  have "b = large + word_of_nat (unat slen)" by (rule retag [OF assms(3)])
  then show "take (unat slen + 1) (b # rest) = enc_head small large (unat cs)"
    using big cs' nb l by (simp add: enc_head_def)
qed

lemma long_tag_sound:
  assumes rs: "readSize rest (b - large) = Inr cs"
    and slen: "unat large < unat b" "unat b \<le> unat large + 8"
  shows "unat (ucast (b - large) + 1 :: u64) \<le> length (b # rest)"
    "take (unat (ucast (b - large) + 1 :: u64)) (b # rest) = enc_head small large (unat cs)"
    "56 \<le> unat cs"
proof -
  let ?slen = "b - large"
  have s: "unat ?slen = unat b - unat large" using slen by (intro unat_untag) simp
  have r: "unat ?slen \<in> {1..8}" and e: "unat b = unat large + unat ?slen"
    using s slen by auto
  have ts: "unat (ucast ?slen + 1 :: u64) = unat ?slen + 1"
    using r by (simp add: unat_word_ariths unat_ucast_u64)
  show "unat (ucast ?slen + 1 :: u64) \<le> length (b # rest)"
    using long_head_sound(1) [OF rs r e] by (simp only: ts) simp
  show "take (unat (ucast ?slen + 1 :: u64)) (b # rest) = enc_head small large (unat cs)"
    using long_head_sound(2) [OF rs r e, of small] by (simp only: ts)
  have "unat (be_u64 (take (unat ?slen) rest)) = be_nat (take (unat ?slen) rest)"
    using r by (intro unat_be_u64) auto
  then show "56 \<le> unat cs"
    using rs by (auto simp: readSize_be [OF r] split: if_splits)
qed

lemma readKind_tag_sound:
  assumes "readKind_tag b rest = Inr (k, ts, cs)"
  shows "unat ts \<le> length (b # rest)" "take (unat ts) (b # rest) = raw_head k (unat cs)"
    "unat ts + unat cs \<le> length (b # rest) \<Longrightarrow>
       kind_ok k (take (unat cs) (drop (unat ts) (b # rest)))"
proof -
  have b: "unat b < 256" by (rule unat_byte_lt)
  consider "unat b < 128" | "128 \<le> unat b" "unat b < 184" | "184 \<le> unat b" "unat b < 192"
    | "192 \<le> unat b" "unat b < 248" | "248 \<le> unat b" by linarith
  then have "unat ts \<le> length (b # rest) \<and> take (unat ts) (b # rest) = raw_head k (unat cs) \<and>
     (unat ts + unat cs \<le> length (b # rest) \<longrightarrow>
       kind_ok k (take (unat cs) (drop (unat ts) (b # rest))))"
  proof cases
    case 1
    then show ?thesis using assms
      by (auto simp: readKind_tag_def word_less_nat_alt raw_head_def kind_ok_def)
  next
    case 2
    then have k: "k = KString" "ts = 1" "cs = ucast (b - 0x80)"
      and nc: "\<not> (cs = 1 \<and> length (b # rest) > 1 \<and> (b # rest) ! 1 < 128)"
      using assms by (auto simp: readKind_tag_def word_less_nat_alt Let_def split: if_splits)
    have n: "unat cs = unat b - 128"
      using 2 k unat_untag [of "0x80" b] by (simp add: unat_ucast_u64)
    have lt: "unat cs < 56" using 2 n by simp
    have "b = 0x80 + word_of_nat (unat cs)"
      using 2 n by (intro retag) simp
    then have "take 1 (b # rest) = raw_head k (unat cs)"
      using lt k(1) by (simp add: raw_head_def enc_head_def)
    moreover have "kind_ok k (take (unat cs) rest)" if "unat cs \<le> length rest"
    proof -
      have "cs = 1" if "unat cs = 1" using that by (simp add: word_unat_eq_iff)
      then show ?thesis using nc that k by (cases rest) (auto simp: kind_ok_def)
    qed
    ultimately show ?thesis using k by simp
  next
    case 3
    from 3 assms have rs: "readSize rest (b - 0xB7) = Inr cs"
      and k: "k = KString" "ts = ucast (b - 0xB7) + 1"
      by (auto simp: readKind_tag_def word_less_nat_alt split: sum.splits)
    have c: "unat (0xB7 :: byte) < unat b" "unat b \<le> unat (0xB7 :: byte) + 8" using 3 by simp_all
    note hd = long_tag_sound [OF rs c]
    have "\<not> (length (take (unat cs) (drop (unat ts) (b # rest))) = 1)"
      if "unat ts + unat cs \<le> length (b # rest)"
      using hd(3) that by simp
    then show ?thesis using hd(1,2) unfolding k raw_head_def kind_ok_def by simp
  next
    case 4
    then have k: "k = KList" "ts = 1" "cs = ucast (b - 0xC0)"
      using assms by (auto simp: readKind_tag_def word_less_nat_alt)
    have n: "unat cs = unat b - 192"
      using 4 k unat_untag [of "0xC0" b] by (simp add: unat_ucast_u64)
    have lt: "unat cs < 56" using 4 n by simp
    have "b = 0xC0 + word_of_nat (unat cs)"
      using 4 n by (intro retag) simp
    then show ?thesis
      using lt k(1,2) by (simp add: raw_head_def enc_head_def kind_ok_def)
  next
    case 5
    from 5 assms have rs: "readSize rest (b - 0xF7) = Inr cs"
      and k: "k = KList" "ts = ucast (b - 0xF7) + 1"
      by (auto simp: readKind_tag_def word_less_nat_alt split: sum.splits)
    have c: "unat (0xF7 :: byte) < unat b" "unat b \<le> unat (0xF7 :: byte) + 8" using 5 b by simp_all
    show ?thesis using long_tag_sound [OF rs c] unfolding k raw_head_def kind_ok_def by simp
  qed
  then show "unat ts \<le> length (b # rest)" "take (unat ts) (b # rest) = raw_head k (unat cs)"
    "unat ts + unat cs \<le> length (b # rest) \<Longrightarrow>
       kind_ok k (take (unat cs) (drop (unat ts) (b # rest)))"
    by blast+
qed

section \<open>Canonical headers are accepted\<close>

lemma readKind_tag_small:
  assumes "n < 56"
  shows "readKind_tag (0xC0 + word_of_nat n) rest = Inr (KList, 1, word_of_nat n)"
    and "\<not> (n = 1 \<and> rest \<noteq> [] \<and> rest ! 0 < 128) \<Longrightarrow>
       readKind_tag (0x80 + word_of_nat n) rest = Inr (KString, 1, word_of_nat n)"
proof -
  have u: "unat (0xC0 + word_of_nat n :: byte) = 192 + n" "unat (0x80 + word_of_nat n :: byte) = 128 + n"
    using assms unat_tag [of "0xC0" n] unat_tag [of "0x80" n] by simp_all
  have w: "ucast (word_of_nat n :: byte) = (word_of_nat n :: u64)"
    using assms by (simp add: word_unat_eq_iff unat_ucast_u64 unsigned_of_nat take_bit_eq_mod)
  show "readKind_tag (0xC0 + word_of_nat n) rest = Inr (KList, 1, word_of_nat n)"
    using assms u w by (simp add: readKind_tag_def word_less_nat_alt)
  have "n = 1" if "(word_of_nat n :: u64) = 1"
    using that assms by (simp add: word_unat_eq_iff unsigned_of_nat take_bit_eq_mod)
  then show "readKind_tag (0x80 + word_of_nat n) rest = Inr (KString, 1, word_of_nat n)"
    if "\<not> (n = 1 \<and> rest \<noteq> [] \<and> rest ! 0 < 128)"
    using that assms u w by (auto simp: readKind_tag_def word_less_nat_alt Let_def)
qed

lemma readKind_tag_large:
  assumes "56 \<le> n" "n < 2 ^ 63"
  shows "readKind_tag (0xB7 + word_of_nat (length (nat_be n))) (nat_be n @ rest) =
       Inr (KString, 1 + word_of_nat (length (nat_be n)), word_of_nat n)"
    and "readKind_tag (0xF7 + word_of_nat (length (nat_be n))) (nat_be n @ rest) =
       Inr (KList, 1 + word_of_nat (length (nat_be n)), word_of_nat n)"
proof -
  define l where "l = length (nat_be n)"
  have l: "1 \<le> l" "l \<le> 8"
    using assms length_nat_be [of n 8] by (auto simp: l_def Suc_le_eq)
  have u: "unat (0xF7 + word_of_nat l :: byte) = 247 + l" "unat (0xB7 + word_of_nat l :: byte) = 183 + l"
    using l unat_tag [of "0xF7" l] unat_tag [of "0xB7" l] by simp_all
  have ul: "unat (word_of_nat l :: byte) = l"
    using l by (simp add: unsigned_of_nat take_bit_eq_mod)
  have w: "ucast (word_of_nat l :: byte) = (word_of_nat l :: u64)"
    using l by (simp add: word_unat_eq_iff unat_ucast_u64 unsigned_of_nat take_bit_eq_mod)
  have t: "take l (nat_be n @ rest) = nat_be n" by (simp add: l_def)
  have "be_u64 (nat_be n) = word_of_nat n"
    using l assms(2) by (simp add: word_unat_eq_iff unat_be_u64 flip: l_def)
      (simp add: unsigned_of_nat take_bit_eq_mod)
  moreover have "nat_be n \<noteq> []" using assms(1) by simp
  moreover have "hd (nat_be n) \<noteq> 0" using assms(1) by (intro hd_nat_be) simp
  ultimately have rs: "readSize (nat_be n @ rest) (word_of_nat l) = Inr (word_of_nat n)"
    using assms(1) l ul t by (subst readSize_be) (auto simp: nth_append hd_conv_nth simp flip: l_def)
  show "readKind_tag (0xB7 + word_of_nat (length (nat_be n))) (nat_be n @ rest) =
       Inr (KString, 1 + word_of_nat (length (nat_be n)), word_of_nat n)"
    and "readKind_tag (0xF7 + word_of_nat (length (nat_be n))) (nat_be n @ rest) =
       Inr (KList, 1 + word_of_nat (length (nat_be n)), word_of_nat n)"
    unfolding l_def [symmetric] using u w rs l
    by (simp_all add: readKind_tag_def word_less_nat_alt add.commute [of _ "1 :: u64"])
qed

lemma readKind_fits:
  assumes "unat ts \<le> length buf" "length buf < 2 ^ 63"
  shows "cs > word_of_nat (length buf) - ts \<longleftrightarrow> length buf < unat ts + unat (cs :: u64)"
proof -
  have "unat (word_of_nat (length buf) :: u64) = length buf"
    using assms(2) by (simp add: unsigned_of_nat take_bit_eq_mod)
  moreover from this have "unat (word_of_nat (length buf) - ts) = length buf - unat ts"
    using assms(1) by (simp add: unat_sub word_le_nat_alt)
  ultimately show ?thesis using assms(1) by (auto simp: word_less_nat_alt)
qed

lemma readKind_complete:
  assumes "kind_ok k c" "length (raw_enc k c @ rest) < 2 ^ 63"
  shows "readKind (raw_enc k c @ rest) =
    Inr (k, word_of_nat (length (raw_head k (length c))), word_of_nat (length c))"
proof -
  let ?n = "length c" and ?buf = "raw_enc k c @ rest"
  have n: "?n < 2 ^ 63" using assms(2) by (simp add: raw_enc_def)
  obtain b tl where buf: "?buf = b # tl" and
    tag: "readKind_tag b tl = Inr (k, word_of_nat (length (raw_head k ?n)), word_of_nat ?n)"
  proof (cases k)
    case KByte
    then obtain x where "c = [x]" "x < 0x80" using assms(1)
      by (cases c) (auto simp: kind_ok_def)
    then show ?thesis using KByte that [of x rest]
      by (simp add: raw_enc_def raw_head_def readKind_tag_def)
  next
    case KString
    show ?thesis
    proof (cases "?n < 56")
      case True
      have "\<not> (?n = 1 \<and> c @ rest \<noteq> [] \<and> (c @ rest) ! 0 < 128)"
        using assms(1) KString by (auto simp: kind_ok_def nth_append)
      then show ?thesis using True KString that [of "0x80 + word_of_nat ?n" "c @ rest"]
        by (simp add: raw_enc_def raw_head_def enc_head_def readKind_tag_small)
    next
      case False
      then show ?thesis
        using n KString that [of "0xB7 + word_of_nat (length (nat_be ?n))" "nat_be ?n @ c @ rest"]
        by (simp add: raw_enc_def raw_head_def enc_head_def readKind_tag_large)
    qed
  next
    case KList
    show ?thesis
    proof (cases "?n < 56")
      case True
      then show ?thesis using KList that [of "0xC0 + word_of_nat ?n" "c @ rest"]
        by (simp add: raw_enc_def raw_head_def enc_head_def readKind_tag_small)
    next
      case False
      then show ?thesis
        using n KList that [of "0xF7 + word_of_nat (length (nat_be ?n))" "nat_be ?n @ c @ rest"]
        by (simp add: raw_enc_def raw_head_def enc_head_def readKind_tag_large)
    qed
  qed
  have u: "unat (word_of_nat m :: u64) = m" if "m \<le> length ?buf" for m
    using assms(2) that by (simp add: unsigned_of_nat take_bit_eq_mod)
  have "length (raw_head k ?n) \<le> length ?buf" "?n \<le> length ?buf"
    by (simp_all add: raw_enc_def)
  note us = u [OF this(1)] u [OF this(2)]
  have fits: "\<not> word_of_nat ?n > word_of_nat (length ?buf) - (word_of_nat (length (raw_head k ?n)) :: u64)"
    using us assms(2) by (subst readKind_fits) (simp_all add: raw_enc_def)
  show ?thesis unfolding readKind_def
    using fits tag by (simp add: buf)
qed

lemma readKind_sound:
  assumes "readKind buf = Inr (k, ts, cs)" "length buf < 2 ^ 63"
  shows "unat ts + unat cs \<le> length buf" "take (unat ts) buf = raw_head k (unat cs)"
    "kind_ok k (take (unat cs) (drop (unat ts) buf))"
proof -
  obtain b rest where buf: "buf = b # rest" and tag: "readKind_tag b rest = Inr (k, ts, cs)"
    and fits: "\<not> cs > word_of_nat (length buf) - ts"
    using assms(1) by (cases buf) (auto simp: readKind_def split: sum.splits if_splits)
  note s = readKind_tag_sound [OF tag]
  show f: "unat ts + unat cs \<le> length buf"
    using fits assms(2) s(1) buf by (subst (asm) readKind_fits) auto
  show "take (unat ts) buf = raw_head k (unat cs)" using s(2) buf by simp
  show "kind_ok k (take (unat cs) (drop (unat ts) buf))" using s(3) buf f by simp
qed

lemma Split_canonical:
  assumes "length b < 2 ^ 63"
  shows "Split b = Inr (k, content, rest) \<longleftrightarrow> kind_ok k content \<and> b = raw_enc k content @ rest"
proof
  assume "Split b = Inr (k, content, rest)"
  then obtain ts cs where rk: "readKind b = Inr (k, ts, cs)"
    and c: "content = take (unat (ts + cs) - unat ts) (drop (unat ts) b)"
    and r: "rest = drop (unat (ts + cs)) b"
    by (auto simp: Split_def split: sum.splits)
  note s = readKind_sound [OF rk assms]
  have sum: "unat (ts + cs) = unat ts + unat cs"
    using s(1) assms by (simp add: unat_word_ariths)
  have "length content = unat cs" using c sum s(1) by simp
  then show "kind_ok k content \<and> b = raw_enc k content @ rest"
    using s(2,3) c r sum
    by (simp add: raw_enc_def) (metis add.commute append_take_drop_id drop_drop)
next
  assume a: "kind_ok k content \<and> b = raw_enc k content @ rest"
  let ?h = "raw_head k (length content)"
  have rk: "readKind b = Inr (k, word_of_nat (length ?h), word_of_nat (length content))"
    using a assms readKind_complete [of k content rest] by simp
  have "length ?h + length content < 2 ^ 63" using a assms by (simp add: raw_enc_def)
  then have u: "unat (word_of_nat (length ?h) :: u64) = length ?h"
    "unat (word_of_nat (length ?h) + word_of_nat (length content) :: u64) = length ?h + length content"
    by (simp_all add: unsigned_of_nat take_bit_eq_mod flip: of_nat_add)
  show "Split b = Inr (k, content, rest)"
    unfolding Split_def rk using a u by (simp add: raw_enc_def)
qed

text \<open>
  C27. \<open>Split\<close> succeeds exactly on canonical encodings: it returns kind, content and rest if and
  only if the input is the canonical encoding of that kind and content followed by the rest. Headers
  that are longer than needed, sizes with leading zeros and values that overrun the input are all
  rejected.
\<close>

theorem Split_iff:
  assumes "length b < 2 ^ 63"
  shows "Split b = Inr (k, content, rest) \<longleftrightarrow> kind_ok k content \<and> b = raw_enc k content @ rest"
  by (rule Split_canonical [OF assms])

theorem Split_iff_witness:
  "Split [0x82, 200, 7, 0xC0] = Inr (KString, [200, 7], [0xC0]) \<and> Split [0x81, 5] \<noteq> Inr (KString, [5], [])"
  using Split_iff [of "[0x82, 200, 7, 0xC0]" KString "[200, 7]" "[0xC0]"]
    Split_iff [of "[0x81, 5]" KString "[5]" "[]"]
  by (simp add: kind_ok_def raw_enc_def raw_head_def enc_head_def)

section \<open>Unique decodability\<close>

text \<open>
  What users of an encoding rely on: encodings are not empty and the start of a byte string
  determines the value encoded there and the rest. Concatenations of encodings then determine the
  sequence of values.
\<close>

lemma concat_unique:
  assumes ne: "\<And>x. code x \<noteq> []"
    and uniq: "\<And>x r y s. x \<in> set xs \<Longrightarrow> length (code x @ r) < 2 ^ 63 \<Longrightarrow>
      code x @ r = code y @ s \<Longrightarrow> x = y \<and> r = (s :: bytes)"
    and "length (concat (map code xs)) < 2 ^ 63"
    and "concat (map code xs) = concat (map code ys)"
  shows "xs = ys"
  using uniq assms(3,4)
proof (induction xs arbitrary: ys)
  case Nil
  then show ?case using ne by (cases ys) auto
next
  case (Cons x xs)
  obtain y ys' where ys: "ys = y # ys'"
    using Cons.prems(3) ne by (cases ys) auto
  have "x = y \<and> concat (map code xs) = concat (map code ys')"
    using Cons.prems(2,3) ys by (intro Cons.prems(1)) (simp_all only: list.set_intros list.map concat.simps)
  moreover have "xs = ys'"
  proof (rule Cons.IH)
    show "u = v \<and> r = s" if "u \<in> set xs" "length (code u @ r) < 2 ^ 63" "code u @ r = code v @ s" for u r v s
      using that by (intro Cons.prems(1)) simp_all
    show "length (concat (map code xs)) < 2 ^ 63" using Cons.prems(2) by simp
    show "concat (map code xs) = concat (map code ys')" using calculation by blast
  qed
  ultimately show ?case using ys by simp
qed

locale prefix_code =
  fixes code :: "'a \<Rightarrow> bytes"
  assumes code_nonempty: "code x \<noteq> []"
    and code_unique: "length (code x @ r) < 2 ^ 63 \<Longrightarrow> code x @ r = code y @ s \<Longrightarrow> x = y \<and> r = s"
begin

lemma code_inj: "length (code x) < 2 ^ 63 \<Longrightarrow> code x = code y \<Longrightarrow> x = y"
  using code_unique [of x "[]" y "[]"] by simp

lemma concat_inj:
  "length (concat (map code xs)) < 2 ^ 63 \<Longrightarrow> concat (map code xs) = concat (map code ys) \<Longrightarrow> xs = ys"
  by (rule concat_unique [of code, OF code_nonempty]) (erule (1) code_unique)

end

lemma raw_enc_unique:
  assumes "length (raw_enc k c @ r) < 2 ^ 63" and "raw_enc k c @ r = raw_enc k' c' @ r'"
    and "kind_ok k c" and "kind_ok k' c'"
  shows "k = k' \<and> c = c' \<and> r = r'"
  using Split_canonical [OF assms(1), of k c r] Split_canonical [OF assms(1), of k' c' r'] assms(2-) by simp

lemma raw_enc_nonempty: "kind_ok k c \<Longrightarrow> raw_enc k c \<noteq> []"
  by (cases k) (auto simp: kind_ok_def raw_enc_def raw_head_def enc_head_def)

lemma enc_string_raw:
  "enc_string b = raw_enc (if length b = 1 \<and> b ! 0 < 0x80 then KByte else KString) b"
  by (auto simp: enc_string_def raw_enc_def raw_head_def split: list.splits)

lemma enc_string_kind_ok: "kind_ok (if length b = 1 \<and> b ! 0 < 0x80 then KByte else KString) b"
  by (simp add: kind_ok_def)

interpretation rlp_string: prefix_code enc_string
proof
  show "enc_string x \<noteq> []" for x
    by (simp add: enc_string_raw raw_enc_nonempty kind_ok_def)
  show "x = y \<and> r = s" if "length (enc_string x @ r) < 2 ^ 63" "enc_string x @ r = enc_string y @ s" for x r y s
    using raw_enc_unique [OF that [unfolded enc_string_raw] enc_string_kind_ok enc_string_kind_ok] by simp
qed

lemma string_not_list:
  assumes "length (enc_string b @ r) < 2 ^ 63"
  shows "enc_string b @ r \<noteq> raw_enc KList p @ s"
proof
  assume eq: "enc_string b @ r = raw_enc KList p @ s"
  have "kind_ok KList p" by (simp add: kind_ok_def)
  from raw_enc_unique [OF assms [unfolded enc_string_raw] eq [unfolded enc_string_raw] enc_string_kind_ok this]
  show False by (simp split: if_splits)
qed

section \<open>Counting values\<close>

abbreviation raw_values :: "(Kind \<times> bytes) list \<Rightarrow> bytes" where
  "raw_values vs \<equiv> concat (map (\<lambda>(k, c). raw_enc k c) vs)"

lemma readKind_Split:
  assumes "length b < 2 ^ 63" "readKind b = Inr (k, ts, cs)"
  shows "\<exists>c. kind_ok k c \<and> b = raw_enc k c @ drop (unat (ts + cs)) b"
proof -
  obtain c where "Split b = Inr (k, c, drop (unat (ts + cs)) b)"
    using assms(2) by (auto simp: Split_def)
  then show ?thesis using Split_canonical [OF assms(1)] by blast
qed

lemma CountValues_loop_iff:
  "length b < 2 ^ 63 \<Longrightarrow>
    CountValues_loop b i = Some (Inr n) \<longleftrightarrow>
      (\<exists>vs. (\<forall>(k, c) \<in> set vs. kind_ok k c) \<and> b = raw_values vs \<and> n = i + length vs)"
proof (induction b arbitrary: i rule: length_induct)
  case (1 b)
  show ?case
  proof (cases b)
    case Nil
    have "vs = []" if "\<forall>(k, c) \<in> set vs. kind_ok k c" "[] = raw_values vs" for vs
      using that raw_enc_nonempty by (cases vs) auto
    then show ?thesis using Nil by (subst CountValues_loop.simps) auto
  next
    case (Cons x xs)
    show ?thesis
    proof (cases "readKind b")
      case (Inl e)
      have False if v: "\<forall>(k, c) \<in> set vs. kind_ok k c" "b = raw_values vs" for vs
      proof -
        obtain k c ws where "vs = (k, c) # ws" using v Cons by (cases vs) auto
        then have "Split b = Inr (k, c, raw_values ws)" using v 1(2) by (simp add: Split_canonical)
        then show False using Inl by (simp add: Split_def)
      qed
      then show ?thesis using Cons Inl by (subst CountValues_loop.simps) auto
    next
      case (Inr r)
      obtain k ts cs where r: "readKind b = Inr (k, ts, cs)" using Inr by (cases r) auto
      let ?rest = "drop (unat (ts + cs)) b"
      obtain c where c: "kind_ok k c" "b = raw_enc k c @ ?rest"
        using readKind_Split [OF 1(2) r] by blast
      have shorter: "length ?rest < length b"
        using c raw_enc_nonempty [OF c(1)] by (metis append_Nil length_append less_add_same_cancel2
          length_greater_0_conv)
      have split: "Split b = Inr (k, c, ?rest)" using Split_canonical [OF 1(2)] c by blast
      have "CountValues_loop b i = CountValues_loop ?rest (i + 1)"
        using Cons r by (subst CountValues_loop.simps) simp
      moreover have "CountValues_loop ?rest (i + 1) = Some (Inr n) \<longleftrightarrow>
          (\<exists>vs. (\<forall>(k, c) \<in> set vs. kind_ok k c) \<and> ?rest = raw_values vs \<and> n = i + 1 + length vs)"
        using 1 shorter by simp
      moreover have "(\<exists>vs. (\<forall>(k, c) \<in> set vs. kind_ok k c) \<and> ?rest = raw_values vs \<and> n = i + 1 + length vs)
        \<longleftrightarrow> (\<exists>vs. (\<forall>(k, c) \<in> set vs. kind_ok k c) \<and> b = raw_values vs \<and> n = i + length vs)"
        (is "?L \<longleftrightarrow> ?R")
      proof
        assume ?L
        then obtain vs where "\<forall>(k, c) \<in> set vs. kind_ok k c" "?rest = raw_values vs" "n = i + 1 + length vs"
          by blast
        then show ?R using c by (intro exI [of _ "(k, c) # vs"]) auto
      next
        assume ?R
        then obtain vs where vs: "\<forall>(k, c) \<in> set vs. kind_ok k c" "b = raw_values vs" "n = i + length vs"
          by blast
        then obtain k' c' ws where w: "vs = (k', c') # ws" using Cons by (cases vs) auto
        then have "Split b = Inr (k', c', raw_values ws)" using vs 1(2) by (simp add: Split_canonical)
        then have "?rest = raw_values ws" using split by simp
        then show ?L using vs w by (intro exI [of _ ws]) auto
      qed
      ultimately show ?thesis by simp
    qed
  qed
qed

lemma CountValues_loop_total: "length b < 2 ^ 63 \<Longrightarrow> CountValues_loop b i \<noteq> None"
proof (induction b arbitrary: i rule: length_induct)
  case (1 b)
  show ?case
  proof (cases "b = [] \<or> (\<exists>e. readKind b = Inl e)")
    case True
    then show ?thesis by (subst CountValues_loop.simps) auto
  next
    case False
    then obtain k ts cs where r: "readKind b = Inr (k, ts, cs)" by (cases "readKind b") auto
    obtain c where c: "kind_ok k c" "b = raw_enc k c @ drop (unat (ts + cs)) b"
      using readKind_Split [OF 1(2) r] by blast
    then have "length (drop (unat (ts + cs)) b) < length b"
      using raw_enc_nonempty [OF c(1)]
      by (metis append_Nil length_append less_add_same_cancel2 length_greater_0_conv)
    then show ?thesis using 1 r False by (subst CountValues_loop.simps) simp
  qed
qed

text \<open>
  C28. \<open>CountValues\<close> terminates on every input, and returns \<open>n\<close> exactly if the input is the
  concatenation of \<open>n\<close> canonically encoded values.
\<close>

theorem CountValues_correct:
  assumes "length b < 2 ^ 63"
  shows "(CountValues b = Some (Inr n) \<longleftrightarrow>
      (\<exists>vs. list_all (\<lambda>(k, c). kind_ok k c) vs \<and> b = raw_values vs \<and> n = length vs)) \<and>
    CountValues b \<noteq> None"
  using CountValues_loop_iff [OF assms, of 0 n] CountValues_loop_total [OF assms, of 0]
  by (simp add: CountValues_def list_all_iff)

theorem CountValues_correct_witness:
  "CountValues [5, 0x82, 200, 7, 0xC0] = Some (Inr 3)"
proof -
  let ?vs = "[(KByte, [5]), (KString, [200, 7]), (KList, [])] :: (Kind \<times> bytes) list"
  have "list_all (\<lambda>(k, c). kind_ok k c) ?vs \<and> [5, 0x82, 200, 7, 0xC0] = raw_values ?vs \<and> 3 = length ?vs"
    by (simp add: kind_ok_def raw_enc_def raw_head_def enc_head_def)
  then have "\<exists>vs. list_all (\<lambda>(k, c). kind_ok k c) vs \<and> [5, 0x82, 200, 7, 0xC0] = raw_values vs \<and> 3 = length vs"
    by (rule exI)
  moreover have "length ([5, 0x82, 200, 7, 0xC0] :: bytes) < 2 ^ 63" by simp
  ultimately show ?thesis
    using CountValues_correct by blast
qed

end
