(* ===== verification/RlpStream.thy ===== *)
theory RlpStream
  imports RlpRaw
begin

text \<open>
  The streaming decoder of package \<^verbatim>\<open>rlp\<close> (src/rlp/decode.go): the \<open>Stream\<close> with its read-ahead kind
  and its stack of enclosing lists, the typed reads, and decoding into an empty interface, with the
  proof that decoding inverts the encoding and accepts nothing else.
\<close>

section \<open>The stream\<close>

text \<open>
  \<open>Stream\<close> over a byte slice (a \<open>bytes.Reader\<close>): \<open>s_in\<close> is the unread input of the reader,
  \<open>s_kind\<close> is \<open>None\<close> where the code stores \<open>-1\<close> (no value read ahead), \<open>s_stack\<close> holds the
  enclosing lists, innermost first. An operation returns its result or error and the new stream.
\<close>

record listpos =
  lp_pos :: u64
  lp_size :: u64

record stream =
  s_in :: bytes
  s_remaining :: u64
  s_limited :: bool
  s_kind :: "Kind option"
  s_size :: u64
  s_byteval :: byte
  s_kinderr :: "rlp_error option"
  s_stack :: "listpos list"

type_synonym 'a decode = "stream \<Rightarrow> (rlp_error + 'a) \<times> stream"

definition bindS :: "'a decode \<Rightarrow> ('a \<Rightarrow> 'b decode) \<Rightarrow> 'b decode" where
  "bindS m f s = (case m s of (Inl e, s') \<Rightarrow> (Inl e, s') | (Inr x, s') \<Rightarrow> f x s')"

definition returnS :: "'a \<Rightarrow> 'a decode" where
  "returnS x s = (Inr x, s)"

definition failS :: "rlp_error \<Rightarrow> 'a decode" where
  "failS e s = (Inl e, s)"

definition Stream_Reset :: "bytes \<Rightarrow> u64 \<Rightarrow> stream" where
  "Stream_Reset r inputLimit =
    \<lparr>s_in = r, s_remaining = (if inputLimit > 0 then inputLimit else word_of_nat (length r)),
     s_limited = True, s_kind = None, s_size = 0, s_byteval = 0, s_kinderr = None, s_stack = []\<rparr>"

definition willRead :: "u64 \<Rightarrow> unit decode" where
  "willRead n s0 =
    (let s = s0\<lparr>s_kind := None\<rparr> in
     case (case s_stack s of
             [] \<Rightarrow> Inr s
           | tos # ts \<Rightarrow>
               if n > lp_size tos - lp_pos tos then Inl ErrElemTooLarge
               else Inr (s\<lparr>s_stack := tos\<lparr>lp_pos := lp_pos tos + n\<rparr> # ts\<rparr>)) of
       Inl e \<Rightarrow> (Inl e, s)
     | Inr s \<Rightarrow>
         if s_limited s then
           if n > s_remaining s then (Inl ErrValueTooLarge, s)
           else (Inr (), s\<lparr>s_remaining := s_remaining s - n\<rparr>)
         else (Inr (), s))"

definition readByte :: "byte decode" where
  "readByte = bindS (willRead 1) (\<lambda>_ s.
     case s_in s of [] \<Rightarrow> (Inl ErrUnexpectedEOF, s) | b # bs \<Rightarrow> (Inr b, s\<lparr>s_in := bs\<rparr>))"

definition readFull :: "nat \<Rightarrow> bytes decode" where
  "readFull n = bindS (willRead (word_of_nat n)) (\<lambda>_ s.
     if n \<le> length (s_in s) then (Inr (take n (s_in s)), s\<lparr>s_in := drop n (s_in s)\<rparr>)
     else (Inl ErrUnexpectedEOF, s\<lparr>s_in := []\<rparr>))"

definition readUint :: "byte \<Rightarrow> u64 decode" where
  "readUint sz =
    (if sz = 0 then (\<lambda>s. (Inr 0, s\<lparr>s_kind := None\<rparr>))
     else if sz = 1 then bindS readByte (\<lambda>b. returnS (ucast b))
     else bindS (readFull (unat sz)) (\<lambda>buf.
       if buf ! 0 = 0 then failS ErrCanonSize
       else returnS (word_of_nat (be_nat buf))))"

definition Stream_readKind :: "stream \<Rightarrow> (Kind \<times> u64 \<times> rlp_error option) \<times> stream" where
  "Stream_readKind s0 =
    (case readByte s0 of
       (Inl err, s) \<Rightarrow>
         let err' = (if s_stack s = [] then
                       (if err = ErrUnexpectedEOF then ErrEOF
                        else if err = ErrValueTooLarge then ErrEOF else err)
                     else err)
         in ((KByte, 0, Some err'), s)
     | (Inr b, s1) \<Rightarrow>
         let s = s1\<lparr>s_byteval := 0\<rparr>;
             long = (\<lambda>k n. case readUint n s of
               (Inl e, s') \<Rightarrow> ((k, 0, Some e), s')
             | (Inr sz, s') \<Rightarrow> ((k, sz, if sz < 56 then Some ErrCanonSize else None), s'))
         in if b < 0x80 then ((KByte, 0, None), s\<lparr>s_byteval := b\<rparr>)
            else if b < 0xB8 then ((KString, ucast (b - 0x80), None), s)
            else if b < 0xC0 then long KString (b - 0xB7)
            else if b < 0xF8 then ((KList, ucast (b - 0xC0), None), s)
            else long KList (b - 0xF7))"

definition Stream_Kind :: "(Kind \<times> u64) decode" where
  "Stream_Kind s0 =
    (case s_kind s0 of
       Some k \<Rightarrow>
         (case s_kinderr s0 of None \<Rightarrow> (Inr (k, s_size s0), s0) | Some e \<Rightarrow> (Inl e, s0))
     | None \<Rightarrow>
         let s = s0\<lparr>s_kinderr := None\<rparr> in
         if (case s_stack s of [] \<Rightarrow> False | tos # _ \<Rightarrow> lp_pos tos = lp_size tos) then (Inl EOL, s)
         else
           (case Stream_readKind s of ((k, sz, err), s1) \<Rightarrow>
              let err' =
                (case err of Some e \<Rightarrow> Some e
                 | None \<Rightarrow>
                     (case s_stack s1 of
                        [] \<Rightarrow> if s_limited s1 \<and> sz > s_remaining s1 then Some ErrValueTooLarge else None
                      | tos # _ \<Rightarrow> if sz > lp_size tos - lp_pos tos then Some ErrElemTooLarge else None));
                  s2 = s1\<lparr>s_kind := Some k, s_size := sz, s_kinderr := err'\<rparr>
              in (case err' of None \<Rightarrow> (Inr (k, sz), s2) | Some e \<Rightarrow> (Inl e, s2))))"

definition Stream_Bytes :: "bytes decode" where
  "Stream_Bytes = bindS Stream_Kind (\<lambda>(kind, sz).
     case kind of
       KByte \<Rightarrow> (\<lambda>s. (Inr [s_byteval s], s\<lparr>s_kind := None\<rparr>))
     | KString \<Rightarrow> bindS (readFull (unat sz)) (\<lambda>b.
         if sz = 1 \<and> b ! 0 < 128 then failS ErrCanonSize else returnS b)
     | KList \<Rightarrow> failS ErrExpectedString)"

definition Stream_Raw :: "bytes decode" where
  "Stream_Raw = bindS Stream_Kind (\<lambda>(kind, sz).
     if kind = KByte then (\<lambda>s. (Inr [s_byteval s], s\<lparr>s_kind := None\<rparr>))
     else bindS (readFull (unat sz)) (\<lambda>content.
       returnS ((if kind = KString then puthead 0x80 0xB7 sz else puthead 0xC0 0xF7 sz) @ content)))"

definition Stream_uint :: "nat \<Rightarrow> u64 decode" where
  "Stream_uint maxbits = bindS Stream_Kind (\<lambda>(kind, sz).
     case kind of
       KByte \<Rightarrow> (\<lambda>s. if s_byteval s = 0 then (Inl ErrCanonInt, s)
                  else (Inr (ucast (s_byteval s)), s\<lparr>s_kind := None\<rparr>))
     | KString \<Rightarrow>
         if sz > word_of_nat (maxbits div 8) then failS ErrUintOverflow
         else (\<lambda>s. case readUint (ucast sz) s of
             (Inl e, s') \<Rightarrow> (Inl (if e = ErrCanonSize then ErrCanonInt else e), s')
           | (Inr v, s') \<Rightarrow> if sz > 0 \<and> v < 128 then (Inl ErrCanonSize, s') else (Inr v, s'))
     | KList \<Rightarrow> failS ErrExpectedString)"

definition Stream_Bool :: "bool decode" where
  "Stream_Bool = bindS (Stream_uint 8) (\<lambda>num.
     if num = 0 then returnS False else if num = 1 then returnS True else failS (ErrInvalidBool num))"

definition Stream_List :: "u64 decode" where
  "Stream_List = bindS Stream_Kind (\<lambda>(kind, sz).
     if kind \<noteq> KList then failS ErrExpectedList
     else (\<lambda>s. (Inr sz, s\<lparr>s_stack := \<lparr>lp_pos = 0, lp_size = sz\<rparr> # s_stack s,
                          s_kind := None, s_size := 0\<rparr>)))"

definition Stream_ListEnd :: "unit decode" where
  "Stream_ListEnd s =
    (case s_stack s of
       [] \<Rightarrow> (Inl ErrNotInList, s)
     | tos # rest \<Rightarrow>
         if lp_pos tos \<noteq> lp_size tos then (Inl ErrNotAtEOL, s)
         else
           let rest' = (case rest of [] \<Rightarrow> []
                        | outer # ls \<Rightarrow> outer\<lparr>lp_pos := lp_pos outer + lp_size tos\<rparr> # ls)
           in (Inr (), s\<lparr>s_stack := rest', s_kind := None, s_size := 0\<rparr>))"

section \<open>Decoding into an empty interface\<close>

text \<open>
  \<open>decodeInterface\<close> builds byte strings and slices of values. It and the element loop are
  recursive through the stream; fuel bounds the recursion and its exhaustion is \<open>Inr None\<close>.
  \<open>decode_fuel\<close> below shows that \<open>2 * n + 1\<close> units suffice for an input of \<open>n\<close> bytes.
\<close>

datatype item = IStr bytes | IList "item list"

fun decodeInterface :: "nat \<Rightarrow> item option decode"
  and decodeSliceElems :: "nat \<Rightarrow> item list option decode" where
  "decodeInterface 0 s = (Inr None, s)"
| "decodeInterface (Suc fuel) s =
     (case Stream_Kind s of (Inl e, s1) \<Rightarrow> (Inl e, s1)
      | (Inr (kind, _), s1) \<Rightarrow>
          if kind = KList then
            (case Stream_List s1 of (Inl e, s2) \<Rightarrow> (Inl e, s2)
             | (Inr sz, s2) \<Rightarrow>
                 if sz = 0 then
                   (case Stream_ListEnd s2 of (Inl e, s3) \<Rightarrow> (Inl e, s3)
                    | (Inr _, s3) \<Rightarrow> (Inr (Some (IList [])), s3))
                 else
                   (case decodeSliceElems fuel s2 of (Inl e, s3) \<Rightarrow> (Inl e, s3)
                    | (Inr None, s3) \<Rightarrow> (Inr None, s3)
                    | (Inr (Some xs), s3) \<Rightarrow>
                        (case Stream_ListEnd s3 of (Inl e, s4) \<Rightarrow> (Inl e, s4)
                         | (Inr _, s4) \<Rightarrow> (Inr (Some (IList xs)), s4))))
          else
            (case Stream_Bytes s1 of (Inl e, s2) \<Rightarrow> (Inl e, s2)
             | (Inr b, s2) \<Rightarrow> (Inr (Some (IStr b)), s2)))"
| "decodeSliceElems 0 s = (Inr None, s)"
| "decodeSliceElems (Suc fuel) s =
     (case decodeInterface fuel s of
        (Inl e, s1) \<Rightarrow> if e = EOL then (Inr (Some []), s1) else (Inl e, s1)
      | (Inr None, s1) \<Rightarrow> (Inr None, s1)
      | (Inr (Some x), s1) \<Rightarrow>
          (case decodeSliceElems fuel s1 of (Inl e, s2) \<Rightarrow> (Inl e, s2)
           | (Inr None, s2) \<Rightarrow> (Inr None, s2)
           | (Inr (Some xs), s2) \<Rightarrow> (Inr (Some (x # xs)), s2)))"

definition DecodeBytes :: "nat \<Rightarrow> bytes \<Rightarrow> rlp_error + item option" where
  "DecodeBytes fuel b =
    (case decodeInterface fuel (Stream_Reset b (word_of_nat (length b))) of
       (Inl e, _) \<Rightarrow> Inl e
     | (Inr x, s) \<Rightarrow> if length (s_in s) > 0 then Inl ErrMoreThanOneValue else Inr x)"

text \<open>
  \<open>decodeByteArray\<close> for an array of \<open>vlen\<close> bytes. On kind \<open>Byte\<close> it reads the value with
  \<open>bv, _ := s.Uint()\<close>, dropping the error (the value is then 0).
\<close>

definition decodeByteArray :: "nat \<Rightarrow> bytes decode" where
  "decodeByteArray vlen = bindS Stream_Kind (\<lambda>(kind, sz).
     case kind of
       KByte \<Rightarrow>
         if vlen = 0 then failS ErrInputTooLong
         else if vlen > 1 then failS ErrInputTooShort
         else (\<lambda>s. case Stream_uint 64 s of
             (Inl _, s') \<Rightarrow> (Inr [0], s')
           | (Inr bv, s') \<Rightarrow> (Inr [ucast bv], s'))
     | KString \<Rightarrow>
         if word_of_nat vlen < sz then failS ErrInputTooLong
         else if word_of_nat vlen > sz then failS ErrInputTooShort
         else bindS (readFull vlen) (\<lambda>slice.
           if sz = 1 \<and> slice ! 0 < 128 then failS ErrCanonSize else returnS slice)
     | KList \<Rightarrow> failS ErrExpectedString)"

text \<open>The reference encoding of a decoded value.\<close>

fun enc_item :: "item \<Rightarrow> bytes" where
  "enc_item (IStr b) = enc_string b"
| "enc_item (IList xs) = enc_list (concat (map enc_item xs))"

section \<open>Reading from the stream\<close>

text \<open>
  \<open>advance n\<close> is the stream after reading \<open>n\<close> bytes, \<open>can_read\<close> that the enclosing list, the input
  limit and the input allow it.
\<close>

fun bump :: "u64 \<Rightarrow> listpos list \<Rightarrow> listpos list" where
  "bump n [] = []"
| "bump n (t # ts) = t\<lparr>lp_pos := lp_pos t + n\<rparr> # ts"

fun top_room :: "nat \<Rightarrow> listpos list \<Rightarrow> bool" where
  "top_room n [] = True"
| "top_room n (t # ts) = (unat (lp_pos t) + n \<le> unat (lp_size t))"

definition advance :: "nat \<Rightarrow> stream \<Rightarrow> stream" where
  "advance n s = s\<lparr>s_kind := None, s_stack := bump (word_of_nat n) (s_stack s),
     s_remaining := s_remaining s - word_of_nat n, s_in := drop n (s_in s)\<rparr>"

definition can_read :: "stream \<Rightarrow> nat \<Rightarrow> bool" where
  "can_read s n \<longleftrightarrow> top_room n (s_stack s) \<and> n \<le> unat (s_remaining s) \<and> n \<le> length (s_in s)"

definition stream_ready :: "stream \<Rightarrow> bool" where
  "stream_ready s \<longleftrightarrow> s_limited s \<and> top_room 0 (s_stack s)"

lemma unat_room:
  "unat (p :: u64) \<le> unat z \<Longrightarrow> unat (z - p) = unat z - unat p"
  by (simp add: unat_sub word_le_nat_alt)

lemma can_mono: "can_read s n \<Longrightarrow> m \<le> n \<Longrightarrow> can_read s m"
  by (cases "s_stack s") (auto simp: can_read_def)

lemma can_lt: "can_read s n \<Longrightarrow> n < 2 ^ 64"
  using unat_u64_lt [of "s_remaining s"] by (simp add: can_read_def)

lemma willRead_ready:
  assumes "stream_ready s"
  shows "willRead n s =
    (if \<not> top_room (unat n) (s_stack s) then (Inl ErrElemTooLarge, s\<lparr>s_kind := None\<rparr>)
     else if \<not> unat n \<le> unat (s_remaining s)
     then (Inl ErrValueTooLarge, s\<lparr>s_kind := None, s_stack := bump n (s_stack s)\<rparr>)
     else (Inr (), s\<lparr>s_kind := None, s_stack := bump n (s_stack s), s_remaining := s_remaining s - n\<rparr>))"
  using assms
  by (cases "s_stack s")
    (auto simp: willRead_def stream_ready_def unat_room Let_def not_less word_less_nat_alt)

lemma readFull_Inr:
  assumes "stream_ready s" "n < 2 ^ 64"
  shows "readFull n s = (Inr buf, s') \<longleftrightarrow> can_read s n \<and> buf = take n (s_in s) \<and> s' = advance n s"
  using assms
  by (auto simp: readFull_def bindS_def willRead_ready can_read_def advance_def unat_of_nat_u64)

lemma readByte_Inr:
  assumes "stream_ready s"
  shows "readByte s = (Inr b, s') \<longleftrightarrow> can_read s 1 \<and> b = hd (s_in s) \<and> s' = advance 1 s"
  using assms
  by (cases "s_in s") (auto simp: readByte_def bindS_def willRead_ready can_read_def advance_def)

lemma advance_sel [simp]:
  "s_in (advance n s) = drop n (s_in s)" "s_kind (advance n s) = None"
  "s_stack (advance n s) = bump (word_of_nat n) (s_stack s)" "s_limited (advance n s) = s_limited s"
  "s_remaining (advance n s) = s_remaining s - word_of_nat n"
  by (simp_all add: advance_def)

lemma advance_advance: "advance m (advance n s) = advance (n + m) s"
  by (cases "s_stack s") (simp_all add: advance_def add.commute add.left_commute diff_diff_eq)

lemma top_room_bump:
  assumes "top_room n st" "n < 2 ^ 64"
  shows "top_room m (bump (word_of_nat n) st) \<longleftrightarrow> top_room (n + m) st"
proof (cases st)
  case (Cons t ts)
  have "unat (lp_pos t + word_of_nat n) = unat (lp_pos t) + n"
    using assms Cons unat_u64_lt [of "lp_size t"] by (simp add: unat_word_ariths unat_of_nat_u64)
  then show ?thesis using Cons by (simp add: add.assoc)
qed simp

lemma ready_advance: "stream_ready s \<Longrightarrow> can_read s n \<Longrightarrow> stream_ready (advance n s)"
  using top_room_bump [of n "s_stack s" 0] can_lt [of s n] by (auto simp: stream_ready_def can_read_def)

lemma can_advance: "can_read s n \<Longrightarrow> can_read (advance n s) m \<longleftrightarrow> can_read s (n + m)"
  using top_room_bump [of n "s_stack s" m] can_lt [of s n]
  by (auto simp: can_read_def unat_sub word_le_nat_alt unat_of_nat_u64)

lemma ready_fields [simp]:
  "stream_ready (s\<lparr>s_byteval := b\<rparr>) = stream_ready s" "stream_ready (s\<lparr>s_kind := k\<rparr>) = stream_ready s"
  "stream_ready (s\<lparr>s_size := z\<rparr>) = stream_ready s" "stream_ready (s\<lparr>s_kinderr := e\<rparr>) = stream_ready s"
  "can_read (s\<lparr>s_byteval := b\<rparr>) n = can_read s n" "can_read (s\<lparr>s_kind := k\<rparr>) n = can_read s n"
  "can_read (s\<lparr>s_size := z\<rparr>) n = can_read s n" "can_read (s\<lparr>s_kinderr := e\<rparr>) n = can_read s n"
  by (simp_all add: stream_ready_def can_read_def)

lemma readUint_sound:
  assumes "stream_ready s" "readUint l s = (Inr sz, s')" "unat l \<in> {1..8}" "56 \<le> unat sz"
  shows "can_read s (unat l)" "take (unat l) (s_in s) = nat_be (unat sz)" "s' = advance (unat l) s"
proof -
  have "can_read s (unat l) \<and> take (unat l) (s_in s) = nat_be (unat sz) \<and> s' = advance (unat l) s"
  proof (cases "l = 1")
    case True
    then obtain b where "readByte s = (Inr b, s')" and sz: "sz = ucast b"
      using assms(2) by (auto simp: readUint_def bindS_def returnS_def split: prod.splits sum.splits)
    then have r: "can_read s 1" "b = hd (s_in s)" "s' = advance 1 s" by (simp_all add: readByte_Inr [OF assms(1)])
    then have "take 1 (s_in s) = [b]" by (cases "s_in s") (auto simp: can_read_def)
    moreover have "nat_be (unat b) = [b]"
      using assms(4) unat_byte_lt [of b] by (simp add: sz unat_ucast_u64 nat_be_step)
    ultimately show ?thesis using True r sz by (simp add: unat_ucast_u64)
  next
    case False
    have "l \<noteq> 0" using assms(3) by auto
    then obtain buf where rf: "readFull (unat l) s = (Inr buf, s')" and
      nz: "buf ! 0 \<noteq> 0" and sz: "sz = word_of_nat (be_nat buf)"
      using assms(2) False
      by (auto simp: readUint_def bindS_def returnS_def failS_def split: prod.splits sum.splits if_splits)
    from rf have r: "can_read s (unat l)" "buf = take (unat l) (s_in s)" "s' = advance (unat l) s"
      using assms(3) by (simp_all add: readFull_Inr [OF assms(1)])
    then have len: "length buf = unat l" by (simp add: can_read_def)
    have "be_nat buf < 256 ^ 8"
      using be_nat_lt [of buf] power_increasing [of "length buf" 8 "256 :: nat"] assms(3) len by simp
    then have "unat sz = be_nat buf" using sz by (simp add: unat_of_nat_u64)
    moreover have "hd buf \<noteq> 0" using nz len assms(3) by (cases buf) auto
    ultimately have "nat_be (unat sz) = buf" using nat_be_be_nat by simp
    then show ?thesis using r by simp
  qed
  then show "can_read s (unat l)" "take (unat l) (s_in s) = nat_be (unat sz)" "s' = advance (unat l) s"
    by blast+
qed

lemma readUint_complete:
  assumes "stream_ready s" "56 \<le> n" "n < 2 ^ 63" "can_read s (length (nat_be n))"
    "take (length (nat_be n)) (s_in s) = nat_be n"
  shows "readUint (word_of_nat (length (nat_be n))) s =
    (Inr (word_of_nat n), advance (length (nat_be n)) s)"
proof -
  define l where "l = length (nat_be n)"
  have l: "1 \<le> l" "l \<le> 8"
    using assms(2,3) length_nat_be [of n 8] by (auto simp: l_def Suc_le_eq)
  have ul: "unat (word_of_nat l :: byte) = l" using l by (simp add: unsigned_of_nat take_bit_eq_mod)
  then have l0: "(word_of_nat l :: byte) \<noteq> 0" using l by auto
  show ?thesis
  proof (cases "l = 1")
    case True
    have "n < 256" using True length_nat_be [of n 1] by (simp add: l_def)
    then have nb: "nat_be n = [word_of_nat n]" using assms(2) by (simp add: nat_be_step)
    then have "hd (s_in s) = word_of_nat n" using assms(4,5) by (cases "s_in s") (auto simp: can_read_def)
    then have "readByte s = (Inr (word_of_nat n), advance 1 s)"
      using assms(1,4) nb by (simp add: readByte_Inr)
    moreover have "ucast (word_of_nat n :: byte) = (word_of_nat n :: u64)"
      using \<open>n < 256\<close> by (simp add: word_unat_eq_iff unat_ucast_u64 unsigned_of_nat take_bit_eq_mod)
    ultimately show ?thesis using nb by (simp add: readUint_def bindS_def returnS_def)
  next
    case False
    then have l1: "(word_of_nat l :: byte) \<noteq> 1" using ul by auto
    have "readFull l s = (Inr (nat_be n), advance l s)"
      using assms(1,4,5) l by (simp add: readFull_Inr l_def)
    moreover have "nat_be n ! 0 \<noteq> 0"
      using assms(2) hd_nat_be [of n] by (simp add: hd_conv_nth)
    ultimately show ?thesis
      using l0 l1 ul unfolding l_def [symmetric] by (simp add: readUint_def bindS_def returnS_def)
  qed
qed

lemma advance_fields:
  "advance n (s\<lparr>s_byteval := b\<rparr>) = (advance n s)\<lparr>s_byteval := b\<rparr>"
  "advance n (s\<lparr>s_kinderr := e\<rparr>) = (advance n s)\<lparr>s_kinderr := e\<rparr>"
  "advance n (s\<lparr>s_size := z\<rparr>) = (advance n s)\<lparr>s_size := z\<rparr>"
  "advance n (s\<lparr>s_kind := k\<rparr>) = advance n s"
  by (simp_all add: advance_def)

definition read_long :: "Kind \<Rightarrow> byte \<Rightarrow> stream \<Rightarrow> (Kind \<times> u64 \<times> rlp_error option) \<times> stream" where
  "read_long k n s =
    (case readUint n s of
       (Inl e, s') \<Rightarrow> ((k, 0, Some e), s')
     | (Inr sz, s') \<Rightarrow> ((k, sz, if sz < 56 then Some ErrCanonSize else None), s'))"

lemma Stream_readKind_tag:
  assumes "stream_ready s" "can_read s 1"
  shows "Stream_readKind s =
    (let b = hd (s_in s); s1 = (advance 1 s)\<lparr>s_byteval := 0\<rparr> in
     if unat b < 128 then ((KByte, 0, None), s1\<lparr>s_byteval := b\<rparr>)
     else if unat b < 184 then ((KString, ucast (b - 0x80), None), s1)
     else if unat b < 192 then read_long KString (b - 0xB7) s1
     else if unat b < 248 then ((KList, ucast (b - 0xC0), None), s1)
     else read_long KList (b - 0xF7) s1)"
proof -
  have "readByte s = (Inr (hd (s_in s)), advance 1 s)" using assms by (simp add: readByte_Inr)
  then show ?thesis
    by (simp add: Stream_readKind_def Let_def read_long_def word_less_nat_alt)
qed

lemma read_long_sound:
  assumes "read_long k (b - large) ((advance 1 s)\<lparr>s_byteval := 0\<rparr>) = ((k', sz, None), s')"
    and "stream_ready s" "can_read s 1" "b = hd (s_in s)" "unat large < unat b" "unat b \<le> unat large + 8"
  shows "k' = k" "can_read s (length (enc_head small large (unat sz)))"
    "take (length (enc_head small large (unat sz))) (s_in s) = enc_head small large (unat sz)"
    "s' = (advance (length (enc_head small large (unat sz))) s)\<lparr>s_byteval := 0\<rparr>"
proof -
  let ?s1 = "(advance 1 s)\<lparr>s_byteval := 0\<rparr>" and ?l = "unat (b - large)"
  have r1: "stream_ready ?s1" using assms(2,3) by (simp add: ready_advance)
  have u: "?l = unat b - unat large" using assms(5) by (intro unat_untag) simp
  then have l: "?l \<in> {1..8}" using assms(5,6) by auto
  obtain ru: "readUint (b - large) ?s1 = (Inr sz, s')" and k: "k' = k" and big: "\<not> sz < 56"
    using assms(1) by (auto simp: read_long_def split: prod.splits sum.splits if_splits)
  have big': "56 \<le> unat sz" using big by (simp add: word_less_nat_alt)
  note s = readUint_sound [OF r1 ru l big']
  have nb: "length (nat_be (unat sz)) = ?l"
    using s(1,2) assms(3) by (metis (no_types, lifting) can_read_def length_take min.absorb2)
  have h: "enc_head small large (unat sz) = b # nat_be (unat sz)"
    using big' nb retag [of b large ?l] u assms(5) by (simp add: enc_head_def)
  have in_s: "s_in s = b # drop 1 (s_in s)"
    using assms(3,4) by (cases "s_in s") (auto simp: can_read_def)
  show "k' = k" by (rule k)
  show "can_read s (length (enc_head small large (unat sz)))"
    using s(1) nb h assms(3) by (simp add: can_advance)
  show "take (length (enc_head small large (unat sz))) (s_in s) = enc_head small large (unat sz)"
    unfolding h using s(2) nb by (subst in_s) simp
  show "s' = (advance (length (enc_head small large (unat sz))) s)\<lparr>s_byteval := 0\<rparr>"
    using s(3) nb h by (simp add: advance_fields advance_advance)
qed

lemma Stream_readKind_sound:
  assumes "Stream_readKind s = ((k, sz, None), s')" "stream_ready s"
  shows "(k = KByte \<and> sz = 0 \<and> can_read s 1 \<and> hd (s_in s) < 0x80 \<and>
        s' = (advance 1 s)\<lparr>s_byteval := hd (s_in s)\<rparr>) \<or>
     (k \<noteq> KByte \<and> can_read s (length (raw_head k (unat sz))) \<and>
        take (length (raw_head k (unat sz))) (s_in s) = raw_head k (unat sz) \<and>
        s' = (advance (length (raw_head k (unat sz))) s)\<lparr>s_byteval := 0\<rparr>)"
proof -
  have c1: "can_read s 1"
  proof (rule ccontr)
    assume "\<not> can_read s 1"
    then obtain e s2 where "readByte s = (Inl e, s2)"
      using assms(2) readByte_Inr by (metis old.prod.exhaust sum.exhaust)
    then show False using assms(1) by (simp add: Stream_readKind_def Let_def)
  qed
  define b where "b = hd (s_in s)"
  have in_s: "s_in s = b # drop 1 (s_in s)"
    using c1 by (cases "s_in s") (auto simp: can_read_def b_def)
  have b: "unat b < 256" by (rule unat_byte_lt)
  note tag = assms(1) [unfolded Stream_readKind_tag [OF assms(2) c1] Let_def, folded b_def]
  have small: ?thesis
    if "s' = (advance 1 s)\<lparr>s_byteval := 0\<rparr>" "k \<noteq> KByte" "raw_head k (unat sz) = [b]"
    using that c1 in_s by (cases "s_in s") auto
  consider "unat b < 128" | "128 \<le> unat b" "unat b < 184" | "184 \<le> unat b" "unat b < 192"
    | "192 \<le> unat b" "unat b < 248" | "248 \<le> unat b" by linarith
  then show ?thesis
  proof cases
    case 1
    then show ?thesis using tag c1 by (auto simp: word_less_nat_alt simp flip: b_def)
  next
    case 2
    then have sz: "sz = ucast (b - 0x80)" and k: "k = KString" and s': "s' = (advance 1 s)\<lparr>s_byteval := 0\<rparr>"
      using tag by auto
    have n: "unat sz = unat b - 128"
      using 2 unat_untag [of "0x80" b] by (simp add: sz unat_ucast_u64)
    have lt: "unat sz < 56" using 2 n by simp
    have beq: "b = 0x80 + word_of_nat (unat sz)" using 2 n by (intro retag) simp
    have "enc_head 0x80 0xB7 (unat sz) = [b]"
      unfolding enc_head_def using lt by (simp only: if_True beq [symmetric])
    then show ?thesis using k s' by (intro small) (simp_all add: raw_head_def)
  next
    case 3
    then have "read_long KString (b - 0xB7) ((advance 1 s)\<lparr>s_byteval := 0\<rparr>) = ((k, sz, None), s')"
      using tag by simp
    from read_long_sound(1) [OF this assms(2) c1 b_def] 
      read_long_sound(2-4) [OF this assms(2) c1 b_def, of "0x80"] 3 show ?thesis
      by (simp add: raw_head_def)
  next
    case 4
    then have sz: "sz = ucast (b - 0xC0)" and k: "k = KList" and s': "s' = (advance 1 s)\<lparr>s_byteval := 0\<rparr>"
      using tag by auto
    have n: "unat sz = unat b - 192"
      using 4 unat_untag [of "0xC0" b] by (simp add: sz unat_ucast_u64)
    have lt: "unat sz < 56" using 4 n by simp
    have beq: "b = 0xC0 + word_of_nat (unat sz)" using 4 n by (intro retag) simp
    have "enc_head 0xC0 0xF7 (unat sz) = [b]"
      unfolding enc_head_def using lt by (simp only: if_True beq [symmetric])
    then show ?thesis using k s' by (intro small) (simp_all add: raw_head_def)
  next
    case 5
    then have "read_long KList (b - 0xF7) ((advance 1 s)\<lparr>s_byteval := 0\<rparr>) = ((k, sz, None), s')"
      using tag by simp
    from read_long_sound(1) [OF this assms(2) c1 b_def] 
      read_long_sound(2-4) [OF this assms(2) c1 b_def, of "0xC0"] 5 b show ?thesis
      by (simp add: raw_head_def)
  qed
qed

lemma Stream_readKind_complete_byte:
  assumes "stream_ready s" "can_read s 1" "hd (s_in s) < 0x80"
  shows "Stream_readKind s = ((KByte, 0, None), (advance 1 s)\<lparr>s_byteval := hd (s_in s)\<rparr>)"
  using assms by (simp add: Stream_readKind_tag Let_def word_less_nat_alt)

lemma read_long_complete:
  assumes "stream_ready s" "56 \<le> n" "n < 2 ^ 63" "can_read s (1 + length (nat_be n))"
    "take (1 + length (nat_be n)) (s_in s) = b # nat_be n"
  shows "read_long k (word_of_nat (length (nat_be n))) ((advance 1 s)\<lparr>s_byteval := 0\<rparr>) =
    ((k, word_of_nat n, None), (advance (1 + length (nat_be n)) s)\<lparr>s_byteval := 0\<rparr>)"
proof -
  have c1: "can_read s 1" using assms(4) can_mono by fastforce
  have "take (length (nat_be n)) (drop 1 (s_in s)) = nat_be n"
    using assms(5) by (cases "s_in s") auto
  then have "readUint (word_of_nat (length (nat_be n))) ((advance 1 s)\<lparr>s_byteval := 0\<rparr>) =
      (Inr (word_of_nat n), advance (length (nat_be n)) ((advance 1 s)\<lparr>s_byteval := 0\<rparr>))"
    using assms(1-4) c1 by (intro readUint_complete) (simp_all add: ready_advance can_advance)
  moreover have "\<not> (word_of_nat n :: u64) < 56"
    using assms(2,3) by (simp add: word_less_nat_alt unat_of_nat_u64)
  ultimately show ?thesis by (simp add: read_long_def advance_fields advance_advance)
qed

lemma Stream_readKind_complete:
  assumes "stream_ready s" "k \<noteq> KByte" "n < 2 ^ 63" "can_read s (length (raw_head k n))"
    "take (length (raw_head k n)) (s_in s) = raw_head k n"
  shows "Stream_readKind s =
    ((k, word_of_nat n, None), (advance (length (raw_head k n)) s)\<lparr>s_byteval := 0\<rparr>)"
proof -
  obtain small large where tags: "raw_head k n = enc_head small large n"
    "(k, small, large) = (KString, 0x80, 0xB7) \<or> (k, small, large) = (KList, 0xC0, 0xF7)"
    using assms(2) by (cases k) (auto simp: raw_head_def)
  show ?thesis
  proof (cases "n < 56")
    case True
    have h: "raw_head k n = [small + word_of_nat n]" using True tags by (simp add: enc_head_def)
    have hd: "hd (s_in s) = small + word_of_nat n" and c1: "can_read s 1"
      using assms(4,5) by (cases "s_in s"; simp add: h can_read_def)+
    have u: "unat (small + word_of_nat n) = unat small + n"
      using tags True by (intro unat_tag) auto
    have w: "ucast (word_of_nat n :: byte) = (word_of_nat n :: u64)"
      using True by (simp add: word_unat_eq_iff unat_ucast_u64 unsigned_of_nat take_bit_eq_mod)
    show ?thesis unfolding h using tags(2) True u w
      by (auto simp: Stream_readKind_tag [OF assms(1) c1] hd Let_def)
  next
    case False
    define l where "l = length (nat_be n)"
    have l: "1 \<le> l" "l \<le> 8"
      using assms(3) False length_nat_be [of n 8] by (auto simp: l_def Suc_le_eq)
    have h: "raw_head k n = (large + word_of_nat l) # nat_be n"
      using False tags by (simp add: enc_head_def l_def)
    have hd: "hd (s_in s) = large + word_of_nat l"
      using assms(4,5) by (cases "s_in s") (simp_all add: h can_read_def)
    have c1: "can_read s 1" using assms(4) can_mono [of s _ 1] by (simp add: h)
    have u: "unat (large + word_of_nat l) = unat large + l"
      using tags l by (intro unat_tag) auto
    have "read_long k (word_of_nat l) ((advance 1 s)\<lparr>s_byteval := 0\<rparr>) =
        ((k, word_of_nat n, None), (advance (1 + l) s)\<lparr>s_byteval := 0\<rparr>)"
      unfolding l_def using assms False h
      by (intro read_long_complete [where b = "large + word_of_nat l"]) simp_all
    then show ?thesis unfolding h using tags(2) l u
      by (auto simp: Stream_readKind_tag [OF assms(1) c1] hd Let_def simp flip: l_def)
  qed
qed

section \<open>Kind, strings and lists\<close>

definition advanced :: "nat \<Rightarrow> stream \<Rightarrow> stream \<Rightarrow> bool" where
  "advanced n s s' \<longleftrightarrow> (\<exists>b z e. s' = (advance n s)\<lparr>s_byteval := b, s_size := z, s_kinderr := e\<rparr>)"

definition at_eol :: "stream \<Rightarrow> bool" where
  "at_eol s = (case s_stack s of [] \<Rightarrow> False | tos # _ \<Rightarrow> lp_pos tos = lp_size tos)"

definition holds_next :: "stream \<Rightarrow> bytes \<Rightarrow> bool" where
  "holds_next s c \<longleftrightarrow> can_read s (length c) \<and> take (length c) (s_in s) = c"

definition kind_room :: "stream \<Rightarrow> nat \<Rightarrow> bool" where
  "kind_room s n = (case s_stack s of [] \<Rightarrow> n \<le> unat (s_remaining s) | _ \<Rightarrow> top_room n (s_stack s))"

lemma kind_room_fields [simp]:
  "kind_room (s\<lparr>s_byteval := b\<rparr>) n = kind_room s n"
  "kind_room (s\<lparr>s_kinderr := e\<rparr>) n = kind_room s n"
  by (cases "s_stack s"; simp add: kind_room_def)+

lemma advancedI:
  "advanced n s ((advance n s)\<lparr>s_byteval := b, s_kind := k, s_size := z, s_kinderr := e\<rparr>\<lparr>s_kind := None\<rparr>)"
  unfolding advanced_def by (rule exI [of _ b], rule exI [of _ z], rule exI [of _ e]) (simp add: advance_def)

lemma advanced_trans: "advanced n s s1 \<Longrightarrow> advanced m s1 s2 \<Longrightarrow> advanced (n + m) s s2"
  by (fastforce simp: advanced_def advance_fields advance_advance)

lemma advanced_sel:
  assumes "advanced n s s'"
  shows "s_in s' = drop n (s_in s)" "s_kind s' = None"
    "s_stack s' = bump (word_of_nat n) (s_stack s)"
    "can_read s n \<Longrightarrow> can_read s' m = can_read s (n + m)" "can_read s n \<Longrightarrow> stream_ready s \<Longrightarrow> stream_ready s'"
    "s_limited s' = s_limited s"
  using assms by (auto simp: advanced_def can_advance ready_advance)

lemma holds_next_append:
  assumes "holds_next s c" "advanced (length c) s s1"
  shows "holds_next s1 d \<longleftrightarrow> holds_next s (c @ d)"
proof -
  have c: "can_read s (length c)" "take (length c) (s_in s) = c" using assms(1) by (auto simp: holds_next_def)
  have "s_in s = c @ drop (length c) (s_in s)" using c(2) by (metis append_take_drop_id)
  then have "take (length c + length d) (s_in s) = c @ take (length d) (drop (length c) (s_in s))"
    by (metis c(2) take_add)
  then show ?thesis
    using c advanced_sel [OF assms(2)] by (auto simp: holds_next_def)
qed

lemma not_eol_room: "can_read s n \<Longrightarrow> 0 < n \<Longrightarrow> \<not> at_eol s"
  by (auto simp: at_eol_def can_read_def split: list.splits)

lemma Stream_Kind_fresh:
  assumes "s_kind s = None" "stream_ready s"
  shows "Stream_Kind s =
    (if at_eol s then (Inl EOL, s\<lparr>s_kinderr := None\<rparr>)
     else case Stream_readKind (s\<lparr>s_kinderr := None\<rparr>) of ((k, sz, err), s1) \<Rightarrow>
       let err' = (case err of Some e \<Rightarrow> Some e
             | None \<Rightarrow> (case s_stack s1 of
                  [] \<Rightarrow> if s_limited s1 \<and> sz > s_remaining s1 then Some ErrValueTooLarge else None
                | tos # _ \<Rightarrow> if sz > lp_size tos - lp_pos tos then Some ErrElemTooLarge else None));
           s2 = s1\<lparr>s_kind := Some k, s_size := sz, s_kinderr := err'\<rparr>
       in (case err' of None \<Rightarrow> (Inr (k, sz), s2) | Some e \<Rightarrow> (Inl e, s2)))"
  using assms by (simp add: Stream_Kind_def at_eol_def Let_def)

lemma Stream_Kind_cached:
  "s_kind s = Some k \<Longrightarrow> s_kinderr s = None \<Longrightarrow> Stream_Kind s = (Inr (k, s_size s), s)"
  by (simp add: Stream_Kind_def)

lemma kind_room_check:
  assumes "stream_ready s"
  shows "(case s_stack s of
            [] \<Rightarrow> if s_limited s \<and> sz > s_remaining s then Some ErrValueTooLarge else None
          | tos # _ \<Rightarrow> if sz > lp_size tos - lp_pos tos then Some ErrElemTooLarge else None) = None
     \<longleftrightarrow> kind_room s (unat sz)"
  using assms
  by (auto simp: kind_room_def stream_ready_def word_less_nat_alt unat_room split: list.splits)

lemma Stream_Kind_sound:
  assumes "Stream_Kind s = (Inr (k, sz), s')" "s_kind s = None" "stream_ready s"
  shows "\<not> at_eol s \<and>
    ((k = KByte \<and> sz = 0 \<and> can_read s 1 \<and> hd (s_in s) < 0x80 \<and>
       s' = (advance 1 s)\<lparr>s_byteval := hd (s_in s), s_kind := Some KByte, s_size := 0, s_kinderr := None\<rparr>) \<or>
     (k \<noteq> KByte \<and> holds_next s (raw_head k (unat sz)) \<and>
       kind_room (advance (length (raw_head k (unat sz))) s) (unat sz) \<and>
       s' = (advance (length (raw_head k (unat sz))) s)
          \<lparr>s_byteval := 0, s_kind := Some k, s_size := sz, s_kinderr := None\<rparr>))"
proof -
  have eol: "\<not> at_eol s" using assms by (auto simp: Stream_Kind_fresh)
  obtain s1 where rk: "Stream_readKind (s\<lparr>s_kinderr := None\<rparr>) = ((k, sz, None), s1)"
    and room: "(case s_stack s1 of
            [] \<Rightarrow> if s_limited s1 \<and> sz > s_remaining s1 then Some ErrValueTooLarge else None
          | tos # _ \<Rightarrow> if sz > lp_size tos - lp_pos tos then Some ErrElemTooLarge else None) = None"
    and s': "s' = s1\<lparr>s_kind := Some k, s_size := sz, s_kinderr := None\<rparr>"
    using assms(1) eol unfolding Stream_Kind_fresh [OF assms(2,3)] Let_def
    by (auto split: prod.splits option.splits)
  have rs: "stream_ready (s\<lparr>s_kinderr := None\<rparr>)" using assms(3) by simp
  from Stream_readKind_sound [OF rk rs] show ?thesis
  proof
    assume "k = KByte \<and> sz = 0 \<and> can_read (s\<lparr>s_kinderr := None\<rparr>) 1 \<and> hd (s_in (s\<lparr>s_kinderr := None\<rparr>)) < 0x80 \<and>
        s1 = (advance 1 (s\<lparr>s_kinderr := None\<rparr>))\<lparr>s_byteval := hd (s_in (s\<lparr>s_kinderr := None\<rparr>))\<rparr>"
    then show ?thesis using eol s' by (simp add: advance_fields)
  next
    assume a: "k \<noteq> KByte \<and> can_read (s\<lparr>s_kinderr := None\<rparr>) (length (raw_head k (unat sz))) \<and>
        take (length (raw_head k (unat sz))) (s_in (s\<lparr>s_kinderr := None\<rparr>)) = raw_head k (unat sz) \<and>
        s1 = (advance (length (raw_head k (unat sz))) (s\<lparr>s_kinderr := None\<rparr>))\<lparr>s_byteval := 0\<rparr>"
    then have "stream_ready s1" using assms(3) by (simp add: advance_fields ready_advance)
    from kind_room_check [OF this] room have "kind_room s1 (unat sz)" by simp
    then have "kind_room (advance (length (raw_head k (unat sz))) s) (unat sz)"
      using a by (simp add: advance_fields)
    then show ?thesis using a eol s' by (simp add: holds_next_def advance_fields)
  qed
qed

lemma Stream_Kind_complete_byte:
  assumes "s_kind s = None" "stream_ready s" "can_read s 1" "hd (s_in s) < 0x80"
  shows "Stream_Kind s = (Inr (KByte, 0),
    (advance 1 s)\<lparr>s_byteval := hd (s_in s), s_kind := Some KByte, s_size := 0, s_kinderr := None\<rparr>)"
proof -
  have "Stream_readKind (s\<lparr>s_kinderr := None\<rparr>) =
      ((KByte, 0, None), (advance 1 s)\<lparr>s_kinderr := None, s_byteval := hd (s_in s)\<rparr>)"
    using Stream_readKind_complete_byte [of "s\<lparr>s_kinderr := None\<rparr>"] assms by (simp add: advance_fields)
  then show ?thesis using assms not_eol_room [OF assms(3)]
    by (simp add: Stream_Kind_fresh Let_def split: list.splits)
qed

lemma Stream_Kind_complete:
  assumes "s_kind s = None" "stream_ready s" "k \<noteq> KByte" "n < 2 ^ 63"
    "holds_next s (raw_head k n)" "kind_room (advance (length (raw_head k n)) s) n"
  shows "Stream_Kind s = (Inr (k, word_of_nat n), (advance (length (raw_head k n)) s)
     \<lparr>s_byteval := 0, s_kind := Some k, s_size := word_of_nat n, s_kinderr := None\<rparr>)"
proof -
  let ?s1 = "(advance (length (raw_head k n)) s)\<lparr>s_kinderr := None, s_byteval := 0\<rparr>"
  have c: "can_read s (length (raw_head k n))" using assms(5) by (simp add: holds_next_def)
  have rk: "Stream_readKind (s\<lparr>s_kinderr := None\<rparr>) = ((k, word_of_nat n, None), ?s1)"
    using Stream_readKind_complete [of "s\<lparr>s_kinderr := None\<rparr>" k n] assms
    by (simp add: advance_fields holds_next_def)
  have "0 < length (raw_head k n)" using assms(3) by (cases k) (auto simp: raw_head_def enc_head_def)
  then have eol: "\<not> at_eol s" using c by (rule not_eol_room [rotated])
  have "kind_room ?s1 (unat (word_of_nat n :: u64))"
    using assms(4,6) by (simp add: unat_of_nat_u64)
  then have "(case s_stack ?s1 of
            [] \<Rightarrow> if s_limited ?s1 \<and> word_of_nat n > s_remaining ?s1 then Some ErrValueTooLarge else None
          | tos # _ \<Rightarrow> if word_of_nat n > lp_size tos - lp_pos tos then Some ErrElemTooLarge else None)
     = None"
    using assms(2) c by (subst kind_room_check) (simp_all add: ready_advance)
  then show ?thesis using eol
    unfolding Stream_Kind_fresh [OF assms(1,2)] rk Let_def by simp
qed

lemma enc_string_byte: "x < 0x80 \<Longrightarrow> enc_string [x] = [x]"
  by (simp add: enc_string_def)

lemma enc_string_head:
  "kind_ok KString c \<Longrightarrow> enc_string c = raw_head KString (length c) @ c"
  by (auto simp: enc_string_def kind_ok_def raw_head_def split: list.splits)

lemma kind_room_can:
  assumes "holds_next s (raw_head k n)" "kind_room (advance (length (raw_head k n)) s) n"
    "n \<le> length (drop (length (raw_head k n)) (s_in s))"
    "n \<le> unat (s_remaining (advance (length (raw_head k n)) s))"
  shows "can_read s (length (raw_head k n) + n)"
proof -
  have "top_room n (s_stack (advance (length (raw_head k n)) s))"
    using assms(2) by (cases "s_stack s") (auto simp: kind_room_def)
  then have "can_read (advance (length (raw_head k n)) s) n" using assms(3,4) by (simp add: can_read_def)
  then show ?thesis using assms(1) by (simp add: holds_next_def can_advance)
qed

lemma can_kind_room:
  "can_read s (h + n) \<Longrightarrow> kind_room (advance h s) n"
  using can_advance [of s h n] can_mono [of s "h + n" h]
  by (cases "s_stack s") (auto simp: kind_room_def can_read_def)

lemma Stream_Bytes_sound:
  assumes k: "Stream_Kind s = (Inr (k, sz), s1)" "k \<noteq> KList"
    and b: "Stream_Bytes s1 = (Inr b, s')" and s: "s_kind s = None" "stream_ready s"
  shows "holds_next s (enc_string b)" "advanced (length (enc_string b)) s s'"
proof -
  have "holds_next s (enc_string b) \<and> advanced (length (enc_string b)) s s'"
  proof (cases k)
    case KByte
    then have s1: "can_read s 1" "hd (s_in s) < 0x80"
      "s1 = (advance 1 s)\<lparr>s_byteval := hd (s_in s), s_kind := Some KByte, s_size := 0, s_kinderr := None\<rparr>"
      using Stream_Kind_sound [OF k(1) s] by auto
    then have "b = [hd (s_in s)]" "s' = s1\<lparr>s_kind := None\<rparr>"
      using b by (auto simp: Stream_Bytes_def bindS_def Stream_Kind_cached)
    moreover have "take 1 (s_in s) = [hd (s_in s)]" using s1(1) by (cases "s_in s") (auto simp: can_read_def)
    moreover have "advanced 1 s (s1\<lparr>s_kind := None\<rparr>)" unfolding s1(3) by (rule advancedI)
    ultimately show ?thesis using s1(1,2)
      by (simp add: enc_string_byte holds_next_def)
  next
    case KString
    let ?h = "raw_head KString (unat sz)"
    have hn: "holds_next s ?h" "kind_room (advance (length ?h) s) (unat sz)"
      "s1 = (advance (length ?h) s)\<lparr>s_byteval := 0, s_kind := Some KString, s_size := sz, s_kinderr := None\<rparr>"
      using Stream_Kind_sound [OF k(1) s] KString by auto
    have r1: "stream_ready s1" using hn s(2) by (simp add: ready_advance holds_next_def)
    obtain s2 where rf: "readFull (unat sz) s1 = (Inr b, s')" and ok: "\<not> (sz = 1 \<and> b ! 0 < 128)"
      using b hn(3) by (auto simp: Stream_Bytes_def bindS_def Stream_Kind_cached failS_def returnS_def
          split: prod.splits sum.splits if_splits)
    then have f: "can_read s1 (unat sz)" "b = take (unat sz) (s_in s1)" "s' = advance (unat sz) s1"
      using readFull_Inr [OF r1] unat_u64_lt by auto
    have len: "length b = unat sz" using f by (simp add: can_read_def)
    have "kind_ok KString b" using ok len by (auto simp: kind_ok_def word_unat_eq_iff)
    then have e: "enc_string b = ?h @ b" using len by (simp add: enc_string_head)
    have e1: "advanced (length ?h) s (s1\<lparr>s_kind := None\<rparr>)" unfolding hn(3) by (rule advancedI)
    have "holds_next (s1\<lparr>s_kind := None\<rparr>) b" using f len by (simp add: holds_next_def)
    then have "holds_next s (?h @ b)" using holds_next_append [OF hn(1) e1] by simp
    moreover have "advanced (length ?h + unat sz) s s'"
      unfolding advanced_def using f(3) hn(3) by (auto simp: advance_fields advance_advance)
    ultimately show ?thesis using e len by simp
  next
    case KList
    then show ?thesis using k(2) by simp
  qed
  then show "holds_next s (enc_string b)" "advanced (length (enc_string b)) s s'" by auto
qed

lemma Stream_Bytes_complete:
  assumes "holds_next s (enc_string b)" "length (enc_string b) < 2 ^ 63" "s_kind s = None" "stream_ready s"
  shows "\<exists>k sz s1 s'. k \<noteq> KList \<and> Stream_Kind s = (Inr (k, sz), s1) \<and> Stream_Bytes s1 = (Inr b, s')"
proof (cases "kind_ok KString b")
  case False
  then obtain x where x: "b = [x]" "x < 0x80"
    by (cases b) (auto simp: kind_ok_def)
  then have hx: "can_read s 1" "hd (s_in s) = x"
    using assms(1) by (cases "s_in s"; auto simp: holds_next_def enc_string_byte)+
  from Stream_Kind_complete_byte [OF assms(3,4) hx(1)] hx x show ?thesis
    by (auto simp: Stream_Bytes_def bindS_def Stream_Kind_cached)
next
  case True
  let ?n = "length b"
  let ?h = "raw_head KString ?n"
  have e: "enc_string b = ?h @ b" using True by (rule enc_string_head)
  have n: "?n < 2 ^ 63" using assms(2) e by simp
  have c: "can_read s (length ?h + ?n)" using assms(1) e by (simp add: holds_next_def)
  have hh: "holds_next s ?h"
    using assms(1) e can_mono [OF c, of "length ?h"]
    by (auto simp: holds_next_def dest: arg_cong [where f = "take (length ?h)"])
  let ?s1 = "(advance (length ?h) s)\<lparr>s_byteval := 0, s_kind := Some KString, s_size := word_of_nat ?n, s_kinderr := None\<rparr>"
  have k: "Stream_Kind s = (Inr (KString, word_of_nat ?n), ?s1)"
    using Stream_Kind_complete [OF assms(3,4) _ n hh can_kind_room [OF c]] by simp
  have e1: "advanced (length ?h) s (?s1\<lparr>s_kind := None\<rparr>)" by (rule advancedI)
  have "holds_next (?s1\<lparr>s_kind := None\<rparr>) b"
    using holds_next_append [OF hh e1] assms(1) e by simp
  then have rf: "readFull ?n ?s1 = (Inr b, advance ?n ?s1)"
    using n hh assms(4) by (subst readFull_Inr) (auto simp: holds_next_def ready_advance)
  have "\<not> ((word_of_nat ?n :: u64) = 1 \<and> b ! 0 < 128)"
    using True n by (auto simp: kind_ok_def word_unat_eq_iff unat_of_nat_u64)
  then have "Stream_Bytes ?s1 = (Inr b, advance ?n ?s1)"
    using rf n by (auto simp: Stream_Bytes_def bindS_def Stream_Kind_cached unat_of_nat_u64 returnS_def)
  then show ?thesis using k by blast
qed

section \<open>Correctness of the decoder\<close>

lemma enc_item_nonempty: "enc_item x \<noteq> []"
  by (cases x) (auto simp: enc_string_def enc_list_def enc_head_def split: list.splits)

lemma no_eol:
  "stream_ready s \<Longrightarrow> willRead n s \<noteq> (Inl EOL, s')"
  "stream_ready s \<Longrightarrow> readByte s \<noteq> (Inl EOL, s')"
  "stream_ready s \<Longrightarrow> readFull m s \<noteq> (Inl EOL, s')"
  "stream_ready s \<Longrightarrow> readUint l s \<noteq> (Inl EOL, s')"
  subgoal by (auto simp: willRead_ready)
  subgoal by (auto simp: readByte_def bindS_def willRead_ready split: list.splits)
  subgoal by (auto simp: readFull_def bindS_def willRead_ready)
  subgoal
    by (auto simp: readUint_def readByte_def readFull_def bindS_def willRead_ready returnS_def failS_def
        split: list.splits prod.splits sum.splits if_splits)
  done

lemma Stream_readKind_no_eol:
  assumes "stream_ready s"
  shows "Stream_readKind s \<noteq> ((k, sz, Some EOL), s')"
proof (cases "can_read s 1")
  case True
  have "stream_ready ((advance 1 s)\<lparr>s_byteval := 0\<rparr>)" using assms True by (simp add: ready_advance)
  then show ?thesis using no_eol(4)
    by (auto simp: Stream_readKind_tag [OF assms True] Let_def read_long_def
        split: prod.splits sum.splits if_splits)
next
  case False
  then obtain e s2 where "readByte s = (Inl e, s2)"
    using assms readByte_Inr by (metis old.prod.exhaust sum.exhaust)
  moreover from this have "e \<noteq> EOL" using no_eol(2) [OF assms] by auto
  ultimately show ?thesis by (auto simp: Stream_readKind_def Let_def)
qed

lemma Stream_Kind_eol:
  assumes "Stream_Kind s = (Inl EOL, s')" "s_kind s = None" "stream_ready s"
  shows "at_eol s" "s' = s\<lparr>s_kinderr := None\<rparr>"
proof -
  have "at_eol s"
  proof (rule ccontr)
    assume n: "\<not> at_eol s"
    obtain k sz err s1 where rk: "Stream_readKind (s\<lparr>s_kinderr := None\<rparr>) = ((k, sz, err), s1)"
      by (metis prod.exhaust)
    then have "err \<noteq> Some EOL" using Stream_readKind_no_eol [of "s\<lparr>s_kinderr := None\<rparr>"] assms(3) by auto
    then show False using assms n rk
      by (auto simp: Stream_Kind_fresh Let_def split: option.splits list.splits if_splits)
  qed
  then show "at_eol s" "s' = s\<lparr>s_kinderr := None\<rparr>"
    using assms by (simp_all add: Stream_Kind_fresh)
qed

lemma Stream_Bytes_no_eol:
  assumes "Stream_Kind s = (Inr (k, sz), s1)" "s_kind s = None" "stream_ready s"
  shows "Stream_Bytes s1 \<noteq> (Inl EOL, s')"
proof -
  have "stream_ready s1 \<and> s_kind s1 = Some k \<and> s_kinderr s1 = None"
    using Stream_Kind_sound [OF assms] assms(3) by (auto simp: ready_advance holds_next_def)
  then show ?thesis using no_eol(3) [of s1]
    by (auto simp: Stream_Bytes_def bindS_def Stream_Kind_cached failS_def returnS_def
        split: Kind.splits prod.splits sum.splits if_splits)
qed

lemma Stream_ListEnd_no_eol: "Stream_ListEnd s \<noteq> (Inl EOL, s')"
  by (auto simp: Stream_ListEnd_def Let_def split: list.splits)

text \<open>Entering and leaving a list.\<close>

lemma Stream_List_cached:
  "s_kind s = Some KList \<Longrightarrow> s_kinderr s = None \<Longrightarrow>
    Stream_List s = (Inr (s_size s), s\<lparr>s_stack := \<lparr>lp_pos = 0, lp_size = s_size s\<rparr> # s_stack s,
       s_kind := None, s_size := 0\<rparr>)"
  by (simp add: Stream_List_def bindS_def Stream_Kind_cached)

lemma list_closed:
  assumes h: "holds_next s (raw_head KList (unat sz))"
    and room: "kind_room (advance (length (raw_head KList (unat sz))) s) (unat sz)"
    and s2: "s2 = (advance (length (raw_head KList (unat sz))) s)
          \<lparr>s_byteval := b, s_kinderr := e, s_kind := None, s_size := z,
           s_stack := \<lparr>lp_pos = 0, lp_size = sz\<rparr> # s_stack (advance (length (raw_head KList (unat sz))) s)\<rparr>"
    and p: "holds_next s2 p" "advanced (length p) s2 s3" "length p = unat sz"
  shows "holds_next s (enc_list p)"
    "\<exists>s4. Stream_ListEnd s3 = (Inr (), s4) \<and> advanced (length (enc_list p)) s s4"
proof -
  let ?h = "raw_head KList (unat sz)"
  have e: "enc_list p = ?h @ p" using p(3) by (simp add: enc_list_def raw_head_def)
  have c: "can_read s (length ?h)" using h by (simp add: holds_next_def)
  have ps: "can_read s2 (unat sz)" "take (unat sz) (s_in s2) = p"
    using p by (auto simp: holds_next_def)
  then have "unat sz \<le> length (drop (length ?h) (s_in s))" "unat sz \<le> unat (s_remaining (advance (length ?h) s))"
    using s2 by (auto simp: can_read_def)
  then have c2: "can_read s (length ?h + unat sz)" using kind_room_can [OF h room] by simp
  have e1: "advanced (length ?h) s (advance (length ?h) s)"
    using advancedI [of "length ?h" s] unfolding advanced_def by (intro exI [of _ "s_byteval s"] exI [of _ "s_size s"] exI [of _ "s_kinderr s"]) (simp add: advance_def)
  have "holds_next (advance (length ?h) s) p"
    using c2 c p(3) ps(2) s2 by (simp add: holds_next_def can_advance)
  then show "holds_next s (enc_list p)" using holds_next_append [OF h e1] e by simp
  obtain b' z' e' where s3: "s3 = (advance (length p) s2)\<lparr>s_byteval := b', s_size := z', s_kinderr := e'\<rparr>"
    using p(2) by (auto simp: advanced_def)
  have st: "s_stack s3 = \<lparr>lp_pos = sz, lp_size = sz\<rparr> # bump (word_of_nat (length ?h)) (s_stack s)"
    using s3 s2 p(3) by simp
  let ?s4 = "s3\<lparr>s_stack := bump sz (bump (word_of_nat (length ?h)) (s_stack s)), s_kind := None, s_size := 0\<rparr>"
  have le: "Stream_ListEnd s3 = (Inr (), ?s4)"
    unfolding Stream_ListEnd_def st by (cases "s_stack s") simp_all
  have bb: "bump sz (bump (word_of_nat (length ?h)) (s_stack s)) = bump (word_of_nat (length ?h + unat sz)) (s_stack s)"
    by (cases "s_stack s") (simp_all add: add.assoc)
  have "?s4 = (advance (length ?h + unat sz) s)\<lparr>s_byteval := b', s_size := 0, s_kinderr := e'\<rparr>"
    unfolding s3 s2 bb p(3) by (simp add: advance_def add.commute diff_diff_eq)
  then have "advanced (length (enc_list p)) s ?s4" unfolding advanced_def using e p(3) by auto
  then show "\<exists>s4. Stream_ListEnd s3 = (Inr (), s4) \<and> advanced (length (enc_list p)) s s4"
    using le by blast
qed

lemma holds_next_prefix:
  assumes "holds_next s (c @ d)"
  shows "holds_next s c"
proof -
  have "take (length c) (s_in s) = take (length c) (take (length (c @ d)) (s_in s))" by simp
  also have "\<dots> = c" using assms by (simp add: holds_next_def)
  finally show ?thesis
    using assms can_mono [of s "length (c @ d)" "length c"] by (simp add: holds_next_def)
qed

lemma advance_0: "s_kind s = None \<Longrightarrow> advance 0 s = s"
  by (cases "s_stack s") (simp_all add: advance_def)

lemma advanced_0: "s_kind s = None \<Longrightarrow> advanced 0 s (s\<lparr>s_kinderr := e\<rparr>)"
  unfolding advanced_def
  by (rule exI [of _ "s_byteval s"], rule exI [of _ "s_size s"], rule exI [of _ e]) (simp add: advance_0)

lemma advanced_0_refl: "s_kind s = None \<Longrightarrow> advanced 0 s s"
  using advanced_0 [of s "s_kinderr s"] by simp

lemma holds_next_Nil: "stream_ready s \<Longrightarrow> holds_next s []"
  by (simp add: holds_next_def can_read_def stream_ready_def)

abbreviation payload :: "item list \<Rightarrow> bytes" where
  "payload xs \<equiv> concat (map enc_item xs)"

lemma enter_list:
  assumes "Stream_Kind s = (Inr (KList, z), s1)" "s_kind s = None" "stream_ready s"
  shows "\<exists>s2. Stream_List s1 = (Inr z, s2) \<and> s_kind s2 = None \<and> stream_ready s2 \<and>
     s_stack s2 = \<lparr>lp_pos = 0, lp_size = z\<rparr> # s_stack (advance (length (raw_head KList (unat z))) s) \<and>
     s_in s2 = drop (length (raw_head KList (unat z))) (s_in s) \<and>
     s_remaining s2 = s_remaining (advance (length (raw_head KList (unat z))) s) \<and>
     (\<forall>p s3. holds_next s2 p \<longrightarrow> advanced (length p) s2 s3 \<longrightarrow> length p = unat z \<longrightarrow>
        holds_next s (enc_list p) \<and>
        (\<exists>s4. Stream_ListEnd s3 = (Inr (), s4) \<and> advanced (length (enc_list p)) s s4))"
proof -
  let ?h = "raw_head KList (unat z)"
  have k: "holds_next s ?h" "kind_room (advance (length ?h) s) (unat z)"
    "s1 = (advance (length ?h) s)\<lparr>s_byteval := 0, s_kind := Some KList, s_size := z, s_kinderr := None\<rparr>"
    using Stream_Kind_sound [OF assms] by auto
  define s2 where "s2 = (advance (length ?h) s)\<lparr>s_byteval := 0, s_kinderr := None, s_kind := None,
     s_size := 0, s_stack := \<lparr>lp_pos = 0, lp_size = z\<rparr> # s_stack (advance (length ?h) s)\<rparr>"
  have "Stream_List s1 = (Inr z, s2)" unfolding k(3) s2_def by (simp add: Stream_List_cached)
  moreover have "stream_ready s2" "s_kind s2 = None"
    "s_stack s2 = \<lparr>lp_pos = 0, lp_size = z\<rparr> # s_stack (advance (length ?h) s)"
    "s_in s2 = drop (length ?h) (s_in s)" "s_remaining s2 = s_remaining (advance (length ?h) s)"
    using assms(3) by (simp_all add: stream_ready_def s2_def)
  ultimately show ?thesis using list_closed [OF k(1,2) s2_def] by blast
qed

lemma decode_sound:
  "decodeInterface fuel s = (r, s') \<Longrightarrow> s_kind s = None \<Longrightarrow> stream_ready s \<Longrightarrow>
     (\<forall>x. r = Inr (Some x) \<longrightarrow> holds_next s (enc_item x) \<and> advanced (length (enc_item x)) s s') \<and>
     (r = Inl EOL \<longrightarrow> at_eol s \<and> s' = s\<lparr>s_kinderr := None\<rparr>)"
  "decodeSliceElems fuel s = (q, s') \<Longrightarrow> s_kind s = None \<Longrightarrow> stream_ready s \<Longrightarrow>
     (\<forall>xs. q = Inr (Some xs) \<longrightarrow>
        holds_next s (payload xs) \<and> advanced (length (payload xs)) s s' \<and> at_eol s') \<and>
     q \<noteq> Inl EOL"
proof (induction fuel s and fuel s arbitrary: r s' and q s' rule: decodeInterface_decodeSliceElems.induct)
  case (1 s)
  then show ?case by auto
next
  case (2 fuel s)
  obtain rk s1 where kd: "Stream_Kind s = (rk, s1)" by fastforce
  show ?case
  proof (cases rk)
    case (Inl e)
    then show ?thesis using 2(2-) kd Stream_Kind_eol [of s s1] by auto
  next
    case (Inr kz)
    obtain k z where kz: "kz = (k, z)" by fastforce
    note kd' = kd [unfolded Inr kz]
    show ?thesis
    proof (cases "k = KList")
      case False
      then show ?thesis
        using 2(2-) kd' Stream_Bytes_sound [OF kd'] Stream_Bytes_no_eol [OF kd']
        by (auto split: prod.splits sum.splits)
    next
      case True
      note kl = kd' [unfolded True]
      obtain s2 where sl: "Stream_List s1 = (Inr z, s2)" and r2: "s_kind s2 = None" "stream_ready s2"
        and st: "s_stack s2 = \<lparr>lp_pos = 0, lp_size = z\<rparr> # s_stack (advance (length (raw_head KList (unat z))) s)"
        and close: "\<And>p s3. holds_next s2 p \<Longrightarrow> advanced (length p) s2 s3 \<Longrightarrow> length p = unat z \<Longrightarrow>
          holds_next s (enc_list p) \<and>
          (\<exists>s4. Stream_ListEnd s3 = (Inr (), s4) \<and> advanced (length (enc_list p)) s s4)"
        using enter_list [OF kl 2(3,4)] by blast
      show ?thesis
      proof (cases "z = 0")
        case True
        then obtain s4 where "holds_next s (enc_list [])" "Stream_ListEnd s2 = (Inr (), s4)"
          "advanced (length (enc_list [])) s s4"
          using close [of "[]" s2] r2 holds_next_Nil advanced_0_refl by auto
        then show ?thesis using 2(2) kl sl True by auto
      next
        case False
        obtain q s3 where el: "decodeSliceElems fuel s2 = (q, s3)" by fastforce
        note IH = 2(1) [OF kl [symmetric] refl refl refl sl [symmetric] refl False el r2]
        show ?thesis
        proof (cases "\<exists>xs. q = Inr (Some xs)")
          case True
          then obtain xs where q: "q = Inr (Some xs)" by blast
          then have p: "holds_next s2 (payload xs)" "advanced (length (payload xs)) s2 s3" "at_eol s3"
            using IH by auto
          have "word_of_nat (length (payload xs)) = z"
            using p(3) st advanced_sel(3) [OF p(2)] by (simp add: at_eol_def)
          moreover have "length (payload xs) < 2 ^ 64"
            using p(1) can_lt by (auto simp: holds_next_def)
          ultimately have "length (payload xs) = unat z" by (metis unat_of_nat_u64)
          then show ?thesis using close [OF p(1,2)] 2(2) kl sl False el q by auto
        next
          case nq: False
          then show ?thesis using IH 2(2) kl sl False el
            by (auto split: sum.splits option.splits)
        qed
      qed
    qed
  qed
next
  case (3 s)
  then show ?case by auto
next
  case (4 fuel s)
  obtain ri s1 where di: "decodeInterface fuel s = (ri, s1)" by fastforce
  note IH1 = 4(1) [OF di 4(4,5)]
  show ?case
  proof (cases "\<exists>x. ri = Inr (Some x)")
    case True
    then obtain x where ri: "ri = Inr (Some x)" by blast
    then have x: "holds_next s (enc_item x)" "advanced (length (enc_item x)) s s1" using IH1 by auto
    then have r1: "s_kind s1 = None" "stream_ready s1"
      using advanced_sel(2,5) [OF x(2)] 4(5) by (auto simp: holds_next_def)
    obtain q' s2 where el: "decodeSliceElems fuel s1 = (q', s2)" by fastforce
    note IH2 = 4(2) [OF di [symmetric] ri refl el r1]
    show ?thesis
    proof (cases "\<exists>xs. q' = Inr (Some xs)")
      case True
      then obtain xs where q': "q' = Inr (Some xs)" by blast
      then have "holds_next s1 (payload xs)" "advanced (length (payload xs)) s1 s2" "at_eol s2"
        using IH2 by auto
      then have "holds_next s (enc_item x @ payload xs)"
        "advanced (length (enc_item x) + length (payload xs)) s s2" "at_eol s2"
        using holds_next_append [OF x] advanced_trans [OF x(2)] by auto
      then show ?thesis using 4(3) di ri el q' by auto
    next
      case False
      then show ?thesis using IH2 4(3) di ri el by (auto split: sum.splits option.splits)
    qed
  next
    case False
    then show ?thesis
      using IH1 4(3-) di holds_next_Nil [OF 4(5)] advanced_0 [OF 4(4), of None]
      by (auto simp: at_eol_def split: sum.splits option.splits if_splits)
  qed
qed

lemma raw_head_KList_pos: "0 < length (raw_head KList n)"
  by (simp add: raw_head_def enc_head_def)

lemma decode_complete:
  "holds_next s (enc_item x) \<Longrightarrow> s_kind s = None \<Longrightarrow> stream_ready s \<Longrightarrow> length (enc_item x) < 2 ^ 63 \<Longrightarrow>
     2 * length (enc_item x) + 1 \<le> fuel \<Longrightarrow> \<exists>s'. decodeInterface fuel s = (Inr (Some x), s')"
  "holds_next s (payload xs) \<Longrightarrow> s_kind s = None \<Longrightarrow> stream_ready s \<Longrightarrow> length (payload xs) < 2 ^ 63 \<Longrightarrow>
     s_stack s = tos # ts \<Longrightarrow> unat (lp_pos tos) + length (payload xs) = unat (lp_size tos) \<Longrightarrow>
     2 * length (payload xs) + 2 \<le> fuel \<Longrightarrow> \<exists>s'. decodeSliceElems fuel s = (Inr (Some xs), s')"
proof (induction fuel s and fuel s arbitrary: x and xs tos ts
    rule: decodeInterface_decodeSliceElems.induct)
  case (1 s)
  then show ?case by simp
next
  case (2 fuel s)
  show ?case
  proof (cases x)
    case (IStr b)
    then obtain k sz s1 s' where "k \<noteq> KList" "Stream_Kind s = (Inr (k, sz), s1)"
      "Stream_Bytes s1 = (Inr b, s')"
      using Stream_Bytes_complete [of s b] 2(2-) by auto
    then show ?thesis using IStr by simp
  next
    case (IList xs)
    let ?p = "payload xs"
    let ?n = "length ?p"
    let ?h = "raw_head KList ?n"
    have e: "enc_item x = ?h @ ?p" using IList by (simp add: enc_list_def raw_head_def)
    have n: "?n < 2 ^ 63" "unat (word_of_nat ?n :: u64) = ?n"
      using 2(5) e by (simp_all add: unat_of_nat_u64)
    have c: "can_read s (length ?h + ?n)" and tk: "take (length ?h + ?n) (s_in s) = ?h @ ?p"
      using 2(2) e by (simp_all add: holds_next_def)
    have tk1: "take (length ?h) (s_in s) = ?h"
      using arg_cong [OF tk, of "take (length ?h)"] by simp
    have tk2: "take ?n (drop (length ?h) (s_in s)) = ?p"
      using tk tk1 by (simp add: take_add)
    have hh: "holds_next s ?h" using can_mono [OF c] tk1 by (simp add: holds_next_def)
    obtain s1 where kd: "Stream_Kind s = (Inr (KList, word_of_nat ?n), s1)"
      using Stream_Kind_complete [OF 2(3,4) _ n(1) hh can_kind_room [OF c]] by auto
    obtain s2 where sl: "Stream_List s1 = (Inr (word_of_nat ?n), s2)" and r2: "s_kind s2 = None" "stream_ready s2"
      and st: "s_stack s2 = \<lparr>lp_pos = 0, lp_size = word_of_nat ?n\<rparr> # s_stack (advance (length ?h) s)"
      and in2: "s_in s2 = drop (length ?h) (s_in s)" "s_remaining s2 = s_remaining (advance (length ?h) s)"
      and close: "\<And>p s3. holds_next s2 p \<Longrightarrow> advanced (length p) s2 s3 \<Longrightarrow> length p = ?n \<Longrightarrow>
        (\<exists>s4. Stream_ListEnd s3 = (Inr (), s4))"
      using enter_list [OF kd 2(3,4), unfolded n(2)] by blast
    have "can_read (advance (length ?h) s) ?n" using can_advance [of s "length ?h"] can_mono [OF c, of "length ?h"] c by simp
    then have "can_read s2 ?n" using st in2 n(2) by (simp add: can_read_def)
    then have hp: "holds_next s2 ?p" using tk2 in2 by (simp add: holds_next_def)
    show ?thesis
    proof (cases "?n = 0")
      case True
      then have "xs = []" using enc_item_nonempty by (cases xs) auto
      moreover obtain s4 where "Stream_ListEnd s2 = (Inr (), s4)"
        using close [OF hp, of s2] True advanced_0_refl [OF r2(1)] by auto
      ultimately show ?thesis using kd sl IList by simp
    next
      case False
      have nz: "(word_of_nat ?n :: u64) \<noteq> 0" using False n(2) by auto
      have "0 < length ?h" by (rule raw_head_KList_pos)
      then have fl: "2 * ?n + 2 \<le> fuel" using 2(6) e by (simp del: length_greater_0_conv)
      obtain s3 where el: "decodeSliceElems fuel s2 = (Inr (Some xs), s3)"
        using 2(1) [OF kd [symmetric] refl refl refl sl [symmetric] refl nz hp r2 n(1) st _ fl] n(2) by auto
      have "advanced ?n s2 s3" using decode_sound(2) [OF el r2] by simp
      then obtain s4 where "Stream_ListEnd s3 = (Inr (), s4)" using close [OF hp] by auto
      then show ?thesis using kd sl IList nz el by simp
    qed
  qed
next
  case (3 s)
  then show ?case by simp
next
  case (4 fuel s)
  show ?case
  proof (cases xs)
    case Nil
    then have eol: "at_eol s" using 4(7,8) by (simp add: at_eol_def word_unat_eq_iff)
    then have "Stream_Kind s = (Inl EOL, s\<lparr>s_kinderr := None\<rparr>)"
      using Stream_Kind_fresh [OF 4(4,5)] by simp
    moreover obtain f where "fuel = Suc f" using 4(9) by (cases fuel) auto
    ultimately show ?thesis using Nil by simp
  next
    case (Cons x ys)
    let ?e = "enc_item x" and ?p = "payload ys"
    have pos: "0 < length ?e" using enc_item_nonempty by auto
    have hs: "holds_next s (?e @ ?p)" using 4(3) Cons by simp
    have he: "holds_next s ?e" using hs by (rule holds_next_prefix)
    obtain s1 where di: "decodeInterface fuel s = (Inr (Some x), s1)"
      using 4(1) [OF he 4(4,5)] 4(6,9) Cons by auto
    have ea: "advanced (length ?e) s s1" using decode_sound(1) [OF di 4(4,5)] by simp
    have r1: "s_kind s1 = None" "stream_ready s1"
      using advanced_sel(2,5) [OF ea] he 4(5) by (auto simp: holds_next_def)
    have hp: "holds_next s1 ?p" using holds_next_append [OF he ea] hs by simp
    have lt: "length ?p < 2 ^ 63" "length ?e < 2 ^ 63" using 4(6) Cons by simp_all
    have st: "s_stack s1 = tos\<lparr>lp_pos := lp_pos tos + word_of_nat (length ?e)\<rparr> # ts"
      using advanced_sel(3) [OF ea] 4(7) by simp
    have "unat (lp_pos tos + word_of_nat (length ?e)) = unat (lp_pos tos) + length ?e"
      using 4(8) Cons lt unat_u64_lt [of "lp_size tos"] by (simp add: unat_word_ariths unat_of_nat_u64)
    then have "unat (lp_pos (tos\<lparr>lp_pos := lp_pos tos + word_of_nat (length ?e)\<rparr>)) + length ?p =
        unat (lp_size (tos\<lparr>lp_pos := lp_pos tos + word_of_nat (length ?e)\<rparr>))"
      using 4(8) Cons by simp
    moreover have "2 * length ?p + 2 \<le> fuel"
      using 4(9) Cons pos by (simp del: length_greater_0_conv)
    ultimately obtain s2 where "decodeSliceElems fuel s1 = (Inr (Some ys), s2)"
      using 4(2) [OF di [symmetric] refl refl hp r1 lt(1) st] by auto
    then show ?thesis using di Cons by simp
  qed
qed

lemma decode_fuel:
  "s_kind s = None \<Longrightarrow> stream_ready s \<Longrightarrow> 2 * length (s_in s) + 1 \<le> fuel \<Longrightarrow>
     decodeInterface fuel s \<noteq> (Inr None, s')"
  "s_kind s = None \<Longrightarrow> stream_ready s \<Longrightarrow> 2 * length (s_in s) + 2 \<le> fuel \<Longrightarrow>
     decodeSliceElems fuel s \<noteq> (Inr None, s')"
proof (induction fuel s and fuel s arbitrary: s' and s' rule: decodeInterface_decodeSliceElems.induct)
  case (2 fuel s)
  obtain rk s1 where kd: "Stream_Kind s = (rk, s1)" by fastforce
  show ?case
  proof (cases "\<exists>z. rk = Inr (KList, z)")
    case True
    then obtain z where kl: "Stream_Kind s = (Inr (KList, z), s1)" using kd by auto
    obtain s2 where sl: "Stream_List s1 = (Inr z, s2)" and r2: "s_kind s2 = None" "stream_ready s2"
      and in2: "s_in s2 = drop (length (raw_head KList (unat z))) (s_in s)"
      using enter_list [OF kl 2(2,3)] by blast
    have "can_read s (length (raw_head KList (unat z)))"
      using Stream_Kind_sound [OF kl 2(2,3)] by (auto simp: holds_next_def)
    then have "2 * length (s_in s2) + 2 \<le> fuel"
      using in2 2(4) raw_head_KList_pos [of "unat z"] by (simp only: can_read_def length_drop) arith
    note IH = 2(1) [OF kl [symmetric] refl refl refl sl [symmetric] refl _ r2 this]
    show ?thesis using IH kl sl by (auto split: prod.splits sum.splits option.splits)
  next
    case False
    then show ?thesis using kd by (auto split: prod.splits sum.splits)
  qed
next
  case (4 fuel s)
  obtain ri s1 where di: "decodeInterface fuel s = (ri, s1)" by fastforce
  have ni: "ri \<noteq> Inr None" using 4(1) [OF 4(3,4)] 4(5) di by auto
  show ?case
  proof (cases "\<exists>x. ri = Inr (Some x)")
    case True
    then obtain x where ri: "ri = Inr (Some x)" by blast
    then have x: "holds_next s (enc_item x)" "advanced (length (enc_item x)) s s1"
      using decode_sound(1) [OF di 4(3,4)] by auto
    then have r1: "s_kind s1 = None" "stream_ready s1" "s_in s1 = drop (length (enc_item x)) (s_in s)"
      using advanced_sel(1,2,5) [OF x(2)] 4(4) by (auto simp: holds_next_def)
    have "0 < length (enc_item x)" using enc_item_nonempty by auto
    then have "2 * length (s_in s1) + 2 \<le> fuel"
      using r1(3) 4(5) x(1) by (simp only: holds_next_def can_read_def length_drop) arith
    note IH = 4(2) [OF di [symmetric] ri refl r1(1,2) this]
    show ?thesis using IH di ri by (auto split: prod.splits sum.splits option.splits)
  next
    case False
    then show ?thesis using di ni by (auto split: sum.splits option.splits)
  qed
qed auto

lemma Stream_Reset_ready:
  assumes "length b < 2 ^ 63"
  shows "s_kind (Stream_Reset b (word_of_nat (length b))) = None"
    "stream_ready (Stream_Reset b (word_of_nat (length b)))"
    "s_in (Stream_Reset b (word_of_nat (length b))) = b"
    "holds_next (Stream_Reset b (word_of_nat (length b))) c \<longleftrightarrow> take (length c) b = c"
  using assms by (auto simp: Stream_Reset_def stream_ready_def holds_next_def can_read_def unat_of_nat_u64)
    (metis length_take min.absorb_iff1 min.commute)+

lemma DecodeBytes_canonical:
  assumes "length b < 2 ^ 63"
  shows "(DecodeBytes (2 * length b + 1) b = Inr (Some x) \<longleftrightarrow> b = enc_item x) \<and>
    DecodeBytes (2 * length b + 1) b \<noteq> Inr None"
proof -
  define fuel where "fuel = 2 * length b + 1"
  let ?s = "Stream_Reset b (word_of_nat (length b))"
  note rs = Stream_Reset_ready [OF assms]
  obtain r s' where d: "decodeInterface fuel ?s = (r, s')" by fastforce
  have "DecodeBytes (2 * length b + 1) b = Inr (Some x) \<longleftrightarrow> b = enc_item x"
    unfolding fuel_def [symmetric]
  proof
    assume "DecodeBytes fuel b = Inr (Some x)"
    then have r: "r = Inr (Some x)" "s_in s' = []" using d by (auto simp: DecodeBytes_def split: sum.splits if_splits)
    then have "holds_next ?s (enc_item x)" "advanced (length (enc_item x)) ?s s'"
      using decode_sound(1) [OF d rs(1,2)] by auto
    then show "b = enc_item x"
      using rs(3,4) r(2) advanced_sel(1) by (metis append_Nil2 append_take_drop_id)
  next
    assume b: "b = enc_item x"
    then have hn: "holds_next ?s (enc_item x)" using rs(4) by simp
    obtain s2 where d2: "decodeInterface fuel ?s = (Inr (Some x), s2)"
      using decode_complete(1) [OF hn rs(1,2), of fuel] assms b fuel_def by auto
    then have "advanced (length (enc_item x)) ?s s2" using decode_sound(1) [OF d2 rs(1,2)] by simp
    then have "s_in s2 = []" using advanced_sel(1) rs(3) b by (metis drop_all order_refl)
    then show "DecodeBytes fuel b = Inr (Some x)" using d2 by (simp add: DecodeBytes_def)
  qed
  moreover have "DecodeBytes (2 * length b + 1) b \<noteq> Inr None"
    unfolding fuel_def [symmetric]
    using decode_fuel(1) [OF rs(1,2), of fuel s'] rs(3) d fuel_def
    by (auto simp: DecodeBytes_def split: sum.splits)
  ultimately show ?thesis by blast
qed

section \<open>Unique decodability of items\<close>

lemma enc_list_raw: "enc_list p = raw_enc KList p"
  by (simp add: enc_list_def raw_enc_def raw_head_def)

lemma enc_item_unique:
  "length (enc_item x @ r) < 2 ^ 63 \<Longrightarrow> enc_item x @ r = enc_item y @ s \<Longrightarrow> x = y \<and> r = s"
proof (induction x arbitrary: r y s)
  case (IStr b)
  then obtain c where "y = IStr c"
    using string_not_list [of b r] by (cases y) (auto simp: enc_list_raw)
  then show ?case using IStr rlp_string.code_unique [of b r c s] by (simp only: enc_item.simps item.inject)
next
  case (IList xs)
  obtain ys where y: "y = IList ys"
  proof (cases y)
    case (IStr c)
    have "length (enc_string c @ s) < 2 ^ 63" "enc_string c @ s = raw_enc KList (concat (map enc_item xs)) @ r"
      using IList(2,3) IStr by (simp_all only: enc_item.simps enc_list_raw)
    then show ?thesis using string_not_list by blast
  qed
  have eq: "concat (map enc_item xs) = concat (map enc_item ys) \<and> r = s"
    using raw_enc_unique [of KList "concat (map enc_item xs)" r KList "concat (map enc_item ys)" s] IList(2,3) y
    by (simp only: enc_item.simps enc_list_raw kind_ok_def Kind.case simp_thms)
  have len: "length (concat (map enc_item xs)) < 2 ^ 63"
    using IList(2) by (simp add: enc_list_def)
  have "xs = ys"
    by (rule concat_unique [OF enc_item_nonempty _ len conjunct1 [OF eq]]) (erule (2) IList(1))
  then show ?case using eq y by simp
qed

interpretation rlp_item: prefix_code enc_item
  by (rule prefix_code.intro) (rule enc_item_nonempty, rule enc_item_unique)

text \<open>
  C26. Decoding a byte slice into an empty interface succeeds with value \<open>x\<close> exactly on the
  canonical encoding of \<open>x\<close>, with no trailing bytes; the fuel of the model never runs out. So every
  value has one accepted encoding and every accepted input one value.
\<close>

theorem DecodeBytes_iff:
  assumes "length b < 2 ^ 63"
  shows "(DecodeBytes (2 * length b + 1) b = Inr (Some x) \<longleftrightarrow> b = enc_item x) \<and>
    DecodeBytes (2 * length b + 1) b \<noteq> Inr None"
  by (rule DecodeBytes_canonical [OF assms])

theorem DecodeBytes_iff_witness:
  "DecodeBytes 15 [0xC6, 0x82, 200, 7, 0xC1, 0x80, 5] = Inr (Some (IList [IStr [200, 7], IList [IStr []], IStr [5]]))"
  using DecodeBytes_iff [of "[0xC6, 0x82, 200, 7, 0xC1, 0x80, 5]"
      "IList [IStr [200, 7], IList [IStr []], IStr [5]]"]
  by (simp add: enc_string_def enc_list_def enc_head_def)

end
