(* ===== verification/RlpTyped.thy ===== *)
theory RlpTyped
  imports RlpStream
begin

text \<open>
  The reflective decoders of package \<^verbatim>\<open>rlp\<close> (makeDecoder and the functions it selects,
  src/rlp/decode.go) for every kind of type the package supports without a \<open>DecodeRLP\<close> method of its
  own, with the proof that for each such type decoding and encoding are inverse to each other.
  \<open>wrapStreamError\<close> and \<open>addErrorContext\<close> only change the text of an error and are left out.
\<close>

section \<open>Types and decoders\<close>

text \<open>
  One constructor per case of makeDecoder. \<open>TStruct\<close> has the types of the fields and, for a last field
  tagged \<open>tail\<close>, its element type; \<open>TPtr\<close> has \<open>nilOK\<close> and \<open>nilKind\<close> of the struct tag (or the default
  kind of the element type).
\<close>

datatype rtype =
    TRawValue
  | TBigIntPtr
  | TBigInt
  | TUint nat
  | TBool
  | TString
  | TBytes
  | TByteArray nat
  | TSlice rtype
  | TArray nat rtype
  | TStruct "rtype list" "rtype option"
  | TInterface
  | TPtr bool Kind rtype

text \<open>
  The reflected Go value of a decoded item: \<open>decodeInterface\<close> stores a \<open>[]byte\<close> or a
  \<open>[]interface{}\<close> in the interface it is given.
\<close>

fun item_val :: "item \<Rightarrow> rval" where
  "item_val (IStr b) = BytesVal b"
| "item_val (IList xs) = SliceVal False (map (\<lambda>x. InterfaceVal (Some (item_val x))) xs)"

lemma enc_item_val: "enc_val (item_val x) = enc_item x"
  by (induction x) (simp_all add: o_def cong: map_cong)

lemma item_val_nonneg: "\<not> has_negative (item_val x)"
  by (induction x) auto

definition decodeRawValue :: "rval option decode" where
  "decodeRawValue = bindS Stream_Raw (\<lambda>r. returnS (Some (RawValue r)))"

definition decodeUint :: "nat \<Rightarrow> rval option decode" where
  "decodeUint bits = bindS (Stream_uint bits) (\<lambda>num. returnS (Some (UintVal num)))"

definition decodeBool :: "rval option decode" where
  "decodeBool = bindS Stream_Bool (\<lambda>b. returnS (Some (BoolVal b)))"

definition decodeString :: "rval option decode" where
  "decodeString = bindS Stream_Bytes (\<lambda>b. returnS (Some (StringVal b)))"

definition decodeByteSlice :: "rval option decode" where
  "decodeByteSlice = bindS Stream_Bytes (\<lambda>b. returnS (Some (BytesVal b)))"

definition decodeBigInt :: "(int \<Rightarrow> rval) \<Rightarrow> rval option decode" where
  "decodeBigInt wrap = bindS Stream_Bytes (\<lambda>b.
     if length b > 0 \<and> b ! 0 = 0 then failS ErrCanonInt else returnS (Some (wrap (int (be_nat b)))))"

text \<open>
  The element loop of slices, ended by the \<open>EOL\<close> of the enclosing list. Its fuel bounds the number of
  elements; running out is \<open>Inr None\<close>.
\<close>

fun decodeElems :: "nat \<Rightarrow> 'a option decode \<Rightarrow> 'a list option decode" where
  "decodeElems 0 elemdec s = (Inr None, s)"
| "decodeElems (Suc fuel) elemdec s =
     (case elemdec s of
        (Inl e, s1) \<Rightarrow> if e = EOL then (Inr (Some []), s1) else (Inl e, s1)
      | (Inr None, s1) \<Rightarrow> (Inr None, s1)
      | (Inr (Some x), s1) \<Rightarrow>
          (case decodeElems fuel elemdec s1 of
             (Inl e, s2) \<Rightarrow> (Inl e, s2)
           | (Inr None, s2) \<Rightarrow> (Inr None, s2)
           | (Inr (Some xs), s2) \<Rightarrow> (Inr (Some (x # xs)), s2)))"

text \<open>
  The element loop of arrays and the field loop of structs: a fixed sequence of decoders, where the
  end of the list is an error.
\<close>

fun decodeSeq :: "'a option decode list \<Rightarrow> 'a list option decode" where
  "decodeSeq [] s = (Inr (Some []), s)"
| "decodeSeq (dec # decs) s =
     (case dec s of
        (Inl e, s1) \<Rightarrow> (Inl (if e = EOL then ErrTooFewElements else e), s1)
      | (Inr None, s1) \<Rightarrow> (Inr None, s1)
      | (Inr (Some x), s1) \<Rightarrow>
          (case decodeSeq decs s1 of
             (Inl e, s2) \<Rightarrow> (Inl e, s2)
           | (Inr None, s2) \<Rightarrow> (Inr None, s2)
           | (Inr (Some xs), s2) \<Rightarrow> (Inr (Some (x # xs)), s2)))"

text \<open>Running a body between \<open>List\<close> and \<open>ListEnd\<close>, as the list decoders do.\<close>

definition within_list :: "(u64 \<Rightarrow> 'a list option decode) \<Rightarrow> 'a list option decode" where
  "within_list body = bindS Stream_List (\<lambda>sz. bindS (body sz) (\<lambda>xs.
     if xs = None then returnS None else bindS Stream_ListEnd (\<lambda>_. returnS xs)))"

definition decodeListSlice :: "nat \<Rightarrow> rval option decode \<Rightarrow> rval option decode" where
  "decodeListSlice fuel elemdec = bindS
     (within_list (\<lambda>sz. if sz = 0 then returnS (Some []) else decodeElems fuel elemdec))
     (\<lambda>xs. returnS (map_option (SliceVal False) xs))"

definition decodeListArray :: "nat \<Rightarrow> rval option decode \<Rightarrow> rval option decode" where
  "decodeListArray vlen elemdec = bindS
     (within_list (\<lambda>_. decodeSeq (replicate vlen elemdec)))
     (\<lambda>xs. returnS (map_option (SliceVal False) xs))"

definition decodeStruct :: "nat \<Rightarrow> rval option decode list \<Rightarrow> rval option decode option \<Rightarrow> rval option decode" where
  "decodeStruct fuel decs tail = bindS
     (within_list (\<lambda>_.
        case tail of
          None \<Rightarrow> decodeSeq decs
        | Some elemdec \<Rightarrow> bindS (decodeSeq decs) (\<lambda>xs.
            case xs of None \<Rightarrow> returnS None
            | Some vs \<Rightarrow> bindS (decodeElems fuel elemdec) (\<lambda>ws.
                returnS (map_option (\<lambda>ws. vs @ [SliceVal True ws]) ws)))))
     (\<lambda>xs. returnS (map_option StructVal xs))"

definition decodePtr :: "bool \<Rightarrow> Kind \<Rightarrow> rval option decode \<Rightarrow> rval option decode" where
  "decodePtr nilOK nilKind dec =
    (if nilOK then bindS Stream_Kind (\<lambda>(kind, sz).
       if kind \<noteq> KByte \<and> sz = 0 then
         if kind \<noteq> nilKind then failS ErrWrongEmptyKind
         else (\<lambda>s. (Inr (Some (PtrVal nilKind None)), s\<lparr>s_kind := None\<rparr>))
       else bindS dec (\<lambda>v. returnS (map_option (\<lambda>v. PtrVal nilKind (Some v)) v)))
     else bindS dec (\<lambda>v. returnS (map_option (\<lambda>v. PtrVal nilKind (Some v)) v)))"

fun makeDecoder :: "nat \<Rightarrow> rtype \<Rightarrow> rval option decode" where
  "makeDecoder fuel TRawValue = decodeRawValue"
| "makeDecoder fuel TBigIntPtr = decodeBigInt (\<lambda>i. BigIntPtr (Some i))"
| "makeDecoder fuel TBigInt = decodeBigInt BigIntNoPtr"
| "makeDecoder fuel (TUint bits) = decodeUint bits"
| "makeDecoder fuel TBool = decodeBool"
| "makeDecoder fuel TString = decodeString"
| "makeDecoder fuel TBytes = decodeByteSlice"
| "makeDecoder fuel (TByteArray n) = bindS (decodeByteArray n) (\<lambda>b. returnS (Some (ByteArrayVal b)))"
| "makeDecoder fuel (TSlice t) = decodeListSlice fuel (makeDecoder fuel t)"
| "makeDecoder fuel (TArray n t) = decodeListArray n (makeDecoder fuel t)"
| "makeDecoder fuel (TStruct ts tail) =
     decodeStruct fuel (map (makeDecoder fuel) ts) (map_option (makeDecoder fuel) tail)"
| "makeDecoder fuel TInterface = bindS (decodeInterface fuel) (\<lambda>x.
     returnS (map_option (\<lambda>x. InterfaceVal (Some (item_val x))) x))"
| "makeDecoder fuel (TPtr nilOK nilKind t) = decodePtr nilOK nilKind (makeDecoder fuel t)"

definition DecodeBytes_typed :: "rtype \<Rightarrow> bytes \<Rightarrow> rlp_error + rval option" where
  "DecodeBytes_typed t b =
    (case makeDecoder (2 * length b + 1) t (Stream_Reset b (word_of_nat (length b))) of
       (Inl e, _) \<Rightarrow> Inl e
     | (Inr x, s) \<Rightarrow> if length (s_in s) > 0 then Inl ErrMoreThanOneValue else Inr x)"

section \<open>Values of a type\<close>

text \<open>
  \<open>has_type\<close> says which reflected values a decoder for the type produces. \<open>wf_type\<close> excludes
  one-byte arrays, on which decoding is wrong, and asks for the widths of Go's unsigned integers.
\<close>

fun is_item :: "rval \<Rightarrow> bool" where
  "is_item (BytesVal b) = True"
| "is_item (SliceVal tail vs) = (\<not> tail \<and> (\<forall>v \<in> set vs. case v of InterfaceVal (Some w) \<Rightarrow> is_item w | _ \<Rightarrow> False))"
| "is_item _ = False"

definition raw_ok :: "bytes \<Rightarrow> bool" where
  "raw_ok b \<longleftrightarrow> (length b = 1 \<and> b ! 0 < 0x80) \<or>
    (\<exists>k \<in> {KString, KList}. \<exists>n \<in> {..length b}. length b = length (raw_head k n) + n \<and>
      take (length (raw_head k n)) b = raw_head k n)"

fun has_type :: "rtype \<Rightarrow> rval \<Rightarrow> bool" where
  "has_type TRawValue v = (case v of RawValue b \<Rightarrow> raw_ok b | _ \<Rightarrow> False)"
| "has_type TBigIntPtr v = (case v of BigIntPtr (Some i) \<Rightarrow> 0 \<le> i | _ \<Rightarrow> False)"
| "has_type TBigInt v = (case v of BigIntNoPtr i \<Rightarrow> 0 \<le> i | _ \<Rightarrow> False)"
| "has_type (TUint bits) v = (case v of UintVal i \<Rightarrow> unat i < 2 ^ bits | _ \<Rightarrow> False)"
| "has_type TBool v = (case v of BoolVal b \<Rightarrow> True | _ \<Rightarrow> False)"
| "has_type TString v = (case v of StringVal b \<Rightarrow> True | _ \<Rightarrow> False)"
| "has_type TBytes v = (case v of BytesVal b \<Rightarrow> True | _ \<Rightarrow> False)"
| "has_type (TByteArray n) v = (case v of ByteArrayVal b \<Rightarrow> length b = n | _ \<Rightarrow> False)"
| "has_type (TSlice t) v = (case v of SliceVal False vs \<Rightarrow> \<forall>v \<in> set vs. has_type t v | _ \<Rightarrow> False)"
| "has_type (TArray n t) v =
     (case v of SliceVal False vs \<Rightarrow> length vs = n \<and> (\<forall>v \<in> set vs. has_type t v) | _ \<Rightarrow> False)"
| "has_type (TStruct ts tail) v =
     (case v of
        StructVal vs \<Rightarrow>
          (case tail of
             None \<Rightarrow> list_all2 has_type ts vs
           | Some t \<Rightarrow> vs \<noteq> [] \<and> list_all2 has_type ts (butlast vs) \<and>
               (case last vs of SliceVal True ws \<Rightarrow> \<forall>w \<in> set ws. has_type t w | _ \<Rightarrow> False))
      | _ \<Rightarrow> False)"
| "has_type TInterface v = (case v of InterfaceVal (Some w) \<Rightarrow> is_item w | _ \<Rightarrow> False)"
| "has_type (TPtr nilOK nilKind t) v =
     (case v of
        PtrVal k (Some w) \<Rightarrow> k = nilKind \<and> has_type t w \<and> (nilOK \<longrightarrow> enc_val w \<noteq> [0x80] \<and> enc_val w \<noteq> [0xC0])
      | PtrVal k None \<Rightarrow> k = nilKind \<and> nilOK
      | _ \<Rightarrow> False)"

fun wf_type :: "rtype \<Rightarrow> bool" where
  "wf_type (TUint bits) = (bits \<in> {8, 16, 32, 64})"
| "wf_type (TByteArray n) = (n \<noteq> 1 \<and> n < 2 ^ 64)"
| "wf_type (TSlice t) = wf_type t"
| "wf_type (TArray n t) = wf_type t"
| "wf_type (TStruct ts tail) = ((\<forall>t \<in> set ts. wf_type t) \<and> (case tail of None \<Rightarrow> True | Some t \<Rightarrow> wf_type t))"
| "wf_type (TPtr nilOK nilKind t) = (nilKind \<noteq> KByte \<and> wf_type t)"
| "wf_type _ = True"

section \<open>Decoders that look before they read\<close>

text \<open>
  Every decoder first asks for the kind of the next value, which the stream then keeps: asking before
  calling it changes nothing, and an error of \<open>Kind\<close> is the error of the decoder.
\<close>

lemma bindS_assoc: "bindS (bindS m f) g s = bindS m (\<lambda>x. bindS (f x) g) s"
  by (simp add: bindS_def split: prod.split sum.split)

lemma Stream_Kind_again: "Stream_Kind s = (Inr kz, s1) \<Longrightarrow> Stream_Kind s1 = (Inr kz, s1)"
  unfolding Stream_Kind_def [of s]
  by (auto simp: Let_def Stream_Kind_def split: option.splits prod.splits if_splits)

definition peeks :: "'a decode \<Rightarrow> bool" where
  "peeks dec \<longleftrightarrow> (\<forall>s. dec s = bindS Stream_Kind (\<lambda>_. dec) s)"

lemma peeks_Kind: "peeks dec \<Longrightarrow> Stream_Kind s = (Inr kz, s1) \<Longrightarrow> dec s = dec s1"
  by (simp add: peeks_def bindS_def)

lemma peeks_error: "peeks dec \<Longrightarrow> Stream_Kind s = (Inl e, s1) \<Longrightarrow> dec s = (Inl e, s1)"
  by (simp add: peeks_def bindS_def)

lemma peeks_intro:
  assumes "\<And>s e s1. Stream_Kind s = (Inl e, s1) \<Longrightarrow> dec s = (Inl e, s1)"
    and "\<And>s kz s1. Stream_Kind s = (Inr kz, s1) \<Longrightarrow> dec s = dec s1"
  shows "peeks dec"
  unfolding peeks_def
proof
  fix s
  obtain r s1 where "Stream_Kind s = (r, s1)" by fastforce
  then show "dec s = bindS Stream_Kind (\<lambda>_. dec) s"
    using assms(1) [of s _ s1] assms(2) [of s _ s1] by (cases r) (auto simp: bindS_def)
qed

lemma peeksI: "peeks (bindS Stream_Kind f)"
proof (rule peeks_intro)
  show "bindS Stream_Kind f s = bindS Stream_Kind f s1" if "Stream_Kind s = (Inr kz, s1)" for s kz s1
    using that Stream_Kind_again [OF that] by (simp add: bindS_def)
qed (simp add: bindS_def)

lemma peeks_bind: "peeks dec \<Longrightarrow> peeks (bindS dec f)"
  by (rule peeks_intro) (simp_all add: bindS_def peeks_Kind peeks_error)

lemma peeks_reads: "peeks Stream_Bytes" "peeks Stream_Raw" "peeks (Stream_uint n)" "peeks Stream_Bool"
  "peeks Stream_List" "peeks (decodeByteArray n)"
  unfolding Stream_Bytes_def Stream_Raw_def Stream_uint_def Stream_Bool_def Stream_List_def decodeByteArray_def
  by (intro peeksI peeks_bind)+

lemma peeks_interface: "peeks (decodeInterface (Suc fuel))"
proof (rule peeks_intro)
  show "decodeInterface (Suc fuel) s = decodeInterface (Suc fuel) s1" if "Stream_Kind s = (Inr kz, s1)" for s kz s1
    using that Stream_Kind_again [OF that] by (cases kz) simp
qed simp

lemma willRead_0: "stream_ready s \<Longrightarrow> willRead 0 s = (Inr (), s\<lparr>s_kind := None\<rparr>)"
  by (cases "s_stack s") (auto simp: willRead_ready stream_ready_def)

lemma readFull_0: "stream_ready s \<Longrightarrow> readFull 0 s = (Inr [], s\<lparr>s_kind := None\<rparr>)"
  by (simp add: readFull_def bindS_def willRead_0)

lemma unat_ucast_byte: "unat sz < 256 \<Longrightarrow> unat (ucast (sz :: u64) :: byte) = unat sz"
  by (simp add: unsigned_ucast_eq take_bit_eq_mod)

lemma Stream_Bytes_read:
  assumes "Stream_Bytes s = (Inr b, s')" "s_kind s = None" "stream_ready s"
  shows "holds_next s (enc_string b)" "advanced (length (enc_string b)) s s'"
proof -
  obtain r s1 where kd: "Stream_Kind s = (r, s1)" by fastforce
  then obtain k sz where r: "r = Inr (k, sz)"
    using assms(1) peeks_error [OF peeks_reads(1), of s] by (cases r) auto
  have b: "Stream_Bytes s1 = (Inr b, s')" using assms(1) peeks_Kind [OF peeks_reads(1)] kd r by simp
  then have "k \<noteq> KList" using Stream_Kind_again [of s "(k, sz)" s1] kd r by (auto simp: Stream_Bytes_def bindS_def failS_def)
  then show "holds_next s (enc_string b)" "advanced (length (enc_string b)) s s'"
    using Stream_Bytes_sound [OF kd [unfolded r] _ b assms(2,3)] by auto
qed

lemma Stream_Bytes_reads:
  assumes "holds_next s (enc_string b)" "length (enc_string b) < 2 ^ 63" "s_kind s = None" "stream_ready s"
  shows "\<exists>s'. Stream_Bytes s = (Inr b, s')"
  using Stream_Bytes_complete [OF assms] peeks_Kind [OF peeks_reads(1)] by metis

lemma Stream_Bytes_eol:
  assumes "Stream_Bytes s = (Inl EOL, s')" "s_kind s = None" "stream_ready s"
  shows "Stream_Kind s = (Inl EOL, s')"
proof -
  obtain r s1 where kd: "Stream_Kind s = (r, s1)" by fastforce
  show ?thesis
  proof (cases r)
    case (Inr kz)
    then show ?thesis using assms kd peeks_Kind [OF peeks_reads(1)] Stream_Bytes_no_eol [of s] by (cases kz) metis
  qed (use assms kd peeks_error [OF peeks_reads(1)] in auto)
qed
end
