(* ===== verification/RlpContract.thy ===== *)
theory RlpContract
  imports RlpTyped
begin

text \<open>
  Correctness of the reflective decoders of package \<^verbatim>\<open>rlp\<close>. The locale \<open>rlp_decoder\<close> is the contract every
  decoder function keeps with the element loops, struct decoders and pointer decoders that call it:
  what it accepts is the encoding of a good value and nothing else, it reports the end of the enclosing
  list only there, and it looks at the kind before it reads. \<open>string_decoder\<close> gives the contract to the
  decoders built on \<open>Stream.Bytes\<close>, \<open>list_body\<close> to those that run between \<open>List\<close> and \<open>ListEnd\<close>.
\<close>

section \<open>The contract of a decoder\<close>

lemma raw_ok_nonempty: "raw_ok b \<Longrightarrow> b \<noteq> []"
  by (auto simp: raw_ok_def raw_head_def enc_head_def split: if_splits)

lemma raw_ok_raw_enc: "k \<noteq> KByte \<Longrightarrow> raw_ok (raw_enc k c)"
  unfolding raw_ok_def raw_enc_def by (intro disjI2, cases k) force+

lemma raw_ok_string: "raw_ok (enc_string b)"
proof (cases "kind_ok KString b")
  case True
  then show ?thesis using raw_ok_raw_enc [of KString b] by (simp add: enc_string_head raw_enc_def)
next
  case False
  then obtain x where "b = [x]" "x < 0x80" by (cases b) (auto simp: kind_ok_def)
  then show ?thesis by (simp add: raw_ok_def enc_string_byte)
qed

lemma raw_ok_list: "raw_ok (enc_list p)"
  using raw_ok_raw_enc [of KList p] by (simp add: enc_list_raw)

lemma holds_next_split:
  assumes "holds_next s (c @ d)" "advanced (length c) s s1" "stream_ready s"
  shows "holds_next s c" "holds_next s1 d" "s_kind s1 = None" "stream_ready s1"
  using holds_next_prefix [OF assms(1)] holds_next_append [OF _ assms(2)] advanced_sel [OF assms(2)] assms
  by (auto simp: holds_next_def)

lemma advanced_fresh:
  assumes "advanced (length c) s s'" "holds_next s c" "stream_ready s"
  shows "s_kind s' = None" "stream_ready s'" "length (s_in s') + length c = length (s_in s)"
  using advanced_sel [OF assms(1)] assms(2,3) by (auto simp: holds_next_def can_read_def)

locale rlp_decoder =
  fixes dec :: "'a option decode" and ok :: "'a \<Rightarrow> bool" and code :: "'a \<Rightarrow> bytes" and fuel :: nat
  assumes sound: "dec s = (Inr (Some x), s') \<Longrightarrow> s_kind s = None \<Longrightarrow> stream_ready s \<Longrightarrow>
      ok x \<and> holds_next s (code x) \<and> advanced (length (code x)) s s'"
    and complete: "ok x \<Longrightarrow> holds_next s (code x) \<Longrightarrow> s_kind s = None \<Longrightarrow> stream_ready s \<Longrightarrow>
      length (code x) < 2 ^ 63 \<Longrightarrow> 2 * length (code x) + 1 \<le> fuel \<Longrightarrow> \<exists>s'. dec s = (Inr (Some x), s')"
    and fuel_enough: "s_kind s = None \<Longrightarrow> stream_ready s \<Longrightarrow> 2 * length (s_in s) + 1 \<le> fuel \<Longrightarrow>
      dec s \<noteq> (Inr None, s')"
    and only_eol: "dec s = (Inl EOL, s') \<Longrightarrow> s_kind s = None \<Longrightarrow> stream_ready s \<Longrightarrow>
      Stream_Kind s = (Inl EOL, s')"
    and peeking: "peeks dec"
    and shape: "ok x \<Longrightarrow> raw_ok (code x)"
begin

lemma at_eol:
  assumes "at_eol s" "s_kind s = None" "stream_ready s"
  shows "dec s = (Inl EOL, s\<lparr>s_kinderr := None\<rparr>)"
  using peeks_error [OF peeking] Stream_Kind_fresh [OF assms(2,3)] assms(1) by simp

lemma eol:
  assumes "dec s = (Inl EOL, s')" "s_kind s = None" "stream_ready s"
  shows "at_eol s" "s' = s\<lparr>s_kinderr := None\<rparr>"
  using Stream_Kind_eol [OF only_eol [OF assms]] assms by auto

lemma code_pos: "ok x \<Longrightarrow> 0 < length (code x)"
  using raw_ok_nonempty [OF shape] by simp

end

text \<open>Post-processing a decoded value by an injective conversion.\<close>

definition mapS :: "('a \<Rightarrow> 'b) \<Rightarrow> 'a option decode \<Rightarrow> 'b option decode" where
  "mapS f dec = bindS dec (\<lambda>x. returnS (map_option f x))"

lemma mapS_cases:
  "mapS f dec s = (Inr (Some y), s') \<longleftrightarrow> (\<exists>x. dec s = (Inr (Some x), s') \<and> y = f x)"
  "mapS f dec s = (Inr None, s') \<longleftrightarrow> dec s = (Inr None, s')"
  "mapS f dec s = (Inl e, s') \<longleftrightarrow> dec s = (Inl e, s')"
  by (auto simp: mapS_def bindS_def returnS_def split: prod.splits sum.splits)

lemma mapS_decoder:
  assumes "rlp_decoder dec ok code fuel" "\<And>y. ok' y \<longleftrightarrow> (\<exists>x. ok x \<and> y = f x)" "\<And>x. code' (f x) = code x"
  shows "rlp_decoder (mapS f dec) ok' code' fuel"
proof -
  note d = assms(1)
  show ?thesis
  proof
    show "ok' x \<and> holds_next s (code' x) \<and> advanced (length (code' x)) s s'"
      if "mapS f dec s = (Inr (Some x), s')" "s_kind s = None" "stream_ready s" for s x s'
      using that rlp_decoder.sound [OF d] assms(2,3) by (fastforce simp: mapS_cases)
    show "\<exists>s'. mapS f dec s = (Inr (Some x), s')"
      if "ok' x" "holds_next s (code' x)" "s_kind s = None" "stream_ready s" "length (code' x) < 2 ^ 63"
        "2 * length (code' x) + 1 \<le> fuel" for s x
      using that rlp_decoder.complete [OF d] assms(2,3) by (fastforce simp: mapS_cases)
    show "peeks (mapS f dec)" unfolding mapS_def by (rule peeks_bind [OF rlp_decoder.peeking [OF d]])
  qed (use rlp_decoder.fuel_enough [OF d] rlp_decoder.only_eol [OF d] rlp_decoder.shape [OF d] assms(2,3)
      in \<open>auto simp: mapS_cases\<close>)
qed

section \<open>Strings and integers\<close>

definition someS :: "'a decode \<Rightarrow> 'a option decode" where
  "someS rd = bindS rd (\<lambda>x. returnS (Some x))"

lemma someS_cases:
  "someS rd s = (Inr (Some x), s') \<longleftrightarrow> rd s = (Inr x, s')" "someS rd s \<noteq> (Inr None, s')"
  "someS rd s = (Inl e, s') \<longleftrightarrow> rd s = (Inl e, s')"
  by (auto simp: someS_def bindS_def returnS_def split: prod.splits sum.splits)

locale string_decoder =
  fixes rd :: "'a decode" and ok :: "'a \<Rightarrow> bool" and str :: "'a \<Rightarrow> bytes"
  assumes reads: "s_kind s = None \<Longrightarrow> stream_ready s \<Longrightarrow>
      rd s = (Inr x, s') \<longleftrightarrow> Stream_Bytes s = (Inr (str x), s') \<and> ok x"
    and eol_kind: "rd s = (Inl EOL, s') \<Longrightarrow> s_kind s = None \<Longrightarrow> stream_ready s \<Longrightarrow> Stream_Kind s = (Inl EOL, s')"
    and peeking_rd: "peeks rd"

sublocale string_decoder \<subseteq> rlp_decoder "someS rd" ok "\<lambda>x. enc_string (str x)" fuel for fuel
proof
  show "ok x \<and> holds_next s (enc_string (str x)) \<and> advanced (length (enc_string (str x))) s s'"
    if "someS rd s = (Inr (Some x), s')" "s_kind s = None" "stream_ready s" for s x s'
    using that Stream_Bytes_read reads by (simp add: someS_cases)
  show "\<exists>s'. someS rd s = (Inr (Some x), s')"
    if "ok x" "holds_next s (enc_string (str x))" "s_kind s = None" "stream_ready s"
      "length (enc_string (str x)) < 2 ^ 63" for s x
    using that Stream_Bytes_reads reads by (simp add: someS_cases)
  show "peeks (someS rd)" unfolding someS_def by (rule peeks_bind [OF peeking_rd])
qed (use eol_kind raw_ok_string in \<open>auto simp: someS_cases\<close>)

context string_decoder
begin

lemma decodes: "rlp_decoder (someS rd) ok (\<lambda>x. enc_string (str x)) fuel"
  by (rule rlp_decoder_axioms)

end

interpretation str_bytes: string_decoder Stream_Bytes "\<lambda>_. True" "\<lambda>b. b"
  by unfold_locales (auto intro: Stream_Bytes_eol peeks_reads)

lemma readFull_1:
  assumes "stream_ready s"
  shows "readFull 1 s = (Inr b, s') \<longleftrightarrow> (\<exists>x. readByte s = (Inr x, s') \<and> b = [x])"
  using assms by (cases "s_in s") (auto simp: readFull_Inr readByte_Inr can_read_def)

lemma readUint_Inr:
  assumes "stream_ready s" "unat (sz :: u64) \<le> 8"
  shows "readUint (ucast sz) s = (Inr v, s') \<and> \<not> (sz > 0 \<and> v < 128) \<longleftrightarrow>
    readFull (unat sz) s = (Inr (nat_be (unat v)), s') \<and> \<not> (sz = 1 \<and> nat_be (unat v) ! 0 < 128)"
proof -
  have u: "unat (ucast sz :: byte) = unat sz" using assms(2) by (simp add: unat_ucast_byte)
  consider "sz = 0" | "sz = 1" | "1 < unat sz" by (metis less_one linorder_neqE_nat unat_1 unat_eq_0 word_unat_eq_iff)
  then show ?thesis
  proof cases
    case 1
    then show ?thesis using assms(1) nat_be_eq_Nil [of "unat v"]
      by (auto simp: readUint_def readFull_0 unat_eq_0 eq_commute [of "[]"])
  next
    case 2
    have "readFull 1 s = (Inr (nat_be (unat v)), s') \<and> \<not> nat_be (unat v) ! 0 < 128 \<longleftrightarrow>
        (\<exists>x. readByte s = (Inr x, s') \<and> v = ucast x) \<and> \<not> v < 128" (is "?L \<longleftrightarrow> ?R")
    proof
      assume ?L
      then obtain x where x: "readByte s = (Inr x, s')" "nat_be (unat v) = [x]" "\<not> x < 128"
        using readFull_1 [OF assms(1), of "nat_be (unat v)" s'] by (metis nth_Cons_0)
      then have "unat v = unat x" using be_nat_nat_be [of "unat v"] by (simp add: be_nat_def)
      then show ?R using x by (auto simp: word_unat_eq_iff unat_ucast_u64 word_less_nat_alt)
    next
      assume ?R
      then obtain x where x: "readByte s = (Inr x, s')" "v = ucast x" "128 \<le> unat x"
        by (auto simp: word_less_nat_alt unat_ucast_u64)
      then have "nat_be (unat v) = [x]" using unat_byte_lt [of x] by (simp add: unat_ucast_u64 nat_be_step)
      then show ?L using x readFull_1 [OF assms(1), of "[x]" s'] by (simp add: word_less_nat_alt)
    qed
    moreover have "readUint (ucast sz) s = (Inr v, s') \<longleftrightarrow> (\<exists>x. readByte s = (Inr x, s') \<and> v = ucast x)"
      using 2 by (auto simp: readUint_def bindS_def returnS_def split: prod.splits sum.splits)
    moreover have "unat sz = 1" "sz > 0" using 2 by simp_all
    ultimately show ?thesis using 2 by metis
  next
    case 3
    then have s3: "sz > 0" "sz \<noteq> 1" "(ucast sz :: byte) \<noteq> 0" "(ucast sz :: byte) \<noteq> 1"
      using u by (auto simp: word_less_nat_alt)
    have "readFull (unat sz) s = (Inr (nat_be (unat v)), s') \<longleftrightarrow>
        (\<exists>b. readFull (unat sz) s = (Inr b, s') \<and> b ! 0 \<noteq> 0 \<and> v = word_of_nat (be_nat b)) \<and> \<not> v < 128" (is "?L \<longleftrightarrow> ?R")
    proof
      assume L: ?L
      then have len: "length (nat_be (unat v)) = unat sz"
        using readFull_Inr [OF assms(1)] 3 unat_u64_lt by (auto simp: can_read_def)
      then have "\<not> unat v < 256" using 3 length_nat_be [of "unat v" 1] by simp
      then have "\<not> v < 128" "unat v \<noteq> 0" by (auto simp: word_less_nat_alt)
      moreover have "nat_be (unat v) ! 0 \<noteq> 0" using hd_nat_be [of "unat v"] calculation by (simp add: hd_conv_nth)
      ultimately show ?R using L by auto
    next
      assume ?R
      then obtain b where b: "readFull (unat sz) s = (Inr b, s')" "b ! 0 \<noteq> 0" "v = word_of_nat (be_nat b)" by blast
      then have len: "length b = unat sz"
        using readFull_Inr [OF assms(1)] 3 unat_u64_lt by (auto simp: can_read_def)
      then have "be_nat b < 256 ^ 8"
        using be_nat_lt [of b] power_increasing [of "length b" 8 "256 :: nat"] assms(2) by simp
      then have "unat v = be_nat b" using b(3) by (simp add: unat_of_nat_u64)
      moreover have "nat_be (be_nat b) = b" using b(2) len 3 by (intro nat_be_be_nat) (cases b; auto)
      ultimately show ?L using b(1) by simp
    qed
    moreover have "readUint (ucast sz) s = (Inr v, s') \<longleftrightarrow>
        (\<exists>b. readFull (unat sz) s = (Inr b, s') \<and> b ! 0 \<noteq> 0 \<and> v = word_of_nat (be_nat b))"
      using s3(3,4) unfolding readUint_def u
      by (auto simp: bindS_def returnS_def failS_def split: prod.splits sum.splits if_splits)
    ultimately show ?thesis using s3(1,2) by blast
  qed
qed

lemma Stream_Kind_fresh_ready:
  assumes "Stream_Kind s = (Inr (k, sz), s1)" "s_kind s = None" "stream_ready s"
  shows "stream_ready s1" "k = KByte \<Longrightarrow> s_byteval s1 < 0x80"
  using Stream_Kind_sound [OF assms] assms(3) by (auto simp: ready_advance holds_next_def)

lemma nat_be_byte: "b \<noteq> 0 \<Longrightarrow> nat_be (unat (b :: byte)) = [b]"
  using unat_byte_lt [of b] by (simp add: nat_be_step unat_eq_0)

lemma byte_nat_be: "nat_be (unat (v :: u64)) = [b] \<longleftrightarrow> b \<noteq> 0 \<and> v = ucast b"
proof
  assume a: "nat_be (unat v) = [b]"
  then have "unat v = unat b" using be_nat_nat_be [of "unat v"] by (simp add: be_nat_def)
  moreover have "b \<noteq> 0" using a hd_nat_be [of "unat v"] by (metis list.sel(1) nat_be_0 not_Cons_self2)
  ultimately show "b \<noteq> 0 \<and> v = ucast b" by (simp add: word_unat_eq_iff unat_ucast_u64)
qed (simp add: unat_ucast_u64 nat_be_byte)

lemma uint_bits:
  assumes "bits \<in> {8, 16, 32, 64 :: nat}"
  shows "(256 :: nat) ^ (bits div 8) = 2 ^ bits" "bits div 8 \<le> 8" "1 \<le> bits div 8"
  using assms by auto

lemma Stream_uint_Bytes:
  assumes f: "s_kind s = None" "stream_ready s" and bits: "bits \<in> {8, 16, 32, 64}"
  shows "Stream_uint bits s = (Inr v, s') \<longleftrightarrow>
    Stream_Bytes s = (Inr (nat_be (unat v)), s') \<and> unat v < 2 ^ bits"
proof -
  obtain r s1 where kd: "Stream_Kind s = (r, s1)" by fastforce
  show ?thesis
  proof (cases r)
    case (Inl e)
    then show ?thesis using kd peeks_error [OF peeks_reads(1)] peeks_error [OF peeks_reads(3)] by simp
  next
    case (Inr kz)
    obtain k sz where kz: "kz = (k, sz)" by fastforce
    note kd' = kd [unfolded Inr kz] and again = Stream_Kind_again [OF kd [unfolded Inr kz]]
    note r1 = Stream_Kind_fresh_ready [OF kd' f]
    have v: "unat v < 2 ^ bits \<longleftrightarrow> length (nat_be (unat v)) \<le> bits div 8"
      using uint_bits [OF bits] by (simp add: length_nat_be)
    have "Stream_uint bits s1 = (Inr v, s') \<longleftrightarrow>
        Stream_Bytes s1 = (Inr (nat_be (unat v)), s') \<and> unat v < 2 ^ bits"
    proof (cases k)
      case KByte
      have "Stream_uint bits s1 = (Inr v, s') \<longleftrightarrow> s_byteval s1 \<noteq> 0 \<and> v = ucast (s_byteval s1) \<and> s' = s1\<lparr>s_kind := None\<rparr>"
        using KByte again by (auto simp: Stream_uint_def bindS_def)
      moreover have "Stream_Bytes s1 = (Inr (nat_be (unat v)), s') \<longleftrightarrow>
          s_byteval s1 \<noteq> 0 \<and> v = ucast (s_byteval s1) \<and> s' = s1\<lparr>s_kind := None\<rparr>"
        using KByte again byte_nat_be [of v] by (auto simp: Stream_Bytes_def bindS_def eq_commute [of "[_]"])
      moreover have "unat v < 2 ^ bits" if "s_byteval s1 \<noteq> 0" "v = ucast (s_byteval s1)"
        unfolding v using that nat_be_byte [of "s_byteval s1"] uint_bits(3) [OF bits] by (simp add: unat_ucast_u64)
      ultimately show ?thesis by blast
    next
      case KString
      have lim: "sz > word_of_nat (bits div 8) \<longleftrightarrow> bits div 8 < unat sz"
        using uint_bits(2) [OF bits] by (simp add: word_less_nat_alt unat_of_nat_u64)
      have "Stream_uint bits s1 = (Inr v, s') \<longleftrightarrow> unat sz \<le> bits div 8 \<and>
          readUint (ucast sz) s1 = (Inr v, s') \<and> \<not> (sz > 0 \<and> v < 128)"
        using KString again lim
        by (auto simp: Stream_uint_def bindS_def failS_def split: prod.splits sum.splits if_splits)
      also have "\<dots> \<longleftrightarrow> unat sz \<le> bits div 8 \<and> readFull (unat sz) s1 = (Inr (nat_be (unat v)), s') \<and>
          \<not> (sz = 1 \<and> nat_be (unat v) ! 0 < 128)"
        using readUint_Inr [OF r1(1), of sz v s'] uint_bits(2) [OF bits] by (meson order_trans)
      also have "\<dots> \<longleftrightarrow> Stream_Bytes s1 = (Inr (nat_be (unat v)), s') \<and> unat sz \<le> bits div 8"
        using KString again
        by (auto simp: Stream_Bytes_def bindS_def failS_def returnS_def split: prod.splits sum.splits if_splits)
      also have "\<dots> \<longleftrightarrow> Stream_Bytes s1 = (Inr (nat_be (unat v)), s') \<and> unat v < 2 ^ bits"
      proof -
        have "length b = unat sz" if "Stream_Bytes s1 = (Inr b, s')" for b
          using that KString again readFull_Inr [OF r1(1), of "unat sz"] unat_u64_lt [of sz]
          by (auto simp: Stream_Bytes_def bindS_def failS_def returnS_def can_read_def
              split: prod.splits sum.splits if_splits)
        then show ?thesis using v by auto
      qed
      finally show ?thesis .
    next
      case KList
      then show ?thesis using again by (auto simp: Stream_uint_def Stream_Bytes_def bindS_def failS_def)
    qed
    then show ?thesis using peeks_Kind [OF peeks_reads(1) kd'] peeks_Kind [OF peeks_reads(3) kd'] by simp
  qed
qed

lemma Stream_uint_eol:
  assumes "Stream_uint bits s = (Inl EOL, s')" and f: "s_kind s = None" "stream_ready s"
  shows "Stream_Kind s = (Inl EOL, s')"
proof -
  obtain r s1 where kd: "Stream_Kind s = (r, s1)" by fastforce
  show ?thesis
  proof (cases r)
    case (Inl e)
    then show ?thesis using kd assms(1) peeks_error [OF peeks_reads(3)] by simp
  next
    case (Inr kz)
    obtain k sz where kz: "kz = (k, sz)" by fastforce
    note kd' = kd [unfolded Inr kz]
    have "Stream_uint bits s1 = (Inl EOL, s')" using assms(1) peeks_Kind [OF peeks_reads(3) kd'] by simp
    then show ?thesis
      using no_eol(4) [OF Stream_Kind_fresh_ready(1) [OF kd' f]] Stream_Kind_again [OF kd']
      by (auto simp: Stream_uint_def bindS_def failS_def split: Kind.splits prod.splits sum.splits if_splits)
  qed
qed

lemma uint_decoder:
  "bits \<in> {8, 16, 32, 64} \<Longrightarrow> string_decoder (Stream_uint bits) (\<lambda>v. unat v < 2 ^ bits) (\<lambda>v. nat_be (unat v))"
  by unfold_locales (auto simp: Stream_uint_Bytes intro: Stream_uint_eol peeks_reads)

interpretation str_bool: string_decoder Stream_Bool "\<lambda>_. True" "\<lambda>b. if b then [1] else []"
proof
  show "Stream_Bool s = (Inr x, s') \<longleftrightarrow> Stream_Bytes s = (Inr (if x then [1] else []), s') \<and> True"
    if "s_kind s = None" "stream_ready s" for s x s'
  proof -
    have "Stream_Bool s = (Inr x, s') \<longleftrightarrow> Stream_uint 8 s = (Inr (if x then 1 else 0), s')"
      by (cases x) (auto simp: Stream_Bool_def bindS_def returnS_def failS_def split: prod.splits sum.splits if_splits)
    then show ?thesis using Stream_uint_Bytes [OF that, of 8] nat_be_byte [of 1] by auto
  qed
  show "Stream_Kind s = (Inl EOL, s')"
    if "Stream_Bool s = (Inl EOL, s')" "s_kind s = None" "stream_ready s" for s s'
    using that Stream_uint_eol [of 8]
    by (auto simp: Stream_Bool_def bindS_def returnS_def failS_def split: prod.splits sum.splits if_splits)
qed (rule peeks_reads)

definition big_bytes :: "int decode" where
  "big_bytes = bindS Stream_Bytes (\<lambda>b.
     if length b > 0 \<and> b ! 0 = 0 then failS ErrCanonInt else returnS (int (be_nat b)))"

lemma canon_int: "\<not> (length b > 0 \<and> b ! 0 = 0) \<and> i = int (be_nat b) \<longleftrightarrow> b = nat_be (nat i) \<and> 0 \<le> i"
proof
  assume a: "\<not> (length b > 0 \<and> b ! 0 = 0) \<and> i = int (be_nat b)"
  then have "nat_be (be_nat b) = b" by (intro nat_be_be_nat) (auto simp: hd_conv_nth)
  then show "b = nat_be (nat i) \<and> 0 \<le> i" using a by simp
next
  assume a: "b = nat_be (nat i) \<and> 0 \<le> i"
  then have "\<not> (length b > 0 \<and> b ! 0 = 0)"
    using hd_nat_be [of "nat i"] by (cases "nat i = 0") (auto simp: hd_conv_nth)
  then show "\<not> (length b > 0 \<and> b ! 0 = 0) \<and> i = int (be_nat b)" using a by simp
qed

interpretation str_big: string_decoder big_bytes "\<lambda>i. 0 \<le> i" "\<lambda>i. nat_be (nat i)"
proof
  show "big_bytes s = (Inr x, s') \<longleftrightarrow> Stream_Bytes s = (Inr (nat_be (nat x)), s') \<and> 0 \<le> x" for s x s'
  proof -
    have "big_bytes s = (Inr x, s') \<longleftrightarrow>
        (\<exists>b. Stream_Bytes s = (Inr b, s') \<and> \<not> (length b > 0 \<and> b ! 0 = 0) \<and> x = int (be_nat b))"
      unfolding big_bytes_def by (auto simp: bindS_def failS_def returnS_def split: prod.splits sum.splits if_splits)
    then show ?thesis unfolding canon_int by blast
  qed
  show "Stream_Kind s = (Inl EOL, s')"
    if "big_bytes s = (Inl EOL, s')" "s_kind s = None" "stream_ready s" for s s'
    using that Stream_Bytes_eol
    by (auto simp: big_bytes_def bindS_def failS_def returnS_def split: prod.splits sum.splits if_splits)
  show "peeks big_bytes" unfolding big_bytes_def by (rule peeks_bind [OF peeks_reads(1)])
qed

lemma decodeByteArray_Bytes:
  assumes f: "s_kind s = None" "stream_ready s" and n: "n \<noteq> 1" "n < 2 ^ 64"
  shows "decodeByteArray n s = (Inr b, s') \<longleftrightarrow> Stream_Bytes s = (Inr b, s') \<and> length b = n"
    "decodeByteArray n s = (Inl EOL, s') \<Longrightarrow> Stream_Kind s = (Inl EOL, s')"
proof -
  obtain r s1 where kd: "Stream_Kind s = (r, s1)" by fastforce
  have "(decodeByteArray n s = (Inr b, s') \<longleftrightarrow> Stream_Bytes s = (Inr b, s') \<and> length b = n) \<and>
    (decodeByteArray n s = (Inl EOL, s') \<longrightarrow> Stream_Kind s = (Inl EOL, s'))"
  proof (cases r)
    case (Inl e)
    then show ?thesis using kd peeks_error [OF peeks_reads(1)] peeks_error [OF peeks_reads(6)] by simp
  next
    case (Inr kz)
    obtain k sz where kz: "kz = (k, sz)" by fastforce
    note kd' = kd [unfolded Inr kz] and again = Stream_Kind_again [OF kd [unfolded Inr kz]]
    note r1 = Stream_Kind_fresh_ready [OF kd' f]
    have "(decodeByteArray n s1 = (Inr b, s') \<longleftrightarrow> Stream_Bytes s1 = (Inr b, s') \<and> length b = n) \<and>
      decodeByteArray n s1 \<noteq> (Inl EOL, s')"
    proof (cases k)
      case KByte
      then show ?thesis using n again
        by (auto simp: decodeByteArray_def Stream_Bytes_def bindS_def failS_def)
    next
      case KString
      have sz: "word_of_nat n < sz \<longleftrightarrow> n < unat sz" "word_of_nat n > sz \<longleftrightarrow> unat sz < n"
        using n(2) by (simp_all add: word_less_nat_alt unat_of_nat_u64)
      have len: "length b = unat sz" if "Stream_Bytes s1 = (Inr b, s')"
        using that KString again readFull_Inr [OF r1(1), of "unat sz"] unat_u64_lt [of sz]
        by (auto simp: Stream_Bytes_def bindS_def failS_def returnS_def can_read_def
            split: prod.splits sum.splits if_splits)
      show ?thesis
      proof (cases "n = unat sz")
        case True
        then have "decodeByteArray n s1 = Stream_Bytes s1"
          using KString again sz by (simp add: decodeByteArray_def Stream_Bytes_def bindS_def)
        then show ?thesis using True len Stream_Bytes_no_eol [OF kd' f] by auto
      next
        case False
        then have "\<exists>e. e \<noteq> EOL \<and> decodeByteArray n s1 = (Inl e, s1)"
          using KString again sz by (cases "n < unat sz") (auto simp: decodeByteArray_def bindS_def failS_def)
        then show ?thesis using False len by auto
      qed
    next
      case KList
      then show ?thesis using again by (auto simp: decodeByteArray_def Stream_Bytes_def bindS_def failS_def)
    qed
    then show ?thesis using peeks_Kind [OF peeks_reads(1) kd'] peeks_Kind [OF peeks_reads(6) kd'] by simp
  qed
  then show "decodeByteArray n s = (Inr b, s') \<longleftrightarrow> Stream_Bytes s = (Inr b, s') \<and> length b = n"
    "decodeByteArray n s = (Inl EOL, s') \<Longrightarrow> Stream_Kind s = (Inl EOL, s')" by blast+
qed

lemma byte_array_decoder:
  "n \<noteq> 1 \<Longrightarrow> n < 2 ^ 64 \<Longrightarrow> string_decoder (decodeByteArray n) (\<lambda>b. length b = n) (\<lambda>b. b)"
  by unfold_locales (simp add: decodeByteArray_Bytes(1), erule (4) decodeByteArray_Bytes(2), rule peeks_reads)

interpretation rlp_interface: rlp_decoder "decodeInterface (Suc fuel)" "\<lambda>_. True" enc_item "Suc fuel" for fuel
proof
  fix s s' :: stream and x :: item
  show "True \<and> holds_next s (enc_item x) \<and> advanced (length (enc_item x)) s s'"
    if "decodeInterface (Suc fuel) s = (Inr (Some x), s')" "s_kind s = None" "stream_ready s"
    using decode_sound(1) [OF that] by simp
  show "\<exists>s'. decodeInterface (Suc fuel) s = (Inr (Some x), s')"
    if "holds_next s (enc_item x)" "s_kind s = None" "stream_ready s" "length (enc_item x) < 2 ^ 63"
      "2 * length (enc_item x) + 1 \<le> Suc fuel"
    by (rule decode_complete(1) [OF that])
  show "decodeInterface (Suc fuel) s \<noteq> (Inr None, s')"
    if "s_kind s = None" "stream_ready s" "2 * length (s_in s) + 1 \<le> Suc fuel"
    by (rule decode_fuel(1) [OF that])
  show "Stream_Kind s = (Inl EOL, s')"
    if "decodeInterface (Suc fuel) s = (Inl EOL, s')" "s_kind s = None" "stream_ready s"
    using decode_sound(1) [OF that] Stream_Kind_fresh [OF that(2,3)] by simp
  show "raw_ok (enc_item x)" by (cases x) (simp_all add: raw_ok_string raw_ok_list)
qed (rule peeks_interface)

lemma raw_head_puthead:
  "k \<noteq> KByte \<Longrightarrow> (if k = KString then puthead 0x80 0xB7 sz else puthead 0xC0 0xF7 sz) = raw_head k (unat sz)"
  using enc_head_puthead [of "unat sz"] unat_u64_lt [of sz] by (cases k) (simp_all add: raw_head_def)

lemma raw_head_length: "k \<noteq> KByte \<Longrightarrow> 0 < length (raw_head k n)"
  by (cases k) (auto simp: raw_head_def enc_head_def)

lemma Stream_Raw_string:
  assumes "Stream_Kind s = (Inr (k, sz), s1)" "s_kind s = None" "stream_ready s"
  shows "Stream_Raw s = (Inr b, s') \<longleftrightarrow>
      (if k = KByte then b = [s_byteval s1] \<and> s' = s1\<lparr>s_kind := None\<rparr>
       else \<exists>c. readFull (unat sz) s1 = (Inr c, s') \<and> b = raw_head k (unat sz) @ c)"
    "Stream_Raw s \<noteq> (Inl EOL, s')"
proof -
  note r1 = Stream_Kind_fresh_ready(1) [OF assms]
  show "Stream_Raw s = (Inr b, s') \<longleftrightarrow>
      (if k = KByte then b = [s_byteval s1] \<and> s' = s1\<lparr>s_kind := None\<rparr>
       else \<exists>c. readFull (unat sz) s1 = (Inr c, s') \<and> b = raw_head k (unat sz) @ c)"
    using assms(1) raw_head_puthead [of k sz]
    by (auto simp: Stream_Raw_def bindS_def returnS_def split: prod.splits sum.splits)
  show "Stream_Raw s \<noteq> (Inl EOL, s')"
    using assms(1) no_eol(3) [OF r1] by (auto simp: Stream_Raw_def bindS_def returnS_def split: prod.splits sum.splits)
qed

lemma Stream_Raw_sound:
  assumes r: "Stream_Raw s = (Inr b, s')" and f: "s_kind s = None" "stream_ready s"
  shows "raw_ok b \<and> holds_next s b \<and> advanced (length b) s s'"
proof -
  obtain k sz s1 where kd: "Stream_Kind s = (Inr (k, sz), s1)"
    using r by (auto simp: Stream_Raw_def bindS_def split: prod.splits sum.splits)
  show ?thesis
  proof (cases "k = KByte")
    case True
    then have s1: "can_read s 1" "hd (s_in s) < 0x80"
      "s1 = (advance 1 s)\<lparr>s_byteval := hd (s_in s), s_kind := Some KByte, s_size := 0, s_kinderr := None\<rparr>"
      using Stream_Kind_sound [OF kd f] by auto
    then have "b = [hd (s_in s)]" "s' = s1\<lparr>s_kind := None\<rparr>"
      using True r Stream_Raw_string(1) [OF kd f] by auto
    moreover have "take 1 (s_in s) = [hd (s_in s)]" using s1(1) by (cases "s_in s") (auto simp: can_read_def)
    moreover have "advanced 1 s (s1\<lparr>s_kind := None\<rparr>)" unfolding s1(3) by (rule advancedI)
    ultimately show ?thesis using s1(1,2) by (simp add: raw_ok_def holds_next_def)
  next
    case False
    let ?h = "raw_head k (unat sz)"
    have hn: "holds_next s ?h"
      "s1 = (advance (length ?h) s)\<lparr>s_byteval := 0, s_kind := Some k, s_size := sz, s_kinderr := None\<rparr>"
      using Stream_Kind_sound [OF kd f] False by auto
    obtain c where c: "readFull (unat sz) s1 = (Inr c, s')" "b = ?h @ c"
      using r Stream_Raw_string(1) [OF kd f] False by auto
    then have rf: "can_read s1 (unat sz)" "c = take (unat sz) (s_in s1)" "s' = advance (unat sz) s1"
      using readFull_Inr [OF Stream_Kind_fresh_ready(1) [OF kd f]] unat_u64_lt by auto
    then have len: "length c = unat sz" by (simp add: can_read_def)
    have e1: "advanced (length ?h) s (s1\<lparr>s_kind := None\<rparr>)" unfolding hn(2) by (rule advancedI)
    have "holds_next (s1\<lparr>s_kind := None\<rparr>) c" using rf len by (simp add: holds_next_def)
    then have "holds_next s b" using holds_next_append [OF hn(1) e1] c(2) by simp
    moreover have "advanced (length ?h + unat sz) s s'"
      unfolding advanced_def using rf(3) hn(2) by (auto simp: advance_fields advance_advance)
    moreover have "raw_ok b"
      using raw_ok_raw_enc [OF False, of c] len c(2) by (simp add: raw_enc_def)
    ultimately show ?thesis using c(2) len by simp
  qed
qed

lemma Stream_Raw_complete:
  assumes ok: "raw_ok b" and h: "holds_next s b" and f: "s_kind s = None" "stream_ready s" and b: "length b < 2 ^ 63"
  shows "\<exists>s'. Stream_Raw s = (Inr b, s')"
  using ok unfolding raw_ok_def
proof
  assume a: "length b = 1 \<and> b ! 0 < 0x80"
  then obtain x where x: "b = [x]" "x < 0x80" by (cases b) auto
  then have hx: "can_read s 1" "hd (s_in s) = x"
    using h by (cases "s_in s"; auto simp: holds_next_def)+
  from Stream_Raw_string(1) [OF Stream_Kind_complete_byte [OF f hx(1)] f] hx x show ?thesis by auto
next
  assume "\<exists>k \<in> {KString, KList}. \<exists>n \<in> {..length b}. length b = length (raw_head k n) + n \<and>
      take (length (raw_head k n)) b = raw_head k n"
  then obtain k n where k: "k \<noteq> KByte" and n: "length b = length (raw_head k n) + n"
    and tk: "take (length (raw_head k n)) b = raw_head k n" by blast
  define c where "c = drop (length (raw_head k n)) b"
  have bc: "b = raw_head k n @ c" "length c = n" using tk n by (auto simp: c_def) (metis append_take_drop_id)
  have n63: "n < 2 ^ 63" "unat (word_of_nat n :: u64) = n" using n b by (simp_all add: unat_of_nat_u64)
  have cr: "can_read s (length (raw_head k n) + n)" using h n by (simp add: holds_next_def)
  have hh: "holds_next s (raw_head k n)" using h bc(1) holds_next_prefix by blast
  note kd = Stream_Kind_complete [OF f k n63(1) hh can_kind_room [OF cr]]
  let ?s1 = "(advance (length (raw_head k n)) s)\<lparr>s_byteval := 0, s_kind := Some k, s_size := word_of_nat n, s_kinderr := None\<rparr>"
  have e1: "advanced (length (raw_head k n)) s (?s1\<lparr>s_kind := None\<rparr>)" by (rule advancedI)
  have "holds_next (?s1\<lparr>s_kind := None\<rparr>) c" using holds_next_append [OF hh e1] h bc(1) by simp
  then have "readFull n ?s1 = (Inr c, advance n ?s1)"
    using n63 bc(2) Stream_Kind_fresh_ready(1) [OF kd f] by (subst readFull_Inr) (auto simp: holds_next_def)
  then show ?thesis using Stream_Raw_string(1) [OF kd f, of b "advance n ?s1"] k bc n63(2) by auto
qed

interpretation rlp_raw: rlp_decoder "someS Stream_Raw" raw_ok "\<lambda>b. b" fuel for fuel
proof
  fix s s' :: stream and x :: bytes
  show "raw_ok x \<and> holds_next s x \<and> advanced (length x) s s'"
    if "someS Stream_Raw s = (Inr (Some x), s')" "s_kind s = None" "stream_ready s"
    using that Stream_Raw_sound by (simp add: someS_cases)
  show "\<exists>s'. someS Stream_Raw s = (Inr (Some x), s')"
    if "raw_ok x" "holds_next s x" "s_kind s = None" "stream_ready s" "length x < 2 ^ 63"
    using Stream_Raw_complete [OF that] by (simp add: someS_cases)
  show "Stream_Kind s = (Inl EOL, s')"
    if "someS Stream_Raw s = (Inl EOL, s')" "s_kind s = None" "stream_ready s"
  proof -
    obtain r s1 where kd: "Stream_Kind s = (r, s1)" by fastforce
    show ?thesis
    proof (cases r)
      case (Inl e)
      then show ?thesis using that(1) kd peeks_error [OF peeks_reads(2)] by (simp add: someS_cases)
    next
      case (Inr kz)
      then show ?thesis using that kd Stream_Raw_string(2) [of s] by (cases kz) (auto simp: someS_cases)
    qed
  qed
  show "peeks (someS Stream_Raw)" unfolding someS_def by (rule peeks_bind [OF peeks_reads(2)])
qed (auto simp: someS_cases)

section \<open>Lists\<close>

text \<open>\<open>list_left s n\<close>: the innermost list has exactly \<open>n\<close> bytes left.\<close>

definition list_left :: "stream \<Rightarrow> nat \<Rightarrow> bool" where
  "list_left s n = (case s_stack s of [] \<Rightarrow> False | tos # _ \<Rightarrow> unat (lp_pos tos) + n = unat (lp_size tos))"

lemma list_left_advanced:
  assumes "list_left s (n + m)" "advanced n s s1"
  shows "list_left s1 m"
proof -
  obtain tos ts where st: "s_stack s = tos # ts" "unat (lp_pos tos) + (n + m) = unat (lp_size tos)"
    using assms(1) by (auto simp: list_left_def split: list.splits)
  then have "n < 2 ^ 64" using unat_u64_lt [of "lp_size tos"] by simp
  then have "unat (lp_pos tos + word_of_nat n) = unat (lp_pos tos) + n"
    using st(2) unat_u64_lt [of "lp_size tos"] by (simp add: unat_word_ariths unat_of_nat_u64)
  then show ?thesis using st advanced_sel(3) [OF assms(2)] by (simp add: list_left_def)
qed

lemma list_left_eol: "list_left s 0 \<Longrightarrow> at_eol s"
  by (auto simp: list_left_def at_eol_def word_unat_eq_iff split: list.splits)

context rlp_decoder
begin

lemma elems_sound:
  "decodeElems n dec s = (r, s') \<Longrightarrow> s_kind s = None \<Longrightarrow> stream_ready s \<Longrightarrow>
     (\<forall>xs. r = Inr (Some xs) \<longrightarrow> list_all ok xs \<and> holds_next s (concat (map code xs)) \<and>
        advanced (length (concat (map code xs))) s s') \<and> r \<noteq> Inl EOL"
proof (induction n arbitrary: s r s')
  case (Suc n)
  obtain q s1 where d: "dec s = (q, s1)" by fastforce
  consider e where "q = Inl e" | "q = Inr None" | x where "q = Inr (Some x)"
    by (cases q) (auto intro: option.exhaust)
  then show ?case
  proof cases
    case 1
    then show ?thesis
      using Suc(2-) d eol [of s s1] holds_next_Nil [OF Suc(4)] advanced_0 [OF Suc(3), of None]
      by (cases "e = EOL") auto
  next
    case 2
    then show ?thesis using Suc(2) d by auto
  next
    case 3
    then have x: "ok x" "holds_next s (code x)" "advanced (length (code x)) s s1"
      using sound [of s x s1] d Suc(3,4) by auto
    obtain q' s2 where el: "decodeElems n dec s1 = (q', s2)" by fastforce
    note IH = Suc(1) [OF el advanced_fresh(1,2) [OF x(3,2) Suc(4)]]
    show ?thesis
    proof (cases "\<exists>xs. q' = Inr (Some xs)")
      case True
      then obtain xs where q': "q' = Inr (Some xs)" by blast
      then have t: "list_all ok xs" "holds_next s1 (concat (map code xs))"
        "advanced (length (concat (map code xs))) s1 s2" using IH by auto
      have "holds_next s (code x @ concat (map code xs))"
        "advanced (length (code x) + length (concat (map code xs))) s s2"
        using holds_next_append [OF x(2,3)] t(2) advanced_trans [OF x(3) t(3)] by auto
      then show ?thesis using Suc(2) d 3 el q' x(1) t(1) by auto
    next
      case False
      then show ?thesis using IH Suc(2) d 3 el by (auto split: sum.splits option.splits)
    qed
  qed
qed simp

lemma elems_complete:
  "list_all ok xs \<Longrightarrow> holds_next s (concat (map code xs)) \<Longrightarrow> s_kind s = None \<Longrightarrow> stream_ready s \<Longrightarrow>
     length (concat (map code xs)) < 2 ^ 63 \<Longrightarrow> list_left s (length (concat (map code xs))) \<Longrightarrow>
     2 * length (concat (map code xs)) + 1 \<le> fuel \<Longrightarrow> length xs < n \<Longrightarrow>
     \<exists>s'. decodeElems n dec s = (Inr (Some xs), s')"
proof (induction xs arbitrary: s n)
  case Nil
  then have "dec s = (Inl EOL, s\<lparr>s_kinderr := None\<rparr>)" by (intro at_eol list_left_eol) simp_all
  then show ?case using Nil(8) by (cases n) simp_all
next
  case (Cons x xs)
  have hs: "holds_next s (code x @ concat (map code xs))" using Cons(3) by simp
  obtain s1 where d: "dec s = (Inr (Some x), s1)"
    using complete [OF _ holds_next_prefix [OF hs] Cons(4,5)] Cons(2,6,8) by auto
  have a: "advanced (length (code x)) s s1" using sound [OF d Cons(4,5)] by simp
  note f1 = holds_next_split [OF hs a Cons(5)]
  obtain m where m: "n = Suc m" "length xs < m" using Cons(9) by (cases n) auto
  obtain s2 where "decodeElems m dec s1 = (Inr (Some xs), s2)"
    using Cons(1) [OF _ f1(2-4) _ list_left_advanced [OF _ a] _ m(2)] Cons(2,6,7,8) by auto
  then show ?case using d m(1) by simp
qed

lemma elems_fuel:
  "s_kind s = None \<Longrightarrow> stream_ready s \<Longrightarrow> 2 * length (s_in s) + 1 \<le> fuel \<Longrightarrow> length (s_in s) < n \<Longrightarrow>
     decodeElems n dec s \<noteq> (Inr None, s')"
proof (induction n arbitrary: s s')
  case (Suc n)
  obtain q s1 where d: "dec s = (q, s1)" by fastforce
  consider e where "q = Inl e" | "q = Inr None" | x where "q = Inr (Some x)"
    by (cases q) (auto intro: option.exhaust)
  then show ?case
  proof cases
    case 2
    then show ?thesis using fuel_enough [OF Suc(2-4)] d by simp
  next
    case 3
    then have x: "ok x" "holds_next s (code x)" "advanced (length (code x)) s s1"
      using sound [of s x s1] d Suc(2,3) by auto
    note f1 = advanced_fresh [OF x(3,2) Suc(3)]
    then have "length (s_in s1) < length (s_in s)" using code_pos [OF x(1)] by linarith
    then show ?thesis using Suc(1) [OF f1(1,2)] Suc(4,5) d 3
      by (auto split: prod.splits sum.splits option.splits)
  qed (use d in auto)
qed simp

end

lemma concat_codes_length:
  "(\<And>x. x \<in> set xs \<Longrightarrow> 0 < length (code x)) \<Longrightarrow> length xs \<le> length (concat (map code xs))"
proof (induction xs)
  case (Cons x xs)
  have "0 < length (code x)" using Cons(2) [of x] by simp
  moreover have "length xs \<le> length (concat (map code xs))" using Cons by simp
  ultimately show ?case by (simp del: length_greater_0_conv length_concat)
qed simp

lemma seq_sound:
  "list_all2 (\<lambda>d ok. rlp_decoder d ok code fuel) decs oks \<Longrightarrow>
   decodeSeq decs s = (r, s') \<Longrightarrow> s_kind s = None \<Longrightarrow> stream_ready s \<Longrightarrow>
     (\<forall>xs. r = Inr (Some xs) \<longrightarrow> list_all2 (\<lambda>ok x. ok x) oks xs \<and> holds_next s (concat (map code xs)) \<and>
        advanced (length (concat (map code xs))) s s') \<and> r \<noteq> Inl EOL"
proof (induction decs oks arbitrary: s r s' rule: list_all2_induct)
  case Nil
  then show ?case using holds_next_Nil advanced_0_refl by auto
next
  case (Cons dec decs ok oks)
  obtain q s1 where d: "dec s = (q, s1)" by fastforce
  consider e where "q = Inl e" | "q = Inr None" | x where "q = Inr (Some x)"
    by (cases q) (auto intro: option.exhaust)
  then show ?case
  proof cases
    case 3
    then have x: "ok x" "holds_next s (code x)" "advanced (length (code x)) s s1"
      using rlp_decoder.sound [OF Cons(1), of s x s1] d Cons(5,6) by auto
    obtain q' s2 where el: "decodeSeq decs s1 = (q', s2)" by fastforce
    note IH = Cons(3) [OF el advanced_fresh(1,2) [OF x(3,2) Cons(6)]]
    show ?thesis
    proof (cases "\<exists>xs. q' = Inr (Some xs)")
      case True
      then obtain xs where q': "q' = Inr (Some xs)" by blast
      then have t: "list_all2 (\<lambda>ok x. ok x) oks xs" "holds_next s1 (concat (map code xs))"
        "advanced (length (concat (map code xs))) s1 s2" using IH by auto
      have "holds_next s (code x @ concat (map code xs))"
        "advanced (length (code x) + length (concat (map code xs))) s s2"
        using holds_next_append [OF x(2,3)] t(2) advanced_trans [OF x(3) t(3)] by auto
      then show ?thesis using Cons(4) d 3 el q' x(1) t(1) by auto
    next
      case False
      then show ?thesis using IH Cons(4) d 3 el by (auto split: sum.splits option.splits)
    qed
  qed (use Cons(4) d in \<open>auto split: if_splits\<close>)
qed

lemma seq_complete:
  "list_all2 (\<lambda>d ok. rlp_decoder d ok code fuel) decs oks \<Longrightarrow> list_all2 (\<lambda>ok x. ok x) oks xs \<Longrightarrow>
     holds_next s (concat (map code xs)) \<Longrightarrow> s_kind s = None \<Longrightarrow> stream_ready s \<Longrightarrow>
     length (concat (map code xs)) < 2 ^ 63 \<Longrightarrow> 2 * length (concat (map code xs)) + 1 \<le> fuel \<Longrightarrow>
     \<exists>s'. decodeSeq decs s = (Inr (Some xs), s')"
proof (induction decs oks arbitrary: s xs rule: list_all2_induct)
  case (Cons dec decs ok oks)
  obtain x ys where xs: "xs = x # ys" "ok x" "list_all2 (\<lambda>ok x. ok x) oks ys"
    using Cons(4) by (auto simp: list_all2_Cons1)
  have hs: "holds_next s (code x @ concat (map code ys))" using Cons(5) xs by simp
  obtain s1 where d: "dec s = (Inr (Some x), s1)"
    using rlp_decoder.complete [OF Cons(1) xs(2) holds_next_prefix [OF hs] Cons(6,7)] Cons(8,9) xs by auto
  have a: "advanced (length (code x)) s s1" using rlp_decoder.sound [OF Cons(1) d Cons(6,7)] by simp
  obtain s2 where "decodeSeq decs s1 = (Inr (Some ys), s2)"
    using Cons(3) [OF xs(3) holds_next_split(2-4) [OF hs a Cons(7)]] Cons(8,9) xs by auto
  then show ?case using d xs(1) by simp
qed simp

lemma seq_fuel:
  "list_all2 (\<lambda>d ok. rlp_decoder d ok code fuel) decs oks \<Longrightarrow>
     s_kind s = None \<Longrightarrow> stream_ready s \<Longrightarrow> 2 * length (s_in s) + 1 \<le> fuel \<Longrightarrow>
     decodeSeq decs s \<noteq> (Inr None, s')"
proof (induction decs oks arbitrary: s s' rule: list_all2_induct)
  case (Cons dec decs ok oks)
  obtain q s1 where d: "dec s = (q, s1)" by fastforce
  consider e where "q = Inl e" | "q = Inr None" | x where "q = Inr (Some x)"
    by (cases q) (auto intro: option.exhaust)
  then show ?case
  proof cases
    case 2
    then show ?thesis using rlp_decoder.fuel_enough [OF Cons(1,4-6)] d by simp
  next
    case 3
    then have x: "holds_next s (code x)" "advanced (length (code x)) s s1"
      using rlp_decoder.sound [OF Cons(1), of s x s1] d Cons(4,5) by auto
    note f1 = advanced_fresh [OF x(2,1) Cons(5)]
    show ?thesis using Cons(3) [OF f1(1,2)] Cons(6) f1(3) d 3
      by (auto split: prod.splits sum.splits option.splits)
  qed (use d in auto)
qed simp

text \<open>The contract of the code run between \<open>List\<close> and \<open>ListEnd\<close>.\<close>

locale list_body =
  fixes body :: "u64 \<Rightarrow> 'a list option decode" and okl :: "'a list \<Rightarrow> bool" and code :: "'a \<Rightarrow> bytes" and fuel :: nat
  assumes body_sound: "body sz s = (Inr (Some xs), s') \<Longrightarrow> s_kind s = None \<Longrightarrow> stream_ready s \<Longrightarrow>
      okl xs \<and> holds_next s (concat (map code xs)) \<and> advanced (length (concat (map code xs))) s s'"
    and body_complete: "okl xs \<Longrightarrow> holds_next s (concat (map code xs)) \<Longrightarrow> s_kind s = None \<Longrightarrow> stream_ready s \<Longrightarrow>
      length (concat (map code xs)) < 2 ^ 63 \<Longrightarrow> list_left s (length (concat (map code xs))) \<Longrightarrow>
      unat sz = length (concat (map code xs)) \<Longrightarrow>
      2 * length (concat (map code xs)) + 3 \<le> fuel \<Longrightarrow> \<exists>s'. body sz s = (Inr (Some xs), s')"
    and body_fuel: "s_kind s = None \<Longrightarrow> stream_ready s \<Longrightarrow> 2 * length (s_in s) + 3 \<le> fuel \<Longrightarrow>
      body sz s \<noteq> (Inr None, s')"
    and body_no_eol: "s_kind s = None \<Longrightarrow> stream_ready s \<Longrightarrow> body sz s \<noteq> (Inl EOL, s')"
begin

lemma peeks_within: "peeks (within_list body)"
  unfolding within_list_def by (rule peeks_bind [OF peeks_reads(5)])

lemma within_cached:
  assumes "Stream_Kind s = (Inr (KList, z), s1)" "Stream_List s1 = (Inr z, s2)"
  shows "within_list body s = bindS (body z) (\<lambda>xs.
     if xs = None then returnS None else bindS Stream_ListEnd (\<lambda>_. returnS xs)) s2"
  using peeks_Kind [OF peeks_reads(5) assms(1)] assms(2) by (simp add: within_list_def bindS_def)

lemma within_not_list:
  assumes "Stream_Kind s = (Inr (k, z), s1)" "k \<noteq> KList"
  shows "within_list body s = (Inl ErrExpectedList, s1)"
  using assms by (simp add: within_list_def Stream_List_def bindS_def failS_def)

lemma within_sound:
  assumes w: "within_list body s = (r, s')" and f: "s_kind s = None" "stream_ready s"
  shows "r = Inr (Some xs) \<Longrightarrow> okl xs \<and> holds_next s (enc_list (concat (map code xs))) \<and>
      advanced (length (enc_list (concat (map code xs)))) s s'"
    "r = Inl EOL \<Longrightarrow> Stream_Kind s = (Inl EOL, s')"
    "2 * length (s_in s) + 1 \<le> fuel \<Longrightarrow> r \<noteq> Inr None"
proof -
  obtain q s1 where kd: "Stream_Kind s = (q, s1)" by fastforce
  consider e where "q = Inl e" | k z where "q = Inr (k, z)" "k \<noteq> KList" | z where "q = Inr (KList, z)"
    by (cases q) force+
  then have "(r = Inr (Some xs) \<longrightarrow> okl xs \<and> holds_next s (enc_list (concat (map code xs))) \<and>
      advanced (length (enc_list (concat (map code xs)))) s s') \<and>
    (r = Inl EOL \<longrightarrow> Stream_Kind s = (Inl EOL, s')) \<and> (2 * length (s_in s) + 1 \<le> fuel \<longrightarrow> r \<noteq> Inr None)"
  proof cases
    case 1
    then show ?thesis using w kd peeks_error [OF peeks_within, of s e s1] by auto
  next
    case 2
    then show ?thesis using w kd within_not_list by auto
  next
    case 3
    note kl = kd [unfolded 3]
    obtain s2 where sl: "Stream_List s1 = (Inr z, s2)" and f2: "s_kind s2 = None" "stream_ready s2"
      and st: "s_stack s2 = \<lparr>lp_pos = 0, lp_size = z\<rparr> # s_stack (advance (length (raw_head KList (unat z))) s)"
      and in2: "s_in s2 = drop (length (raw_head KList (unat z))) (s_in s)"
      and close: "\<And>p s3. holds_next s2 p \<Longrightarrow> advanced (length p) s2 s3 \<Longrightarrow> length p = unat z \<Longrightarrow>
        holds_next s (enc_list p) \<and>
        (\<exists>s4. Stream_ListEnd s3 = (Inr (), s4) \<and> advanced (length (enc_list p)) s s4)"
      using enter_list [OF kl f] by blast
    obtain b s3 where bd: "body z s2 = (b, s3)" by fastforce
    have ws: "within_list body s = (case b of Inl e \<Rightarrow> (Inl e, s3) | Inr None \<Rightarrow> (Inr None, s3)
        | Inr (Some ys) \<Rightarrow> bindS Stream_ListEnd (\<lambda>_. returnS (Some ys)) s3)"
      unfolding within_cached [OF kl sl] using bd by (auto simp: bindS_def returnS_def split: sum.split option.split)
    have "can_read s (length (raw_head KList (unat z)))"
      using Stream_Kind_sound [OF kl f] by (auto simp: holds_next_def)
    then have sh: "2 * length (s_in s) + 1 \<le> fuel \<Longrightarrow> 2 * length (s_in s2) + 3 \<le> fuel"
      using in2 raw_head_KList_pos [of "unat z"] by (simp only: can_read_def length_drop) arith
    consider e where "b = Inl e" | "b = Inr None" | ys where "b = Inr (Some ys)"
      by (cases b) (auto intro: option.exhaust)
    then show ?thesis
    proof cases
      case 1
      then show ?thesis using ws w bd body_no_eol [OF f2, of z s3] by auto
    next
      case 2
      then show ?thesis using ws w bd body_fuel [OF f2, of z s3] sh by auto
    next
      case 3
      then have y: "okl ys" "holds_next s2 (concat (map code ys))"
        "advanced (length (concat (map code ys))) s2 s3" using body_sound [of z s2 ys s3] bd f2 by auto
      show ?thesis
      proof (cases "length (concat (map code ys)) = unat z")
        case True
        then obtain s4 where "Stream_ListEnd s3 = (Inr (), s4)"
          "advanced (length (enc_list (concat (map code ys)))) s s4" "holds_next s (enc_list (concat (map code ys)))"
          using close [OF y(2,3)] by blast
        then show ?thesis using ws w 3 y(1) by (auto simp: bindS_def returnS_def)
      next
        case False
        have "length (concat (map code ys)) < 2 ^ 64" using y(2) can_lt by (auto simp: holds_next_def)
        then have "word_of_nat (length (concat (map code ys))) \<noteq> z" using False unat_of_nat_u64 by metis
        then have "Stream_ListEnd s3 = (Inl ErrNotAtEOL, s3)"
          using advanced_sel(3) [OF y(3)] st by (simp add: Stream_ListEnd_def)
        then show ?thesis using ws w 3 by (auto simp: bindS_def)
      qed
    qed
  qed
  then show "r = Inr (Some xs) \<Longrightarrow> okl xs \<and> holds_next s (enc_list (concat (map code xs))) \<and>
      advanced (length (enc_list (concat (map code xs)))) s s'"
    "r = Inl EOL \<Longrightarrow> Stream_Kind s = (Inl EOL, s')"
    "2 * length (s_in s) + 1 \<le> fuel \<Longrightarrow> r \<noteq> Inr None" by blast+
qed

lemma within_complete:
  assumes ok: "okl xs" and h: "holds_next s (enc_list (concat (map code xs)))"
    and f: "s_kind s = None" "stream_ready s"
    and lim: "length (enc_list (concat (map code xs))) < 2 ^ 63"
      "2 * length (enc_list (concat (map code xs))) + 1 \<le> fuel"
  shows "\<exists>s'. within_list body s = (Inr (Some xs), s')"
proof -
  let ?p = "concat (map code xs)"
  let ?n = "length ?p"
  let ?h = "raw_head KList ?n"
  have e: "enc_list ?p = ?h @ ?p" by (simp add: enc_list_def raw_head_def)
  have n: "?n < 2 ^ 63" "unat (word_of_nat ?n :: u64) = ?n" using lim e by (simp_all add: unat_of_nat_u64)
  have c: "can_read s (length ?h + ?n)" and hh: "holds_next s ?h"
    using h e holds_next_prefix [of s ?h ?p] by (simp_all add: holds_next_def)
  obtain s1 where kd: "Stream_Kind s = (Inr (KList, word_of_nat ?n), s1)"
    using Stream_Kind_complete [OF f _ n(1) hh can_kind_room [OF c]] by auto
  obtain s2 where sl: "Stream_List s1 = (Inr (word_of_nat ?n), s2)" and f2: "s_kind s2 = None" "stream_ready s2"
    and st: "s_stack s2 = \<lparr>lp_pos = 0, lp_size = word_of_nat ?n\<rparr> # s_stack (advance (length ?h) s)"
    and in2: "s_in s2 = drop (length ?h) (s_in s)" "s_remaining s2 = s_remaining (advance (length ?h) s)"
    and close: "\<And>p s3. holds_next s2 p \<Longrightarrow> advanced (length p) s2 s3 \<Longrightarrow> length p = ?n \<Longrightarrow>
      (\<exists>s4. Stream_ListEnd s3 = (Inr (), s4))"
    using enter_list [OF kd f, unfolded n(2)] by blast
  have "can_read (advance (length ?h) s) ?n"
    using can_advance [of s "length ?h"] can_mono [OF c, of "length ?h"] c by simp
  then have "can_read s2 ?n" using st in2 n(2) by (simp add: can_read_def)
  moreover have "take ?n (drop (length ?h) (s_in s)) = ?p"
    using h hh unfolding e holds_next_def by (simp add: take_add)
  ultimately have hp: "holds_next s2 ?p" using in2 by (simp add: holds_next_def)
  have "0 < length ?h" by (rule raw_head_KList_pos)
  then have fl: "2 * ?n + 3 \<le> fuel" using lim(2) e by (simp del: length_greater_0_conv)
  have left: "list_left s2 ?n" using st n(2) by (simp add: list_left_def)
  obtain s3 where b: "body (word_of_nat ?n) s2 = (Inr (Some xs), s3)"
    using body_complete [OF ok hp f2 n(1) left n(2) fl] by blast
  then obtain s4 where "Stream_ListEnd s3 = (Inr (), s4)" using close [OF hp] body_sound [OF b f2] by blast
  then show ?thesis unfolding within_cached [OF kd sl] using b by (simp add: bindS_def returnS_def)
qed

end

sublocale list_body \<subseteq> within: rlp_decoder "within_list body" okl "\<lambda>xs. enc_list (concat (map code xs))" fuel
proof
  fix s s' :: stream and x :: "'a list"
  show "okl x \<and> holds_next s (enc_list (concat (map code x))) \<and> advanced (length (enc_list (concat (map code x)))) s s'"
    if "within_list body s = (Inr (Some x), s')" "s_kind s = None" "stream_ready s"
    by (rule within_sound(1) [OF that refl])
  show "within_list body s \<noteq> (Inr None, s')"
    if "s_kind s = None" "stream_ready s" "2 * length (s_in s) + 1 \<le> fuel"
    using within_sound(3) [OF _ that(1,2) that(3)] by blast
  show "Stream_Kind s = (Inl EOL, s')"
    if "within_list body s = (Inl EOL, s')" "s_kind s = None" "stream_ready s"
    by (rule within_sound(2) [OF that refl])
qed (erule (5) within_complete, rule peeks_within, rule raw_ok_list)

context list_body
begin

lemma decodes: "rlp_decoder (within_list body) okl (\<lambda>xs. enc_list (concat (map code xs))) fuel"
  by (rule within.rlp_decoder_axioms)

end

context rlp_decoder
begin

lemma slice_body:
  "list_body (\<lambda>sz. if sz = 0 then returnS (Some []) else decodeElems fuel dec) (list_all ok) code fuel"
proof
  fix s s' :: stream and xs :: "'a list" and sz :: u64
  show "list_all ok xs \<and> holds_next s (concat (map code xs)) \<and> advanced (length (concat (map code xs))) s s'"
    if "(if sz = 0 then returnS (Some []) else decodeElems fuel dec) s = (Inr (Some xs), s')"
      "s_kind s = None" "stream_ready s"
    using that elems_sound [of fuel s "Inr (Some xs)" s'] holds_next_Nil [OF that(3)] advanced_0_refl [OF that(2)]
    by (auto simp: returnS_def split: if_splits)
  show "\<exists>s'. (if sz = 0 then returnS (Some []) else decodeElems fuel dec) s = (Inr (Some xs), s')"
    if "list_all ok xs" "holds_next s (concat (map code xs))" "s_kind s = None" "stream_ready s"
      "length (concat (map code xs)) < 2 ^ 63" "list_left s (length (concat (map code xs)))"
      "unat sz = length (concat (map code xs))" "2 * length (concat (map code xs)) + 3 \<le> fuel"
  proof -
    have len: "length xs \<le> length (concat (map code xs))"
      using that(1) code_pos by (intro concat_codes_length) (simp add: list_all_iff)
    show ?thesis
    proof (cases "sz = 0")
      case True
      then have "length xs = 0" using len that(7) by (metis le_zero_eq unat_0)
      then show ?thesis using True by (simp add: returnS_def)
    next
      case False
      then show ?thesis using elems_complete [OF that(1-6), of fuel] that(8) len by simp
    qed
  qed
  show "(if sz = 0 then returnS (Some []) else decodeElems fuel dec) s \<noteq> (Inr None, s')"
    if "s_kind s = None" "stream_ready s" "2 * length (s_in s) + 3 \<le> fuel"
    using elems_fuel [OF that(1,2), of fuel s'] that(3) by (simp add: returnS_def)
  show "(if sz = 0 then returnS (Some []) else decodeElems fuel dec) s \<noteq> (Inl EOL, s')"
    if "s_kind s = None" "stream_ready s"
    using elems_sound [OF _ that, of fuel "Inl EOL" s'] by (auto simp: returnS_def)
qed

end

lemma seq_body:
  assumes "list_all2 (\<lambda>d ok. rlp_decoder d ok code fuel) decs oks"
  shows "list_body (\<lambda>_. decodeSeq decs) (list_all2 (\<lambda>ok x. ok x) oks) code fuel"
proof
  fix s s' :: stream and xs :: "'a list" and sz :: u64
  show "list_all2 (\<lambda>ok x. ok x) oks xs \<and> holds_next s (concat (map code xs)) \<and>
      advanced (length (concat (map code xs))) s s'"
    if "decodeSeq decs s = (Inr (Some xs), s')" "s_kind s = None" "stream_ready s"
    using seq_sound [OF assms that] by blast
  show "\<exists>s'. decodeSeq decs s = (Inr (Some xs), s')"
    if "list_all2 (\<lambda>ok x. ok x) oks xs" "holds_next s (concat (map code xs))" "s_kind s = None" "stream_ready s"
      "length (concat (map code xs)) < 2 ^ 63" "2 * length (concat (map code xs)) + 3 \<le> fuel"
    using seq_complete [OF assms that(1-5)] that(6) by simp
  show "decodeSeq decs s \<noteq> (Inr None, s')"
    if "s_kind s = None" "stream_ready s" "2 * length (s_in s) + 3 \<le> fuel"
    using seq_fuel [OF assms that(1,2)] that(3) by simp
  show "decodeSeq decs s \<noteq> (Inl EOL, s')" if "s_kind s = None" "stream_ready s"
    using seq_sound [OF assms _ that] by blast
qed

lemma tail_body:
  assumes seq: "list_all2 (\<lambda>d ok. rlp_decoder d ok enc_val fuel) decs oks" and el: "rlp_decoder elemdec okt enc_val fuel"
  shows "list_body (\<lambda>_. bindS (decodeSeq decs) (\<lambda>xs.
            case xs of None \<Rightarrow> returnS None
            | Some vs \<Rightarrow> bindS (decodeElems fuel elemdec) (\<lambda>ws.
                returnS (map_option (\<lambda>ws. vs @ [SliceVal True ws]) ws))))
     (\<lambda>xs. \<exists>vs ws. xs = vs @ [SliceVal True ws] \<and> list_all2 (\<lambda>ok x. ok x) oks vs \<and> list_all okt ws) enc_val fuel"
    (is "list_body (\<lambda>_. ?body) ?okl _ _")
proof
  fix s s' :: stream and xs :: "rval list" and sz :: u64
  assume f: "s_kind s = None" "stream_ready s"
  have body_Some: "?body s = (Inr (Some xs), s') \<longleftrightarrow>
      (\<exists>vs s1 ws. decodeSeq decs s = (Inr (Some vs), s1) \<and> decodeElems fuel elemdec s1 = (Inr (Some ws), s') \<and>
         xs = vs @ [SliceVal True ws])" for xs s'
    by (auto simp: bindS_def returnS_def split: prod.splits sum.splits option.splits)
  have body_None: "?body s = (Inr None, s') \<longleftrightarrow> decodeSeq decs s = (Inr None, s') \<or>
      (\<exists>vs s1. decodeSeq decs s = (Inr (Some vs), s1) \<and> decodeElems fuel elemdec s1 = (Inr None, s'))" for s'
    by (auto simp: bindS_def returnS_def split: prod.splits sum.splits option.splits)
  have body_Inl: "?body s = (Inl e, s') \<longleftrightarrow> decodeSeq decs s = (Inl e, s') \<or>
      (\<exists>vs s1. decodeSeq decs s = (Inr (Some vs), s1) \<and> decodeElems fuel elemdec s1 = (Inl e, s'))" for e s'
    by (auto simp: bindS_def returnS_def split: prod.splits sum.splits option.splits)
  have mid: "s_kind s1 = None" "stream_ready s1" "length (s_in s1) \<le> length (s_in s)"
    if "decodeSeq decs s = (Inr (Some vs), s1)" for vs s1
  proof -
    have "holds_next s (concat (map enc_val vs))" "advanced (length (concat (map enc_val vs))) s s1"
      using seq_sound [OF seq that f] by blast+
    from advanced_fresh [OF this(2,1) f(2)]
    show "s_kind s1 = None" "stream_ready s1" "length (s_in s1) \<le> length (s_in s)" by linarith+
  qed
  show "?okl xs \<and> holds_next s (concat (map enc_val xs)) \<and> advanced (length (concat (map enc_val xs))) s s'"
    if b: "?body s = (Inr (Some xs), s')"
  proof -
    obtain vs s1 ws where d: "decodeSeq decs s = (Inr (Some vs), s1)"
      "decodeElems fuel elemdec s1 = (Inr (Some ws), s')" "xs = vs @ [SliceVal True ws]"
      using b unfolding body_Some by blast
    have v: "list_all2 (\<lambda>ok x. ok x) oks vs" "holds_next s (concat (map enc_val vs))"
      "advanced (length (concat (map enc_val vs))) s s1"
      using seq_sound [OF seq d(1) f] by blast+
    have w: "list_all okt ws" "holds_next s1 (concat (map enc_val ws))"
      "advanced (length (concat (map enc_val ws))) s1 s'"
      using rlp_decoder.elems_sound [OF el d(2) mid(1,2) [OF d(1)]] by blast+
    show ?thesis using v w d(3) holds_next_append [OF v(2,3)] advanced_trans [OF v(3) w(3)] by auto
  qed
  show "\<exists>s'. ?body s = (Inr (Some xs), s')"
    if ok: "?okl xs" and h: "holds_next s (concat (map enc_val xs))" and lim: "length (concat (map enc_val xs)) < 2 ^ 63"
      and left: "list_left s (length (concat (map enc_val xs)))" and fl: "2 * length (concat (map enc_val xs)) + 3 \<le> fuel"
  proof -
    obtain vs ws where x: "xs = vs @ [SliceVal True ws]" "list_all2 (\<lambda>ok x. ok x) oks vs" "list_all okt ws" using ok by blast
    let ?v = "concat (map enc_val vs)" and ?w = "concat (map enc_val ws)"
    have h': "holds_next s (?v @ ?w)" and lv: "list_left s (length ?v + length ?w)" using h left x(1) by simp_all
    have l: "length ?v < 2 ^ 63" "length ?w < 2 ^ 63" "2 * length ?v + 1 \<le> fuel" "2 * length ?w + 1 \<le> fuel"
      "length ?w < fuel" using lim fl x(1) by simp_all
    obtain s1 where d: "decodeSeq decs s = (Inr (Some vs), s1)"
      using seq_complete [OF seq x(2) holds_next_prefix [OF h'] f l(1,3)] by blast
    have a: "advanced (length ?v) s s1" using seq_sound [OF seq d f] by blast
    have "length ws \<le> length ?w"
      using x(3) rlp_decoder.code_pos [OF el] by (intro concat_codes_length) (simp add: list_all_iff)
    then obtain s2 where "decodeElems fuel elemdec s1 = (Inr (Some ws), s2)"
      using rlp_decoder.elems_complete [OF el x(3) holds_next_split(2-4) [OF h' a f(2)] l(2)
          list_left_advanced [OF lv a] l(4)] l(5) by (meson order_le_less_trans)
    then show ?thesis using d x(1) unfolding body_Some by blast
  qed
  show "?body s \<noteq> (Inr None, s')" if fl: "2 * length (s_in s) + 3 \<le> fuel"
  proof
    assume "?body s = (Inr None, s')"
    then obtain vs s1 where d: "decodeSeq decs s = (Inr (Some vs), s1)" "decodeElems fuel elemdec s1 = (Inr None, s')"
      using seq_fuel [OF seq f, of s'] fl unfolding body_None by auto
    then show False using rlp_decoder.elems_fuel [OF el mid(1,2) [OF d(1)], of fuel s'] mid(3) [OF d(1)] fl by simp
  qed
  show "?body s \<noteq> (Inl EOL, s')"
  proof
    assume "?body s = (Inl EOL, s')"
    then obtain vs s1 where d: "decodeSeq decs s = (Inr (Some vs), s1)" "decodeElems fuel elemdec s1 = (Inl EOL, s')"
      using seq_sound [OF seq _ f] unfolding body_Inl by blast
    then show False using rlp_decoder.elems_sound [OF el d(2) mid(1,2) [OF d(1)]] by blast
  qed
qed

section \<open>Pointers\<close>

lemma raw_head_0: "raw_head KString 0 = [0x80]" "raw_head KList 0 = [0xC0]"
  by (simp_all add: raw_head_def enc_head_def)

lemma raw_ok_empty:
  assumes "raw_ok c" "hd c = hd (raw_head k 0)" "k \<noteq> KByte" "length c < 2 ^ 63"
  shows "c = raw_head k 0"
  using assms(1) unfolding raw_ok_def
proof
  assume "length c = 1 \<and> c ! 0 < 0x80"
  then show ?thesis using assms(2,3) by (cases k; cases c) (auto simp: raw_head_0 word_less_nat_alt)
next
  assume "\<exists>k \<in> {KString, KList}. \<exists>n \<in> {..length c}. length c = length (raw_head k n) + n \<and>
      take (length (raw_head k n)) c = raw_head k n"
  then obtain j n where j: "j \<noteq> KByte" "length c = length (raw_head j n) + n"
    "take (length (raw_head j n)) c = raw_head j n" by blast
  have "0 < length (raw_head j n)" by (rule raw_head_length [OF j(1)])
  then have hd: "hd (raw_head j n) = hd (raw_head k 0)" using j(3) assms(2) by (metis hd_take)
  have n: "length (nat_be n) \<le> 8" "n < 2 ^ 63" using j(2) assms(4) by (simp_all add: length_nat_be)
  have "unat (hd (raw_head k 0)) = (if k = KString then 128 else 192)"
    using assms(3) by (cases k) (simp_all add: raw_head_0)
  moreover have "unat (hd (raw_head j n)) = (if n < 56 then (if j = KString then 128 else 192) + n
      else (if j = KString then 183 else 247) + length (nat_be n))"
    using j(1) n(1) by (cases j) (auto simp: raw_head_def enc_head_def unat_tag)
  moreover have "0 < length (nat_be n)" if "\<not> n < 56" using that by auto
  ultimately have "n = 0 \<and> j = k" using hd n(1) j(1) assms(3)
    by (cases "n < 56"; cases j; cases k) (auto split: if_splits)
  then show ?thesis using j(2,3) by simp
qed

lemma empty_next:
  assumes "Stream_Kind s = (Inr (k, 0), s1)" "k \<noteq> KByte" "s_kind s = None" "stream_ready s"
  shows "holds_next s (raw_head k 0)" "advanced 1 s (s1\<lparr>s_kind := None\<rparr>)"
proof -
  have k: "holds_next s (raw_head k 0)"
    "s1 = (advance 1 s)\<lparr>s_byteval := 0, s_kind := Some k, s_size := 0, s_kinderr := None\<rparr>"
    using Stream_Kind_sound [OF assms(1,3,4)] assms(2) by (cases k; auto simp: raw_head_0)+
  show "holds_next s (raw_head k 0)" by (rule k(1))
  show "advanced 1 s (s1\<lparr>s_kind := None\<rparr>)" unfolding k(2) by (rule advancedI)
qed

lemma next_empty:
  assumes "holds_next s (raw_head k 0)" "k \<noteq> KByte" "s_kind s = None" "stream_ready s"
  shows "\<exists>s1. Stream_Kind s = (Inr (k, 0), s1)"
proof -
  have "can_read s (length (raw_head k 0) + 0)" using assms(1) by (simp add: holds_next_def)
  from Stream_Kind_complete [OF assms(3,4,2) _ assms(1) can_kind_room [OF this]] show ?thesis by auto
qed

lemma empty_codes: "k \<noteq> KByte \<Longrightarrow> enc_val (PtrVal k None) = raw_head k 0"
  by (cases k) (simp_all add: raw_head_0 enc_string_def enc_list_def enc_head_def)

lemma hd_holds: "holds_next s c \<Longrightarrow> c \<noteq> [] \<Longrightarrow> hd (s_in s) = hd c"
  by (metis hd_append2 append_take_drop_id holds_next_def)

definition ptr_ok :: "bool \<Rightarrow> Kind \<Rightarrow> (rval \<Rightarrow> bool) \<Rightarrow> rval \<Rightarrow> bool" where
  "ptr_ok nilOK nk ok v =
    (case v of
       PtrVal k (Some w) \<Rightarrow> k = nk \<and> ok w \<and> (nilOK \<longrightarrow> enc_val w \<noteq> [0x80] \<and> enc_val w \<noteq> [0xC0])
     | PtrVal k None \<Rightarrow> k = nk \<and> nilOK
     | _ \<Rightarrow> False)"

lemma nil_ptr_decoder:
  assumes d: "rlp_decoder dec ok enc_val fuel" and nk: "nk \<noteq> KByte"
  shows "rlp_decoder (decodePtr True nk dec) (ptr_ok True nk ok) enc_val fuel"
proof
  fix s s' :: stream and x :: rval
  assume f: "s_kind s = None" "stream_ready s"
  have empty: "decodePtr True nk dec s = (if k \<noteq> nk then (Inl ErrWrongEmptyKind, s1)
      else (Inr (Some (PtrVal nk None)), s1\<lparr>s_kind := None\<rparr>))"
    if "Stream_Kind s = (Inr (k, 0), s1)" "k \<noteq> KByte" for k s1
    using that by (simp add: decodePtr_def bindS_def failS_def)
  have full: "decodePtr True nk dec s = mapS (\<lambda>v. PtrVal nk (Some v)) dec s"
    if "Stream_Kind s = (Inr (k, sz), s1)" "\<not> (k \<noteq> KByte \<and> sz = 0)" for k sz s1
    using that peeks_Kind [OF rlp_decoder.peeking [OF d] that(1)]
    by (auto simp: decodePtr_def mapS_def bindS_def)
  have err: "decodePtr True nk dec s = (Inl e, s1)" if "Stream_Kind s = (Inl e, s1)" for e s1
    using that by (simp add: decodePtr_def bindS_def)
  obtain q s1 where kd: "Stream_Kind s = (q, s1)" by fastforce
  consider e where "Stream_Kind s = (Inl e, s1)" | k where "Stream_Kind s = (Inr (k, 0), s1)" "k \<noteq> KByte"
    | k sz where "Stream_Kind s = (Inr (k, sz), s1)" "\<not> (k \<noteq> KByte \<and> sz = 0)"
    using kd by (cases q) auto
  note cs = this
  show "ptr_ok True nk ok x \<and> holds_next s (enc_val x) \<and> advanced (length (enc_val x)) s s'"
    if got: "decodePtr True nk dec s = (Inr (Some x), s')"
    using cs
  proof cases
    case (2 k)
    then have k: "k = nk" "x = PtrVal nk None" "s' = s1\<lparr>s_kind := None\<rparr>"
      using got empty [of k s1] by (auto split: if_splits)
    moreover have "length (raw_head nk 0) = 1" using nk by (cases nk) (simp_all add: raw_head_0)
    ultimately show ?thesis using empty_next [OF 2 f] nk empty_codes [OF nk] by (simp add: ptr_ok_def)
  next
    case (3 k sz)
    then obtain w where w: "dec s = (Inr (Some w), s')" "x = PtrVal nk (Some w)"
      using got full [OF 3] by (auto simp: mapS_cases)
    note sw = rlp_decoder.sound [OF d w(1) f]
    have "enc_val w \<noteq> raw_head j 0" if "j \<noteq> KByte" for j
      using next_empty [of s j] that sw f 3 by auto
    from this [of KString] this [of KList] show ?thesis using sw w(2) by (simp add: ptr_ok_def raw_head_0)
  qed (use got err in auto)
  show "\<exists>s'. decodePtr True nk dec s = (Inr (Some x), s')"
    if ok: "ptr_ok True nk ok x" and h: "holds_next s (enc_val x)" and l: "length (enc_val x) < 2 ^ 63"
      "2 * length (enc_val x) + 1 \<le> fuel"
  proof -
    consider "x = PtrVal nk None" | w where "x = PtrVal nk (Some w)" "ok w" "enc_val w \<noteq> [0x80]" "enc_val w \<noteq> [0xC0]"
      using ok by (auto simp: ptr_ok_def split: rval.splits option.splits)
    then show ?thesis
    proof cases
      case 1
      then obtain s2 where "Stream_Kind s = (Inr (nk, 0), s2)"
        using next_empty [of s nk] h empty_codes [OF nk] nk f by auto
      then show ?thesis using empty [of nk s2] nk 1 by auto
    next
      case (2 w)
      then obtain s2 where dw: "dec s = (Inr (Some w), s2)"
        using rlp_decoder.complete [OF d 2(2) _ f] h l by auto
      have hw: "holds_next s (enc_val w)" using h 2(1) by simp
      have rw: "raw_ok (enc_val w)" by (rule rlp_decoder.shape [OF d 2(2)])
      have no: False if "Stream_Kind s = (Inr (k, 0), s1)" "k \<noteq> KByte" for k
      proof -
        have "raw_head k 0 \<noteq> []" using raw_head_length [OF that(2), of 0] by simp
        then have "hd (enc_val w) = hd (raw_head k 0)"
          using hd_holds [OF hw raw_ok_nonempty [OF rw]] hd_holds [OF empty_next(1) [OF that f]] by simp
        then have "enc_val w = raw_head k 0"
          using rw that(2) l(1) 2(1) by (intro raw_ok_empty) simp_all
        then show False using 2(3,4) that(2) by (cases k) (auto simp: raw_head_0)
      qed
      show ?thesis using cs
      proof cases
        case (1 e)
        then show ?thesis using dw peeks_error [OF rlp_decoder.peeking [OF d]] by auto
      next
        case (3 k sz)
        then show ?thesis using full [OF 3] dw 2(1) by (auto simp: mapS_cases)
      qed (use no in blast)
    qed
  qed
  show "decodePtr True nk dec s \<noteq> (Inr None, s')" if "2 * length (s_in s) + 1 \<le> fuel"
    using cs
  proof cases
    case (3 k sz)
    then show ?thesis using full [OF 3] rlp_decoder.fuel_enough [OF d f that] by (simp add: mapS_cases)
  qed (use err empty in auto)
  show "Stream_Kind s = (Inl EOL, s')" if "decodePtr True nk dec s = (Inl EOL, s')"
    using cs
  proof cases
    case (3 k sz)
    have "dec s = (Inl EOL, s')" using that unfolding full [OF 3] mapS_cases .
    then show ?thesis by (rule rlp_decoder.only_eol [OF d _ f])
  qed (use err empty that in \<open>auto split: if_splits\<close>)
next
  show "peeks (decodePtr True nk dec)" unfolding decodePtr_def if_True by (rule peeksI)
  show "raw_ok (enc_val x)" if "ptr_ok True nk ok x" for x
    using that rlp_decoder.shape [OF d] raw_ok_string [of "[]"] raw_ok_list [of "[]"]
    by (auto simp: ptr_ok_def split: rval.splits option.splits)
qed

section \<open>Every type\<close>

lemma decoder_maps:
  "decodeRawValue = mapS RawValue (someS Stream_Raw)" "decodeUint bits = mapS UintVal (someS (Stream_uint bits))"
  "decodeBool = mapS BoolVal (someS Stream_Bool)" "decodeString = mapS StringVal (someS Stream_Bytes)"
  "decodeByteSlice = mapS BytesVal (someS Stream_Bytes)" "decodeBigInt wrap = mapS wrap (someS big_bytes)"
  "bindS (decodeByteArray n) (\<lambda>b. returnS (Some (ByteArrayVal b))) = mapS ByteArrayVal (someS (decodeByteArray n))"
  by (auto simp: fun_eq_iff decodeRawValue_def decodeUint_def decodeBool_def decodeString_def decodeByteSlice_def
      decodeBigInt_def big_bytes_def mapS_def someS_def bindS_def returnS_def failS_def
      split: prod.splits sum.splits)

lemma is_item_item_val: "is_item v \<longleftrightarrow> (\<exists>x. v = item_val x)"
proof
  show "is_item v \<Longrightarrow> \<exists>x. v = item_val x"
  proof (induction v rule: is_item.induct)
    case (1 b)
    then show ?case using item_val.simps(1) [of b] by metis
  next
    case (2 tail vs)
    have "\<exists>x. v = InterfaceVal (Some (item_val x))" if v: "v \<in> set vs" for v
    proof -
      have "case v of InterfaceVal (Some w) \<Rightarrow> is_item w | _ \<Rightarrow> False" using 2(2) v by simp
      then obtain w where w: "v = InterfaceVal (Some w)" "is_item w" by (cases v) (auto split: option.splits)
      then show ?thesis using 2(1) [OF v w(1) refl] by blast
    qed
    then obtain xs where "vs = map (\<lambda>x. InterfaceVal (Some (item_val x))) xs"
      by (metis (no_types, lifting) ex_map_conv)
    then show ?case using 2(2) item_val.simps(2) [of xs] by (auto intro!: exI [of _ "IList xs"])
  qed auto
next
  have "is_item (item_val x)" for x by (induction x) auto
  then show "\<exists>x. v = item_val x \<Longrightarrow> is_item v" by blast
qed

lemma struct_tail_shape:
  "(vs \<noteq> [] \<and> P (butlast vs) \<and> (case last vs of SliceVal True ws \<Rightarrow> Q ws | _ \<Rightarrow> False)) \<longleftrightarrow>
    (\<exists>us ws. vs = us @ [SliceVal True ws] \<and> P us \<and> Q ws)"
proof (cases vs rule: rev_cases)
  case (snoc us v)
  then show ?thesis by (cases v) (auto split: bool.splits)
qed simp

lemma makeDecoder_contract:
  "wf_type t \<Longrightarrow> rlp_decoder (makeDecoder (Suc fuel) t) (has_type t) enc_val (Suc fuel)"
proof (induction t)
  case TRawValue
  show ?case unfolding makeDecoder.simps decoder_maps
    by (rule mapS_decoder [OF rlp_raw.rlp_decoder_axioms]) (auto split: rval.splits)
next
  case TBigIntPtr
  show ?case unfolding makeDecoder.simps decoder_maps
    by (rule mapS_decoder [OF str_big.decodes]) (auto split: rval.splits option.splits)
next
  case TBigInt
  show ?case unfolding makeDecoder.simps decoder_maps
    by (rule mapS_decoder [OF str_big.decodes]) (auto split: rval.splits)
next
  case (TUint bits)
  then have "string_decoder (Stream_uint bits) (\<lambda>v. unat v < 2 ^ bits) (\<lambda>v. nat_be (unat v))"
    by (intro uint_decoder) simp
  from string_decoder.decodes [OF this] show ?case unfolding makeDecoder.simps decoder_maps
    by (rule mapS_decoder) (auto split: rval.splits)
next
  case TBool
  show ?case unfolding makeDecoder.simps decoder_maps
    by (rule mapS_decoder [OF str_bool.decodes]) (auto split: rval.splits)
next
  case TString
  show ?case unfolding makeDecoder.simps decoder_maps
    by (rule mapS_decoder [OF str_bytes.decodes]) (auto split: rval.splits)
next
  case TBytes
  show ?case unfolding makeDecoder.simps decoder_maps
    by (rule mapS_decoder [OF str_bytes.decodes]) (auto split: rval.splits)
next
  case (TByteArray n)
  then have "string_decoder (decodeByteArray n) (\<lambda>b. length b = n) (\<lambda>b. b)" by (intro byte_array_decoder) simp_all
  from string_decoder.decodes [OF this] show ?case unfolding makeDecoder.simps decoder_maps
    by (rule mapS_decoder) (auto split: rval.splits)
next
  case (TSlice t)
  then have "rlp_decoder (makeDecoder (Suc fuel) t) (has_type t) enc_val (Suc fuel)" by simp
  from list_body.decodes [OF rlp_decoder.slice_body [OF this]]
  show ?case unfolding makeDecoder.simps decodeListSlice_def mapS_def [symmetric]
    by (rule mapS_decoder) (auto simp: list_all_iff split: rval.splits bool.splits)
next
  case (TArray n t)
  then have "rlp_decoder (makeDecoder (Suc fuel) t) (has_type t) enc_val (Suc fuel)" by simp
  then have "list_all2 (\<lambda>d ok. rlp_decoder d ok enc_val (Suc fuel))
      (replicate n (makeDecoder (Suc fuel) t)) (replicate n (has_type t))" by (simp add: list_all2_conv_all_nth)
  from list_body.decodes [OF seq_body [OF this]]
  show ?case unfolding makeDecoder.simps decodeListArray_def mapS_def [symmetric]
    by (rule mapS_decoder) (auto simp: list_all2_conv_all_nth all_set_conv_all_nth split: rval.splits bool.splits)
next
  case (TStruct ts tail)
  have seq: "list_all2 (\<lambda>d ok. rlp_decoder d ok enc_val (Suc fuel)) (map (makeDecoder (Suc fuel)) ts) (map has_type ts)"
    using TStruct(1,3) by (simp add: list_all2_conv_all_nth)
  show ?case
  proof (cases tail)
    case None
    from list_body.decodes [OF seq_body [OF seq]]
    show ?thesis unfolding makeDecoder.simps decodeStruct_def mapS_def [symmetric] None option.map option.case
      by (rule mapS_decoder) (auto simp: list_all2_map1 split: rval.splits)
  next
    case (Some t)
    then have "rlp_decoder (makeDecoder (Suc fuel) t) (has_type t) enc_val (Suc fuel)" using TStruct(2,3) by simp
    from list_body.decodes [OF tail_body [OF seq this]]
    show ?thesis unfolding makeDecoder.simps decodeStruct_def mapS_def [symmetric] Some option.map option.case
    proof (rule mapS_decoder)
      show "has_type (TStruct ts (Some t)) y \<longleftrightarrow> (\<exists>x. (\<exists>vs ws. x = vs @ [SliceVal True ws] \<and>
          list_all2 (\<lambda>ok x. ok x) (map has_type ts) vs \<and> list_all (has_type t) ws) \<and> y = StructVal x)" for y
        using struct_tail_shape [of _ "list_all2 has_type ts" "\<lambda>ws. \<forall>w \<in> set ws. has_type t w"]
        by (cases y) (simp_all add: list_all2_map1 list_all_iff)
    qed simp
  qed
next
  case TInterface
  show ?case unfolding makeDecoder.simps mapS_def [symmetric]
    by (rule mapS_decoder [OF rlp_interface.rlp_decoder_axioms])
      (auto simp: is_item_item_val enc_item_val split: rval.splits option.splits)
next
  case (TPtr nilOK nilKind t)
  then have d: "rlp_decoder (makeDecoder (Suc fuel) t) (has_type t) enc_val (Suc fuel)" and nk: "nilKind \<noteq> KByte"
    by simp_all
  have ok: "has_type (TPtr nilOK nilKind t) = ptr_ok nilOK nilKind (has_type t)"
    by (simp add: fun_eq_iff ptr_ok_def)
  show ?case
  proof (cases nilOK)
    case True
    then show ?thesis using nil_ptr_decoder [OF d nk] ok by simp
  next
    case False
    show ?thesis unfolding makeDecoder.simps decodePtr_def mapS_def [symmetric] ok using False
      by (simp only: if_False) (rule mapS_decoder [OF d], auto simp: ptr_ok_def split: rval.splits option.splits)
  qed
qed

lemma DecodeBytes_typed_canonical:
  assumes t: "wf_type t" and b: "length b < 2 ^ 63"
  shows "(DecodeBytes_typed t b = Inr (Some v) \<longleftrightarrow> has_type t v \<and> b = enc_val v) \<and>
    DecodeBytes_typed t b \<noteq> Inr None"
proof -
  let ?s = "Stream_Reset b (word_of_nat (length b))" and ?fuel = "Suc (2 * length b)"
  note rs = Stream_Reset_ready [OF b] and d = makeDecoder_contract [OF t, of "2 * length b"]
  have "DecodeBytes_typed t b = Inr (Some v) \<longleftrightarrow> has_type t v \<and> b = enc_val v"
  proof
    assume "DecodeBytes_typed t b = Inr (Some v)"
    then obtain s' where r: "makeDecoder ?fuel t ?s = (Inr (Some v), s')" "s_in s' = []"
      by (auto simp: DecodeBytes_typed_def split: prod.splits sum.splits if_splits)
    have "has_type t v" "holds_next ?s (enc_val v)" "advanced (length (enc_val v)) ?s s'"
      using rlp_decoder.sound [OF d r(1) rs(1,2)] by auto
    then show "has_type t v \<and> b = enc_val v"
      using rs(3,4) r(2) advanced_sel(1) by (metis append_Nil2 append_take_drop_id)
  next
    assume v: "has_type t v \<and> b = enc_val v"
    then obtain s2 where d2: "makeDecoder ?fuel t ?s = (Inr (Some v), s2)"
      using rlp_decoder.complete [OF d _ _ rs(1,2), of v] rs(4) b by auto
    then have "advanced (length (enc_val v)) ?s s2" using rlp_decoder.sound [OF d d2 rs(1,2)] by simp
    then have "s_in s2 = []" using advanced_sel(1) rs(3) v by (metis drop_all order_refl)
    then show "DecodeBytes_typed t b = Inr (Some v)" using d2 by (simp add: DecodeBytes_typed_def)
  qed
  moreover have "DecodeBytes_typed t b \<noteq> Inr None"
  proof
    assume "DecodeBytes_typed t b = Inr None"
    then obtain s' where "makeDecoder ?fuel t ?s = (Inr None, s')"
      by (auto simp: DecodeBytes_typed_def split: prod.splits sum.splits if_splits)
    then show False using rlp_decoder.fuel_enough [OF d rs(1,2)] rs(3) by simp
  qed
  ultimately show ?thesis by blast
qed

interpretation iface_slice: list_body
  "\<lambda>sz. if sz = 0 then returnS (Some []) else decodeElems (Suc fuel) (decodeInterface (Suc fuel))"
  "list_all (\<lambda>_. True)" enc_item "Suc fuel" for fuel
  by (rule rlp_interface.slice_body)

text \<open>
  C22. For every supported type without one-byte arrays, \<open>DecodeBytes\<close> into a variable of the type
  returns the value \<open>v\<close> exactly when \<open>v\<close> is a value of the type and the input is the canonical encoding
  of \<open>v\<close>. The decoder always returns (its fuel is never used up), never accepts two encodings of a
  value and never reads a value that encodes to other bytes.
\<close>

theorem DecodeBytes_typed_iff:
  assumes "wf_type t" "length b < 2 ^ 63"
  shows "(DecodeBytes_typed t b = Inr (Some v) \<longleftrightarrow> has_type t v \<and> b = enc_val v) \<and>
    DecodeBytes_typed t b \<noteq> Inr None"
  by (rule DecodeBytes_typed_canonical [OF assms])

theorem DecodeBytes_typed_iff_witness:
  "DecodeBytes_typed (TStruct [TUint 64, TPtr True KString TBytes, TBool] (Some TString))
      [0xC6, 0x07, 0x80, 0x01, 0x82, 0x61, 0x62] =
    Inr (Some (StructVal [UintVal 7, PtrVal KString None, BoolVal True, SliceVal True [StringVal [0x61, 0x62]]]))"
  using DecodeBytes_typed_iff [of "TStruct [TUint 64, TPtr True KString TBytes, TBool] (Some TString)"
      "[0xC6, 0x07, 0x80, 0x01, 0x82, 0x61, 0x62]"
      "StructVal [UintVal 7, PtrVal KString None, BoolVal True, SliceVal True [StringVal [0x61, 0x62]]]"]
  by (simp add: enc_string_def enc_list_def enc_head_def nat_be_step)


end
