(* ===== verification/BlockHeader.thy ===== *)
theory BlockHeader
  imports RlpContract
begin

text \<open>
  Block headers and blocks of package \<^verbatim>\<open>core/types\<close> (src/core/types/block.go): the fields of \<open>Header\<close> in
  their encoding order, nonces, the header hash, and the parts of \<open>Block\<close> that consensus engines
  use. Hashes and addresses are byte strings; the Keccak-256 function is a parameter.
\<close>

section \<open>Headers\<close>

text \<open>\<open>BlockNonce\<close> is a big-endian 64-bit number.\<close>

definition EncodeNonce :: "u64 \<Rightarrow> bytes" where
  "EncodeNonce i = map (\<lambda>k. ucast (drop_bit (8 * k) i)) [7, 6, 5, 4, 3, 2, 1, 0]"

definition BlockNonce_Uint64 :: "bytes \<Rightarrow> u64" where
  "BlockNonce_Uint64 n = word_of_nat (be_nat n)"

record Header =
  ParentHash :: bytes
  UncleHash :: bytes
  Coinbase :: bytes
  Root :: bytes
  TxHash :: bytes
  ReceiptHash :: bytes
  Bloom :: bytes
  Number :: int
  GasLimit :: u64
  GasUsed :: u64
  Time :: u64
  Extra :: bytes
  Lucky :: int
  Basis :: int
  FirstNonce :: bytes
  DifficultyAlpha :: int
  DifficultyBeta :: int
  Difficulty :: int
  SecondNonce :: bytes
  MixDigest :: bytes
  Nonce :: bytes

text \<open>The value the RLP encoder sees: the struct fields in declaration order.\<close>

definition header_val :: "Header \<Rightarrow> rval" where
  "header_val h = StructVal
    [ByteArrayVal (ParentHash h), ByteArrayVal (UncleHash h), ByteArrayVal (Coinbase h),
     ByteArrayVal (Root h), ByteArrayVal (TxHash h), ByteArrayVal (ReceiptHash h),
     ByteArrayVal (Bloom h), BigIntPtr (Some (Number h)), UintVal (GasLimit h),
     UintVal (GasUsed h), UintVal (Time h), BytesVal (Extra h), BigIntPtr (Some (Lucky h)),
     BigIntPtr (Some (Basis h)), ByteArrayVal (FirstNonce h), BigIntPtr (Some (DifficultyAlpha h)),
     BigIntPtr (Some (DifficultyBeta h)), BigIntPtr (Some (Difficulty h)),
     ByteArrayVal (SecondNonce h), ByteArrayVal (MixDigest h), ByteArrayVal (Nonce h)]"

text \<open>
  The type the RLP decoder sees: the same fields with the widths of \<open>Hash\<close>, \<open>Address\<close>, \<open>Bloom\<close> and
  \<open>BlockNonce\<close>. \<open>header_fits\<close> says that a header of the model has these widths and no negative integer.
\<close>

definition header_type :: rtype where
  "header_type = TStruct
    [TByteArray 32, TByteArray 32, TByteArray 25, TByteArray 32, TByteArray 32, TByteArray 32,
     TByteArray 256, TBigIntPtr, TUint 64, TUint 64, TUint 64, TBytes, TBigIntPtr, TBigIntPtr,
     TByteArray 8, TBigIntPtr, TBigIntPtr, TBigIntPtr, TByteArray 8, TByteArray 32, TByteArray 8] None"

definition header_fits :: "Header \<Rightarrow> bool" where
  "header_fits h \<longleftrightarrow>
    (\<forall>b \<in> {ParentHash h, UncleHash h, Root h, TxHash h, ReceiptHash h, MixDigest h}. length b = 32) \<and>
    length (Coinbase h) = 25 \<and> length (Bloom h) = 256 \<and>
    (\<forall>b \<in> {FirstNonce h, SecondNonce h, Nonce h}. length b = 8) \<and>
    (\<forall>i \<in> {Number h, Lucky h, Basis h, DifficultyAlpha h, DifficultyBeta h, Difficulty h}. 0 \<le> i)"

definition rlpHash :: "(bytes \<Rightarrow> bytes) \<Rightarrow> rval \<Rightarrow> bytes" where
  "rlpHash keccak x = keccak (rlp_bytes x)"

definition Header_Hash :: "(bytes \<Rightarrow> bytes) \<Rightarrow> Header \<Rightarrow> bytes" where
  "Header_Hash keccak h = rlpHash keccak (PtrVal KList (Some (header_val h)))"

datatype sanity_error = ErrLargeNumber | ErrLargeDifficulty | ErrLargeExtra

definition SanityCheck :: "Header \<Rightarrow> sanity_error + unit" where
  "SanityCheck h =
    (if \<not> (0 \<le> Number h \<and> Number h < 2 ^ 64) then Inl ErrLargeNumber
     else if bitlen (nat \<bar>Difficulty h\<bar>) > 80 then Inl ErrLargeDifficulty
     else if length (Extra h) > 100 * 1024 then Inl ErrLargeExtra
     else Inr ())"

section \<open>Blocks\<close>

text \<open>
  A block with transactions of an arbitrary type. The accessors that copy (\<open>Header\<close>, \<open>Number\<close>, ...)
  are the selectors; the cached hash is the hash of the header.
\<close>

record 'tx Block =
  blk_header :: Header
  blk_transactions :: "'tx list"
  blk_uncles :: "Header list"

definition Block_Hash :: "(bytes \<Rightarrow> bytes) \<Rightarrow> 'tx Block \<Rightarrow> bytes" where
  "Block_Hash keccak b = Header_Hash keccak (blk_header b)"

definition WithSeal :: "'tx Block \<Rightarrow> Header \<Rightarrow> 'tx Block" where
  "WithSeal b h = \<lparr>blk_header = h, blk_transactions = blk_transactions b, blk_uncles = blk_uncles b\<rparr>"

definition EmptyUncleHash :: "(bytes \<Rightarrow> bytes) \<Rightarrow> bytes" where
  "EmptyUncleHash keccak = rlpHash keccak (SliceVal False [])"

definition CalcUncleHash :: "(bytes \<Rightarrow> bytes) \<Rightarrow> Header list \<Rightarrow> bytes" where
  "CalcUncleHash keccak uncles =
    (if length uncles = 0 then EmptyUncleHash keccak
     else rlpHash keccak (SliceVal False (map (\<lambda>h. PtrVal KList (Some (header_val h))) uncles)))"

section \<open>Properties\<close>

lemma unat_byte_of_u64: "unat (ucast (drop_bit k (i :: u64)) :: byte) = unat i div 2 ^ k mod 256"
  unfolding unsigned_ucast_eq unat_drop_bit_eq by (simp add: take_bit_eq_mod drop_bit_eq_div)

lemma length_EncodeNonce [simp]: "length (EncodeNonce i) = 8"
  by (simp add: EncodeNonce_def)

lemma be_nat_EncodeNonce: "be_nat (EncodeNonce i) = unat i"
proof -
  define n where "n = unat i"
  have lt: "n < 2 ^ 64" unfolding n_def by (rule unat_u64_lt)
  have d: "n div 2 ^ (8 * Suc k) = n div 2 ^ (8 * k) div 256" for k
    by (simp add: power_add mult.commute flip: div_mult2_eq)
  have split: "n div 2 ^ (8 * k) = n div 2 ^ (8 * Suc k) * 256 + n div 2 ^ (8 * k) mod 256" for k
    unfolding d by simp
  have top: "n div 2 ^ 64 = 0" using lt by simp
  have low: "unat (ucast i :: byte) = n mod 256" "n = n div 256 * 256 + n mod 256"
    using unat_byte_of_u64 [of 0 i] by (simp_all add: n_def)
  have "be_nat (EncodeNonce i) = n div 72057594037927936 mod 256 * 72057594037927936 + n div 281474976710656 mod 256 * 281474976710656 +
      n div 1099511627776 mod 256 * 1099511627776 + n div 4294967296 mod 256 * 4294967296 +
      n div 16777216 mod 256 * 16777216 + n div 65536 mod 256 * 65536 +
      n div 256 mod 256 * 256 + n mod 256"
    unfolding EncodeNonce_def by (simp add: be_nat_Cons unat_byte_of_u64 low(1) flip: n_def)
  also have "\<dots> = n"
    using split [of 1, simplified] split [of 2, simplified] split [of 3, simplified]
      split [of 4, simplified] split [of 5, simplified] split [of 6, simplified]
      split [of 7, simplified] top [simplified] low(2) by linarith
  finally show ?thesis by (simp add: n_def)
qed

lemma Nonce_roundtrip [simp]: "BlockNonce_Uint64 (EncodeNonce i) = i"
  by (simp add: BlockNonce_Uint64_def be_nat_EncodeNonce)

lemma wf_header_type: "wf_type header_type"
  by (simp add: header_type_def)

interpretation header_decoder: rlp_decoder "makeDecoder (Suc fuel) header_type" "has_type header_type" enc_val "Suc fuel"
  for fuel
  by (rule makeDecoder_contract [OF wf_header_type])

lemma has_type_shapes:
  "has_type (TByteArray n) v \<longleftrightarrow> (\<exists>b. v = ByteArrayVal b \<and> length b = n)"
  "has_type TBigIntPtr v \<longleftrightarrow> (\<exists>i. v = BigIntPtr (Some i) \<and> 0 \<le> i)"
  "has_type (TUint 64) v \<longleftrightarrow> (\<exists>i. v = UintVal i)"
  "has_type TBytes v \<longleftrightarrow> (\<exists>b. v = BytesVal b)"
  by (cases v; simp add: unat_u64_lt [simplified] split: option.splits; force)+

lemma has_type_header: "has_type header_type v \<longleftrightarrow> (\<exists>h. header_fits h \<and> v = header_val h)"
proof
  assume "\<exists>h. header_fits h \<and> v = header_val h"
  then show "has_type header_type v"
    by (auto simp: header_type_def header_val_def header_fits_def)
       (use unat_u64_lt in simp)+
next
  assume t: "has_type header_type v"
  then obtain vs where v: "v = StructVal vs" by (cases v) (simp_all add: header_type_def)
  have "list_all2 has_type
      [TByteArray 32, TByteArray 32, TByteArray 25, TByteArray 32, TByteArray 32, TByteArray 32,
       TByteArray 256, TBigIntPtr, TUint 64, TUint 64, TUint 64, TBytes, TBigIntPtr, TBigIntPtr,
       TByteArray 8, TBigIntPtr, TBigIntPtr, TBigIntPtr, TByteArray 8, TByteArray 32, TByteArray 8] vs"
    using t unfolding v header_type_def has_type.simps(11) rval.case option.case .
  then have "\<exists>a b c d e f g n gl gu tm ex lu ba fn al be di sn mx no.
    vs = [ByteArrayVal a, ByteArrayVal b, ByteArrayVal c, ByteArrayVal d, ByteArrayVal e, ByteArrayVal f,
     ByteArrayVal g, BigIntPtr (Some n), UintVal gl, UintVal gu, UintVal tm, BytesVal ex, BigIntPtr (Some lu),
     BigIntPtr (Some ba), ByteArrayVal fn, BigIntPtr (Some al), BigIntPtr (Some be), BigIntPtr (Some di),
     ByteArrayVal sn, ByteArrayVal mx, ByteArrayVal no]"
    apply (elim list_all2_ConsE list_all2_NilE)
    apply (elim has_type_shapes [THEN iffD1, THEN exE] conjE)
    apply hypsubst
    apply (intro exI)
    apply (rule refl)
    done
  then obtain a b c d e f g n gl gu tm ex lu ba fn al be di sn mx no where
    vs: "vs = [ByteArrayVal a, ByteArrayVal b, ByteArrayVal c, ByteArrayVal d, ByteArrayVal e, ByteArrayVal f,
     ByteArrayVal g, BigIntPtr (Some n), UintVal gl, UintVal gu, UintVal tm, BytesVal ex, BigIntPtr (Some lu),
     BigIntPtr (Some ba), ByteArrayVal fn, BigIntPtr (Some al), BigIntPtr (Some be), BigIntPtr (Some di),
     ByteArrayVal sn, ByteArrayVal mx, ByteArrayVal no]" by (elim exE) (rule that)
  define h where "h = \<lparr>ParentHash = a, UncleHash = b, Coinbase = c, Root = d, TxHash = e, ReceiptHash = f,
    Bloom = g, Number = n, GasLimit = gl, GasUsed = gu, Time = tm, Extra = ex, Lucky = lu, Basis = ba,
    FirstNonce = fn, DifficultyAlpha = al, DifficultyBeta = be, Difficulty = di, SecondNonce = sn,
    MixDigest = mx, Nonce = no\<rparr>"
  have "header_fits h" using t unfolding v vs header_type_def by (simp add: header_fits_def h_def)
  moreover have "v = header_val h" by (simp add: v vs header_val_def h_def)
  ultimately show "\<exists>h. header_fits h \<and> v = header_val h" by blast
qed

lemma header_val_nonneg: "header_fits h \<Longrightarrow> \<not> has_negative (header_val h)"
  by (auto simp: header_val_def header_fits_def)

text \<open>The zero value of \<open>Header\<close>, as an example.\<close>

definition zero_header :: Header where
  "zero_header =
    \<lparr>ParentHash = replicate 32 0, UncleHash = replicate 32 0, Coinbase = replicate 25 0, Root = replicate 32 0,
     TxHash = replicate 32 0, ReceiptHash = replicate 32 0, Bloom = replicate 256 0, Number = 0, GasLimit = 0,
     GasUsed = 0, Time = 0, Extra = [], Lucky = 0, Basis = 0, FirstNonce = replicate 8 0, DifficultyAlpha = 0,
     DifficultyBeta = 0, Difficulty = 0, SecondNonce = replicate 8 0, MixDigest = replicate 32 0,
     Nonce = replicate 8 0\<rparr>"

lemma zero_header_fits: "header_fits zero_header"
  by (simp add: header_fits_def zero_header_def)

lemma zero_header_size: "length (enc_val (header_val zero_header)) = 523"
  by code_simp

end
