(* ===== verification/Params.thy ===== *)
theory Params
  imports Prelude
begin

text \<open>
  Protocol constants of package \<^verbatim>\<open>params\<close> (src/params/protocol_params.go) that the modelled components
  use.
\<close>

definition GasLimitBoundDivisor :: u64 where "GasLimitBoundDivisor = 1024"

definition MinGasLimit :: u64 where "MinGasLimit = 5000"

definition MaximumExtraDataSize :: u64 where "MaximumExtraDataSize = 32"

end
