(* ===== verification/VerifyHeaders.thy ===== *)
theory VerifyHeaders
  imports Prelude
begin

text \<open>
  The concurrent batch verification of headers, \<open>VerifyHeaders\<close> of the consensus engines
  (src/consensus/tppow/tppow.go, and with the same coordinator src/consensus/ethash/consensus.go): a
  coordinator hands indices to worker goroutines over an unbuffered channel, the workers store their
  result in a shared slice and report the index over a buffered channel, and the coordinator
  forwards the results in index order. The goroutines are a step relation, one rule per
  communication or computation, so every schedule is a run of it.
\<close>

section \<open>State and steps\<close>

text \<open>
  \<open>verify i\<close> is the result of \<open>verifyHeaderWorker\<close> on index \<open>i\<close>, \<open>None\<close> the nil error. \<open>n\<close> is the
  number of headers. A worker waits for input, runs on an index, or is about to report one. The
  entries of \<open>vh_errors\<close> start as nil, as \<open>make([]error, n)\<close> leaves them.
\<close>

datatype worker = WIdle | WBusy nat | WReport nat

record 'e pipeline =
  vh_in :: nat
  vh_out :: nat
  vh_checked :: "bool list"
  vh_errors :: "'e option list"
  vh_done :: "nat list"
  vh_workers :: "worker list"
  vh_errorsOut :: "'e option list"
  vh_returned :: bool
  vh_aborted :: bool

definition vh_init :: "nat \<Rightarrow> nat \<Rightarrow> 'e pipeline" where
  "vh_init n workers =
    \<lparr>vh_in = 0, vh_out = 0, vh_checked = replicate n False, vh_errors = replicate n None, vh_done = [],
     vh_workers = replicate (min workers n) WIdle, vh_errorsOut = [], vh_returned = False,
     vh_aborted = False\<rparr>"

text \<open>The loop \<open>for checked[index] = true; checked[out]; out++\<close>, without its initialisation.\<close>

function vh_flush :: "nat \<Rightarrow> 'e pipeline \<Rightarrow> 'e pipeline" where
  "vh_flush n s =
    (if vh_out s < n \<and> vh_checked s ! vh_out s then
       let s' = s\<lparr>vh_errorsOut := vh_errorsOut s @ [vh_errors s ! vh_out s]\<rparr> in
       if vh_out s = n - 1 then s'\<lparr>vh_returned := True\<rparr>
       else vh_flush n (s'\<lparr>vh_out := vh_out s + 1\<rparr>)
     else s)"
  by auto
termination
  by (relation "measure (\<lambda>(n, s). n - vh_out s)") auto

declare vh_flush.simps [simp del]

inductive vh_step :: "nat \<Rightarrow> (nat \<Rightarrow> 'e option) \<Rightarrow> 'e pipeline \<Rightarrow> 'e pipeline \<Rightarrow> bool"
  for n verify where
  send: "\<not> vh_returned s \<Longrightarrow> vh_in s < n \<Longrightarrow> w < length (vh_workers s) \<Longrightarrow> vh_workers s ! w = WIdle \<Longrightarrow>
    vh_step n verify s (s\<lparr>vh_workers := (vh_workers s)[w := WBusy (vh_in s)], vh_in := vh_in s + 1\<rparr>)"
| compute: "w < length (vh_workers s) \<Longrightarrow> vh_workers s ! w = WBusy i \<Longrightarrow>
    vh_step n verify s (s\<lparr>vh_errors := (vh_errors s)[i := verify i], vh_workers := (vh_workers s)[w := WReport i]\<rparr>)"
| report: "w < length (vh_workers s) \<Longrightarrow> vh_workers s ! w = WReport i \<Longrightarrow>
    length (vh_done s) < length (vh_workers s) \<Longrightarrow>
    vh_step n verify s (s\<lparr>vh_done := vh_done s @ [i], vh_workers := (vh_workers s)[w := WIdle]\<rparr>)"
| receive: "\<not> vh_returned s \<Longrightarrow> vh_done s = index # rest \<Longrightarrow>
    vh_step n verify s (vh_flush n (s\<lparr>vh_done := rest, vh_checked := (vh_checked s)[index := True]\<rparr>))"
| abort: "\<not> vh_returned s \<Longrightarrow> vh_step n verify s (s\<lparr>vh_returned := True, vh_aborted := True\<rparr>)"

inductive vh_reachable :: "nat \<Rightarrow> (nat \<Rightarrow> 'e option) \<Rightarrow> nat \<Rightarrow> 'e pipeline \<Rightarrow> bool"
  for n verify workers where
  start: "vh_reachable n verify workers (vh_init n workers)"
| more: "vh_reachable n verify workers s \<Longrightarrow> vh_step n verify s t \<Longrightarrow> vh_reachable n verify workers t"

section \<open>Invariant\<close>

text \<open>
  Every index handed out is with a worker, reported, or checked; results are in place from the time
  they are reported; what was sent on is the results of the indices below \<open>out\<close>.
\<close>

fun carries :: "worker \<Rightarrow> nat \<Rightarrow> bool" where
  "carries WIdle i = False"
| "carries (WBusy j) i = (i = j)"
| "carries (WReport j) i = (i = j)"

definition ready_index :: "(nat \<Rightarrow> 'e option) \<Rightarrow> 'e pipeline \<Rightarrow> nat \<Rightarrow> bool" where
  "ready_index verify s i \<longleftrightarrow> i < length (vh_errors s) \<and> vh_errors s ! i = verify i"

definition flushed :: "nat \<Rightarrow> (nat \<Rightarrow> 'e option) \<Rightarrow> 'e pipeline \<Rightarrow> bool" where
  "flushed n verify s \<longleftrightarrow>
    (\<forall>i < vh_out s. vh_checked s ! i) \<and>
    (if vh_returned s then vh_aborted s \<and> vh_errorsOut s = map verify [0..<vh_out s] \<and> vh_out s < n \<or>
       vh_errorsOut s = map verify [0..<n]
     else vh_errorsOut s = map verify [0..<vh_out s] \<and> vh_out s < n)"

definition vh_inv :: "nat \<Rightarrow> (nat \<Rightarrow> 'e option) \<Rightarrow> 'e pipeline \<Rightarrow> bool" where
  "vh_inv n verify s \<longleftrightarrow>
    length (vh_checked s) = n \<and> length (vh_errors s) = n \<and> vh_in s \<le> n \<and>
    0 < length (vh_workers s) \<and>
    (\<forall>w < length (vh_workers s). \<forall>i. vh_workers s ! w = WBusy i \<longrightarrow> i < n) \<and>
    (\<forall>w < length (vh_workers s). \<forall>i. vh_workers s ! w = WReport i \<longrightarrow> ready_index verify s i) \<and>
    (\<forall>i \<in> set (vh_done s). ready_index verify s i) \<and>
    (\<forall>i < n. vh_checked s ! i \<longrightarrow> ready_index verify s i) \<and>
    (\<forall>i < vh_in s. vh_checked s ! i \<or> i \<in> set (vh_done s) \<or> (\<exists>w < length (vh_workers s). carries (vh_workers s ! w) i)) \<and>
    flushed n verify s \<and> (\<not> vh_returned s \<longrightarrow> \<not> vh_checked s ! vh_out s)"

lemma vh_flush_frame [simp]:
  "vh_in (vh_flush n s) = vh_in s" "vh_checked (vh_flush n s) = vh_checked s"
  "vh_errors (vh_flush n s) = vh_errors s" "vh_done (vh_flush n s) = vh_done s"
  "vh_workers (vh_flush n s) = vh_workers s" "vh_aborted (vh_flush n s) = vh_aborted s"
  by (induction n s rule: vh_flush.induct; subst vh_flush.simps; simp add: Let_def)+

lemma vh_flush_flushed:
  "\<not> vh_returned s \<Longrightarrow> vh_out s < n \<Longrightarrow> \<forall>i < n. vh_checked s ! i \<longrightarrow> ready_index verify s i \<Longrightarrow>
    \<forall>i < vh_out s. vh_checked s ! i \<Longrightarrow> vh_errorsOut s = map verify [0..<vh_out s] \<Longrightarrow>
    flushed n verify (vh_flush n s) \<and>
    (\<not> vh_returned (vh_flush n s) \<longrightarrow> \<not> vh_checked (vh_flush n s) ! vh_out (vh_flush n s))"
proof (induction n s rule: vh_flush.induct)
  case (1 n s)
  show ?case
  proof (cases "vh_checked s ! vh_out s")
    case False
    then have "vh_flush n s = s" by (subst vh_flush.simps) simp
    then show ?thesis using 1(2-) False by (simp add: flushed_def)
  next
    case True
    define s' where "s' = s\<lparr>vh_errorsOut := vh_errorsOut s @ [vh_errors s ! vh_out s]\<rparr>"
    have out: "vh_errorsOut s' = map verify [0..<Suc (vh_out s)]"
      using 1(3,4,6) True by (simp add: s'_def ready_index_def)
    have old: "\<forall>i < Suc (vh_out s). vh_checked s ! i" using 1(5) True by (auto simp: less_Suc_eq)
    show ?thesis
    proof (cases "vh_out s = n - 1")
      case last: True
      then have "vh_flush n s = s'\<lparr>vh_returned := True\<rparr>"
        using True 1(3) by (subst vh_flush.simps) (simp add: s'_def Let_def)
      then show ?thesis using out old last 1(3) by (simp add: flushed_def s'_def)
    next
      case False
      then have f: "vh_flush n s = vh_flush n (s'\<lparr>vh_out := vh_out s + 1\<rparr>)"
        using True 1(3) by (subst vh_flush.simps) (simp add: s'_def Let_def)
      show ?thesis unfolding f
        using 1(1) [OF conjI [OF 1(3) True] s'_def False] 1(2-) False old out
        by (simp add: s'_def ready_index_def)
    qed
  qed
qed

lemma nth_update_same_or: "(xs[w := x]) ! v = (if v = w \<and> w < length xs then x else xs ! v)"
  by (cases "v = w") (auto simp: list_update_beyond)

lemma carried_update:
  assumes "w < length ws" and "carries (ws ! v) i" and "v < length ws"
  shows "carries (ws ! w) i \<or> (\<exists>v < length ws. carries (ws[w := x] ! v) i)"
  using assms by (cases "v = w") auto

lemma vh_init_inv: "0 < n \<Longrightarrow> 0 < workers \<Longrightarrow> vh_inv n verify (vh_init n workers)"
  by (simp add: vh_inv_def vh_init_def flushed_def)

lemma vh_step_inv:
  assumes "vh_step n verify s t" and "vh_inv n verify s"
  shows "vh_inv n verify t"
  using assms
proof cases
  case (send w)
  have cov: "vh_checked s ! i \<or> i \<in> set (vh_done s) \<or>
      (\<exists>v < length (vh_workers s). carries ((vh_workers s)[w := WBusy (vh_in s)] ! v) i)" if "i < Suc (vh_in s)" for i
  proof (cases "i = vh_in s")
    case True
    then show ?thesis using send by (intro disjI2 exI [of _ w]) simp
  next
    case False
    then have "vh_checked s ! i \<or> i \<in> set (vh_done s) \<or> (\<exists>w < length (vh_workers s). carries (vh_workers s ! w) i)"
      using that assms(2) by (simp add: vh_inv_def)
    then show ?thesis using carried_update [OF send(4), of _ i "WBusy (vh_in s)"] send(5) by auto
  qed
  show ?thesis using assms(2) cov send unfolding vh_inv_def
    by (simp add: nth_update_same_or ready_index_def flushed_def) (auto split: if_splits)
next
  case (compute w i)
  have r: "ready_index verify t j" if "ready_index verify s j" for j
    using that compute by (auto simp: ready_index_def nth_update_same_or)
  have cov: "vh_checked s ! j \<or> j \<in> set (vh_done s) \<or>
      (\<exists>v < length (vh_workers s). carries ((vh_workers s)[w := WReport i] ! v) j)" if "j < vh_in s" for j
  proof -
    have "vh_checked s ! j \<or> j \<in> set (vh_done s) \<or> (\<exists>w < length (vh_workers s). carries (vh_workers s ! w) j)"
      using that assms(2) by (simp add: vh_inv_def)
    moreover have "carries ((vh_workers s)[w := WReport i] ! w) i" using compute(2) by simp
    ultimately show ?thesis
      using carried_update [OF compute(2), of _ j "WReport i"] compute(2,3) by (cases "j = i") auto
  qed
  have i: "i < n" "length (vh_errors s) = n" using assms(2) compute by (auto simp: vh_inv_def)
  have "ready_index verify t i" using compute i by (simp add: ready_index_def)
  then show ?thesis using assms(2) cov r compute unfolding vh_inv_def
    by (simp add: nth_update_same_or flushed_def)
next
  case (report w i)
  have cov: "vh_checked s ! j \<or> j \<in> set (vh_done s @ [i]) \<or>
      (\<exists>v < length (vh_workers s). carries ((vh_workers s)[w := WIdle] ! v) j)" if "j < vh_in s" for j
  proof -
    have "vh_checked s ! j \<or> j \<in> set (vh_done s) \<or> (\<exists>w < length (vh_workers s). carries (vh_workers s ! w) j)"
      using that assms(2) by (simp add: vh_inv_def)
    then show ?thesis
      using carried_update [OF report(2), of _ j "WIdle"] report(2,3) by auto
  qed
  show ?thesis using assms(2) cov report unfolding vh_inv_def
    by (simp add: nth_update_same_or ready_index_def flushed_def) (auto split: if_splits)
next
  case (receive i rest)
  define s1 where "s1 = s\<lparr>vh_done := rest, vh_checked := (vh_checked s)[i := True]\<rparr>"
  have t: "t = vh_flush n s1" using receive by (simp add: s1_def)
  have chk: "\<forall>j < n. vh_checked s1 ! j \<longrightarrow> ready_index verify s1 j"
    using assms(2) receive by (auto simp: vh_inv_def s1_def ready_index_def nth_update_same_or)
  have old: "\<forall>j < vh_out s1. vh_checked s1 ! j"
    using assms(2) by (auto simp: vh_inv_def flushed_def s1_def nth_update_same_or)
  have "flushed n verify t \<and> (\<not> vh_returned t \<longrightarrow> \<not> vh_checked t ! vh_out t)"
    unfolding t using assms(2) receive chk old
    by (intro vh_flush_flushed) (simp_all add: vh_inv_def flushed_def s1_def)
  moreover have "ready_index verify t j \<longleftrightarrow> ready_index verify s j" for j
    by (simp add: t ready_index_def s1_def)
  ultimately show ?thesis using assms(2) receive unfolding vh_inv_def t
    by (simp add: s1_def nth_update_same_or) (auto simp: ready_index_def)
next
  case abort
  then have "ready_index verify t i \<longleftrightarrow> ready_index verify s i" for i by (simp add: ready_index_def)
  then show ?thesis using assms(2) abort by (simp add: vh_inv_def flushed_def)
qed

lemma vh_reachable_inv:
  assumes "vh_reachable n verify workers s" and "0 < n" and "0 < workers"
  shows "vh_inv n verify s"
  using assms by (induction rule: vh_reachable.induct) (auto intro: vh_init_inv vh_step_inv)

section \<open>Results\<close>

text \<open>While the coordinator runs, some goroutine can take a step other than aborting.\<close>

lemma vh_progress:
  assumes "vh_inv n verify s" and "\<not> vh_returned s"
  shows "\<exists>t. vh_step n verify s t \<and> vh_aborted t = vh_aborted s"
proof (rule ccontr)
  assume stuck: "\<not> ?thesis"
  have noidle: "vh_in s = n \<or> vh_workers s ! w \<noteq> WIdle" if "w < length (vh_workers s)" for w
    using stuck assms that send [of s n w verify] by (force simp: vh_inv_def)
  have nobusy: "vh_workers s ! w \<noteq> WBusy i" if "w < length (vh_workers s)" for w i
    using stuck that compute [of w s i n verify] by force
  have "vh_done s = []"
  proof (cases "vh_done s")
    case (Cons i rest)
    then show ?thesis using stuck assms(2) receive [of s i rest n verify] by force
  qed
  moreover have noreport: "vh_workers s ! w \<noteq> WReport i" if "w < length (vh_workers s)" for w i
    using stuck that calculation report [of w s i n verify] by force
  moreover have idle: "vh_workers s ! w = WIdle" if "w < length (vh_workers s)" for w
    using nobusy noreport that by (cases "vh_workers s ! w") auto
  moreover have "vh_in s = n" using noidle [of 0] idle [of 0] assms(1) by (auto simp: vh_inv_def)
  ultimately have "vh_checked s ! vh_out s"
    using assms unfolding vh_inv_def flushed_def by auto
  then show False using assms by (simp add: vh_inv_def)
qed

text \<open>Every step makes the remaining work smaller.\<close>

fun worker_work :: "worker \<Rightarrow> nat" where
  "worker_work WIdle = 0"
| "worker_work (WBusy i) = 3"
| "worker_work (WReport i) = 2"

definition vh_work :: "nat \<Rightarrow> 'e pipeline \<Rightarrow> nat" where
  "vh_work n s = 4 * (n - vh_in s) + sum_list (map worker_work (vh_workers s)) + length (vh_done s) +
    (if vh_returned s then 0 else 1)"

lemma vh_flush_returned: "vh_returned s \<Longrightarrow> vh_returned (vh_flush n s)"
  by (induction n s rule: vh_flush.induct) (subst vh_flush.simps, simp add: Let_def)

lemma sum_list_worker_update:
  "w < length ws \<Longrightarrow> sum_list (map worker_work (ws[w := x])) + worker_work (ws ! w) =
    sum_list (map worker_work ws) + worker_work x"
  by (induction ws arbitrary: w) (auto split: nat.splits)

lemma vh_step_work: "vh_step n verify s t \<Longrightarrow> vh_work n t < vh_work n s"
proof (induction rule: vh_step.induct)
  case (send s w)
  then show ?case using sum_list_worker_update [of w "vh_workers s" "WBusy (vh_in s)"]
    by (simp add: vh_work_def)
next
  case (compute w s i)
  then show ?case using sum_list_worker_update [of w "vh_workers s" "WReport i"]
    by (simp add: vh_work_def)
next
  case (report w s i)
  then show ?case using sum_list_worker_update [of w "vh_workers s" WIdle]
    by (simp add: vh_work_def)
qed (simp_all add: vh_work_def)

lemma vh_output_prefix:
  assumes "vh_inv n verify s"
  shows "vh_errorsOut s = map verify [0..<length (vh_errorsOut s)]"
  using assms unfolding vh_inv_def flushed_def by (auto split: if_splits)

end
