(* ===== verification/Tppow.thy ===== *)
theory Tppow
  imports BlockHeader Params VerifyHeaders
begin

text \<open>
  The two-phase proof-of-work engine (src/consensus/tppow/tppow.go): parameter and difficulty
  computation, the two seals, header, seal and uncle verification, and the mining loops. The
  Argon2 key derivation, Keccak-256, the chain reader and the clock are parameters. A Go run-time
  panic (division by zero) is \<open>None\<close>.
\<close>

section \<open>Constants and errors\<close>

definition maxLuck :: int where "maxLuck = 200000000"

definition HashScale :: int where "HashScale = 4000000000000000000"

definition initBasis :: int where "initBasis = 2 ^ 186 - 1"

definition initDifficultyAlpha :: int where "initDifficultyAlpha = 2 ^ 190 - 1"

definition max256 :: int where "max256 = 2 ^ 256 - 1"

definition difficultyAjustBlock :: u64 where "difficultyAjustBlock = 39200"

definition maxUncles :: nat where "maxUncles = 2"

definition allowedFutureBlockTime :: u64 where "allowedFutureBlockTime = 15"

datatype tppow_error =
    ErrUnknownAncestor | ErrFutureBlock | ErrInvalidNumber
  | ErrOlderBlockTime | ErrTooManyUncles | ErrDuplicateUncle | ErrUncleIsAncestor | ErrDanglingUncle
  | ErrInconsistence | ErrComputeLucky | ErrUnknownBlock
  | ErrExtraTooLong | ErrGasLimitCap | ErrGasUsed | ErrGasLimit

section \<open>Parameters and difficulty\<close>

definition calcParam :: "u64 \<Rightarrow> u64 \<Rightarrow> Header \<Rightarrow> int \<times> int" where
  "calcParam number time parent =
    (if number \<le> 1 then (initBasis, initDifficultyAlpha)
     else
       let dAlpha = DifficultyAlpha parent;
           dBeta = DifficultyBeta parent div 5;
           basis = (if dAlpha < dBeta then Basis parent * 96 div 100 else Basis parent * 105 div 100)
       in if time - Time parent > 20
          then (basis * 110 div 100, dAlpha * 110 div 100)
          else (basis * 90 div 100, dAlpha * 90 div 100))"

definition calcBeta :: "int \<Rightarrow> int \<Rightarrow> int option" where
  "calcBeta luck basis =
    (let tb = maxLuck - luck in
     case big_div (basis * maxLuck) tb of None \<Rightarrow> None
     | Some res \<Rightarrow> big_div (res * maxLuck) tb)"

definition calcDifficulty :: "Header \<Rightarrow> int option" where
  "calcDifficulty h =
    (if big_Uint64 (Number h) < difficultyAjustBlock then Some (Lucky h)
     else big_div (max256 div HashScale * 1000000) (Basis h))"

section \<open>Seals\<close>

text \<open>\<open>argon2.IDKey(data, salt, time, memory, threads, keyLen)\<close> is the parameter \<open>IDKey\<close>.\<close>

type_synonym idkey = "bytes \<Rightarrow> bytes \<Rightarrow> nat \<Rightarrow> nat \<Rightarrow> nat \<Rightarrow> nat \<Rightarrow> bytes"

definition Argon2Hash :: "idkey \<Rightarrow> bytes \<Rightarrow> bytes \<Rightarrow> bytes" where
  "Argon2Hash IDKey data salt = IDKey data salt 1 (64 * 1024) 4 32"

definition iface_list :: "rval list \<Rightarrow> rval" where
  "iface_list vs = SliceVal False (map (\<lambda>v. InterfaceVal (Some v)) vs)"

definition SealLuck_input :: "Header \<Rightarrow> u64 \<Rightarrow> bytes" where
  "SealLuck_input header nonce = rlp_bytes (iface_list
    [ByteArrayVal (ParentHash header), ByteArrayVal (Coinbase header), UintVal (Time header),
     UintVal nonce])"

definition SealLuck :: "idkey \<Rightarrow> Header \<Rightarrow> u64 \<Rightarrow> int" where
  "SealLuck IDKey header nonce =
    int (be_nat (Argon2Hash IDKey (SealLuck_input header nonce) (drop 22 (ParentHash header))))
      div HashScale"

definition calcLuck_input :: "Header \<Rightarrow> u64 \<Rightarrow> bytes" where
  "calcLuck_input header nonce = rlp_bytes (iface_list
    [ByteArrayVal (ParentHash header), ByteArrayVal (Coinbase header), UintVal (Time header),
     BigIntPtr (Some (Number header)), UintVal nonce])"

definition calcLuck :: "idkey \<Rightarrow> Header \<Rightarrow> u64 \<Rightarrow> int" where
  "calcLuck IDKey header nonce =
    int (be_nat (Argon2Hash IDKey (calcLuck_input header nonce) (drop 20 (ParentHash header))))
      mod maxLuck"

definition SealBlock_fields :: "Header \<Rightarrow> u64 \<Rightarrow> rval list" where
  "SealBlock_fields header nonce =
    [ByteArrayVal (ParentHash header), ByteArrayVal (UncleHash header),
     ByteArrayVal (Coinbase header), ByteArrayVal (Root header), ByteArrayVal (TxHash header),
     ByteArrayVal (ReceiptHash header), ByteArrayVal (Bloom header),
     BigIntPtr (Some (Number header)), UintVal (GasLimit header), UintVal (GasUsed header),
     UintVal (Time header), BytesVal (Extra header), BigIntPtr (Some (Basis header)),
     BigIntPtr (Some (Lucky header)), BigIntPtr (Some (DifficultyAlpha header)),
     BigIntPtr (Some (DifficultyBeta header)), UintVal nonce]"

definition SealBlock_input :: "Header \<Rightarrow> u64 \<Rightarrow> bytes" where
  "SealBlock_input header nonce = rlp_bytes (iface_list (SealBlock_fields header nonce))"

definition SealBlock :: "idkey \<Rightarrow> Header \<Rightarrow> u64 \<Rightarrow> int" where
  "SealBlock IDKey header nonce =
    int (be_nat (Argon2Hash IDKey (SealBlock_input header nonce) (drop 22 (ParentHash header))))
      div HashScale"

definition SealHash :: "(bytes \<Rightarrow> bytes) \<Rightarrow> Header \<Rightarrow> bytes" where
  "SealHash keccak header = keccak (rlp_bytes (iface_list
    [ByteArrayVal (ParentHash header), ByteArrayVal (UncleHash header),
     ByteArrayVal (Coinbase header), ByteArrayVal (Root header), ByteArrayVal (TxHash header),
     ByteArrayVal (ReceiptHash header), ByteArrayVal (Bloom header),
     BigIntPtr (Some (Number header)), UintVal (GasLimit header), UintVal (GasUsed header),
     UintVal (Time header), BytesVal (Extra header)]))"

definition VerifySeal :: "idkey \<Rightarrow> Header \<Rightarrow> (tppow_error + unit) option" where
  "VerifySeal IDKey header =
    (let aHash = SealLuck IDKey header (BlockNonce_Uint64 (FirstNonce header)) in
     if aHash \<ge> DifficultyAlpha header then Some (Inl ErrUnknownBlock)
     else case calcBeta (Lucky header) (Basis header) of
       None \<Rightarrow> None
     | Some beta \<Rightarrow>
         if beta \<noteq> DifficultyBeta header then Some (Inl ErrInconsistence)
         else
           let sl = calcLuck IDKey header (BlockNonce_Uint64 (FirstNonce header)) in
           if sl \<noteq> Lucky header then Some (Inl ErrComputeLucky)
           else
             let b = SealBlock IDKey header (BlockNonce_Uint64 (SecondNonce header)) in
             if b \<ge> DifficultyBeta header then Some (Inl ErrUnknownBlock)
             else case calcDifficulty header of
               None \<Rightarrow> None
             | Some diff \<Rightarrow>
                 if diff \<noteq> Difficulty header then Some (Inl ErrUnknownBlock) else Some (Inr ()))"

section \<open>Header verification\<close>

text \<open>
  \<open>now\<close> is \<open>time.Now().Unix()\<close>. The gas limits are compared through \<open>int64\<close>: the difference is a
  64-bit word whose sign is that of \<open>sint\<close>.
\<close>

definition verifyHeader :: "idkey \<Rightarrow> u64 \<Rightarrow> Header \<Rightarrow> Header \<Rightarrow> bool \<Rightarrow> bool \<Rightarrow> (tppow_error + unit) option" where
  "verifyHeader IDKey now header parent uncle seal =
    (if word_of_nat (length (Extra header)) > MaximumExtraDataSize then Some (Inl ErrExtraTooLong)
     else if \<not> uncle \<and> Time header > now + allowedFutureBlockTime then Some (Inl ErrFutureBlock)
     else if Time header \<le> Time parent then Some (Inl ErrOlderBlockTime)
     else if GasLimit header > 0x7fffffffffffffff then Some (Inl ErrGasLimitCap)
     else if GasUsed header > GasLimit header then Some (Inl ErrGasUsed)
     else
       let diff = GasLimit parent - GasLimit header;
           diff = (if sint diff < 0 then - diff else diff);
           limit = GasLimit parent div GasLimitBoundDivisor
       in
         if diff \<ge> limit \<or> GasLimit header < MinGasLimit then Some (Inl ErrGasLimit)
         else if Number header - Number parent \<noteq> 1 then Some (Inl ErrInvalidNumber)
         else
           let (basis, alpha) = calcParam (big_Uint64 (Number header)) (Time header) parent in
           if basis \<noteq> Basis header then Some (Inl ErrInconsistence)
           else if alpha \<noteq> DifficultyAlpha header then Some (Inl ErrInconsistence)
           else if seal then VerifySeal IDKey header
           else Some (Inr ()))"

text \<open>The chain reader's \<open>GetHeader\<close> and \<open>GetBlock\<close> look up by hash and number.\<close>

definition VerifyHeader ::
  "idkey \<Rightarrow> (bytes \<Rightarrow> bytes) \<Rightarrow> u64 \<Rightarrow> (bytes \<Rightarrow> u64 \<Rightarrow> Header option) \<Rightarrow> Header \<Rightarrow> bool \<Rightarrow>
   (tppow_error + unit) option" where
  "VerifyHeader IDKey keccak now GetHeader header seal =
    (let number = big_Uint64 (Number header) in
     if GetHeader (Header_Hash keccak header) number \<noteq> None then Some (Inr ())
     else case GetHeader (ParentHash header) (number - 1) of
       None \<Rightarrow> Some (Inl ErrUnknownAncestor)
     | Some parent \<Rightarrow> verifyHeader IDKey now header parent False seal)"


section \<open>Uncles\<close>

fun gather_ancestors ::
  "(bytes \<Rightarrow> bytes) \<Rightarrow> (bytes \<Rightarrow> u64 \<Rightarrow> 'tx Block option) \<Rightarrow> nat \<Rightarrow> bytes \<Rightarrow> u64 \<Rightarrow>
   bytes set \<times> (bytes \<rightharpoonup> Header) \<Rightarrow> bytes set \<times> (bytes \<rightharpoonup> Header)" where
  "gather_ancestors keccak GetBlock 0 parent number acc = acc"
| "gather_ancestors keccak GetBlock (Suc i) parent number (uncles, ancestors) =
    (case GetBlock parent number of
       None \<Rightarrow> (uncles, ancestors)
     | Some ancestor \<Rightarrow>
         gather_ancestors keccak GetBlock i (ParentHash (blk_header ancestor)) (number - 1)
           (uncles \<union> set (map (Header_Hash keccak) (blk_uncles ancestor)),
            ancestors(Block_Hash keccak ancestor \<mapsto> blk_header ancestor)))"

fun check_uncles ::
  "idkey \<Rightarrow> (bytes \<Rightarrow> bytes) \<Rightarrow> u64 \<Rightarrow> bytes \<Rightarrow> (bytes \<rightharpoonup> Header) \<Rightarrow> Header list \<Rightarrow> bytes set \<Rightarrow>
   (tppow_error + unit) option" where
  "check_uncles IDKey keccak now parentHash ancestors [] uncles = Some (Inr ())"
| "check_uncles IDKey keccak now parentHash ancestors (uncle # us) uncles =
    (let hash = Header_Hash keccak uncle in
     if hash \<in> uncles then Some (Inl ErrDuplicateUncle)
     else if ancestors hash \<noteq> None then Some (Inl ErrUncleIsAncestor)
     else case ancestors (ParentHash uncle) of
       None \<Rightarrow> Some (Inl ErrDanglingUncle)
     | Some p \<Rightarrow>
         if ParentHash uncle = parentHash then Some (Inl ErrDanglingUncle)
         else case verifyHeader IDKey now uncle p True True of
           None \<Rightarrow> None
         | Some (Inl e) \<Rightarrow> Some (Inl e)
         | Some (Inr _) \<Rightarrow> check_uncles IDKey keccak now parentHash ancestors us (insert hash uncles))"

definition VerifyUncles ::
  "idkey \<Rightarrow> (bytes \<Rightarrow> bytes) \<Rightarrow> u64 \<Rightarrow> (bytes \<Rightarrow> u64 \<Rightarrow> 'tx Block option) \<Rightarrow> 'tx Block \<Rightarrow>
   (tppow_error + unit) option" where
  "VerifyUncles IDKey keccak now GetBlock block =
    (if length (blk_uncles block) > maxUncles then Some (Inl ErrTooManyUncles)
     else
       let number = big_Uint64 (Number (blk_header block)) - 1;
           parent = ParentHash (blk_header block);
           (uncles, ancestors) = gather_ancestors keccak GetBlock 7 parent number ({}, Map.empty);
           ancestors = ancestors(Block_Hash keccak block \<mapsto> blk_header block);
           uncles = insert (Block_Hash keccak block) uncles
       in check_uncles IDKey keccak now parent ancestors (blk_uncles block) uncles)"

section \<open>Mining\<close>

definition Prepare :: "(bytes \<Rightarrow> u64 \<Rightarrow> Header option) \<Rightarrow> Header \<Rightarrow> tppow_error + Header" where
  "Prepare GetHeader header =
    (case GetHeader (ParentHash header) (big_Uint64 (Number header) - 1) of
       None \<Rightarrow> Inl ErrUnknownAncestor
     | Some parent \<Rightarrow>
         let (basis, alpha) = calcParam (big_Uint64 (Number header)) (Time header) parent in
         Inr (header\<lparr>Basis := basis, DifficultyAlpha := alpha\<rparr>))"

text \<open>
  The nonce loops. \<open>abort k\<close> tells whether the \<open>k\<close>-th poll of the abort channel succeeds; the loop
  returns the number of polls made and the nonce found, or \<open>None\<close> for the nonce if it was aborted.
  A search that never ends is \<open>None\<close>.
\<close>

partial_function (option) nonce_search ::
  "(nat \<Rightarrow> bool) \<Rightarrow> (u64 \<Rightarrow> bool) \<Rightarrow> nat \<Rightarrow> u64 \<Rightarrow> (nat \<times> u64 option) option" where
  "nonce_search abort ok k nonce =
    (if abort k then Some (Suc k, None)
     else if ok (nonce + 1) then Some (Suc k, Some (nonce + 1))
     else nonce_search abort ok (Suc k) (nonce + 1))"

datatype 'tx mine_result = Aborted | Panicked | Found "'tx Block"

definition mine :: "idkey \<Rightarrow> (nat \<Rightarrow> bool) \<Rightarrow> 'tx Block \<Rightarrow> u64 \<Rightarrow> u64 \<Rightarrow> 'tx mine_result option" where
  "mine IDKey abort block fn sn =
    (let header = blk_header block in
     case nonce_search abort (\<lambda>n. SealLuck IDKey header n < DifficultyAlpha header) 0 fn of
       None \<Rightarrow> None
     | Some (_, None) \<Rightarrow> Some Aborted
     | Some (k, Some firstNonce) \<Rightarrow>
         let lucky = calcLuck IDKey header firstNonce;
             header = header\<lparr>Lucky := lucky, FirstNonce := EncodeNonce firstNonce\<rparr>
         in case calcBeta lucky (Basis header) of
           None \<Rightarrow> Some Panicked
         | Some beta \<Rightarrow>
             let header = header\<lparr>DifficultyBeta := beta\<rparr> in
             case calcDifficulty header of
               None \<Rightarrow> Some Panicked
             | Some diff \<Rightarrow>
                 let header = header\<lparr>Difficulty := diff\<rparr> in
                 case nonce_search abort (\<lambda>n. SealBlock IDKey header n < DifficultyBeta header) k sn of
                   None \<Rightarrow> None
                 | Some (_, None) \<Rightarrow> Some Aborted
                 | Some (k', Some secondNonce) \<Rightarrow>
                     let header = header\<lparr>SecondNonce := EncodeNonce secondNonce\<rparr> in
                     if abort k' then Some Aborted else Some (Found (WithSeal block header)))"

section \<open>Seals: what is accepted\<close>

lemma calcLuck_range: "0 \<le> calcLuck IDKey h n \<and> calcLuck IDKey h n < maxLuck"
  by (simp add: calcLuck_def maxLuck_def)

lemma calcBeta_Some:
  "luck < maxLuck \<Longrightarrow> calcBeta luck basis =
    Some (basis * maxLuck div (maxLuck - luck) * maxLuck div (maxLuck - luck))"
  by (simp add: calcBeta_def Let_def)

lemma calcBeta_None: "calcBeta luck basis = None \<longleftrightarrow> luck = maxLuck"
  by (auto simp: calcBeta_def Let_def split: option.splits)

text \<open>The fields mining writes do not enter the values computed from the other ones.\<close>

lemma SealLuck_mined [simp]:
  "SealLuck IDKey (h\<lparr>Lucky := x\<rparr>) = SealLuck IDKey h"
  "SealLuck IDKey (h\<lparr>FirstNonce := y\<rparr>) = SealLuck IDKey h"
  "SealLuck IDKey (h\<lparr>DifficultyBeta := x\<rparr>) = SealLuck IDKey h"
  "SealLuck IDKey (h\<lparr>Difficulty := x\<rparr>) = SealLuck IDKey h"
  "SealLuck IDKey (h\<lparr>SecondNonce := y\<rparr>) = SealLuck IDKey h"
  by (intro ext, simp add: SealLuck_def SealLuck_input_def)+

lemma calcLuck_mined [simp]:
  "calcLuck IDKey (h\<lparr>Lucky := x\<rparr>) = calcLuck IDKey h"
  "calcLuck IDKey (h\<lparr>FirstNonce := y\<rparr>) = calcLuck IDKey h"
  "calcLuck IDKey (h\<lparr>DifficultyBeta := x\<rparr>) = calcLuck IDKey h"
  "calcLuck IDKey (h\<lparr>Difficulty := x\<rparr>) = calcLuck IDKey h"
  "calcLuck IDKey (h\<lparr>SecondNonce := y\<rparr>) = calcLuck IDKey h"
  by (intro ext, simp add: calcLuck_def calcLuck_input_def)+

lemma SealBlock_mined [simp]:
  "SealBlock IDKey (h\<lparr>FirstNonce := y\<rparr>) = SealBlock IDKey h"
  "SealBlock IDKey (h\<lparr>Difficulty := x\<rparr>) = SealBlock IDKey h"
  "SealBlock IDKey (h\<lparr>SecondNonce := y\<rparr>) = SealBlock IDKey h"
  by (intro ext, simp add: SealBlock_def SealBlock_input_def SealBlock_fields_def)+

lemma calcDifficulty_mined [simp]:
  "calcDifficulty (h\<lparr>FirstNonce := y\<rparr>) = calcDifficulty h"
  "calcDifficulty (h\<lparr>DifficultyBeta := x\<rparr>) = calcDifficulty h"
  "calcDifficulty (h\<lparr>Difficulty := x\<rparr>) = calcDifficulty h"
  "calcDifficulty (h\<lparr>SecondNonce := y\<rparr>) = calcDifficulty h"
  by (simp_all add: calcDifficulty_def)

lemma VerifySeal_iff:
  "VerifySeal IDKey h = Some (Inr ()) \<longleftrightarrow>
     SealLuck IDKey h (BlockNonce_Uint64 (FirstNonce h)) < DifficultyAlpha h \<and>
     Lucky h = calcLuck IDKey h (BlockNonce_Uint64 (FirstNonce h)) \<and>
     calcBeta (Lucky h) (Basis h) = Some (DifficultyBeta h) \<and>
     SealBlock IDKey h (BlockNonce_Uint64 (SecondNonce h)) < DifficultyBeta h \<and>
     calcDifficulty h = Some (Difficulty h)"
  by (auto simp: VerifySeal_def Let_def split: option.splits)

lemma nonce_search_ok:
  assumes "nonce_search abort ok k n = Some (k', Some m)"
  shows "ok m"
proof -
  have "pred_option ok (snd y)" if "nonce_search abort ok k n = Some y" for y
    by (rule nonce_search.raw_induct [of "\<lambda>abort ok k n y. pred_option ok (snd y)", OF _ that])
      (auto split: if_splits)
  from this [OF assms] show ?thesis by simp
qed

lemma nonce_search_finds:
  assumes "\<And>i. \<not> abort i" and "ok m"
  shows "\<exists>k' m'. nonce_search abort ok k n = Some (k', Some m')"
proof (induction "unat (m - (n + 1))" arbitrary: k n)
  case 0
  then have "m = n + 1" by (simp add: unat_eq_0)
  then show ?case using assms by (subst nonce_search.simps) simp
next
  case (Suc d)
  have "m - (n + 1) \<noteq> 0" using Suc.hyps(2) by (metis nat.distinct(1) unat_0)
  from unat_minus_one [OF this] have "unat (m - (n + 1) - 1) = unat (m - (n + 1)) - 1" .
  then have "d = unat (m - (n + 1 + 1))" using Suc.hyps(2) by (simp add: algebra_simps)
  from Suc.hyps(1) [OF this, of "Suc k"] assms(1) show ?case
    by (subst nonce_search.simps) auto
qed

lemma mine_found:
  assumes "mine IDKey abort block fn sn = Some (Found b)"
  shows "\<exists>first second beta diff.
    let h = blk_header block; lucky = calcLuck IDKey h first;
        h1 = h\<lparr>Lucky := lucky, FirstNonce := EncodeNonce first, DifficultyBeta := beta\<rparr> in
    b = WithSeal block (h1\<lparr>Difficulty := diff, SecondNonce := EncodeNonce second\<rparr>) \<and>
    SealLuck IDKey h first < DifficultyAlpha h \<and> calcBeta lucky (Basis h) = Some beta \<and>
    calcDifficulty h1 = Some diff \<and> SealBlock IDKey h1 second < beta"
  using assms unfolding mine_def Let_def
  by (fastforce split: option.splits prod.splits if_splits dest: nonce_search_ok)

lemma mine_seal:
  assumes "mine IDKey abort block fn sn = Some (Found b)"
  shows "VerifySeal IDKey (blk_header b) = Some (Inr ())"
proof -
  obtain first second beta diff where
    b: "b = WithSeal block ((blk_header block)\<lparr>Lucky := calcLuck IDKey (blk_header block) first,
       FirstNonce := EncodeNonce first, DifficultyBeta := beta, Difficulty := diff, SecondNonce := EncodeNonce second\<rparr>)"
    and 1: "SealLuck IDKey (blk_header block) first < DifficultyAlpha (blk_header block)"
    and 2: "calcBeta (calcLuck IDKey (blk_header block) first) (Basis (blk_header block)) = Some beta"
    and 3: "calcDifficulty ((blk_header block)\<lparr>Lucky := calcLuck IDKey (blk_header block) first,
       FirstNonce := EncodeNonce first, DifficultyBeta := beta\<rparr>) = Some diff"
    and 4: "SealBlock IDKey ((blk_header block)\<lparr>Lucky := calcLuck IDKey (blk_header block) first,
       FirstNonce := EncodeNonce first, DifficultyBeta := beta\<rparr>) second < beta"
    using mine_found [OF assms] unfolding Let_def by blast
  show ?thesis
    unfolding VerifySeal_iff b WithSeal_def
    using 1 2 3 4 by simp
qed

lemma mine_returns:
  assumes "\<And>i. \<not> abort i"
    and "\<exists>n. SealLuck IDKey (blk_header block) n < DifficultyAlpha (blk_header block)"
    and "big_Uint64 (Number (blk_header block)) < difficultyAjustBlock \<or> Basis (blk_header block) \<noteq> 0"
    and "\<And>lucky beta. 0 \<le> lucky \<Longrightarrow> lucky < maxLuck \<Longrightarrow> calcBeta lucky (Basis (blk_header block)) = Some beta \<Longrightarrow>
      \<exists>n. SealBlock IDKey ((blk_header block)\<lparr>Lucky := lucky, DifficultyBeta := beta\<rparr>) n < beta"
  shows "\<exists>b. mine IDKey abort block fn sn = Some (Found b)"
proof -
  let ?h = "blk_header block"
  obtain k first where f: "nonce_search abort (\<lambda>n. SealLuck IDKey ?h n < DifficultyAlpha ?h) 0 fn = Some (k, Some first)"
    using assms(2) nonce_search_finds [of abort "\<lambda>n. SealLuck IDKey ?h n < DifficultyAlpha ?h"] assms(1) by blast
  let ?l = "calcLuck IDKey ?h first"
  obtain beta where beta: "calcBeta ?l (Basis ?h) = Some beta"
    using calcBeta_Some calcLuck_range by blast
  obtain diff where diff: "calcDifficulty (?h\<lparr>Lucky := ?l\<rparr>) = Some diff"
    using assms(3) by (cases "calcDifficulty (?h\<lparr>Lucky := ?l\<rparr>)") (auto simp: calcDifficulty_def split: if_splits)
  have "\<exists>n. SealBlock IDKey (?h\<lparr>Lucky := ?l, DifficultyBeta := beta\<rparr>) n < beta"
    using assms(4) [OF _ _ beta] calcLuck_range by blast
  then obtain k' second where s: "nonce_search abort (\<lambda>n. SealBlock IDKey (?h\<lparr>Lucky := ?l, DifficultyBeta := beta\<rparr>) n < beta) k sn =
      Some (k', Some second)"
    using nonce_search_finds [of abort "\<lambda>n. SealBlock IDKey (?h\<lparr>Lucky := ?l, DifficultyBeta := beta\<rparr>) n < beta"] assms(1) by blast
  have eq: "?h\<lparr>Lucky := ?l, FirstNonce := x, DifficultyBeta := beta, Difficulty := diff\<rparr> =
      ?h\<lparr>Lucky := ?l, DifficultyBeta := beta\<rparr>\<lparr>FirstNonce := x, Difficulty := diff\<rparr>" for x
    by simp
  show ?thesis
    using f beta diff s assms(1) by (simp add: mine_def Let_def eq del: Header.update_convs)
qed

lemma VerifySeal_bounds:
  assumes "VerifySeal IDKey h = Some (Inr ())"
  shows "0 \<le> Lucky h \<and> Lucky h < maxLuck \<and> 0 < DifficultyAlpha h \<and> 0 < DifficultyBeta h \<and> 0 < Basis h"
proof -
  have l: "0 \<le> Lucky h" "Lucky h < maxLuck"
    using assms calcLuck_range [of IDKey h] by (auto simp: VerifySeal_iff)
  have nonneg: "0 \<le> SealLuck IDKey h n" "0 \<le> SealBlock IDKey h n" for n
    by (simp_all add: SealLuck_def SealBlock_def HashScale_def)
  then have pos: "0 < DifficultyAlpha h" "0 < DifficultyBeta h"
    using assms by (auto simp: VerifySeal_iff intro: le_less_trans)
  have "DifficultyBeta h \<le> 0" if "Basis h \<le> 0"
  proof -
    have L: "0 < maxLuck" by (simp add: maxLuck_def)
    have "Basis h * maxLuck \<le> 0" using that L by (simp add: mult_le_0_iff)
    then have "Basis h * maxLuck div (maxLuck - Lucky h) \<le> 0"
      using l by (simp add: div_nonpos_pos_le0)
    then have "Basis h * maxLuck div (maxLuck - Lucky h) * maxLuck \<le> 0" using L by (simp add: mult_le_0_iff)
    then have "Basis h * maxLuck div (maxLuck - Lucky h) * maxLuck div (maxLuck - Lucky h) \<le> 0"
      using l by (simp add: div_nonpos_pos_le0)
    then show ?thesis using assms l by (auto simp: VerifySeal_iff calcBeta_Some)
  qed
  then show ?thesis using l pos by force
qed

lemma VerifySeal_None:
  "VerifySeal IDKey h = None \<longleftrightarrow>
    SealLuck IDKey h (BlockNonce_Uint64 (FirstNonce h)) < DifficultyAlpha h \<and> Lucky h = maxLuck"
proof -
  have nonneg: "0 \<le> SealBlock IDKey h n" for n by (simp add: SealBlock_def HashScale_def)
  have "calcDifficulty h \<noteq> None" if "calcBeta (Lucky h) (Basis h) = Some (DifficultyBeta h)"
    "SealBlock IDKey h n < DifficultyBeta h" for n
    using that nonneg [of n] by (auto simp: calcDifficulty_def calcBeta_def Let_def big_div_def split: if_splits)
  then have d: "calcDifficulty h \<noteq> None" if "calcBeta (Lucky h) (Basis h) = Some beta" "beta = DifficultyBeta h"
    "SealBlock IDKey h n < DifficultyBeta h" for n beta
    using that by blast
  show ?thesis
  proof (cases "calcBeta (Lucky h) (Basis h)")
    case None
    then show ?thesis using calcBeta_None [of "Lucky h" "Basis h"] by (simp add: VerifySeal_def Let_def not_le)
  next
    case (Some beta)
    then have "Lucky h \<noteq> maxLuck" using calcBeta_None [of "Lucky h" "Basis h"] by simp
    then show ?thesis using Some d [OF Some]
      by (simp add: VerifySeal_def Let_def not_le) (auto split: option.splits)
  qed
qed

lemma calcBeta_bounds:
  assumes "calcBeta luck basis = Some beta" and "0 \<le> luck" "luck < maxLuck" "0 \<le> basis"
  shows "basis \<le> beta \<and> beta * (maxLuck - luck)\<^sup>2 \<le> basis * maxLuck\<^sup>2 \<and>
    basis * maxLuck\<^sup>2 < (beta + 1) * (maxLuck - luck)\<^sup>2 + maxLuck * (maxLuck - luck)"
proof -
  define L where "L = maxLuck"
  define t where "t = maxLuck - luck"
  define q where "q = basis * L div t"
  have t: "0 < t" "t \<le> L" using assms by (simp_all add: t_def L_def)
  have beta: "beta = q * L div t" using assms by (simp add: calcBeta_Some q_def L_def t_def)
  have fl: "x div t * t \<le> x \<and> x < x div t * t + t" for x
    using div_mult_mod_eq [of x t] pos_mod_bound [of t x] pos_mod_sign [of t x] t(1) by linarith
  have q: "q * t \<le> basis * L" "basis * L < q * t + t" using fl [of "basis * L"] by (simp_all add: q_def)
  have b: "beta * t \<le> q * L" "q * L < beta * t + t" using fl [of "q * L"] by (simp_all add: beta)
  have "beta * t\<^sup>2 \<le> q * t * L"
    using mult_right_mono [OF b(1), of t] t by (simp add: power2_eq_square algebra_simps)
  also have "\<dots> \<le> basis * L\<^sup>2"
    using mult_right_mono [OF q(1), of L] t by (simp add: power2_eq_square algebra_simps)
  finally have 1: "beta * t\<^sup>2 \<le> basis * L\<^sup>2" .
  have "basis * L\<^sup>2 < (q * t + t) * L"
    using mult_strict_right_mono [OF q(2), of L] t by (simp add: power2_eq_square algebra_simps)
  also have "\<dots> = q * L * t + L * t" by (simp add: algebra_simps)
  also have "\<dots> < (beta * t + t) * t + L * t"
    using mult_strict_right_mono [OF b(2), of t] t by simp
  finally have 2: "basis * L\<^sup>2 < (beta + 1) * t\<^sup>2 + L * t" by (simp add: power2_eq_square algebra_simps)
  have up: "x \<le> x * L div t" if "0 \<le> x" for x
    using zdiv_mono1 [of "x * t" "x * L" t] mult_left_mono [OF t(2) that] t(1) by simp
  have "basis \<le> q" using up [OF assms(4)] by (simp add: q_def)
  moreover have "q \<le> beta" using up [of q] calculation assms(4) by (simp add: beta)
  ultimately show ?thesis using 1 2 by (simp add: t_def L_def)
qed

section \<open>Headers: what is accepted\<close>

lemma gas_step_ok:
  fixes p h :: u64
  assumes "unat p < 2 ^ 63" and "unat h < 2 ^ 63"
  shows "(if sint (p - h) < 0 then - (p - h) else p - h) \<ge> p div GasLimitBoundDivisor \<longleftrightarrow>
    unat p div 1024 \<le> (unat p - unat h) + (unat h - unat p)"
  unfolding word_le_nat_alt unat_abs_diff [OF assms]
  by (simp add: GasLimitBoundDivisor_def unat_div)

lemma guard_accepts:
  "(if c then Some (Inl e) else r) = Some (Inr ()) \<longleftrightarrow> \<not> c \<and> r = Some (Inr ())"
  by simp

lemma verifyHeader_accepts:
  assumes "unat (GasLimit parent) < 2 ^ 63" and "length (Extra header) < 2 ^ 63"
  shows "verifyHeader IDKey now header parent uncle seal = Some (Inr ()) \<longleftrightarrow>
    length (Extra header) \<le> 32 \<and>
    (uncle \<or> Time header \<le> now + 15) \<and> Time parent < Time header \<and>
    GasUsed header \<le> GasLimit header \<and> 5000 \<le> unat (GasLimit header) \<and> unat (GasLimit header) < 2 ^ 63 \<and>
    \<bar>int (unat (GasLimit parent)) - int (unat (GasLimit header))\<bar> < int (unat (GasLimit parent) div 1024) \<and>
    Number header = Number parent + 1 \<and>
    (Basis header, DifficultyAlpha header) = calcParam (big_Uint64 (Number header)) (Time header) parent \<and>
    (seal \<longrightarrow> VerifySeal IDKey header = Some (Inr ()))"
proof -
  have extra: "word_of_nat (length (Extra header)) > MaximumExtraDataSize \<longleftrightarrow> length (Extra header) > 32"
    using assms(2) by (simp add: word_less_nat_alt MaximumExtraDataSize_def unat_of_nat_u64)
  have cap: "GasLimit header > 0x7fffffffffffffff \<longleftrightarrow> \<not> unat (GasLimit header) < 2 ^ 63"
    unfolding word_less_nat_alt not_less by simp arith
  have min: "GasLimit header < MinGasLimit \<longleftrightarrow> \<not> 5000 \<le> unat (GasLimit header)"
    unfolding word_less_nat_alt not_le MinGasLimit_def by simp
  have dist: "\<bar>int p - int q\<bar> < int r \<longleftrightarrow> \<not> r \<le> (p - q) + (q - p)" for p q r :: nat
    by auto
  have num: "Number header - Number parent = 1 \<longleftrightarrow> Number header = Number parent + 1" by auto
  show ?thesis
  proof (cases "unat (GasLimit header) < 2 ^ 63")
    case True
    obtain basis alpha where p: "calcParam (big_Uint64 (Number header)) (Time header) parent = (basis, alpha)"
      by (cases "calcParam (big_Uint64 (Number header)) (Time header) parent")
    show ?thesis
      unfolding verifyHeader_def Let_def extra cap min gas_step_ok [OF assms(1) True] dist num
        allowedFutureBlockTime_def p prod.case guard_accepts prod.inject not_less
      using True by (cases seal) (simp_all only: not_le not_less de_Morgan_conj de_Morgan_disj simp_thms eq_commute if_True if_False conj_assoc if_bool_eq_conj; blast)+
  next
    case False
    then show ?thesis unfolding verifyHeader_def Let_def cap guard_accepts by blast
  qed
qed

lemma mined_header:
  assumes "mine IDKey abort block fn sn = Some (Found b)"
  shows "\<exists>l f be d s. b = WithSeal block ((blk_header block)\<lparr>Lucky := l, FirstNonce := f, DifficultyBeta := be,
      Difficulty := d, SecondNonce := s\<rparr>)"
  using mine_found [OF assms] unfolding Let_def by blast

lemma prepared_mined_accepted:
  assumes "Prepare GetHeader h = Inr h'" and "GetHeader (ParentHash h) (big_Uint64 (Number h) - 1) = Some parent"
    and "blk_header block = h'" and "mine IDKey abort block fn sn = Some (Found b)"
    and "unat (GasLimit parent) < 2 ^ 63" and "length (Extra h) \<le> 32"
    and "Time h \<le> now + 15" and "Time parent < Time h"
    and "GasUsed h \<le> GasLimit h" and "5000 \<le> unat (GasLimit h)" and "unat (GasLimit h) < 2 ^ 63"
    and "\<bar>int (unat (GasLimit parent)) - int (unat (GasLimit h))\<bar> < int (unat (GasLimit parent) div 1024)"
    and "Number h = Number parent + 1"
  shows "VerifyHeader IDKey keccak now GetHeader (blk_header b) True = Some (Inr ())"
proof -
  obtain basis alpha where p: "calcParam (big_Uint64 (Number h)) (Time h) parent = (basis, alpha)"
    by (cases "calcParam (big_Uint64 (Number h)) (Time h) parent")
  have h': "h' = h\<lparr>Basis := basis, DifficultyAlpha := alpha\<rparr>"
    using assms(1,2) p by (simp add: Prepare_def)
  obtain l f be d s where "b = WithSeal block (h'\<lparr>Lucky := l, FirstNonce := f, DifficultyBeta := be,
      Difficulty := d, SecondNonce := s\<rparr>)"
    using mined_header [OF assms(4)] assms(3) by blast
  then have hb: "blk_header b = h\<lparr>Basis := basis, DifficultyAlpha := alpha, Lucky := l, FirstNonce := f,
      DifficultyBeta := be, Difficulty := d, SecondNonce := s\<rparr>"
    by (simp add: WithSeal_def h')
  have "verifyHeader IDKey now (blk_header b) parent False True = Some (Inr ())"
    using assms(5-) p mine_seal [OF assms(4)]
    by (subst verifyHeader_accepts) (simp_all add: hb)
  then show ?thesis using assms(2) by (simp add: VerifyHeader_def Let_def hb)
qed

section \<open>Chains of verified headers\<close>

text \<open>Each header of the list is accepted on top of the one before it.\<close>

fun verified_chain :: "idkey \<Rightarrow> u64 \<Rightarrow> Header list \<Rightarrow> bool" where
  "verified_chain IDKey now (p # h # hs) =
    (verifyHeader IDKey now h p False True = Some (Inr ()) \<and> length (Extra h) < 2 ^ 63 \<and> verified_chain IDKey now (h # hs))"
| "verified_chain IDKey now _ = True"

lemma verified_chain_nth:
  assumes "verified_chain IDKey now (g # hs)" and "unat (GasLimit g) < 2 ^ 63" and "i < length hs"
  shows "Number (hs ! i) = Number g + int i + 1 \<and> unat (GasLimit (hs ! i)) < 2 ^ 63 \<and> 5000 \<le> unat (GasLimit (hs ! i)) \<and>
    Time ((g # hs) ! i) < Time (hs ! i) \<and> GasUsed (hs ! i) \<le> GasLimit (hs ! i) \<and> 0 < Basis (hs ! i) \<and>
    0 < DifficultyBeta (hs ! i)"
  using assms
proof (induction i arbitrary: g hs)
  case 0
  then obtain h hs' where hs: "hs = h # hs'" by (cases hs) auto
  have "verifyHeader IDKey now h g False True = Some (Inr ())" "length (Extra h) < 2 ^ 63"
    using 0 hs by simp_all
  then show ?case
    using hs verifyHeader_accepts [OF 0(2)] VerifySeal_bounds [of IDKey h] by simp
next
  case (Suc i)
  then obtain h hs' where hs: "hs = h # hs'" by (cases hs) auto
  have v: "verifyHeader IDKey now h g False True = Some (Inr ())" "length (Extra h) < 2 ^ 63"
    using Suc.prems(1) hs by simp_all
  have "Number h = Number g + 1" "unat (GasLimit h) < 2 ^ 63"
    using v verifyHeader_accepts [OF Suc.prems(2) v(2), of IDKey now False True] by simp_all
  then show ?case using Suc.IH [of h hs'] Suc.prems hs by simp
qed

lemma calcParam_bounds:
  assumes "1 < number" and "0 \<le> Basis parent" and "0 \<le> DifficultyAlpha parent"
    and "calcParam number time parent = (basis, alpha)"
  shows "0 \<le> alpha \<and> alpha * 100 \<le> DifficultyAlpha parent * 110 \<and> DifficultyAlpha parent * 90 < (alpha + 1) * 100 \<and>
    0 \<le> basis \<and> basis * 10000 \<le> Basis parent * (105 * 110) \<and> Basis parent * (96 * 90) < (basis + 2) * 10000"
proof -
  have dv: "0 \<le> x * k div 100 \<and> x * k div 100 * 100 \<le> x * k \<and> x * k < (x * k div 100 + 1) * 100" if "0 \<le> x" "0 \<le> k" for x k :: int
  proof -
    have "0 \<le> y div 100 \<and> y div 100 * 100 \<le> y \<and> y < (y div 100 + 1) * 100" if "0 \<le> y" for y :: int
      using that by presburger
    then show ?thesis using that by simp
  qed
  have n: "\<not> number \<le> 1" using assms(1) by simp
  define b1 where "b1 = (if DifficultyAlpha parent < DifficultyBeta parent div 5 then Basis parent * 96 div 100 else Basis parent * 105 div 100)"
  have b1: "0 \<le> b1" "b1 * 100 \<le> Basis parent * 105" "Basis parent * 96 < (b1 + 1) * 100"
    using dv [OF assms(2), of 96] dv [OF assms(2), of 105] assms(2) by (auto simp: b1_def)
  show ?thesis
  proof (cases "time - Time parent > 20")
    case True
    then have "basis = b1 * 110 div 100" "alpha = DifficultyAlpha parent * 110 div 100"
      using assms(4) n by (simp_all add: calcParam_def Let_def b1_def)
    then show ?thesis using dv [OF b1(1), of 110] dv [OF assms(3), of 110] b1 assms(2,3) by simp
  next
    case False
    then have "basis = b1 * 90 div 100" "alpha = DifficultyAlpha parent * 90 div 100"
      using assms(4) n by (simp_all add: calcParam_def Let_def b1_def)
    then show ?thesis using dv [OF b1(1), of 90] dv [OF assms(3), of 90] b1 assms(2,3) by simp
  qed
qed

section \<open>Uncles\<close>

text \<open>The blocks the collecting loop visits, nearest first.\<close>

fun ancestry :: "(bytes \<Rightarrow> u64 \<Rightarrow> 'tx Block option) \<Rightarrow> nat \<Rightarrow> bytes \<Rightarrow> u64 \<Rightarrow> 'tx Block list" where
  "ancestry GetBlock 0 parent number = []"
| "ancestry GetBlock (Suc i) parent number =
    (case GetBlock parent number of None \<Rightarrow> []
     | Some a \<Rightarrow> a # ancestry GetBlock i (ParentHash (blk_header a)) (number - 1))"

lemma gather_ancestry:
  "gather_ancestors keccak GetBlock i parent number (uncles, ancestors) =
    (uncles \<union> (\<Union>a \<in> set (ancestry GetBlock i parent number). Header_Hash keccak ` set (blk_uncles a)),
     ancestors ++ map_of (rev (map (\<lambda>a. (Block_Hash keccak a, blk_header a)) (ancestry GetBlock i parent number))))"
proof (induction i arbitrary: parent number uncles ancestors)
  case (Suc i)
  show ?case
  proof (cases "GetBlock parent number")
    case (Some a)
    have "gather_ancestors keccak GetBlock (Suc i) parent number (uncles, ancestors) =
       gather_ancestors keccak GetBlock i (ParentHash (blk_header a)) (number - 1)
           (uncles \<union> set (map (Header_Hash keccak) (blk_uncles a)),
            ancestors(Block_Hash keccak a \<mapsto> blk_header a))"
      using Some by simp
    then show ?thesis
      unfolding Suc.IH using Some by (simp add: Un_assoc map_add_def fun_eq_iff split: option.splits)
  qed simp
qed simp

lemma check_uncles_accepts:
  "check_uncles IDKey keccak now parentHash ancestors us uncles = Some (Inr ()) \<longleftrightarrow>
    distinct (map (Header_Hash keccak) us) \<and>
    (\<forall>u \<in> set us. Header_Hash keccak u \<notin> uncles \<and> ancestors (Header_Hash keccak u) = None \<and>
      ParentHash u \<noteq> parentHash \<and>
      (\<exists>p. ancestors (ParentHash u) = Some p \<and> verifyHeader IDKey now u p True True = Some (Inr ())))"
proof (induction us arbitrary: uncles)
  case (Cons u us)
  show ?case
    by (auto simp: Let_def Cons.IH split: option.splits sum.splits if_splits) (metis imageI)
qed simp

definition recent_ancestors :: "(bytes \<Rightarrow> u64 \<Rightarrow> 'tx Block option) \<Rightarrow> 'tx Block \<Rightarrow> 'tx Block list" where
  "recent_ancestors GetBlock block =
    ancestry GetBlock 7 (ParentHash (blk_header block)) (big_Uint64 (Number (blk_header block)) - 1)"

definition ancestor_map :: "(bytes \<Rightarrow> bytes) \<Rightarrow> 'tx Block list \<Rightarrow> bytes \<rightharpoonup> Header" where
  "ancestor_map keccak as = map_of (rev (map (\<lambda>a. (Block_Hash keccak a, blk_header a)) as))"

lemma ancestor_map_None:
  "ancestor_map keccak as x = None \<longleftrightarrow> (\<forall>a \<in> set as. x \<noteq> Block_Hash keccak a)"
  by (auto simp: ancestor_map_def map_of_eq_None_iff image_image)

lemma VerifyUncles_accepts:
  "VerifyUncles IDKey keccak now GetBlock block = Some (Inr ()) \<longleftrightarrow>
    length (blk_uncles block) \<le> 2 \<and> distinct (map (Header_Hash keccak) (blk_uncles block)) \<and>
    (\<forall>u \<in> set (blk_uncles block).
      Header_Hash keccak u \<noteq> Block_Hash keccak block \<and>
      (\<forall>a \<in> set (recent_ancestors GetBlock block). Header_Hash keccak u \<noteq> Block_Hash keccak a \<and>
         Header_Hash keccak u \<notin> Header_Hash keccak ` set (blk_uncles a)) \<and>
      ParentHash u \<noteq> ParentHash (blk_header block) \<and>
      (\<exists>p. ((ancestor_map keccak (recent_ancestors GetBlock block))
             (Block_Hash keccak block \<mapsto> blk_header block)) (ParentHash u) = Some p \<and>
           verifyHeader IDKey now u p True True = Some (Inr ())))"
proof -
  have pt: "(x \<notin> insert bh (\<Union>a \<in> set as. U a) \<and> ((ancestor_map keccak as)(bh \<mapsto> v)) x = None \<and> Q) \<longleftrightarrow>
      (x \<noteq> bh \<and> (\<forall>a \<in> set as. x \<noteq> Block_Hash keccak a \<and> x \<notin> U a) \<and> Q)"
    for x bh v U Q and as :: "'a Block list"
    using ancestor_map_None [of keccak as x] by auto
  show ?thesis
    unfolding VerifyUncles_def Let_def gather_ancestry prod.case guard_accepts check_uncles_accepts
      recent_ancestors_def [symmetric] ancestor_map_def [symmetric] maxUncles_def empty_map_add
      sup_bot.left_neutral pt not_less ..
qed

section \<open>What the block seal commits to\<close>

text \<open>The seal inputs are lists of byte strings and non-negative integers.\<close>

fun field_bytes :: "rval \<Rightarrow> bytes" where
  "field_bytes (BigIntPtr (Some i)) = nat_be (nat i)"
| "field_bytes (UintVal i) = nat_be (unat i)"
| "field_bytes (BytesVal b) = b"
| "field_bytes (ByteArrayVal b) = b"
| "field_bytes _ = []"

fun is_field :: "rval \<Rightarrow> bool" where
  "is_field (BigIntPtr (Some i)) = (0 \<le> i)"
| "is_field (UintVal i) = True"
| "is_field (BytesVal b) = True"
| "is_field (ByteArrayVal b) = True"
| "is_field _ = False"

lemma enc_field: "is_field v \<Longrightarrow> enc_val v = enc_string (field_bytes v) \<and> \<not> has_negative v"
  by (cases v rule: is_field.cases) auto

lemma rlp_bytes_fields:
  assumes "list_all is_field vs" and "length (enc_val (iface_list vs)) < 2 ^ 63"
  shows "rlp_bytes (iface_list vs) = enc_list (concat (map (enc_string \<circ> field_bytes) vs))"
proof -
  have "enc_val (iface_list vs) = enc_list (concat (map (enc_string \<circ> field_bytes) vs))"
    using assms(1) by (simp add: iface_list_def enc_field list_all_iff o_def cong: map_cong)
  moreover have "\<not> has_negative (iface_list vs)"
    using assms(1) by (auto simp: iface_list_def list_all_iff enc_field)
  ultimately show ?thesis
    using EncodeToBytes_val [OF assms(2)] by (simp add: rlp_bytes_def)
qed

lemma enc_list_inj:
  assumes "length (enc_list p) < 2 ^ 63" "enc_list p = enc_list q"
  shows "p = q"
  using raw_enc_unique [of KList p "[]" KList q "[]"] assms by (simp add: enc_list_raw kind_ok_def)

lemma rlp_bytes_fields_inj:
  assumes "list_all is_field vs" "list_all is_field ws"
    and "length (enc_val (iface_list vs)) < 2 ^ 63" "length (enc_val (iface_list ws)) < 2 ^ 63"
    and "rlp_bytes (iface_list vs) = rlp_bytes (iface_list ws)"
  shows "map field_bytes vs = map field_bytes ws"
proof -
  have eq: "enc_list (concat (map enc_string (map field_bytes vs))) = enc_list (concat (map enc_string (map field_bytes ws)))"
    using assms(5) unfolding rlp_bytes_fields [OF assms(1,3)] rlp_bytes_fields [OF assms(2,4)] by (simp add: o_def)
  have len: "length (enc_list (concat (map enc_string (map field_bytes vs)))) < 2 ^ 63"
    using assms(1,3) by (simp add: iface_list_def enc_field list_all_iff o_def cong: map_cong)
  have "length (concat (map enc_string (map field_bytes vs))) < 2 ^ 63"
    using len by (simp add: enc_list_def)
  then show ?thesis
    using enc_list_inj [OF len eq] by (rule rlp_string.concat_inj)
qed

lemma nat_be_inj [simp]: "nat_be m = nat_be n \<longleftrightarrow> m = n"
  by (metis be_nat_nat_be)

lemma SealBlock_input_binding:
  assumes "0 \<le> Number h" "0 \<le> Basis h" "0 \<le> Lucky h" "0 \<le> DifficultyAlpha h" "0 \<le> DifficultyBeta h"
    and "0 \<le> Number h'" "0 \<le> Basis h'" "0 \<le> Lucky h'" "0 \<le> DifficultyAlpha h'" "0 \<le> DifficultyBeta h'"
    and "length (enc_val (iface_list (SealBlock_fields h n))) < 2 ^ 63"
    and "length (enc_val (iface_list (SealBlock_fields h' n'))) < 2 ^ 63"
  shows "SealBlock_input h n = SealBlock_input h' n' \<longleftrightarrow>
    n = n' \<and> h' = h\<lparr>FirstNonce := FirstNonce h', Difficulty := Difficulty h', SecondNonce := SecondNonce h',
      MixDigest := MixDigest h', Nonce := Nonce h'\<rparr>"
proof
  assume "SealBlock_input h n = SealBlock_input h' n'"
  then have "map field_bytes (SealBlock_fields h n) = map field_bytes (SealBlock_fields h' n')"
    unfolding SealBlock_input_def using assms
    by (intro rlp_bytes_fields_inj) (simp_all add: SealBlock_fields_def)
  then show "n = n' \<and> h' = h\<lparr>FirstNonce := FirstNonce h', Difficulty := Difficulty h', SecondNonce := SecondNonce h',
      MixDigest := MixDigest h', Nonce := Nonce h'\<rparr>"
    using assms by (cases h, cases h') (simp add: SealBlock_fields_def nat_eq_iff flip: word_unat_eq_iff)
next
  assume r: "n = n' \<and> h' = h\<lparr>FirstNonce := FirstNonce h', Difficulty := Difficulty h', SecondNonce := SecondNonce h',
      MixDigest := MixDigest h', Nonce := Nonce h'\<rparr>"
  have "SealBlock_fields (h\<lparr>FirstNonce := a, Difficulty := b, SecondNonce := c, MixDigest := d, Nonce := e\<rparr>) n =
      SealBlock_fields h n" for a b c d e
    by (simp add: SealBlock_fields_def)
  then show "SealBlock_input h n = SealBlock_input h' n'"
    unfolding SealBlock_input_def using r by metis
qed

section \<open>Batch verification\<close>








lemma iface_list_small:
  assumes "list_all (\<lambda>v. is_field v \<and> length (field_bytes v) \<le> 256) vs" and "length vs \<le> 100"
  shows "length (enc_val (iface_list vs)) < 2 ^ 63"
proof -
  have h: "length (enc_head a b n) \<le> 9" if "n < 2 ^ 64" for a b n
    using that length_nat_be [of n 8] by (auto simp: enc_head_def)
  have s: "length (enc_string b) \<le> 9 + length b" if "length b \<le> 256" for b
    using that h [of "length b"] h [of 1] by (auto simp: enc_string_def split: list.splits)
  have "length (enc_val v) \<le> 265" if "v \<in> set vs" for v
    using that assms(1) s [of "field_bytes v"] by (auto simp: list_all_iff enc_field)
  then have "length (concat (map enc_val vs)) \<le> 265 * length vs"
    by (induction vs) (auto intro!: add_mono)
  then have "length (concat (map enc_val vs)) \<le> 26500" using assms(2) by simp
  then show ?thesis
    using h [where n = "length (concat (map enc_val vs))" and a = "0xC0" and b = "0xF7"] by (simp add: iface_list_def enc_list_def o_def)
qed

section \<open>Main properties\<close>

text \<open>A header and constant hash functions for concrete instances.\<close>

definition sample_header :: Header where
  "sample_header =
    \<lparr>ParentHash = replicate 32 0, UncleHash = replicate 32 1, Coinbase = replicate 25 2, Root = [],
     TxHash = [], ReceiptHash = [], Bloom = [], Number = 5, GasLimit = 10000, GasUsed = 0, Time = 100,
     Extra = [], Lucky = 0, Basis = 1000, FirstNonce = replicate 8 0, DifficultyAlpha = 1000,
     DifficultyBeta = 1000, Difficulty = 0, SecondNonce = replicate 8 0, MixDigest = [], Nonce = []\<rparr>"

definition null_key :: idkey where
  "null_key data salt t m p n = []"

lemma null_key_seals [simp]:
  "SealLuck null_key h n = 0" "SealBlock null_key h n = 0" "calcLuck null_key h n = 0"
  by (simp_all add: SealLuck_def SealBlock_def calcLuck_def Argon2Hash_def null_key_def HashScale_def maxLuck_def)

lemma calcBeta_0 [simp]: "calcBeta 0 basis = Some basis"
  by (simp add: calcBeta_Some maxLuck_def)

text \<open>
  C1. A header that \<open>Prepare\<close> completes and \<open>mine\<close> seals is accepted by \<open>VerifyHeader\<close>, with its
  seal checked, on the same chain: whatever the mining loops report satisfies the verifier, provided
  the fields the miner chooses (extra data, time, gas, number) are within the limits relative to
  the parent.
\<close>

theorem mined_block_accepted:
  assumes "Prepare GetHeader h = Inr h'" and "GetHeader (ParentHash h) (big_Uint64 (Number h) - 1) = Some parent"
    and "blk_header block = h'" and "mine IDKey abort block fn sn = Some (Found b)"
    and "unat (GasLimit parent) < 2 ^ 63" and "length (Extra h) \<le> 32"
    and "Time h \<le> now + 15" and "Time parent < Time h"
    and "GasUsed h \<le> GasLimit h" and "5000 \<le> unat (GasLimit h)" and "unat (GasLimit h) < 2 ^ 63"
    and "\<bar>int (unat (GasLimit parent)) - int (unat (GasLimit h))\<bar> < int (unat (GasLimit parent) div 1024)"
    and "Number h = Number parent + 1"
  shows "VerifyHeader IDKey keccak now GetHeader (blk_header b) True = Some (Inr ())"
  by (rule prepared_mined_accepted [OF assms])

abbreviation sample_parent :: Header where
  "sample_parent \<equiv> sample_header\<lparr>Number := 4, Time := 50\<rparr>"

abbreviation sample_block :: "unit Block" where
  "sample_block \<equiv>
  \<lparr>blk_header = sample_header\<lparr>Basis := 1155, DifficultyAlpha := 1100\<rparr>, blk_transactions = [] :: unit list,
   blk_uncles = []\<rparr>"

lemma null_key_beta: "0 \<le> lucky \<Longrightarrow> lucky < maxLuck \<Longrightarrow> calcBeta lucky (1155 :: int) = Some beta \<Longrightarrow> 0 < beta"
  using calcBeta_bounds [of lucky 1155 beta] by simp

lemma sample_values [simp]:
  "big_Uint64 (Number sample_header) = 5" "\<not> (5 :: u64) \<le> 1"
  "calcParam 5 (Time sample_header) sample_parent = (1155, 1100)"
proof -
  show n: "\<not> (5 :: u64) \<le> 1" by (simp add: word_le_nat_alt)
  show "big_Uint64 (Number sample_header) = 5" by (simp add: big_Uint64_def sample_header_def)
  show "calcParam 5 (Time sample_header) sample_parent = (1155, 1100)"
    using n by (simp add: calcParam_def sample_header_def Let_def word_less_nat_alt)
qed

theorem mined_block_accepted_witness:
  "\<exists>b. mine null_key (\<lambda>_. False) sample_block 0 0 = Some (Found b) \<and>
    VerifyHeader null_key (\<lambda>_. []) 90 (\<lambda>_ _. Some sample_parent) (blk_header b) True = Some (Inr ())"
proof -
  obtain b where b: "mine null_key (\<lambda>_. False) sample_block 0 0 = Some (Found b)"
    using mine_returns [of "\<lambda>_. False" null_key sample_block 0 0] null_key_beta by (auto simp: sample_header_def)
  have "Prepare (\<lambda>_ _. Some sample_parent) sample_header = Inr (blk_header sample_block)"
    by (simp add: Prepare_def)
  from mined_block_accepted [OF this _ refl b, of sample_parent 90 "\<lambda>_. []"] show ?thesis
    using b by (auto simp: sample_header_def)
qed

text \<open>
  C18. Mining that is not aborted ends with a sealed block whenever some nonce satisfies the first
  target and, for every luck that can come out, some nonce satisfies the second; the nonce loops run
  through all 64-bit values before they repeat one. The one obstacle is a basis of zero from block
  39200 on, where the difficulty computation panics.
\<close>

theorem mine_finds_block:
  assumes "\<And>i. \<not> abort i"
    and "\<exists>n. SealLuck IDKey (blk_header block) n < DifficultyAlpha (blk_header block)"
    and "big_Uint64 (Number (blk_header block)) < difficultyAjustBlock \<or> Basis (blk_header block) \<noteq> 0"
    and "\<And>lucky beta. 0 \<le> lucky \<Longrightarrow> lucky < maxLuck \<Longrightarrow> calcBeta lucky (Basis (blk_header block)) = Some beta \<Longrightarrow>
      \<exists>n. SealBlock IDKey ((blk_header block)\<lparr>Lucky := lucky, DifficultyBeta := beta\<rparr>) n < beta"
  shows "\<exists>b. mine IDKey abort block fn sn = Some (Found b)"
  by (rule mine_returns [OF assms])

theorem mine_finds_block_witness:
  "\<exists>b. mine null_key (\<lambda>_. False) sample_block 7 9 = Some (Found b)"
  using mine_finds_block [of "\<lambda>_. False" null_key sample_block 7 9] null_key_beta
  by (auto simp: sample_header_def)

text \<open>
  C12. \<open>verifyHeader\<close> accepts a header exactly if its extra data, time, gas, number, basis, first
  difficulty and seal satisfy the consensus rules relative to the parent. The gas limit rule, which the code
  computes in wrapping 64-bit arithmetic, is the one over the integers as soon as the parent's
  gas limit is below \<open>2 ^ 63\<close>.
\<close>

theorem verifyHeader_correct:
  assumes "unat (GasLimit parent) < 2 ^ 63" and "length (Extra header) < 2 ^ 63"
  shows "verifyHeader IDKey now header parent uncle seal = Some (Inr ()) \<longleftrightarrow>
    length (Extra header) \<le> 32 \<and>
    (uncle \<or> Time header \<le> now + 15) \<and> Time parent < Time header \<and>
    GasUsed header \<le> GasLimit header \<and> 5000 \<le> unat (GasLimit header) \<and> unat (GasLimit header) < 2 ^ 63 \<and>
    \<bar>int (unat (GasLimit parent)) - int (unat (GasLimit header))\<bar> < int (unat (GasLimit parent) div 1024) \<and>
    Number header = Number parent + 1 \<and>
    (Basis header, DifficultyAlpha header) = calcParam (big_Uint64 (Number header)) (Time header) parent \<and>
    (seal \<longrightarrow> VerifySeal IDKey header = Some (Inr ()))"
  by (rule verifyHeader_accepts [OF assms])

theorem verifyHeader_correct_witness:
  "verifyHeader null_key 90 (blk_header sample_block) sample_parent False False = Some (Inr ()) \<and>
   verifyHeader null_key 90 sample_header sample_parent False False \<noteq> Some (Inr ())"
  using verifyHeader_correct [of sample_parent "blk_header sample_block" null_key 90 False False]
    verifyHeader_correct [of sample_parent sample_header null_key 90 False False]
  by (simp, simp add: sample_header_def)

text \<open>
  C15. Along every chain of accepted headers the numbers are consecutive, the times increase
  strictly, gas limits stay between 5000 and \<open>2 ^ 63 - 1\<close>, gas used stays within the limit, and basis
  and second difficulty stay positive.
\<close>

theorem verified_chain_invariant:
  assumes "verified_chain IDKey now (g # hs)" and "unat (GasLimit g) < 2 ^ 63" and "i < length hs"
  shows "Number (hs ! i) = Number g + int i + 1 \<and> unat (GasLimit (hs ! i)) < 2 ^ 63 \<and>
    5000 \<le> unat (GasLimit (hs ! i)) \<and> Time ((g # hs) ! i) < Time (hs ! i) \<and>
    GasUsed (hs ! i) \<le> GasLimit (hs ! i) \<and> 0 < Basis (hs ! i) \<and> 0 < DifficultyBeta (hs ! i)"
  by (rule verified_chain_nth [OF assms])

theorem verified_chain_invariant_witness:
  "Number ([sample_header\<lparr>Basis := 1155, DifficultyAlpha := 1100, DifficultyBeta := 1155\<rparr>] ! 0) = 4 + int 0 + 1"
proof -
  let ?h = "sample_header\<lparr>Basis := 1155, DifficultyAlpha := 1100, DifficultyBeta := 1155\<rparr>"
  have "VerifySeal null_key ?h = Some (Inr ())"
    by (simp add: VerifySeal_iff sample_header_def calcDifficulty_def big_Uint64_def difficultyAjustBlock_def)
  moreover have "unat (GasLimit sample_parent) < 2 ^ 63" "length (Extra ?h) < 2 ^ 63"
    by (simp_all add: sample_header_def)
  ultimately have "verified_chain null_key 90 [sample_parent, ?h]"
    using verifyHeader_accepts [of sample_parent ?h null_key 90 False True]
    by (simp, simp add: sample_header_def)
  from verified_chain_invariant [OF this, of 0] show ?thesis
    by (simp add: sample_header_def)
qed

text \<open>
  C11. \<open>VerifySeal\<close> panics, by a division by zero in \<open>calcBeta\<close>, exactly on headers whose first seal
  is valid and whose \<open>Lucky\<close> field is \<open>maxLuck\<close>: the field is used before it is compared with the
  luck the nonce really gives, so a peer that finds one first nonce can crash a verifier.
\<close>

theorem VerifySeal_panics_iff:
  "VerifySeal IDKey h = None \<longleftrightarrow>
    SealLuck IDKey h (BlockNonce_Uint64 (FirstNonce h)) < DifficultyAlpha h \<and> Lucky h = maxLuck"
  by (rule VerifySeal_None)

text \<open>
  C20. The second difficulty computed for a luck below \<open>maxLuck\<close> is at least the basis and equals
  \<open>basis * maxLuck^2 / (maxLuck - luck)^2\<close> up to the two integer divisions: never above that quotient,
  and below it by less than \<open>1 + maxLuck / (maxLuck - luck)\<close>.
\<close>

theorem calcBeta_approximates:
  assumes "calcBeta luck basis = Some beta" and "0 \<le> luck" and "luck < maxLuck" and "0 \<le> basis"
  shows "basis \<le> beta \<and> beta * (maxLuck - luck)\<^sup>2 \<le> basis * maxLuck\<^sup>2 \<and>
    basis * maxLuck\<^sup>2 < (beta + 1) * (maxLuck - luck)\<^sup>2 + maxLuck * (maxLuck - luck)"
  by (rule calcBeta_bounds [OF assms])

theorem calcBeta_approximates_witness:
  "calcBeta 100000000 1001 = Some 4004 \<and> (1001 :: int) \<le> 4004 \<and> 4004 * (maxLuck - 100000000)\<^sup>2 \<le> 1001 * maxLuck\<^sup>2"
  using calcBeta_approximates [of 100000000 1001 4004] by (simp add: calcBeta_Some maxLuck_def)

text \<open>
  C21. From one block to the next the first difficulty moves by at most 10 percent and the basis
  by at most the two combined adjustments (-13.6 to +15.5 percent), up to the integer rounding, and
  neither becomes negative.
\<close>

theorem calcParam_range:
  assumes "1 < number" and "0 \<le> Basis parent" and "0 \<le> DifficultyAlpha parent"
    and "calcParam number time parent = (basis, alpha)"
  shows "0 \<le> alpha \<and> alpha * 100 \<le> DifficultyAlpha parent * 110 \<and> DifficultyAlpha parent * 90 < (alpha + 1) * 100 \<and>
    0 \<le> basis \<and> basis * 10000 \<le> Basis parent * (105 * 110) \<and> Basis parent * (96 * 90) < (basis + 2) * 10000"
  by (rule calcParam_bounds [OF assms])

theorem calcParam_range_witness:
  "(1155 :: int) * 10000 \<le> Basis sample_parent * (105 * 110)"
  using calcParam_range [of 5 sample_parent "Time sample_header" 1155 1100]
  by (simp add: word_less_nat_alt) (simp add: sample_header_def)

text \<open>
  C17. \<open>VerifyUncles\<close> accepts a block exactly if it has at most two uncles, all different, none of
  them the block itself, one of its last seven ancestors or an uncle of these, each with a parent among
  those ancestors other than the block's own parent, and each a valid header on that parent.
\<close>

theorem VerifyUncles_correct:
  "VerifyUncles IDKey keccak now GetBlock block = Some (Inr ()) \<longleftrightarrow>
    length (blk_uncles block) \<le> 2 \<and> distinct (map (Header_Hash keccak) (blk_uncles block)) \<and>
    list_all (\<lambda>u.
      Header_Hash keccak u \<noteq> Block_Hash keccak block \<and>
      list_all (\<lambda>a. Header_Hash keccak u \<noteq> Block_Hash keccak a \<and>
         Header_Hash keccak u \<notin> Header_Hash keccak ` set (blk_uncles a)) (recent_ancestors GetBlock block) \<and>
      ParentHash u \<noteq> ParentHash (blk_header block) \<and>
      (\<exists>p. ((ancestor_map keccak (recent_ancestors GetBlock block))
             (Block_Hash keccak block \<mapsto> blk_header block)) (ParentHash u) = Some p \<and>
           verifyHeader IDKey now u p True True = Some (Inr ()))) (blk_uncles block)"
  unfolding VerifyUncles_accepts list_all_iff ..

text \<open>
  C16. The input hashed for the block seal determines the nonce and every header field except the
  two nonces, the difficulty and the two legacy fields: two headers with the same input agree on
  everything a miner could otherwise change after sealing.
\<close>

theorem SealBlock_input_commits:
  assumes "0 \<le> Number h" "0 \<le> Basis h" "0 \<le> Lucky h" "0 \<le> DifficultyAlpha h" "0 \<le> DifficultyBeta h"
    and "0 \<le> Number h'" "0 \<le> Basis h'" "0 \<le> Lucky h'" "0 \<le> DifficultyAlpha h'" "0 \<le> DifficultyBeta h'"
    and "length (enc_val (iface_list (SealBlock_fields h n))) < 2 ^ 63"
    and "length (enc_val (iface_list (SealBlock_fields h' n'))) < 2 ^ 63"
  shows "SealBlock_input h n = SealBlock_input h' n' \<longleftrightarrow>
    n = n' \<and> h' = h\<lparr>FirstNonce := FirstNonce h', Difficulty := Difficulty h', SecondNonce := SecondNonce h',
      MixDigest := MixDigest h', Nonce := Nonce h'\<rparr>"
  by (rule SealBlock_input_binding [OF assms])

theorem SealBlock_input_commits_witness:
  "SealBlock_input sample_header 1 \<noteq> SealBlock_input (sample_header\<lparr>GasUsed := 1\<rparr>) 1"
proof -
  have b: "length (nat_be n) \<le> 256" if "n < 256 ^ 8" for n
    using that length_nat_be [of n 8] by simp
  have len: "length (enc_val (iface_list (SealBlock_fields (sample_header\<lparr>GasUsed := g\<rparr>) 1))) < 2 ^ 63" for g
    using b unat_u64_lt [of g] by (intro iface_list_small) (simp_all add: SealBlock_fields_def sample_header_def)
  have "sample_header = sample_header\<lparr>GasUsed := 0\<rparr>" by (simp add: sample_header_def)
  show ?thesis
    using SealBlock_input_commits [of sample_header "sample_header\<lparr>GasUsed := 1\<rparr>" 1 1] len [of 1] len [of 0]
      \<open>sample_header = sample_header\<lparr>GasUsed := 0\<rparr>\<close>
    by (simp add: sample_header_def)
qed





end
