(* ===== verification/Common.thy ===== *)
theory Common
  imports Prelude
begin

text \<open>
  The fixed-size byte arrays of package \<^verbatim>\<open>common\<close> (src/common/types.go, src/common/bytes.go): \<open>Hash\<close> of 32
  and \<open>Address\<close> of 25 bytes, modelled as byte strings of that length, and the conversions into them.
\<close>

section \<open>Hashes and addresses\<close>

type_synonym hash = bytes
type_synonym address = bytes

definition HashLength :: nat where "HashLength = 32"

definition AddressLength :: nat where "AddressLength = 25"

text \<open>
  \<open>SetBytes\<close> of a zero array of \<open>n\<close> bytes: a longer slice is cropped from the left, a shorter one is
  padded with zeros on the left.
\<close>

definition SetBytes :: "nat \<Rightarrow> bytes \<Rightarrow> bytes" where
  "SetBytes n b0 =
    (let b = (if length b0 > n then drop (length b0 - n) b0 else b0) in replicate (n - length b) 0 @ b)"

definition BytesToHash :: "bytes \<Rightarrow> hash" where
  "BytesToHash b = SetBytes HashLength b"

definition BytesToAddress :: "bytes \<Rightarrow> address" where
  "BytesToAddress b = SetBytes AddressLength b"

definition zero_hash :: hash where
  "zero_hash = replicate HashLength 0"

fun TrimLeftZeroes :: "bytes \<Rightarrow> bytes" where
  "TrimLeftZeroes [] = []"
| "TrimLeftZeroes (x # s) = (if x \<noteq> 0 then x # s else TrimLeftZeroes s)"

section \<open>Properties\<close>

lemma length_SetBytes [simp]: "length (SetBytes n b) = n"
  by (simp add: SetBytes_def Let_def)

lemma SetBytes_id: "length b = n \<Longrightarrow> SetBytes n b = b"
  by (simp add: SetBytes_def)

lemma BytesToHash_id: "length b = HashLength \<Longrightarrow> BytesToHash b = b"
  by (simp add: BytesToHash_def SetBytes_id)

lemma length_BytesToHash [simp]: "length (BytesToHash b) = HashLength"
  by (simp add: BytesToHash_def)

lemma TrimLeftZeroes_pad: "replicate (length b - length (TrimLeftZeroes b)) 0 @ TrimLeftZeroes b = b"
proof (induction b rule: TrimLeftZeroes.induct)
  case (2 x s)
  have "length (TrimLeftZeroes s) \<le> length s" by (induction s) auto
  then show ?case using 2 by (auto simp: Suc_diff_le)
qed simp

lemma length_TrimLeftZeroes: "length (TrimLeftZeroes b) \<le> length b"
  by (induction b) auto

text \<open>A storage value survives being stored without its leading zeros.\<close>

lemma BytesToHash_Trim: "length b = HashLength \<Longrightarrow> BytesToHash (TrimLeftZeroes b) = b"
  using TrimLeftZeroes_pad [of b] length_TrimLeftZeroes [of b]
  by (simp add: BytesToHash_def SetBytes_def)

end
