(* ===== verification/EvmMath.thy ===== *)
theory EvmMath
  imports Common "HOL-Library.Signed_Division"
begin

text \<open>
  Integer arithmetic of the virtual machine: package \<^verbatim>\<open>common/math\<close> (src/common/math/big.go, integer.go) and
  the arithmetic instructions of src/core/vm/instructions.go as functions on the operands they take from
  the stack. Stack items are \<open>big.Int\<close> values; the lemmas show that they stay below \<open>2 ^ 256\<close> and that every
  instruction is the operation on 256-bit words that it stands for.
\<close>

section \<open>Package math\<close>

definition tt255 :: int where "tt255 = 2 ^ 255"

definition tt256 :: int where "tt256 = 2 ^ 256"

definition tt256m1 :: int where "tt256m1 = tt256 - 1"

definition U256 :: "int \<Rightarrow> int" where
  "U256 x = x AND tt256m1"

definition S256 :: "int \<Rightarrow> int" where
  "S256 x = (if x < tt255 then x else x - tt256)"

definition BigMax :: "int \<Rightarrow> int \<Rightarrow> int" where
  "BigMax x y = (if x < y then y else x)"

definition BigMin :: "int \<Rightarrow> int \<Rightarrow> int" where
  "BigMin x y = (if x > y then y else x)"

text \<open>
  \<open>Int.Bits\<close>: the 64-bit words of the absolute value, the least significant one first and none of them
  leading zeros. \<open>Int.Bytes\<close> is \<open>nat_be\<close>, \<open>Int.SetBytes\<close> is \<open>be_nat\<close>.
\<close>

fun big_Bits :: "nat \<Rightarrow> u64 list" where
  "big_Bits n = (if n = 0 then [] else word_of_nat n # big_Bits (n div 2 ^ 64))"

declare big_Bits.simps [simp del]

definition big_Bytes :: "int \<Rightarrow> bytes" where
  "big_Bytes x = nat_be (nat \<bar>x\<bar>)"

definition big_SetBytes :: "bytes \<Rightarrow> int" where
  "big_SetBytes b = int (be_nat b)"

definition big_IsUint64 :: "int \<Rightarrow> bool" where
  "big_IsUint64 x \<longleftrightarrow> 0 \<le> x \<and> bitlen (nat \<bar>x\<bar>) \<le> 64"

definition big_Int64 :: "int \<Rightarrow> int" where
  "big_Int64 x = (if x < 0 then - sint (big_Uint64 x) else sint (big_Uint64 x))"

text \<open>The two loops of \<open>Exp\<close>: over the bits of one word and over the words of the exponent.\<close>

fun Exp_bits :: "nat \<Rightarrow> u64 \<Rightarrow> int \<times> int \<Rightarrow> int \<times> int" where
  "Exp_bits 0 word st = st"
| "Exp_bits (Suc n) word (result, base) =
     (let result1 = (if word AND 1 = 1 then U256 (result * base) else result)
      in Exp_bits n (drop_bit 1 word) (result1, U256 (base * base)))"

definition Exp :: "int \<Rightarrow> int \<Rightarrow> int" where
  "Exp base exponent = fst (fold (Exp_bits 64) (big_Bits (nat \<bar>exponent\<bar>)) (1, base))"

definition bigEndianByteAt :: "int \<Rightarrow> nat \<Rightarrow> byte" where
  "bigEndianByteAt x n =
    (let words = big_Bits (nat \<bar>x\<bar>); i = n div 8
     in if i \<ge> length words then 0 else ucast (drop_bit (8 * (n mod 8)) (words ! i)))"

definition math_Byte :: "int \<Rightarrow> nat \<Rightarrow> nat \<Rightarrow> byte" where
  "math_Byte x padlength n = (if n \<ge> padlength then 0 else bigEndianByteAt x (padlength - 1 - n))"

definition MaxUint64 :: u64 where "MaxUint64 = - 1"

definition SafeAdd :: "u64 \<Rightarrow> u64 \<Rightarrow> u64 \<times> bool" where
  "SafeAdd x y = (x + y, y > MaxUint64 - x)"

definition SafeMul :: "u64 \<Rightarrow> u64 \<Rightarrow> u64 \<times> bool" where
  "SafeMul x y = (if x = 0 \<or> y = 0 then (0, False) else (x * y, y > MaxUint64 div x))"

section \<open>Arithmetic instructions\<close>

text \<open>
  The value each instruction leaves for its operands, \<open>x\<close> being the one on top of the stack. \<open>Div\<close> and
  \<open>Mod\<close> of \<open>big.Int\<close> are only used with positive divisors, where they are \<open>div\<close> and \<open>mod\<close>; \<open>And\<close>, \<open>Or\<close>,
  \<open>Not\<close> and \<open>Rsh\<close> act on two's complement.
\<close>

definition bool_int :: "bool \<Rightarrow> int" where
  "bool_int b = (if b then 1 else 0)"

definition ar_Add :: "int \<Rightarrow> int \<Rightarrow> int" where
  "ar_Add x y = U256 (x + y)"

definition ar_Sub :: "int \<Rightarrow> int \<Rightarrow> int" where
  "ar_Sub x y = U256 (x - y)"

definition ar_Mul :: "int \<Rightarrow> int \<Rightarrow> int" where
  "ar_Mul x y = U256 (x * y)"

definition ar_Div :: "int \<Rightarrow> int \<Rightarrow> int" where
  "ar_Div x y = (if y \<noteq> 0 then U256 (x div y) else 0)"

definition ar_Sdiv :: "int \<Rightarrow> int \<Rightarrow> int" where
  "ar_Sdiv x0 y0 =
    (let x = S256 x0; y = S256 y0
     in if y = 0 \<or> x = 0 then 0
        else if sgn x \<noteq> sgn y then U256 (- (\<bar>x\<bar> div \<bar>y\<bar>)) else U256 (\<bar>x\<bar> div \<bar>y\<bar>))"

definition ar_Mod :: "int \<Rightarrow> int \<Rightarrow> int" where
  "ar_Mod x y = (if y = 0 then 0 else U256 (x mod y))"

definition ar_Smod :: "int \<Rightarrow> int \<Rightarrow> int" where
  "ar_Smod x0 y0 =
    (let x = S256 x0; y = S256 y0
     in if y = 0 then 0 else if x < 0 then U256 (- (\<bar>x\<bar> mod \<bar>y\<bar>)) else U256 (\<bar>x\<bar> mod \<bar>y\<bar>))"

definition ar_Exp :: "int \<Rightarrow> int \<Rightarrow> int" where
  "ar_Exp base exponent =
    (if exponent < 1 then 1 else if base = 0 then 0 else if exponent = 1 then base else Exp base exponent)"

text \<open>The case \<open>back < 31\<close> of \<open>opSignExtend\<close>; otherwise \<open>num\<close> stays as it is.\<close>

definition ar_SignExtend :: "int \<Rightarrow> int \<Rightarrow> int" where
  "ar_SignExtend back1 num =
    (if back1 < 31 then
       let n = unat (big_Uint64 back1 * 8 + 7); mask = push_bit n 1 - 1
       in U256 (if bit num n then num OR NOT mask else num AND mask)
     else num)"

definition ar_Lt :: "int \<Rightarrow> int \<Rightarrow> int" where
  "ar_Lt x y = bool_int (x < y)"

definition ar_Gt :: "int \<Rightarrow> int \<Rightarrow> int" where
  "ar_Gt x y = bool_int (x > y)"

definition ar_Slt :: "int \<Rightarrow> int \<Rightarrow> int" where
  "ar_Slt x y =
    (if x \<ge> tt255 \<and> y < tt255 then 1 else if x < tt255 \<and> y \<ge> tt255 then 0 else bool_int (x < y))"

definition ar_Sgt :: "int \<Rightarrow> int \<Rightarrow> int" where
  "ar_Sgt x y =
    (if x \<ge> tt255 \<and> y < tt255 then 0 else if x < tt255 \<and> y \<ge> tt255 then 1 else bool_int (x > y))"

definition ar_Eq :: "int \<Rightarrow> int \<Rightarrow> int" where
  "ar_Eq x y = bool_int (x = y)"

definition ar_Iszero :: "int \<Rightarrow> int" where
  "ar_Iszero x = (if x > 0 then 0 else 1)"

definition ar_Not :: "int \<Rightarrow> int" where
  "ar_Not x = U256 (NOT x)"

definition ar_Byte :: "int \<Rightarrow> int \<Rightarrow> int" where
  "ar_Byte th val = (if th < 32 then uint (math_Byte val 32 (nat (big_Int64 th))) else 0)"

definition ar_Addmod :: "int \<Rightarrow> int \<Rightarrow> int \<Rightarrow> int" where
  "ar_Addmod x y z = (if z > 0 then U256 ((x + y) mod z) else 0)"

definition ar_Mulmod :: "int \<Rightarrow> int \<Rightarrow> int \<Rightarrow> int" where
  "ar_Mulmod x y z = (if z > 0 then U256 ((x * y) mod z) else 0)"

definition ar_SHL :: "int \<Rightarrow> int \<Rightarrow> int" where
  "ar_SHL shift0 value0 =
    (let shift = U256 shift0; val = U256 value0
     in if shift \<ge> 256 then 0 else U256 (push_bit (unat (big_Uint64 shift)) val))"

definition ar_SHR :: "int \<Rightarrow> int \<Rightarrow> int" where
  "ar_SHR shift0 value0 =
    (let shift = U256 shift0; val = U256 value0
     in if shift \<ge> 256 then 0 else U256 (drop_bit (unat (big_Uint64 shift)) val))"

definition ar_SAR :: "int \<Rightarrow> int \<Rightarrow> int" where
  "ar_SAR shift0 value0 =
    (let shift = U256 shift0; val = S256 value0
     in if shift \<ge> 256 then U256 (if val \<ge> 0 then 0 else - 1)
        else U256 (drop_bit (unat (big_Uint64 shift)) val))"

section \<open>Range of results\<close>

text \<open>\<open>is_word\<close>: an unsigned 256-bit number.\<close>

definition is_word :: "int \<Rightarrow> bool" where
  "is_word x \<longleftrightarrow> 0 \<le> x \<and> x < 2 ^ 256"

lemma U256_mod: "U256 x = x mod 2 ^ 256"
  using take_bit_eq_mask [of 256 x] by (simp add: U256_def tt256m1_def tt256_def mask_eq_exp_minus_1 take_bit_eq_mod)

lemma is_word_U256 [simp]: "is_word (U256 x)"
  by (simp add: U256_mod is_word_def)

lemma U256_id: "is_word x \<Longrightarrow> U256 x = x"
  by (simp add: U256_mod is_word_def)

lemma is_word_01 [simp]: "is_word 0" "is_word 1" "is_word (bool_int b)"
  by (simp_all add: is_word_def bool_int_def)

lemma is_word_uint [simp]: "is_word (uint (w :: 256 word))"
  using uint_bounded [of w] by (simp add: is_word_def)

lemma U256_uint: "U256 x = uint (word_of_int x :: 256 word)"
  by (simp add: U256_mod unsigned_of_int take_bit_eq_mod)

lemma S256_sint: "S256 (uint w) = sint (w :: 256 word)"
proof -
  have "sint w = signed_take_bit 255 (uint w)" by (simp add: sint_uint)
  moreover have "signed_take_bit 255 (uint w) = (if 2 ^ 255 \<le> uint w then uint w - 2 ^ 256 else uint w)"
  proof -
    have u: "0 \<le> uint w" "uint w < 2 ^ 256" using is_word_uint [of w] by (simp_all add: is_word_def)
    then have t: "take_bit 256 (uint w) = uint w" by (simp add: take_bit_int_eq_self)
    have b: "bit (uint w) 255 \<longleftrightarrow> 2 ^ 255 \<le> uint w"
    proof -
      have "bit (uint w) 255 \<longleftrightarrow> odd (uint w div 2 ^ 255)" by (simp add: bit_iff_odd)
      also have "\<dots> \<longleftrightarrow> 2 ^ 255 \<le> uint w"
      proof (cases "2 ^ 255 \<le> uint w")
        case True
        then have "uint w div 2 ^ 255 = 1" using u(2) by (intro int_div_pos_eq [of _ _ _ "uint w - 2 ^ 255"]) simp_all
        then show ?thesis using True by simp
      next
        case False
        then show ?thesis using u(1) by simp
      qed
      finally show ?thesis .
    qed
    show ?thesis using b t signed_take_bit_eq_take_bit_minus [of 255 "uint w"] by simp
  qed
  ultimately show ?thesis by (simp add: S256_def tt255_def tt256_def)
qed

section \<open>Exponentiation\<close>

lemma U256_mult: "U256 (U256 a * b) = U256 (a * b)" "U256 (a * U256 b) = U256 (a * b)"
  by (simp_all add: U256_mod mod_simps)

lemma U256_power: "U256 (U256 a ^ n) = U256 (a ^ n)"
  by (simp add: U256_mod power_mod)

lemma Exp_bits_eq:
  "is_word r \<Longrightarrow> is_word b \<Longrightarrow>
    Exp_bits n w (r, b) = (U256 (r * b ^ (unat w mod 2 ^ n)), U256 (b ^ 2 ^ n))"
proof (induction n arbitrary: w r b)
  case 0
  then show ?case by (simp add: U256_id)
next
  case (Suc n)
  let ?r = "if w AND 1 = 1 then U256 (r * b) else r"
  let ?h = "unat w div 2 mod 2 ^ n"
  have o: "w AND 1 = 1 \<longleftrightarrow> odd w" by (simp add: and_one_eq mod_2_eq_odd)
  have d: "unat (drop_bit 1 w) = unat w div 2" by (metis unat_drop_bit_eq drop_bit_eq_div power_one_right)
  have m: "unat w mod 2 ^ Suc n = 2 * ?h + unat w mod 2" using mod_mult2_eq [of "unat w" 2 "2 ^ n"] by simp
  have ow: "odd w \<longleftrightarrow> odd (unat w)" by (simp add: bit_unsigned_iff flip: bit_0)
  have 1: "Exp_bits (Suc n) w (r, b) = Exp_bits n (drop_bit 1 w) (?r, U256 (b * b))" by (simp add: Let_def)
  also have "\<dots> = (U256 (?r * U256 (b * b) ^ ?h), U256 (U256 (b * b) ^ 2 ^ n))"
    using Suc(1) [of ?r "U256 (b * b)" "drop_bit 1 w"] Suc(2) d by simp
  also have "U256 (U256 (b * b) ^ 2 ^ n) = U256 (b ^ 2 ^ Suc n)"
    by (simp add: U256_power power2_eq_square [symmetric] power_mult [symmetric] mult.commute)
  also have "U256 (?r * U256 (b * b) ^ ?h) = U256 (?r * (b * b) ^ ?h)"
    using U256_mult(2) [of ?r "U256 (b * b) ^ ?h"] U256_mult(2) [of ?r "(b * b) ^ ?h"] U256_power [of "b * b" ?h] by simp
  also have "U256 (?r * (b * b) ^ ?h) = U256 (r * b ^ (unat w mod 2 ^ Suc n))"
  proof (cases "odd (unat w)")
    case True
    have e: "b ^ (2 * ?h + 1) = b * (b * b) ^ ?h" by (simp add: power_mult power2_eq_square)
    have "U256 (U256 (r * b) * (b * b) ^ ?h) = U256 (r * b ^ (2 * ?h + 1))" by (simp only: e U256_mult mult.assoc)
    then show ?thesis using True o ow m by (simp add: odd_iff_mod_2_eq_one)
  next
    case False
    have "b ^ (2 * ?h) = (b * b) ^ ?h" by (simp add: power_mult power2_eq_square)
    then show ?thesis using False o ow m by (simp add: even_iff_mod_2_eq_zero)
  qed
  finally show ?case .
qed

fun limbs_val :: "u64 list \<Rightarrow> nat" where
  "limbs_val [] = 0"
| "limbs_val (w # ws) = unat w + 2 ^ 64 * limbs_val ws"

lemma limbs_val_Bits: "limbs_val (big_Bits n) = n"
proof (induction n rule: big_Bits.induct)
  case (1 n)
  show ?case
  proof (cases "n = 0")
    case False
    have "limbs_val (big_Bits n) = unat (word_of_nat n :: u64) + 2 ^ 64 * limbs_val (big_Bits (n div 2 ^ 64))"
      using False by (subst big_Bits.simps) simp
    also have "\<dots> = n mod 2 ^ 64 + 2 ^ 64 * (n div 2 ^ 64)"
      using 1 [OF False] by (simp add: unsigned_of_nat take_bit_eq_mod)
    finally show ?thesis by simp
  qed (simp add: big_Bits.simps)
qed

lemma Exp_words:
  "is_word r \<Longrightarrow> is_word b \<Longrightarrow> fst (fold (Exp_bits 64) ws (r, b)) = U256 (r * b ^ limbs_val ws)"
proof (induction ws arbitrary: r b)
  case Nil
  then show ?case by (simp add: U256_id)
next
  case (Cons w ws)
  have u: "unat w mod 2 ^ 64 = unat w" using unat_u64_lt [of w] by simp
  have "fst (fold (Exp_bits 64) (w # ws) (r, b)) = U256 (U256 (r * b ^ unat w) * U256 (b ^ 2 ^ 64) ^ limbs_val ws)"
    using Cons(1) [of "U256 (r * b ^ unat w)" "U256 (b ^ 2 ^ 64)"] Exp_bits_eq [OF Cons(2,3), of 64 w] u by simp
  also have "\<dots> = U256 (r * b ^ unat w * (b ^ 2 ^ 64) ^ limbs_val ws)"
    using U256_mult(2) [of "r * b ^ unat w" "U256 (b ^ 2 ^ 64) ^ limbs_val ws"] U256_power [of "b ^ 2 ^ 64" "limbs_val ws"]
      U256_mult(2) [of "r * b ^ unat w" "(b ^ 2 ^ 64) ^ limbs_val ws"] by (simp add: U256_mult(1))
  also have "\<dots> = U256 (r * b ^ limbs_val (w # ws))"
    by (simp only: limbs_val.simps power_add power_mult mult.assoc)
  finally show ?case .
qed

lemma Exp_correct: "is_word b \<Longrightarrow> 0 \<le> e \<Longrightarrow> Exp b e = U256 (b ^ nat e)"
  using Exp_words [of 1 b "big_Bits (nat e)"] by (simp add: Exp_def limbs_val_Bits)

lemma ar_Exp_correct: "is_word b \<Longrightarrow> 0 \<le> e \<Longrightarrow> ar_Exp b e = U256 (b ^ nat e)"
proof -
  assume b: "is_word b" "0 \<le> e"
  have "U256 1 = 1" "U256 0 = 0" by (simp_all add: U256_id)
  then show ?thesis using b Exp_correct [OF b]
    by (cases "e = 0"; cases "e = 1") (auto simp: ar_Exp_def U256_id zero_power)
qed

section \<open>Instructions are operations on 256-bit words\<close>

abbreviation w256 :: "int \<Rightarrow> 256 word" where
  "w256 \<equiv> word_of_int"

lemma uint_w256: "uint (w256 x) = U256 x"
  by (simp add: U256_uint)

lemma ar_Add_word: "ar_Add (uint a) (uint b) = uint (a + b :: 256 word)"
  by (simp add: ar_Add_def U256_uint)

lemma ar_Sub_word: "ar_Sub (uint a) (uint b) = uint (a - b :: 256 word)"
  by (simp add: ar_Sub_def U256_uint)

lemma ar_Mul_word: "ar_Mul (uint a) (uint b) = uint (a * b :: 256 word)"
  by (simp add: ar_Mul_def U256_uint)

lemma ar_Div_word: "ar_Div (uint a) (uint b) = uint (a div b :: 256 word)"
  by (simp add: ar_Div_def U256_uint word_div_def)

lemma ar_Mod_word: "ar_Mod (uint a) (uint b) = (if b = 0 then 0 else uint (a mod b :: 256 word))"
  by (simp add: ar_Mod_def U256_uint word_mod_def uint_0_iff)

lemma S256_0 [simp]: "S256 0 = 0"
  by (simp add: S256_def tt255_def)

lemma ar_Sdiv_word: "ar_Sdiv (uint a) (uint b) = uint (w256 (if b = 0 then 0 else sint a sdiv sint b))" for a b :: "256 word"
proof -
  have s: "x sdiv y = sgn x * sgn y * (\<bar>x\<bar> div \<bar>y\<bar>)" for x y :: int by (simp add: signed_divide_int_def)
  have z: "sint b = 0 \<longleftrightarrow> b = 0" by (simp add: signed_eq_0_iff)
  show ?thesis
    by (cases "sint a" "0::int" rule: linorder_cases; cases "sint b" "0::int" rule: linorder_cases)
      (auto simp: ar_Sdiv_def Let_def S256_sint U256_uint s z)
qed

lemma ar_Smod_word: "ar_Smod (uint a) (uint b) = uint (w256 (if b = 0 then 0 else sint a smod sint b))" for a b :: "256 word"
proof -
  have s: "x smod y = sgn x * (\<bar>x\<bar> mod \<bar>y\<bar>)" if "y \<noteq> 0" for x y :: int
    using that by (simp add: signed_modulo_int_def signed_divide_int_def)
  have z: "sint b = 0 \<longleftrightarrow> b = 0" by (simp add: signed_eq_0_iff)
  show ?thesis
    by (cases "sint a" "0::int" rule: linorder_cases)
      (auto simp: ar_Smod_def Let_def S256_sint U256_uint s z)
qed

lemma ar_Exp_word: "ar_Exp (uint a) (uint b) = uint (a ^ unat b :: 256 word)"
  by (simp add: ar_Exp_correct U256_uint)

lemma ar_cmp_word:
  "ar_Lt (uint a) (uint b) = bool_int (a < b)" "ar_Gt (uint a) (uint b) = bool_int (a > b)"
  "ar_Eq (uint a) (uint b) = bool_int (a = b)" "ar_Iszero (uint a) = bool_int (a = 0)"
  for a b :: "256 word"
proof -
  show "ar_Lt (uint a) (uint b) = bool_int (a < b)" "ar_Gt (uint a) (uint b) = bool_int (a > b)"
    by (simp_all add: ar_Lt_def ar_Gt_def word_less_def)
  show "ar_Eq (uint a) (uint b) = bool_int (a = b)" by (simp add: ar_Eq_def word_uint_eq_iff)
  show "ar_Iszero (uint a) = bool_int (a = 0)" by (cases "uint a = 0") (auto simp: ar_Iszero_def bool_int_def uint_0_iff order_less_le)
qed

lemma ar_scmp_S256:
  "is_word x \<Longrightarrow> is_word y \<Longrightarrow> ar_Slt x y = bool_int (S256 x < S256 y) \<and> ar_Sgt x y = bool_int (S256 x > S256 y)"
  by (auto simp: ar_Slt_def ar_Sgt_def S256_def bool_int_def is_word_def tt255_def tt256_def)

lemma ar_scmp_word:
  "ar_Slt (uint a) (uint b) = bool_int (sint a < sint b)" "ar_Sgt (uint a) (uint b) = bool_int (sint a > sint b)"
  for a b :: "256 word"
  using ar_scmp_S256 [of "uint a" "uint b"] by (simp_all add: S256_sint)

lemma ar_bits_word:
  "uint a AND uint b = uint (a AND b)" "uint a OR uint b = uint (a OR b)" "uint a XOR uint b = uint (a XOR b)"
  "ar_Not (uint a) = uint (NOT a)" for a b :: "256 word"
proof -
  show "uint a AND uint b = uint (a AND b)" "uint a OR uint b = uint (a OR b)" "uint a XOR uint b = uint (a XOR b)"
    by (simp_all add: unsigned_and_eq unsigned_or_eq unsigned_xor_eq)
  show "ar_Not (uint a) = uint (NOT a)" by (simp add: ar_Not_def U256_uint of_int_not_eq)
qed

lemma ar_mod3_word:
  "ar_Addmod (uint a) (uint b) (uint c) = uint (w256 (if c = 0 then 0 else (uint a + uint b) mod uint c))"
  "ar_Mulmod (uint a) (uint b) (uint c) = uint (w256 (if c = 0 then 0 else (uint a * uint b) mod uint c))"
  for a b c :: "256 word"
proof -
  have "uint c > 0 \<longleftrightarrow> c \<noteq> 0" using uint_0_iff [of c] by (metis order_less_le uint_ge_0)
  then show "ar_Addmod (uint a) (uint b) (uint c) = uint (w256 (if c = 0 then 0 else (uint a + uint b) mod uint c))"
    "ar_Mulmod (uint a) (uint b) (uint c) = uint (w256 (if c = 0 then 0 else (uint a * uint b) mod uint c))"
    by (simp_all add: ar_Addmod_def ar_Mulmod_def U256_uint)
qed

lemma uint_drop: "uint (drop_bit n w) = drop_bit n (uint w)" for w :: "256 word"
  by (rule bit_eqI) (auto simp: bit_unsigned_iff bit_drop_bit_eq dest: bit_imp_le_length)

lemma ar_shift_word:
  "ar_SHL (uint s) (uint a) = uint (push_bit (unat s) a)"
  "ar_SHR (uint s) (uint a) = uint (drop_bit (unat s) a)"
  "ar_SAR (uint s) (uint a) = uint (w256 (drop_bit (unat s) (sint a)))"
  for s a :: "256 word"
proof -
  have su: "int (unat s) = uint s" by simp
  have us: "U256 (uint s) = uint s" "U256 (uint a) = uint a" by (simp_all add: U256_id)
  have n: "unat (big_Uint64 (uint s)) = unat s" if "uint s < 256"
    using that unat_big_Uint64 [of "uint s"] by simp
  have big: "256 \<le> unat s" if "\<not> uint s < 256" using that su by linarith
  show "ar_SHL (uint s) (uint a) = uint (push_bit (unat s) a)"
  proof (cases "uint s < 256")
    case True
    then show ?thesis using n by (simp add: ar_SHL_def us U256_uint Let_def push_bit_eq_mult)
  next
    case False
    then show ?thesis using big by (simp add: ar_SHL_def us Let_def)
  qed
  show "ar_SHR (uint s) (uint a) = uint (drop_bit (unat s) a)"
  proof (cases "uint s < 256")
    case True
    then show ?thesis using n by (simp add: ar_SHR_def us Let_def U256_id flip: uint_drop)
  next
    case False
    then show ?thesis using big by (simp add: ar_SHR_def us Let_def)
  qed
  show "ar_SAR (uint s) (uint a) = uint (w256 (drop_bit (unat s) (sint a)))"
  proof (cases "uint s < 256")
    case True
    then show ?thesis using n by (simp add: ar_SAR_def us S256_sint U256_uint Let_def)
  next
    case False
    have "drop_bit (unat s) (sint a) = (if sint a \<ge> 0 then 0 else - 1)"
    proof -
      have "- (2 ^ 255) \<le> sint a" "sint a < 2 ^ 255" using sint_ge [of a] sint_lt [of a] by simp_all
      moreover have "(2::int) ^ 255 \<le> 2 ^ unat s" using big [OF False] by (intro power_increasing) simp_all
      ultimately have b: "- (2 ^ unat s) \<le> sint a" "sint a < 2 ^ unat s" by linarith+
      show ?thesis
      proof (cases "sint a \<ge> 0")
        case True
        then show ?thesis using b(2) by (simp add: drop_bit_eq_div)
      next
        case False
        then have "sint a div 2 ^ unat s = - 1" using b(1) by (intro int_div_pos_eq [of _ _ _ "sint a + 2 ^ unat s"]) simp_all
        then show ?thesis using False by (simp add: drop_bit_eq_div)
      qed
    qed
    then show ?thesis using False by (simp add: ar_SAR_def us S256_sint U256_uint Let_def)
  qed
qed

lemma big_Bits_0 [simp]: "big_Bits 0 = []"
  by (simp add: big_Bits.simps)

lemma big_Bits_nth:
  "(if i < length (big_Bits n) then unat (big_Bits n ! i) else 0) = n div 2 ^ (64 * i) mod 2 ^ 64"
proof (induction i arbitrary: n)
  case 0
  show ?case by (cases "n = 0") (simp_all add: big_Bits.simps [of n] unsigned_of_nat take_bit_eq_mod)
next
  case (Suc i)
  define M where "M = (2 :: nat) ^ 64"
  have b: "big_Bits n = (if n = 0 then [] else word_of_nat n # big_Bits (n div M))"
    unfolding M_def by (rule big_Bits.simps)
  have p: "n div 2 ^ (64 * Suc i) = n div M div 2 ^ (64 * i)" by (simp add: M_def power_add div_mult2_eq)
  show ?case using Suc [of "n div M"] unfolding M_def [symmetric] p by (cases "n = 0") (simp_all add: b split: if_splits)
qed

lemma bigEndianByteAt_eq:
  assumes "0 \<le> x"
  shows "unat (bigEndianByteAt x k) = nat x div 256 ^ k mod 256"
proof -
  let ?n = "nat x" and ?i = "k div 8" and ?r = "8 * (k mod 8)"
  define w where "w = (if ?i < length (big_Bits ?n) then big_Bits ?n ! ?i else 0)"
  have w: "unat w = ?n div 2 ^ (64 * ?i) mod 2 ^ 64" using big_Bits_nth [of ?i ?n] by (simp add: w_def split: if_splits)
  have "bigEndianByteAt x k = ucast (drop_bit ?r w)" using assms by (simp add: bigEndianByteAt_def Let_def w_def)
  then have "unat (bigEndianByteAt x k) = unat w div 2 ^ ?r mod 256"
    using unat_drop_bit_eq [of ?r w] drop_bit_eq_div [of ?r "unat w"] by (simp add: unsigned_ucast_eq take_bit_eq_mod)
  also have "\<dots> = ?n div 2 ^ (64 * ?i) div 2 ^ ?r mod 256"
  proof -
    have r: "?r + 8 \<le> 64" by simp
    have "take_bit 8 (drop_bit ?r (take_bit 64 m)) = take_bit 8 (drop_bit ?r m)" for m :: nat
      using r by (auto simp: bit_eq_iff bit_take_bit_iff bit_drop_bit_eq)
    then show ?thesis unfolding w by (simp add: take_bit_eq_mod drop_bit_eq_div)
  qed
  also have "?n div 2 ^ (64 * ?i) div 2 ^ ?r = ?n div 2 ^ (8 * k)"
  proof -
    have "64 * ?i + ?r = 8 * k" by presburger
    then show ?thesis by (metis div_mult2_eq power_add)
  qed
  also have "(2::nat) ^ (8 * k) = 256 ^ k" by (simp add: power_mult)
  finally show ?thesis .
qed

lemma unat_small: "unat (i :: 256 word) < numeral n \<longleftrightarrow> uint i < numeral n"
proof -
  have "unat i < numeral n \<longleftrightarrow> int (unat i) < int (numeral n)" by (rule of_nat_less_iff [symmetric])
  also have "\<dots> \<longleftrightarrow> uint i < numeral n" by simp
  finally show ?thesis .
qed

lemma big_Int64_small: "0 \<le> x \<Longrightarrow> x < 2 ^ 63 \<Longrightarrow> big_Int64 x = x"
  by (simp add: big_Int64_def big_Uint64_def signed_of_int signed_take_bit_int_eq_self)

lemma ar_Byte_word:
  "ar_Byte (uint i) (uint v) = (if i < 32 then uint (drop_bit (8 * (31 - unat i)) v AND 255) else 0)" for i v :: "256 word"
proof (cases "i < 32")
  case True
  then have i: "uint i < 32" "unat i < 32" by (simp_all add: word_less_def unat_small)
  then have n: "big_Int64 (uint i) = int (unat i)"
    by (simp add: big_Int64_small)
  let ?k = "31 - unat i"
  have "ar_Byte (uint i) (uint v) = int (unat (bigEndianByteAt (uint v) ?k))"
    using i n by (simp add: ar_Byte_def math_Byte_def)
  also have "\<dots> = uint v div 256 ^ ?k mod 256"
    by (simp add: bigEndianByteAt_eq zdiv_int zmod_int)
  also have "\<dots> = uint (drop_bit (8 * ?k) v AND 255)"
  proof -
    have "drop_bit (8 * ?k) v AND 255 = take_bit 8 (drop_bit (8 * ?k) v)" by (simp add: take_bit_eq_mask mask_eq_exp_minus_1)
    moreover have "take_bit 256 (uint v) = uint v" using is_word_uint [of v] by (simp add: is_word_def take_bit_int_eq_self)
    ultimately have "uint (drop_bit (8 * ?k) v AND 255) = take_bit 8 (drop_bit (8 * ?k) (uint v))"
      by (simp only: unsigned_take_bit_eq unsigned_drop_bit_eq) simp
    then show ?thesis by (simp only: take_bit_eq_mod drop_bit_eq_div power_mult) simp
  qed
  finally show ?thesis using True by simp
next
  case False
  then have "\<not> uint i < 32" by (simp add: word_less_def)
  then show ?thesis using False by (simp add: ar_Byte_def)
qed

lemma ar_SignExtend_word:
  "ar_SignExtend (uint k) (uint v) = (if k < 31 then uint (w256 (signed_take_bit (8 * unat k + 7) (uint v))) else uint v)"
  for k v :: "256 word"
proof (cases "k < 31")
  case True
  then have k: "uint k < 31" "unat k < 31" by (simp_all add: word_less_def unat_small)
  let ?b = "8 * unat k + 7"
  have "unat (big_Uint64 (uint k)) = unat k" using unat_big_Uint64 [of "uint k"] k by simp
  then have n: "unat (big_Uint64 (uint k) * 8 + 7) = ?b"
    using k(2) by (simp add: unat_word_ariths)
  have "(if bit (uint v) ?b then uint v OR NOT (2 ^ ?b - 1) else uint v AND (2 ^ ?b - 1)) =
      signed_take_bit ?b (uint v)"
    unfolding mask_eq_exp_minus_1 [symmetric]
    by (rule bit_eqI) (auto simp: bit_signed_take_bit_iff bit_or_iff bit_and_iff bit_not_iff bit_mask_iff min_def)
  then show ?thesis using True k n by (simp add: ar_SignExtend_def Let_def U256_uint split: if_splits)
next
  case False
  then have "\<not> uint k < 31" by (simp add: word_less_def)
  then show ?thesis using False by (simp add: ar_SignExtend_def)
qed

end
