(* ===== verification/EvmCode.thy ===== *)
theory EvmCode
  imports EvmMath
begin

text \<open>
  Byte code: the opcodes (src/core/vm/opcodes.go), the analysis that tells instructions from the data of
  push instructions (src/core/vm/analysis.go) and the check of jump destinations (src/core/vm/contract.go).
  The analysis is proved correct against the definition of instruction starts. Positions in the code are
  natural numbers: they stay below the length of the code plus 33.
\<close>

section \<open>Opcodes\<close>

abbreviation (input) STOP :: byte where "STOP \<equiv> 0x00"
abbreviation (input) ADD :: byte where "ADD \<equiv> 0x01"
abbreviation (input) MUL :: byte where "MUL \<equiv> 0x02"
abbreviation (input) SUB :: byte where "SUB \<equiv> 0x03"
abbreviation (input) DIV :: byte where "DIV \<equiv> 0x04"
abbreviation (input) SDIV :: byte where "SDIV \<equiv> 0x05"
abbreviation (input) MOD :: byte where "MOD \<equiv> 0x06"
abbreviation (input) SMOD :: byte where "SMOD \<equiv> 0x07"
abbreviation (input) ADDMOD :: byte where "ADDMOD \<equiv> 0x08"
abbreviation (input) MULMOD :: byte where "MULMOD \<equiv> 0x09"
abbreviation (input) EXP :: byte where "EXP \<equiv> 0x0A"
abbreviation (input) SIGNEXTEND :: byte where "SIGNEXTEND \<equiv> 0x0B"
abbreviation (input) LT :: byte where "LT \<equiv> 0x10"
abbreviation (input) GT :: byte where "GT \<equiv> 0x11"
abbreviation (input) SLT :: byte where "SLT \<equiv> 0x12"
abbreviation (input) SGT :: byte where "SGT \<equiv> 0x13"
abbreviation (input) EQ :: byte where "EQ \<equiv> 0x14"
abbreviation (input) ISZERO :: byte where "ISZERO \<equiv> 0x15"
abbreviation (input) ANDop :: byte where "ANDop \<equiv> 0x16"
abbreviation (input) ORop :: byte where "ORop \<equiv> 0x17"
abbreviation (input) XORop :: byte where "XORop \<equiv> 0x18"
abbreviation (input) NOTop :: byte where "NOTop \<equiv> 0x19"
abbreviation (input) BYTE :: byte where "BYTE \<equiv> 0x1A"
abbreviation (input) SHL :: byte where "SHL \<equiv> 0x1B"
abbreviation (input) SHR :: byte where "SHR \<equiv> 0x1C"
abbreviation (input) SAR :: byte where "SAR \<equiv> 0x1D"
abbreviation (input) SHA3 :: byte where "SHA3 \<equiv> 0x20"
abbreviation (input) ADDRESS :: byte where "ADDRESS \<equiv> 0x30"
abbreviation (input) BALANCE :: byte where "BALANCE \<equiv> 0x31"
abbreviation (input) ORIGIN :: byte where "ORIGIN \<equiv> 0x32"
abbreviation (input) CALLER :: byte where "CALLER \<equiv> 0x33"
abbreviation (input) CALLVALUE :: byte where "CALLVALUE \<equiv> 0x34"
abbreviation (input) CALLDATALOAD :: byte where "CALLDATALOAD \<equiv> 0x35"
abbreviation (input) CALLDATASIZE :: byte where "CALLDATASIZE \<equiv> 0x36"
abbreviation (input) CALLDATACOPY :: byte where "CALLDATACOPY \<equiv> 0x37"
abbreviation (input) CODESIZE :: byte where "CODESIZE \<equiv> 0x38"
abbreviation (input) CODECOPY :: byte where "CODECOPY \<equiv> 0x39"
abbreviation (input) GASPRICE :: byte where "GASPRICE \<equiv> 0x3A"
abbreviation (input) EXTCODESIZE :: byte where "EXTCODESIZE \<equiv> 0x3B"
abbreviation (input) EXTCODECOPY :: byte where "EXTCODECOPY \<equiv> 0x3C"
abbreviation (input) RETURNDATASIZE :: byte where "RETURNDATASIZE \<equiv> 0x3D"
abbreviation (input) RETURNDATACOPY :: byte where "RETURNDATACOPY \<equiv> 0x3E"
abbreviation (input) EXTCODEHASH :: byte where "EXTCODEHASH \<equiv> 0x3F"
abbreviation (input) BLOCKHASH :: byte where "BLOCKHASH \<equiv> 0x40"
abbreviation (input) COINBASE :: byte where "COINBASE \<equiv> 0x41"
abbreviation (input) TIMESTAMP :: byte where "TIMESTAMP \<equiv> 0x42"
abbreviation (input) NUMBER :: byte where "NUMBER \<equiv> 0x43"
abbreviation (input) DIFFICULTY :: byte where "DIFFICULTY \<equiv> 0x44"
abbreviation (input) GASLIMIT :: byte where "GASLIMIT \<equiv> 0x45"
abbreviation (input) CHAINID :: byte where "CHAINID \<equiv> 0x46"
abbreviation (input) SELFBALANCE :: byte where "SELFBALANCE \<equiv> 0x47"
abbreviation (input) POP :: byte where "POP \<equiv> 0x50"
abbreviation (input) MLOAD :: byte where "MLOAD \<equiv> 0x51"
abbreviation (input) MSTORE :: byte where "MSTORE \<equiv> 0x52"
abbreviation (input) MSTORE8 :: byte where "MSTORE8 \<equiv> 0x53"
abbreviation (input) SLOAD :: byte where "SLOAD \<equiv> 0x54"
abbreviation (input) SSTORE :: byte where "SSTORE \<equiv> 0x55"
abbreviation (input) JUMP :: byte where "JUMP \<equiv> 0x56"
abbreviation (input) JUMPI :: byte where "JUMPI \<equiv> 0x57"
abbreviation (input) PC :: byte where "PC \<equiv> 0x58"
abbreviation (input) MSIZE :: byte where "MSIZE \<equiv> 0x59"
abbreviation (input) GAS :: byte where "GAS \<equiv> 0x5A"
abbreviation (input) JUMPDEST :: byte where "JUMPDEST \<equiv> 0x5B"
abbreviation (input) PUSH1 :: byte where "PUSH1 \<equiv> 0x60"
abbreviation (input) PUSH32 :: byte where "PUSH32 \<equiv> 0x7F"
abbreviation (input) DUP1 :: byte where "DUP1 \<equiv> 0x80"
abbreviation (input) SWAP1 :: byte where "SWAP1 \<equiv> 0x90"
abbreviation (input) LOG0 :: byte where "LOG0 \<equiv> 0xA0"
abbreviation (input) CREATE :: byte where "CREATE \<equiv> 0xF0"
abbreviation (input) CALL :: byte where "CALL \<equiv> 0xF1"
abbreviation (input) CALLCODE :: byte where "CALLCODE \<equiv> 0xF2"
abbreviation (input) RETURN :: byte where "RETURN \<equiv> 0xF3"
abbreviation (input) DELEGATECALL :: byte where "DELEGATECALL \<equiv> 0xF4"
abbreviation (input) CREATE2 :: byte where "CREATE2 \<equiv> 0xF5"
abbreviation (input) STATICCALL :: byte where "STATICCALL \<equiv> 0xFA"
abbreviation (input) REVERT :: byte where "REVERT \<equiv> 0xFD"
abbreviation (input) SELFDESTRUCT :: byte where "SELFDESTRUCT \<equiv> 0xFF"

section \<open>Analysis of the code\<close>

text \<open>A \<open>bitvec\<close> has one bit per byte of the code, the highest bit first; an access beyond its end panics.\<close>

type_synonym bitvec = "byte list"

definition bitvec_set :: "bitvec \<Rightarrow> nat \<Rightarrow> bitvec option" where
  "bitvec_set bits pos =
    (if pos div 8 < length bits
     then Some (bits[pos div 8 := bits ! (pos div 8) OR drop_bit (pos mod 8) 0x80]) else None)"

definition bitvec_set8 :: "bitvec \<Rightarrow> nat \<Rightarrow> bitvec option" where
  "bitvec_set8 bits pos =
    (if pos div 8 + 1 < length bits
     then
       let bits1 = bits[pos div 8 := bits ! (pos div 8) OR drop_bit (pos mod 8) 0xFF]
       in Some (bits1[pos div 8 + 1 := bits1 ! (pos div 8 + 1) OR NOT (drop_bit (pos mod 8) 0xFF)])
     else None)"

definition codeSegment :: "bitvec \<Rightarrow> nat \<Rightarrow> bool option" where
  "codeSegment bits pos =
    (if pos div 8 < length bits then Some (bits ! (pos div 8) AND drop_bit (pos mod 8) 0x80 = 0) else None)"

text \<open>The two inner loops of \<open>codeBitmap\<close>: eight bits at a time, then the remaining ones.\<close>

fun mark8 :: "nat \<Rightarrow> nat \<Rightarrow> bitvec \<Rightarrow> (nat \<times> nat \<times> bitvec) option" where
  "mark8 numbits pc bits =
    (if numbits \<ge> 8 then
       case bitvec_set8 bits pc of None \<Rightarrow> None | Some bits1 \<Rightarrow> mark8 (numbits - 8) (pc + 8) bits1
     else Some (numbits, pc, bits))"

fun mark1 :: "nat \<Rightarrow> nat \<Rightarrow> bitvec \<Rightarrow> (nat \<times> bitvec) option" where
  "mark1 0 pc bits = Some (pc, bits)"
| "mark1 (Suc numbits) pc bits =
    (case bitvec_set bits pc of None \<Rightarrow> None | Some bits1 \<Rightarrow> mark1 numbits (pc + 1) bits1)"

declare mark8.simps [simp del]

definition mark_push :: "byte \<Rightarrow> nat \<Rightarrow> bitvec \<Rightarrow> (nat \<times> bitvec) option" where
  "mark_push op pc bits =
    (case mark8 (unat (op - PUSH1 + 1)) pc bits of None \<Rightarrow> None | Some (n, pc1, bits1) \<Rightarrow> mark1 n pc1 bits1)"

lemma mark8_pc: "mark8 n pc bits = Some (n1, pc1, bits1) \<Longrightarrow> pc \<le> pc1"
proof (induction n pc bits rule: mark8.induct)
  case (1 n pc bits)
  from 1(2) show ?case
    by (subst (asm) mark8.simps) (auto split: if_splits option.splits dest: 1(1))
qed

lemma mark1_pc: "mark1 n pc bits = Some (pc1, bits1) \<Longrightarrow> pc \<le> pc1"
  by (induction n arbitrary: pc bits) (fastforce split: option.splits)+

lemma mark_push_pc: "mark_push op pc bits = Some (pc1, bits1) \<Longrightarrow> pc \<le> pc1"
  by (fastforce simp: mark_push_def split: option.splits dest: mark8_pc mark1_pc)

function codeBitmap_loop :: "bytes \<Rightarrow> nat \<Rightarrow> bitvec \<Rightarrow> bitvec option" where
  "codeBitmap_loop code pc bits =
    (if pc < length code then
       let op = code ! pc in
       if op \<ge> PUSH1 \<and> op \<le> PUSH32 then
         case mark_push op (pc + 1) bits of
           None \<Rightarrow> None
         | Some (pc1, bits1) \<Rightarrow> codeBitmap_loop code pc1 bits1
       else codeBitmap_loop code (pc + 1) bits
     else Some bits)"
  by pat_completeness auto
termination
  by (relation "measure (\<lambda>(code, pc, bits). length code - pc)") (auto dest!: mark_push_pc)

declare codeBitmap_loop.simps [simp del]

definition codeBitmap :: "bytes \<Rightarrow> bitvec option" where
  "codeBitmap code = codeBitmap_loop code 0 (replicate (length code div 8 + 1 + 4) 0)"

text \<open>
  The check of a jump destination, \<open>None\<close> being an index out of range. The code keeps the result of the
  analysis per contract and per code hash; here it is computed for each jump.
\<close>

definition validJumpdest :: "bytes \<Rightarrow> int \<Rightarrow> bool option" where
  "validJumpdest code dest =
    (let udest = big_Uint64 dest in
     if bitlen (nat \<bar>dest\<bar>) \<ge> 63 \<or> udest \<ge> word_of_nat (length code) then Some False
     else if code ! unat udest \<noteq> JUMPDEST then Some False
     else case codeBitmap code of None \<Rightarrow> None | Some analysis \<Rightarrow> codeSegment analysis (unat udest))"

definition GetByte :: "bytes \<Rightarrow> u64 \<Rightarrow> byte" where
  "GetByte code n = (if n < word_of_nat (length code) then code ! unat n else 0)"

section \<open>Instruction starts\<close>

text \<open>The number of data bytes that follow an opcode, and the positions at which instructions start.\<close>

definition push_size :: "byte \<Rightarrow> nat" where
  "push_size op = (if 0x60 \<le> unat op \<and> unat op \<le> 0x7F then unat op - 0x5F else 0)"

inductive instr_start :: "bytes \<Rightarrow> nat \<Rightarrow> bool" for code where
  first: "instr_start code 0"
| after: "instr_start code pc \<Longrightarrow> pc < length code \<Longrightarrow> instr_start code (pc + 1 + push_size (code ! pc))"

section \<open>The analysis is correct\<close>

text \<open>\<open>marked\<close>: the bit of a position is set.\<close>

definition marked :: "bitvec \<Rightarrow> nat \<Rightarrow> bool" where
  "marked bits i \<longleftrightarrow> bit (bits ! (i div 8)) (7 - i mod 8)"

lemma lt8_cases: "(r :: nat) < 8 \<Longrightarrow> r \<in> {0, 1, 2, 3, 4, 5, 6, 7}"
  by auto

lemma drop_bit_top: "r < 8 \<Longrightarrow> drop_bit r (0x80 :: byte) = push_bit (7 - r) 1"
  by (drule lt8_cases) auto

lemma bit_top: "r < 8 \<Longrightarrow> bit (drop_bit r (0x80 :: byte)) k \<longleftrightarrow> k = 7 - r"
  by (auto simp: drop_bit_top bit_exp_iff)

lemma bit_ones: "bit (drop_bit r (0xFF :: byte)) k \<longleftrightarrow> r + k < 8"
proof -
  have "(0xFF :: byte) = mask 8" by (simp add: mask_eq_exp_minus_1)
  then show ?thesis by (simp only: bit_drop_bit_eq o_apply bit_mask_iff) (simp add: bit_mask_iff)
qed

lemma codeSegment_marked: "i div 8 < length bits \<Longrightarrow> codeSegment bits i = Some (\<not> marked bits i)"
  by (simp add: codeSegment_def marked_def drop_bit_top bit_iff_and_push_bit_not_eq_0)

lemma same_byte: "i div 8 = p div 8 \<Longrightarrow> i mod 8 = p mod 8 \<Longrightarrow> i = (p :: nat)"
  by (metis div_mult_mod_eq)

lemma bitvec_set_ok:
  assumes "p div 8 < length bits"
  obtains bits1 where "bitvec_set bits p = Some bits1" "length bits1 = length bits"
    "\<And>i. i div 8 < length bits \<Longrightarrow> marked bits1 i \<longleftrightarrow> marked bits i \<or> i = p"
proof -
  let ?b = "bits[p div 8 := bits ! (p div 8) OR drop_bit (p mod 8) 0x80]"
  have "marked ?b i \<longleftrightarrow> marked bits i \<or> i = p" if "i div 8 < length bits" for i
  proof (cases "i div 8 = p div 8")
    case True
    have "i mod 8 < 8" "p mod 8 < 8" by simp_all
    then have "7 - i mod 8 = 7 - p mod 8 \<longleftrightarrow> i mod 8 = p mod 8" by linarith
    then have "7 - i mod 8 = 7 - p mod 8 \<longleftrightarrow> i = p" using True same_byte by blast
    then show ?thesis using True assms
      by (simp add: marked_def bit_top bit_or_iff)
  next
    case False
    then have "i \<noteq> p" by auto
    then show ?thesis using False by (simp add: marked_def)
  qed
  then show thesis using that [of ?b] assms by (simp add: bitvec_set_def)
qed

lemma bitvec_set8_ok:
  assumes "p div 8 + 1 < length bits"
  obtains bits1 where "bitvec_set8 bits p = Some bits1" "length bits1 = length bits"
    "\<And>i. i div 8 < length bits \<Longrightarrow> marked bits1 i \<longleftrightarrow> marked bits i \<or> (p \<le> i \<and> i < p + 8)"
proof -
  let ?c = "bits[p div 8 := bits ! (p div 8) OR drop_bit (p mod 8) 0xFF]"
  let ?b = "?c[p div 8 + 1 := ?c ! (p div 8 + 1) OR NOT (drop_bit (p mod 8) 0xFF)]"
  have "marked ?b i \<longleftrightarrow> marked bits i \<or> (p \<le> i \<and> i < p + 8)" if "i div 8 < length bits" for i
  proof -
    have m: "i = 8 * (i div 8) + i mod 8" "p = 8 * (p div 8) + p mod 8" "i mod 8 < 8" "p mod 8 < 8" by simp_all
    consider "i div 8 = p div 8" | "i div 8 = p div 8 + 1" | "i div 8 \<noteq> p div 8" "i div 8 \<noteq> p div 8 + 1" by blast
    then show ?thesis
    proof cases
      case 1
      have "p mod 8 + (7 - i mod 8) < 8 \<longleftrightarrow> p \<le> i \<and> i < p + 8" using 1 m by linarith
      then show ?thesis using 1 assms by (auto simp: marked_def bit_or_iff bit_ones)
    next
      case 2
      have "\<not> p mod 8 + (7 - i mod 8) < 8 \<longleftrightarrow> p \<le> i \<and> i < p + 8" using 2 m by linarith
      then show ?thesis using 2 assms by (auto simp: marked_def bit_or_iff bit_not_iff bit_ones)
    next
      case 3
      have "\<not> (p \<le> i \<and> i < p + 8)" using 3 m by linarith
      then show ?thesis using 3 by (auto simp: marked_def)
    qed
  qed
  then show thesis using that [of ?b] assms by (simp add: bitvec_set8_def Let_def)
qed

lemma mark1_ok:
  "(pc + n) div 8 < length bits \<Longrightarrow>
    \<exists>bits1. mark1 n pc bits = Some (pc + n, bits1) \<and> length bits1 = length bits \<and>
      (\<forall>i. i div 8 < length bits \<longrightarrow> marked bits1 i \<longleftrightarrow> marked bits i \<or> (pc \<le> i \<and> i < pc + n))"
proof (induction n arbitrary: pc bits)
  case (Suc n)
  have "pc div 8 \<le> (pc + Suc n) div 8" by (intro div_le_mono) simp
  then have "pc div 8 < length bits" using Suc(2) by linarith
  then obtain bits1 where b: "bitvec_set bits pc = Some bits1" "length bits1 = length bits"
    "\<And>i. i div 8 < length bits \<Longrightarrow> marked bits1 i \<longleftrightarrow> marked bits i \<or> i = pc" by (rule bitvec_set_ok) blast
  from Suc(1) [of "pc + 1" bits1] Suc(2) b show ?case by auto
qed auto

lemma mark8_ok:
  "(pc + n) div 8 < length bits \<Longrightarrow>
    \<exists>n1 bits1. mark8 n pc bits = Some (n1, pc + n - n1, bits1) \<and> n1 \<le> n \<and> length bits1 = length bits \<and>
      (\<forall>i. i div 8 < length bits \<longrightarrow> marked bits1 i \<longleftrightarrow> marked bits i \<or> (pc \<le> i \<and> i < pc + n - n1))"
proof (induction n pc bits rule: mark8.induct)
  case (1 n pc bits)
  show ?case
  proof (cases "n \<ge> 8")
    case True
    have "(pc + 8) div 8 \<le> (pc + n) div 8" using True by (intro div_le_mono) simp
    then have "pc div 8 + 1 < length bits" using 1(2) by simp
    then obtain bits1 where b: "bitvec_set8 bits pc = Some bits1" "length bits1 = length bits"
      "\<And>i. i div 8 < length bits \<Longrightarrow> marked bits1 i \<longleftrightarrow> marked bits i \<or> (pc \<le> i \<and> i < pc + 8)"
      by (rule bitvec_set8_ok) blast
    have e: "mark8 n pc bits = mark8 (n - 8) (pc + 8) bits1" using True b(1) by (subst mark8.simps) simp
    have s: "pc + 8 + (n - 8) = pc + n" using True by simp
    from 1(1) [OF True b(1)] obtain n1 bits2 where r: "mark8 (n - 8) (pc + 8) bits1 = Some (n1, pc + n - n1, bits2)"
      "n1 \<le> n - 8" "length bits2 = length bits"
      "\<forall>i. i div 8 < length bits \<longrightarrow> marked bits2 i \<longleftrightarrow> marked bits1 i \<or> (pc + 8 \<le> i \<and> i < pc + n - n1)"
      using 1(2) b(2) unfolding s by auto
    have "marked bits2 i \<longleftrightarrow> marked bits i \<or> (pc \<le> i \<and> i < pc + n - n1)" if "i div 8 < length bits" for i
      using r(4) b(3) that r(2) True by auto
    then show ?thesis using e r by fastforce
  next
    case False
    then show ?thesis by (subst mark8.simps) auto
  qed
qed

lemma mark_push_ok:
  assumes "(pc + unat (op - PUSH1 + 1)) div 8 < length bits"
  obtains bits1 where "mark_push op pc bits = Some (pc + unat (op - PUSH1 + 1), bits1)" "length bits1 = length bits"
    "\<And>i. i div 8 < length bits \<Longrightarrow>
      marked bits1 i \<longleftrightarrow> marked bits i \<or> (pc \<le> i \<and> i < pc + unat (op - PUSH1 + 1))"
proof -
  let ?n = "unat (op - PUSH1 + 1)"
  obtain n1 bits1 where m: "mark8 ?n pc bits = Some (n1, pc + ?n - n1, bits1)" "n1 \<le> ?n" "length bits1 = length bits"
    "\<forall>i. i div 8 < length bits \<longrightarrow> marked bits1 i \<longleftrightarrow> marked bits i \<or> (pc \<le> i \<and> i < pc + ?n - n1)"
    using mark8_ok [OF assms] by blast
  have s: "pc + ?n - n1 + n1 = pc + ?n" using m(2) by simp
  obtain bits2 where r: "mark1 n1 (pc + ?n - n1) bits1 = Some (pc + ?n, bits2)" "length bits2 = length bits"
    "\<forall>i. i div 8 < length bits \<longrightarrow> marked bits2 i \<longleftrightarrow> marked bits1 i \<or> (pc + ?n - n1 \<le> i \<and> i < pc + ?n)"
    using mark1_ok [of "pc + ?n - n1" n1 bits1] assms m(3) unfolding s by auto
  show thesis
  proof (rule that)
    show "mark_push op pc bits = Some (pc + ?n, bits2)" using m(1) r(1) by (simp add: mark_push_def)
    show "length bits2 = length bits" by (rule r(2))
    show "marked bits2 i \<longleftrightarrow> marked bits i \<or> (pc \<le> i \<and> i < pc + ?n)" if "i div 8 < length bits" for i
      using r(3) m(2,4) that by auto
  qed
qed

section \<open>Instruction starts are a chain\<close>

definition next_instr :: "bytes \<Rightarrow> nat \<Rightarrow> nat" where
  "next_instr code pc = pc + 1 + push_size (code ! pc)"

lemma instr_start_iter: "instr_start code pc \<Longrightarrow> \<exists>k. pc = (next_instr code ^^ k) 0"
proof (induction rule: instr_start.induct)
  case first
  then show ?case by (intro exI [of _ 0]) simp
next
  case (after pc)
  then obtain k where "pc = (next_instr code ^^ k) 0" by blast
  then have "pc + 1 + push_size (code ! pc) = (next_instr code ^^ Suc k) 0"
    by (simp only: funpow.simps o_apply next_instr_def [of code "(next_instr code ^^ k) 0"])
  then show ?case by blast
qed

lemma next_iter_mono:
  assumes "k < l"
  shows "(next_instr code ^^ Suc k) 0 \<le> (next_instr code ^^ l) 0"
proof -
  have "strict_mono (\<lambda>k. (next_instr code ^^ k) 0)" by (intro strict_mono_Suc_iff [THEN iffD2]) (simp add: next_instr_def)
  then show ?thesis using assms by (metis Suc_leI strict_mono_less_eq)
qed

lemma no_start_between:
  assumes "instr_start code a" "instr_start code i" "a < i"
  shows "a + 1 + push_size (code ! a) \<le> i"
proof -
  obtain k l where k: "a = (next_instr code ^^ k) 0" and l: "i = (next_instr code ^^ l) 0"
    using assms(1,2) instr_start_iter by blast
  have "\<not> l \<le> k" using assms(3) next_iter_mono [of l k code] unfolding k l
    by (cases "l = k") (auto simp: next_instr_def dest: le_neq_implies_less)
  then show ?thesis using next_iter_mono [of k l code] by (simp add: k l next_instr_def)
qed

lemma push_range: "op \<ge> PUSH1 \<and> op \<le> PUSH32 \<longleftrightarrow> 0x60 \<le> unat op \<and> unat op \<le> 0x7F"
  by (simp add: word_le_nat_alt)

lemma push_size_op:
  assumes "op \<ge> PUSH1 \<and> op \<le> PUSH32"
  shows "unat (op - PUSH1 + 1) = push_size op" "push_size op \<le> 32" "push_size op \<ge> 1"
proof -
  have r: "0x60 \<le> unat op" "unat op \<le> 0x7F" using assms push_range by blast+
  have "unat (op - PUSH1) = unat op - 0x60" using assms by (simp add: unat_sub)
  then have "unat (op - PUSH1 + 1) = (unat op - 0x60 + 1) mod 256" by (simp only: unat_word_ariths) simp
  then show "unat (op - PUSH1 + 1) = push_size op" using r by (simp add: push_size_def)
  show "push_size op \<le> 32" "push_size op \<ge> 1" using r by (simp_all add: push_size_def)
qed

lemma codeBitmap_loop_ok:
  "instr_start code pc \<Longrightarrow> length bits = length code div 8 + 5 \<Longrightarrow> 
   (\<And>i. i div 8 < length bits \<Longrightarrow> marked bits i \<longleftrightarrow> i < pc \<and> \<not> instr_start code i) \<Longrightarrow>
    \<exists>bits1. codeBitmap_loop code pc bits = Some bits1 \<and> length bits1 = length bits \<and>
      (\<forall>i < length code. marked bits1 i \<longleftrightarrow> \<not> instr_start code i)"
proof (induction code pc bits rule: codeBitmap_loop.induct)
  case (1 code pc bits)
  note IH = 1(1,2) and pre = 1(3-5)
  show ?case
  proof (cases "pc < length code")
    case False
    then show ?thesis using pre by (subst codeBitmap_loop.simps) auto
  next
    case True
    note st = instr_start.after [OF pre(1) True]
    have gap: "\<not> instr_start code i" if "pc < i" "i < pc + 1 + push_size (code ! pc)" for i
      using no_start_between [OF pre(1) _ that(1)] that(2) by fastforce
    show ?thesis
    proof (cases "code ! pc \<ge> PUSH1 \<and> code ! pc \<le> PUSH32")
      case push: True
      note ps = push_size_op [OF push]
      have "(pc + 1 + push_size (code ! pc)) div 8 \<le> (length code + 32) div 8" using True ps(2) by (intro div_le_mono) simp
      then have "(pc + 1 + push_size (code ! pc)) div 8 < length bits" using pre(2) by simp
      from mark_push_ok [of "pc + 1" "code ! pc" bits, unfolded ps(1), OF this] obtain bits1 where b: "mark_push (code ! pc) (pc + 1) bits = Some (pc + 1 + push_size (code ! pc), bits1)"
        "length bits1 = length bits"
        "\<And>i. i div 8 < length bits \<Longrightarrow> marked bits1 i \<longleftrightarrow> marked bits i \<or> (pc + 1 \<le> i \<and> i < pc + 1 + push_size (code ! pc))"
        by blast
      have "marked bits1 i \<longleftrightarrow> i < pc + 1 + push_size (code ! pc) \<and> \<not> instr_start code i" if "i div 8 < length bits" for i
        using b(3) [OF that] pre(1) pre(3) [OF that] gap [of i] by (cases i pc rule: linorder_cases) auto
      from IH(1) [OF True refl push b(1) refl st] this b(2) pre(2) show ?thesis
        using True push b(1) by (subst codeBitmap_loop.simps) (auto simp: Let_def)
    next
      case False
      then have z: "push_size (code ! pc) = 0" using push_range by (auto simp: push_size_def)
      have "marked bits i \<longleftrightarrow> i < pc + 1 \<and> \<not> instr_start code i" if "i div 8 < length bits" for i
        using pre(1) pre(3) [OF that] by (cases i pc rule: linorder_cases) auto
      from IH(2) [OF True refl False] st z this pre(2) show ?thesis
        using True False by (subst codeBitmap_loop.simps) (auto simp: Let_def)
    qed
  qed
qed

lemma codeBitmap_ok:
  "\<exists>bits. codeBitmap code = Some bits \<and> (\<forall>i < length code. codeSegment bits i = Some (instr_start code i))"
proof -
  let ?z = "replicate (length code div 8 + 1 + 4) (0 :: byte)"
  have "\<not> marked ?z i" if "i div 8 < length ?z" for i using that by (simp add: marked_def)
  then obtain bits where "codeBitmap code = Some bits" "length bits = length code div 8 + 5"
      "\<forall>i < length code. marked bits i \<longleftrightarrow> \<not> instr_start code i"
    using codeBitmap_loop_ok [OF instr_start.first, of ?z code] by (auto simp: codeBitmap_def)
  moreover have "i div 8 < length code div 8 + 5" if "i < length code" for i
    using div_le_mono [of i "length code" 8] that by simp
  ultimately show ?thesis by (auto simp: codeSegment_marked)
qed

lemma validJumpdest_ok:
  assumes "length code < 2 ^ 62" "0 \<le> dest"
  shows "validJumpdest code dest =
    Some (nat dest < length code \<and> code ! nat dest = JUMPDEST \<and> instr_start code (nat dest))"
proof -
  obtain bits where b: "codeBitmap code = Some bits" "\<forall>i < length code. codeSegment bits i = Some (instr_start code i)"
    using codeBitmap_ok by blast
  show ?thesis
  proof (cases "bitlen (nat \<bar>dest\<bar>) \<ge> 63")
    case True
    then have "\<not> nat \<bar>dest\<bar> < 2 ^ 62" using bitlen_le [of "nat \<bar>dest\<bar>" 62] by simp
    then have "\<not> nat dest < length code" using assms by simp
    then show ?thesis using True by (simp add: validJumpdest_def)
  next
    case False
    then have "nat dest < 2 ^ 62" using bitlen_le [of "nat \<bar>dest\<bar>" 62] assms(2) by simp
    then have u: "unat (big_Uint64 dest) = nat dest" using assms(2) unat_big_Uint64 [of dest] by simp
    moreover have "unat (word_of_nat (length code) :: u64) = length code" using assms(1) by (simp add: unat_of_nat)
    ultimately have "big_Uint64 dest \<ge> word_of_nat (length code) \<longleftrightarrow> length code \<le> nat dest" by (simp add: word_le_nat_alt)
    then show ?thesis using False u b by (auto simp: validJumpdest_def Let_def)
  qed
qed

end
