(* ===== verification/EvmMemory.thy ===== *)
theory EvmMemory
  imports EvmCode EvmParams
begin

text \<open>
  Memory of a running contract (src/core/vm/memory.go), the sizes instructions need (memory_table.go,
  common.go) and the gas for its expansion (gas_table.go, \<open>memoryGasCost\<close>).

  \<open>Memory.store\<close> is a Go slice: an array, whose length is the capacity, and a length. \<open>append\<close> in
  \<open>Resize\<close> keeps the array if the capacity suffices and otherwise moves the contents to a new array. Slices
  taken earlier by \<open>GetPtr\<close> keep referring to the array they were taken from. The model therefore keeps all
  arrays; \<open>growcap\<close> is the growth policy of \<open>append\<close>, which is not specified by the language.
\<close>

section \<open>Errors and panics\<close>

text \<open>
  The errors of errors.go, instructions.go, jump_table.go, contracts.go and the ones made by \<open>fmt.Errorf\<close> in
  interpreter.go and gas_table.go; then the run-time panics. \<open>NoReturn\<close> stands for running out of fuel.
\<close>

datatype vm_error =
    ErrOutOfGas | ErrCodeStoreOutOfGas | ErrDepth | ErrInsufficientBalance | ErrContractAddressCollision
  | ErrWriteProtection | ErrReturnDataOutOfBounds | ErrExecutionReverted | ErrMaxCodeSizeExceeded | ErrInvalidJump
  | ErrGasUintOverflow | ErrSentryGas | ErrInvalidOpcode byte | ErrStackUnderflow nat nat | ErrStackLimit nat nat
  | ErrBadPairingInput | ErrBlake2FInvalidInputLength | ErrBlake2FInvalidFinalFlag | ErrBadPoint

datatype panic = PanicRefund | PanicBounds | PanicMemory | PanicRevision | PanicNil | NoReturn

definition bindp :: "panic + 'a \<Rightarrow> ('a \<Rightarrow> panic + 'b) \<Rightarrow> panic + 'b" where
  "bindp x f = (case x of Inl p \<Rightarrow> Inl p | Inr a \<Rightarrow> f a)"

lemma bindp_simps [simp]: "bindp (Inl p) f = Inl p" "bindp (Inr a) f = f a"
  by (simp_all add: bindp_def)

section \<open>Helpers of common.go\<close>

definition RightPadBytes :: "bytes \<Rightarrow> int \<Rightarrow> bytes" where
  "RightPadBytes sl l = (if l \<le> int (length sl) then sl else sl @ replicate (nat l - length sl) 0)"

definition LeftPadBytes :: "bytes \<Rightarrow> int \<Rightarrow> bytes" where
  "LeftPadBytes sl l = (if l \<le> int (length sl) then sl else replicate (nat l - length sl) 0 @ sl)"

definition BigToHash :: "int \<Rightarrow> hash" where
  "BigToHash b = BytesToHash (big_Bytes b)"

definition BigToAddress :: "int \<Rightarrow> address" where
  "BigToAddress b = BytesToAddress (big_Bytes b)"

definition calcMemSize64WithUint :: "int \<Rightarrow> u64 \<Rightarrow> u64 \<times> bool" where
  "calcMemSize64WithUint off length64 =
    (if length64 = 0 then (0, False)
     else if \<not> big_IsUint64 off then (0, True)
     else let offset64 = big_Uint64 off; val = offset64 + length64 in (val, val < offset64))"

definition calcMemSize64 :: "int \<Rightarrow> int \<Rightarrow> u64 \<times> bool" where
  "calcMemSize64 off l = (if \<not> big_IsUint64 l then (0, True) else calcMemSize64WithUint off (big_Uint64 l))"

text \<open>A slice expression \<open>data[a:b]\<close> with \<open>b\<close> at most the length.\<close>

definition subslice :: "bytes \<Rightarrow> nat \<Rightarrow> nat \<Rightarrow> panic + bytes" where
  "subslice data a b = (if a \<le> b \<and> b \<le> length data then Inr (take (b - a) (drop a data)) else Inl PanicBounds)"

definition getData :: "bytes \<Rightarrow> u64 \<Rightarrow> u64 \<Rightarrow> panic + bytes" where
  "getData data start sz =
    (let len = word_of_nat (length data);
         start = (if start > len then len else start);
         e = start + sz;
         e = (if e > len then len else e)
     in bindp (subslice data (unat start) (unat e)) (\<lambda>d. Inr (RightPadBytes d (sint sz))))"

definition getDataBig :: "bytes \<Rightarrow> int \<Rightarrow> int \<Rightarrow> panic + bytes" where
  "getDataBig data start sz =
    (let dlen = int (length data);
         s = BigMin start dlen;
         e = BigMin (s + sz) dlen
     in bindp (subslice data (unat (big_Uint64 s)) (unat (big_Uint64 e)))
          (\<lambda>d. Inr (RightPadBytes d (sint (big_Uint64 sz)))))"

definition bigUint64 :: "int \<Rightarrow> u64 \<times> bool" where
  "bigUint64 v = (big_Uint64 v, \<not> big_IsUint64 v)"

definition toWordSize :: "u64 \<Rightarrow> u64" where
  "toWordSize sz = (if sz > MaxUint64 - 31 then MaxUint64 div 32 + 1 else (sz + 31) div 32)"

definition allZero :: "bytes \<Rightarrow> bool" where
  "allZero b = list_all (\<lambda>x. x = 0) b"

section \<open>Memory\<close>

text \<open>A slice that may refer to the memory of the running contract: array, offset and length.\<close>

datatype mem_slice = Bytes bytes | Alias nat nat nat

record Memory =
  arrays :: "bytes list"
  store_len :: nat
  lastGasCost :: u64

definition NewMemory :: Memory where
  "NewMemory = \<lparr>arrays = [[]], store_len = 0, lastGasCost = 0\<rparr>"

definition deref :: "Memory \<Rightarrow> mem_slice \<Rightarrow> bytes" where
  "deref m sl = (case sl of Bytes b \<Rightarrow> b | Alias i off len \<Rightarrow> take len (drop off (arrays m ! i)))"

text \<open>\<open>copy(m.store[offset:offset+size], value)\<close>.\<close>

definition store_copy :: "nat \<Rightarrow> nat \<Rightarrow> bytes \<Rightarrow> Memory \<Rightarrow> Memory" where
  "store_copy offset sz val m =
    (let arr = last (arrays m); n = min sz (length val)
     in m\<lparr>arrays := butlast (arrays m) @ [take offset arr @ take n val @ drop (offset + n) arr]\<rparr>)"

definition mem_Set :: "u64 \<Rightarrow> u64 \<Rightarrow> bytes \<Rightarrow> Memory \<Rightarrow> panic + Memory" where
  "mem_Set offset sz val m =
    (if sz > 0 then
       if offset + sz > word_of_nat (store_len m) then Inl PanicMemory
       else if offset > offset + sz then Inl PanicBounds
       else Inr (store_copy (unat offset) (unat sz) val m)
     else Inr m)"

text \<open>\<open>ReadBits\<close>: the bytes of the absolute value, written from the end of the buffer.\<close>

fun ReadBits_word :: "nat \<Rightarrow> u64 \<Rightarrow> nat \<times> bytes \<Rightarrow> nat \<times> bytes" where
  "ReadBits_word 0 d (i, buf) = (i, buf)"
| "ReadBits_word (Suc j) d (i, buf) =
    (if i > 0 then ReadBits_word j (drop_bit 8 d) (i - 1, buf[i - 1 := ucast d]) else (i, buf))"

definition ReadBits :: "int \<Rightarrow> bytes \<Rightarrow> bytes" where
  "ReadBits x buf = snd (fold (ReadBits_word 8) (big_Bits (nat \<bar>x\<bar>)) (length buf, buf))"

definition mem_Set32 :: "u64 \<Rightarrow> int \<Rightarrow> Memory \<Rightarrow> panic + Memory" where
  "mem_Set32 offset val m =
    (if offset + 32 > word_of_nat (store_len m) then Inl PanicMemory
     else if offset > offset + 32 then Inl PanicBounds
     else Inr (store_copy (unat offset) 32 (ReadBits val (replicate 32 0)) m))"

definition mem_Resize :: "(nat \<Rightarrow> nat \<Rightarrow> nat) \<Rightarrow> u64 \<Rightarrow> Memory \<Rightarrow> Memory" where
  "mem_Resize growcap sz m =
    (if word_of_nat (store_len m) < sz then
       let n = unat (sz - word_of_nat (store_len m)); arr = last (arrays m); len = store_len m + n
       in if len \<le> length arr
          then m\<lparr>arrays := butlast (arrays m) @ [take (store_len m) arr @ replicate n 0 @ drop len arr], store_len := len\<rparr>
          else
            let cap = max len (growcap (length arr) len)
            in m\<lparr>arrays := arrays m @ [take (store_len m) arr @ replicate (cap - store_len m) 0], store_len := len\<rparr>
     else m)"

text \<open>The bounds of a slice expression on a slice are its capacity.\<close>

definition mem_GetPtr :: "int \<Rightarrow> int \<Rightarrow> Memory \<Rightarrow> panic + mem_slice" where
  "mem_GetPtr offset sz m =
    (if sz = 0 then Inr (Bytes [])
     else if int (store_len m) > offset then
       if 0 \<le> offset \<and> 0 \<le> sz \<and> offset + sz \<le> int (length (last (arrays m)))
       then Inr (Alias (length (arrays m) - 1) (nat offset) (nat sz)) else Inl PanicBounds
     else Inr (Bytes []))"

definition mem_GetCopy :: "int \<Rightarrow> int \<Rightarrow> Memory \<Rightarrow> panic + bytes" where
  "mem_GetCopy offset sz m =
    (if sz = 0 then Inr []
     else if int (store_len m) > offset then
       if 0 \<le> offset \<and> 0 \<le> sz \<and> offset + sz \<le> int (length (last (arrays m)))
       then Inr (take (nat sz) (drop (nat offset) (last (arrays m)))) else Inl PanicBounds
     else Inr [])"

text \<open>\<open>m.store[off] = b\<close>, used by \<open>opMstore8\<close>.\<close>

definition mem_Set8 :: "int \<Rightarrow> byte \<Rightarrow> Memory \<Rightarrow> panic + Memory" where
  "mem_Set8 off b m =
    (if 0 \<le> off \<and> off < int (store_len m) then Inr (store_copy (nat off) 1 [b] m) else Inl PanicBounds)"

section \<open>Sizes\<close>

text \<open>The functions of memory_table.go; the stack has its top first, so \<open>Back(n)\<close> is element \<open>n\<close>.\<close>

datatype memorySizeFunc =
    memorySha3 | memoryCallDataCopy | memoryReturnDataCopy | memoryCodeCopy | memoryExtCodeCopy | memoryMLoad
  | memoryMStore8 | memoryMStore | memoryCreate | memoryCreate2 | memoryCall | memoryDelegateCall
  | memoryStaticCall | memoryReturn | memoryRevert | memoryLog

definition max_size :: "u64 \<times> bool \<Rightarrow> u64 \<times> bool \<Rightarrow> u64 \<times> bool" where
  "max_size x y =
    (if snd x then (0, True) else if snd y then (0, True) else if fst x > fst y then (fst x, False) else (fst y, False))"

text \<open>An access below the bottom of the stack panics.\<close>

definition need :: "nat \<Rightarrow> int list \<Rightarrow> 'a \<Rightarrow> panic + 'a" where
  "need n st x = (if n \<le> length st then Inr x else Inl PanicBounds)"

fun memory_size :: "memorySizeFunc \<Rightarrow> int list \<Rightarrow> panic + u64 \<times> bool" where
  "memory_size memorySha3 st = need 2 st (calcMemSize64 (st ! 0) (st ! 1))"
| "memory_size memoryCallDataCopy st = need 3 st (calcMemSize64 (st ! 0) (st ! 2))"
| "memory_size memoryReturnDataCopy st = need 3 st (calcMemSize64 (st ! 0) (st ! 2))"
| "memory_size memoryCodeCopy st = need 3 st (calcMemSize64 (st ! 0) (st ! 2))"
| "memory_size memoryExtCodeCopy st = need 4 st (calcMemSize64 (st ! 1) (st ! 3))"
| "memory_size memoryMLoad st = need 1 st (calcMemSize64WithUint (st ! 0) 32)"
| "memory_size memoryMStore8 st = need 1 st (calcMemSize64WithUint (st ! 0) 1)"
| "memory_size memoryMStore st = need 1 st (calcMemSize64WithUint (st ! 0) 32)"
| "memory_size memoryCreate st = need 3 st (calcMemSize64 (st ! 1) (st ! 2))"
| "memory_size memoryCreate2 st = need 3 st (calcMemSize64 (st ! 1) (st ! 2))"
| "memory_size memoryCall st = need 7 st (max_size (calcMemSize64 (st ! 5) (st ! 6)) (calcMemSize64 (st ! 3) (st ! 4)))"
| "memory_size memoryDelegateCall st = need 6 st (max_size (calcMemSize64 (st ! 4) (st ! 5)) (calcMemSize64 (st ! 2) (st ! 3)))"
| "memory_size memoryStaticCall st = need 6 st (max_size (calcMemSize64 (st ! 4) (st ! 5)) (calcMemSize64 (st ! 2) (st ! 3)))"
| "memory_size memoryReturn st = need 2 st (calcMemSize64 (st ! 0) (st ! 1))"
| "memory_size memoryRevert st = need 2 st (calcMemSize64 (st ! 0) (st ! 1))"
| "memory_size memoryLog st = need 2 st (calcMemSize64 (st ! 0) (st ! 1))"

section \<open>Gas for memory\<close>

definition memoryGasCost :: "u64 \<Rightarrow> Memory \<Rightarrow> (vm_error + u64) \<times> Memory" where
  "memoryGasCost newMemSize mem =
    (if newMemSize = 0 then (Inr 0, mem)
     else if newMemSize > 0x1FFFFFFFE0 then (Inl ErrGasUintOverflow, mem)
     else
       let newMemSizeWords = toWordSize newMemSize;
           newMemSize = newMemSizeWords * 32
       in if newMemSize > word_of_nat (store_len mem) then
            let square = newMemSizeWords * newMemSizeWords;
                linCoef = newMemSizeWords * MemoryGas;
                quadCoef = square div QuadCoeffDiv;
                newTotalFee = linCoef + quadCoef;
                fee = newTotalFee - lastGasCost mem
            in (Inr fee, mem\<lparr>lastGasCost := newTotalFee\<rparr>)
          else (Inr 0, mem))"

section \<open>Well-formed memory\<close>

text \<open>
  The invariant between instructions: the length fits into the current array, is a multiple of 32 and below
  the bound that \<open>memoryGasCost\<close> enforces, and the last cost is the fee for that length.
\<close>

definition mem_fee :: "nat \<Rightarrow> nat" where
  "mem_fee words = 3 * words + words * words div 512"

definition mem_ok :: "Memory \<Rightarrow> bool" where
  "mem_ok m \<longleftrightarrow> arrays m \<noteq> [] \<and> store_len m \<le> length (last (arrays m)) \<and> store_len m \<le> 0x1FFFFFFFE0 \<and>
    32 dvd store_len m"

definition fee_ok :: "Memory \<Rightarrow> bool" where
  "fee_ok m \<longleftrightarrow> unat (lastGasCost m) = mem_fee (store_len m div 32)"

lemma NewMemory_ok [simp]: "mem_ok NewMemory" "fee_ok NewMemory"
  by (simp_all add: mem_ok_def fee_ok_def NewMemory_def mem_fee_def)

text \<open>\<open>covers\<close>: a range of memory given by two stack items lies within the memory or is empty.\<close>

definition covers :: "Memory \<Rightarrow> int \<Rightarrow> int \<Rightarrow> bool" where
  "covers m off l \<longleftrightarrow> 0 \<le> l \<and> (l = 0 \<or> 0 \<le> off \<and> off + l \<le> int (store_len m))"

lemma big_IsUint64_iff: "big_IsUint64 x \<longleftrightarrow> 0 \<le> x \<and> x < 2 ^ 64"
  by (auto simp: big_IsUint64_def bitlen_le nat_less_iff)

lemma unat_big_small: "0 \<le> x \<Longrightarrow> x < 2 ^ 64 \<Longrightarrow> int (unat (big_Uint64 x)) = x"
  using unat_big_Uint64 [of x] by simp

lemma unat_plus_le:
  assumes "\<not> (a + b :: u64) < a"
  shows "unat (a + b) = unat a + unat b"
  using assms by (metis no_olen_add not_le unat_add_lem unat_plus_simple word_le_nat_alt le_add1)

lemma calcMemSize64WithUint_covers:
  assumes "calcMemSize64WithUint off l = (sz, False)" "unat sz \<le> store_len m"
  shows "covers m off (int (unat l))"
proof (cases "l = 0")
  case False
  then have o: "0 \<le> off" "off < 2 ^ 64" and s: "sz = big_Uint64 off + l" "\<not> big_Uint64 off + l < big_Uint64 off"
    using assms(1) by (auto simp: calcMemSize64WithUint_def Let_def big_IsUint64_iff split: if_splits)
  have "unat sz = unat (big_Uint64 off) + unat l" unfolding s(1) by (rule unat_plus_le [OF s(2)])
  then have "int (unat (big_Uint64 off)) + int (unat l) \<le> int (store_len m)" using assms(2) by linarith
  then show ?thesis using unat_big_small [OF o] o(1) by (simp add: covers_def)
qed (simp add: covers_def)

lemma calcMemSize64_covers:
  assumes "calcMemSize64 off l = (sz, False)" "unat sz \<le> store_len m"
  shows "covers m off l"
proof -
  have l: "0 \<le> l" "l < 2 ^ 64" and c: "calcMemSize64WithUint off (big_Uint64 l) = (sz, False)"
    using assms(1) by (auto simp: calcMemSize64_def big_IsUint64_iff split: if_splits)
  show ?thesis using calcMemSize64WithUint_covers [OF c assms(2)] unat_big_small [OF l] by simp
qed

lemma max_size_False:
  assumes "max_size x y = (sz, False)"
  obtains a b where "x = (a, False)" "y = (b, False)" "unat a \<le> unat sz" "unat b \<le> unat sz"
proof -
  have "\<not> snd x" "\<not> snd y" "sz = (if fst x > fst y then fst x else fst y)"
    using assms by (auto simp: max_size_def split: if_splits)
  then show thesis using that [of "fst x" "fst y"] by (cases x; cases y) (auto simp: word_less_nat_alt split: if_splits)
qed

section \<open>Rounding to words\<close>

lemma MaxUint64_val [simp]: "unat MaxUint64 = 2 ^ 64 - 1"
  by (simp add: MaxUint64_def unsigned_minus_1_eq_mask mask_eq_exp_minus_1)

lemma unat_toWordSize: "unat (toWordSize sz) = (unat sz + 31) div 32"
proof (cases "sz > MaxUint64 - 31")
  case True
  have "unat (MaxUint64 - 31) = 2 ^ 64 - 32" by (simp add: MaxUint64_def)
  then have "2 ^ 64 - 31 \<le> unat sz" "unat sz < 2 ^ 64" using True unsigned_less [of sz, where ?'a = nat]
    by (auto simp: word_less_nat_alt)
  then have "(unat sz + 31) div 32 = 2 ^ 59" by (intro div_nat_eqI) simp_all
  moreover have "unat (MaxUint64 div 32 + 1) = 2 ^ 59" by (simp add: MaxUint64_def)
  ultimately show ?thesis using True by (simp add: toWordSize_def)
next
  case False
  have "unat (MaxUint64 - 31) = 2 ^ 64 - 32" by (simp add: MaxUint64_def)
  then have "unat sz + 31 < 2 ^ 64" using False by (auto simp: word_less_nat_alt)
  then have "unat (sz + 31) = unat sz + 31" by (simp add: unat_word_ariths)
  then show ?thesis using False by (simp add: toWordSize_def unat_div)
qed

lemma SafeMul_ok:
  assumes "SafeMul x y = (z, False)"
  shows "unat z = unat x * unat y"
proof (cases "x = 0 \<or> y = 0")
  case True
  then show ?thesis using assms by (auto simp: SafeMul_def)
next
  case False
  then have z: "z = x * y" "\<not> y > MaxUint64 div x" using assms by (simp_all add: SafeMul_def)
  have "unat y \<le> (2 ^ 64 - 1) div unat x" using z(2) by (simp add: word_less_nat_alt unat_div)
  then have "unat y * unat x \<le> 2 ^ 64 - 1" using False by (simp add: less_eq_div_iff_mult_less_eq unat_gt_0)
  then have "unat x * unat y < 2 ^ 64" by (simp add: mult.commute)
  then show ?thesis unfolding z(1) by (simp add: unat_word_ariths)
qed

lemma SafeAdd_ok:
  assumes "SafeAdd x y = (z, False)"
  shows "unat z = unat x + unat y"
proof -
  have z: "z = x + y" "\<not> y > MaxUint64 - x" using assms by (simp_all add: SafeAdd_def)
  have "unat (MaxUint64 - x) = 2 ^ 64 - 1 - unat x"
    using unat_sub [of x MaxUint64] MaxUint64_val by (simp add: MaxUint64_def)
  then have "unat x + unat y < 2 ^ 64" using z(2) unsigned_less [of x, where ?'a = nat] by (simp add: word_less_nat_alt)
  then show ?thesis unfolding z(1) by (simp add: unat_word_ariths)
qed

text \<open>The size in whole words that the interpreter computes from a requested size.\<close>

lemma round_size:
  assumes "SafeMul (toWordSize sz) 32 = (ms, False)"
  shows "unat sz \<le> unat ms" "32 dvd unat ms"
proof -
  have "unat ms = (unat sz + 31) div 32 * 32" using SafeMul_ok [OF assms] by (simp add: unat_toWordSize)
  then show "unat sz \<le> unat ms" "32 dvd unat ms" by (presburger, simp)
qed

section \<open>Gas for memory\<close>

lemma mem_fee_mono: "a \<le> b \<Longrightarrow> mem_fee a \<le> mem_fee b"
  by (simp add: mem_fee_def add_mono div_le_mono mult_le_mono)

lemma mem_fee_small: "n \<le> 0x1FFFFFFFE0 \<Longrightarrow> unat (word_of_nat (mem_fee (n div 32)) :: u64) = mem_fee (n div 32)"
proof -
  assume "n \<le> 0x1FFFFFFFE0"
  then have "n div 32 \<le> 0x1FFFFFFFE0 div 32" by (rule div_le_mono)
  then have "mem_fee (n div 32) \<le> mem_fee 0xFFFFFFFF" by (intro mem_fee_mono) simp
  then have "mem_fee (n div 32) < 2 ^ 64" by (simp add: mem_fee_def)
  then show ?thesis by (simp add: unat_of_nat)
qed

lemma unat_of_store: "n \<le> 0x1FFFFFFFE0 \<Longrightarrow> unat (word_of_nat n :: u64) = n"
  by (simp add: unat_of_nat)

lemma memoryGasCost_ok:
  assumes "mem_ok m" "fee_ok m" "32 dvd unat ms"
  shows "memoryGasCost ms m = (if unat ms > 0x1FFFFFFFE0 then (Inl ErrGasUintOverflow, m) else
    (Inr (word_of_nat (mem_fee (max (store_len m) (unat ms) div 32) - mem_fee (store_len m div 32))),
     m\<lparr>lastGasCost := word_of_nat (mem_fee (max (store_len m) (unat ms) div 32))\<rparr>))"
proof -
  have sl: "unat (word_of_nat (store_len m) :: u64) = store_len m" "store_len m \<le> 0x1FFFFFFFE0"
    using assms(1) by (simp_all add: mem_ok_def unat_of_store)
  have lg: "lastGasCost m = word_of_nat (mem_fee (store_len m div 32))" using assms(2) by (simp add: fee_ok_def flip: assms(2) [unfolded fee_ok_def])
  show ?thesis
  proof (cases "unat ms > 0x1FFFFFFFE0")
    case True
    then have "ms \<noteq> 0" "ms > 0x1FFFFFFFE0" by (auto simp: word_less_nat_alt)
    then show ?thesis using True by (simp add: memoryGasCost_def)
  next
    case False
    then have b: "\<not> ms > 0x1FFFFFFFE0" by (simp add: word_less_nat_alt)
    obtain w where w: "unat ms = 32 * w" using assms(3) by (auto simp: dvd_def)
    have wb: "w \<le> 0xFFFFFFFF" using False w by simp
    have tw: "unat (toWordSize ms) = w" unfolding unat_toWordSize w by simp
    have tw32: "toWordSize ms * 32 = ms" by (rule word_unat_eq_iff [THEN iffD2]) (use tw w wb in \<open>simp add: unat_word_ariths\<close>)
    have gt: "ms > word_of_nat (store_len m) \<longleftrightarrow> unat ms > store_len m" using sl(1) by (simp add: word_less_nat_alt)
    have tot: "toWordSize ms * 3 + toWordSize ms * toWordSize ms div 512 = word_of_nat (mem_fee w)"
    proof (rule word_unat_eq_iff [THEN iffD2])
      have "w * w \<le> 0xFFFFFFFF * 0xFFFFFFFF" by (intro mult_le_mono wb)
      then have s: "unat (toWordSize ms * toWordSize ms) = w * w" using tw by (simp add: unat_word_ariths)
      have "w * w div 512 \<le> 0xFFFFFFFF * 0xFFFFFFFF div 512" by (intro div_le_mono mult_le_mono wb)
      then have "w * 3 + w * w div 512 < 2 ^ 64" using wb by simp
      then show "unat (toWordSize ms * 3 + toWordSize ms * toWordSize ms div 512) = unat (word_of_nat (mem_fee w) :: u64)"
        using tw s wb by (simp add: unat_word_ariths unat_div unat_of_nat mem_fee_def mult.commute)
    qed
    show ?thesis
    proof (cases "unat ms > store_len m")
      case True
      then have nz: "ms \<noteq> 0" by auto
      have mx: "max (store_len m) (unat ms) div 32 = w" using True w by simp
      have "mem_fee (store_len m div 32) \<le> mem_fee w" using True w by (intro mem_fee_mono) simp
      then show ?thesis using nz b False True gt unfolding mx by (simp add: memoryGasCost_def Let_def tw32 tot lg of_nat_diff)
    next
      case c: False
      then have "max (store_len m) (unat ms) = store_len m" by simp
      then show ?thesis using c b gt False lg by (simp add: memoryGasCost_def Let_def tw32)
    qed
  qed
qed

section \<open>Operations\<close>

lemma mem_Resize_ok:
  assumes "mem_ok m" "32 dvd unat ms" "unat ms \<le> 0x1FFFFFFFE0"
  shows "mem_ok (mem_Resize g ms m)" "store_len (mem_Resize g ms m) = max (store_len m) (unat ms)"
    "lastGasCost (mem_Resize g ms m) = lastGasCost m"
proof -
  have sl: "unat (word_of_nat (store_len m) :: u64) = store_len m"
    using assms(1) by (simp add: mem_ok_def unat_of_store)
  have d: "unat (ms - word_of_nat (store_len m)) = unat ms - store_len m" if "store_len m < unat ms"
    using that sl unat_sub [of "word_of_nat (store_len m)" ms] by (simp add: word_le_nat_alt)
  show "store_len (mem_Resize g ms m) = max (store_len m) (unat ms)" "lastGasCost (mem_Resize g ms m) = lastGasCost m"
    using sl d by (auto simp: mem_Resize_def Let_def word_less_nat_alt)
  show "mem_ok (mem_Resize g ms m)" using assms sl d
    by (auto simp: mem_ok_def mem_Resize_def Let_def word_less_nat_alt)
qed

lemma store_copy_ok:
  assumes "mem_ok m" "off + sz \<le> store_len m"
  shows "mem_ok (store_copy off sz v m)" "store_len (store_copy off sz v m) = store_len m"
    "lastGasCost (store_copy off sz v m) = lastGasCost m"
  using assms by (auto simp: store_copy_def Let_def mem_ok_def)

lemma covers_small:
  assumes "mem_ok m" "covers m off l" "l \<noteq> 0"
  shows "0 \<le> off" "0 < l" "off + l \<le> int (store_len m)" "off + l < 2 ^ 62"
  using assms by (auto simp: covers_def mem_ok_def)

lemma covers_words:
  assumes "mem_ok m" "covers m off l" "l \<noteq> 0"
  shows "unat (big_Uint64 off) = nat off" "unat (big_Uint64 l) = nat l"
    "big_Int64 off = off" "big_Int64 l = l" "unat (big_Uint64 off + big_Uint64 l) = nat off + nat l"
proof -
  note c = covers_small [OF assms]
  show 1: "unat (big_Uint64 off) = nat off" "unat (big_Uint64 l) = nat l"
    using c unat_big_Uint64 [of off] unat_big_Uint64 [of l] by simp_all
  show "big_Int64 off = off" "big_Int64 l = l" using c by (auto intro!: big_Int64_small)
  show "unat (big_Uint64 off + big_Uint64 l) = nat off + nat l" using 1 c by (simp add: unat_word_ariths)
qed

lemma mem_GetPtr_ok:
  assumes "mem_ok m" "covers m off l"
  shows "mem_GetPtr (big_Int64 off) (big_Int64 l) m =
    Inr (if l = 0 then Bytes [] else Alias (length (arrays m) - 1) (nat off) (nat l))"
proof (cases "l = 0")
  case True
  then show ?thesis by (simp add: mem_GetPtr_def big_Int64_small)
next
  case False
  note c = covers_small [OF assms False] covers_words [OF assms False]
  have "off + l \<le> int (length (last (arrays m)))" using assms(1) c(3) by (simp add: mem_ok_def)
  then show ?thesis using c by (simp add: mem_GetPtr_def)
qed

lemma mem_GetCopy_ok:
  assumes "mem_ok m" "covers m off l"
  shows "mem_GetCopy (big_Int64 off) (big_Int64 l) m = Inr (if l = 0 then [] else take (nat l) (drop (nat off) (last (arrays m))))"
proof (cases "l = 0")
  case True
  then show ?thesis by (simp add: mem_GetCopy_def big_Int64_small)
next
  case False
  note c = covers_small [OF assms False] covers_words [OF assms False]
  have "off + l \<le> int (length (last (arrays m)))" using assms(1) c(3) by (simp add: mem_ok_def)
  then show ?thesis using c by (simp add: mem_GetCopy_def)
qed

lemma mem_Set_ok:
  assumes "mem_ok m" "covers m off l"
  obtains m1 where "mem_Set (big_Uint64 off) (big_Uint64 l) v m = Inr m1" "mem_ok m1" "store_len m1 = store_len m"
    "lastGasCost m1 = lastGasCost m"
proof (cases "l = 0")
  case True
  then show ?thesis using that [of m] assms(1) by (simp add: mem_Set_def big_Uint64_def)
next
  case False
  note c = covers_small [OF assms False] covers_words [OF assms False]
  have sl: "unat (word_of_nat (store_len m) :: u64) = store_len m"
    using assms(1) by (simp add: mem_ok_def unat_of_store)
  have le: "nat off + nat l \<le> store_len m" using c by linarith
  have "mem_Set (big_Uint64 off) (big_Uint64 l) v m = Inr (store_copy (nat off) (nat l) v m)"
    using c sl le by (simp add: mem_Set_def word_less_nat_alt)
  then show ?thesis using that store_copy_ok [OF assms(1) le] by blast
qed

lemma mem_Set32_ok:
  assumes "mem_ok m" "covers m off 32"
  obtains m1 where "mem_Set32 (big_Uint64 off) v m = Inr m1" "mem_ok m1" "store_len m1 = store_len m"
    "lastGasCost m1 = lastGasCost m"
    "m1 = store_copy (nat off) 32 (ReadBits v (replicate 32 0)) m"
proof -
  note c = covers_small [OF assms] covers_words [OF assms]
  have sl: "unat (word_of_nat (store_len m) :: u64) = store_len m"
    using assms(1) by (simp add: mem_ok_def unat_of_store)
  have le: "nat off + 32 \<le> store_len m" using c by simp
  have u: "unat (big_Uint64 off + 32) = nat off + 32" using c by (simp add: unat_word_ariths)
  have "mem_Set32 (big_Uint64 off) v m = Inr (store_copy (nat off) 32 (ReadBits v (replicate 32 0)) m)"
    using c(5) sl le u by (simp add: mem_Set32_def word_less_nat_alt)
  then show ?thesis using that store_copy_ok [OF assms(1) le] by blast
qed

lemma mem_Set8_ok:
  assumes "mem_ok m" "covers m off 1"
  obtains m1 where "mem_Set8 (big_Int64 off) b m = Inr m1" "mem_ok m1" "store_len m1 = store_len m"
    "lastGasCost m1 = lastGasCost m"
proof -
  note c = covers_small [OF assms] covers_words [OF assms]
  have le: "nat off + 1 \<le> store_len m" using c by simp
  have "mem_Set8 (big_Int64 off) b m = Inr (store_copy (nat off) 1 [b] m)" using c by (simp add: mem_Set8_def)
  then show ?thesis using that store_copy_ok [OF assms(1) le] by blast
qed

end
