(* ===== verification/EvmTable.thy ===== *)
theory EvmTable
  imports EvmMemory
begin

text \<open>
  The instruction tables (src/core/vm/jump_table.go, eips.go, stack_table.go). An entry names its execution
  function, gas function and memory function by constructors of datatypes; the functions themselves are
  \<open>execute\<close>, \<open>dynamic_gas\<close> and \<open>memory_size\<close>. Each table is well-formed (\<open>op_wf\<close>): the stack bounds fit what the
  function takes and leaves, the memory size and gas functions belong to it, every instruction after which
  execution goes on costs gas, and instructions that change the state are marked as writing.
\<close>

section \<open>Operations\<close>

text \<open>
  The functions an entry may name, with the arithmetic ones and the ones that push a value of the
  environment apart; \<open>InstrNil\<close> is the nil function of an unused entry.
\<close>

datatype arith_instr =
    InstrAdd | InstrSub | InstrMul | InstrDiv | InstrSdiv | InstrMod | InstrSmod | InstrExp
  | InstrSignExtend | InstrLt | InstrGt | InstrSlt | InstrSgt | InstrEq | InstrAnd | InstrOr
  | InstrXor | InstrByte | InstrSHL | InstrSHR | InstrSAR | InstrAddmod | InstrMulmod | InstrNot
  | InstrIszero

datatype environ_instr =
    InstrAddress | InstrBalance | InstrOrigin | InstrCaller | InstrCallValue | InstrCallDataLoad
  | InstrCallDataSize | InstrCodeSize | InstrGasprice | InstrExtCodeSize | InstrExtCodeHash
  | InstrBlockhash | InstrCoinbase | InstrTimestamp | InstrNumber | InstrDifficulty | InstrGasLimit
  | InstrSelfBalance | InstrChainID | InstrReturnDataSize | InstrPc | InstrMsize | InstrGas

datatype executionFunc =
    InstrNil | Arith arith_instr | Environ environ_instr
  | InstrCreate2 | InstrStaticCall | InstrReturnDataCopy | InstrRevert | InstrDelegateCall | InstrStop
  | InstrSha3 | InstrCallDataCopy | InstrCodeCopy | InstrExtCodeCopy | InstrPop | InstrMload
  | InstrMstore | InstrMstore8 | InstrSload | InstrSstore | InstrJump | InstrJumpi | InstrJumpdest
  | InstrPush1 | InstrPush u64 nat | InstrDup nat | InstrSwap nat | InstrLog nat | InstrCreate
  | InstrCall | InstrCallCode | InstrReturn | InstrSuicide

text \<open>
  \<open>gasReturn\<close>, \<open>gasRevert\<close>, \<open>gasMLoad\<close>, \<open>gasMStore8\<close>, \<open>gasMStore\<close> and \<open>gasCreate\<close> are \<open>pureMemoryGascost\<close>; the gas of the
  copying instructions is \<open>memoryCopierGas\<close> of the stack position of the length.
\<close>

datatype gasFunc =
    PureMemoryGascost | MemoryCopierGas nat | GasSStore | GasSStoreEIP2200 | MakeGasLog u64 | GasSha3 | GasCreate2
  | GasExpFrontier | GasExpEIP158 | GasCall | GasCallCode | GasDelegateCall | GasStaticCall | GasSelfdestruct

abbreviation (input) gasCallDataCopy :: gasFunc where "gasCallDataCopy \<equiv> MemoryCopierGas 2"
abbreviation (input) gasCodeCopy :: gasFunc where "gasCodeCopy \<equiv> MemoryCopierGas 2"
abbreviation (input) gasExtCodeCopy :: gasFunc where "gasExtCodeCopy \<equiv> MemoryCopierGas 3"
abbreviation (input) gasReturnDataCopy :: gasFunc where "gasReturnDataCopy \<equiv> MemoryCopierGas 2"
abbreviation (input) gasReturn :: gasFunc where "gasReturn \<equiv> PureMemoryGascost"
abbreviation (input) gasRevert :: gasFunc where "gasRevert \<equiv> PureMemoryGascost"
abbreviation (input) gasMLoad :: gasFunc where "gasMLoad \<equiv> PureMemoryGascost"
abbreviation (input) gasMStore8 :: gasFunc where "gasMStore8 \<equiv> PureMemoryGascost"
abbreviation (input) gasMStore :: gasFunc where "gasMStore \<equiv> PureMemoryGascost"
abbreviation (input) gasCreate :: gasFunc where "gasCreate \<equiv> PureMemoryGascost"

record operation =
  op_execute :: executionFunc
  op_constantGas :: u64
  op_dynamicGas :: "gasFunc option"
  op_minStack :: nat
  op_maxStack :: nat
  op_memorySize :: "memorySizeFunc option"
  op_halts :: bool
  op_jumps :: bool
  op_writes :: bool
  op_valid :: bool
  op_reverts :: bool
  op_returns :: bool

definition zero_operation :: operation where
  "zero_operation = \<lparr>op_execute = InstrNil, op_constantGas = 0, op_dynamicGas = None, op_minStack = 0, op_maxStack = 0,
     op_memorySize = None, op_halts = False, op_jumps = False, op_writes = False, op_valid = False,
     op_reverts = False, op_returns = False\<rparr>"

type_synonym JumpTable = "byte \<Rightarrow> operation"

definition table_of :: "(byte \<times> operation) list \<Rightarrow> JumpTable" where
  "table_of rows b = (case map_of rows b of Some p \<Rightarrow> p | None \<Rightarrow> zero_operation)"

section \<open>Stack bounds\<close>

definition minStack :: "nat \<Rightarrow> nat \<Rightarrow> nat" where
  "minStack pops push = pops"

definition maxStack :: "nat \<Rightarrow> nat \<Rightarrow> nat" where
  "maxStack pops push = StackLimit + pops - push"

definition minSwapStack :: "nat \<Rightarrow> nat" where
  "minSwapStack n = minStack n n"

definition maxSwapStack :: "nat \<Rightarrow> nat" where
  "maxSwapStack n = maxStack n n"

definition minDupStack :: "nat \<Rightarrow> nat" where
  "minDupStack n = minStack n (n + 1)"

definition maxDupStack :: "nat \<Rightarrow> nat" where
  "maxDupStack n = maxStack n (n + 1)"

section \<open>The frontier instruction set\<close>

definition frontier_arithmetic :: "(byte \<times> operation) list" where
  "frontier_arithmetic = [
     (STOP, zero_operation\<lparr>op_execute := InstrStop, op_constantGas := 0, op_minStack := minStack 0 0,
       op_maxStack := maxStack 0 0, op_halts := True, op_valid := True\<rparr>),
     (ADD, zero_operation\<lparr>op_execute := Arith InstrAdd, op_constantGas := GasFastestStep, op_minStack := minStack 2 1,
       op_maxStack := maxStack 2 1, op_valid := True\<rparr>),
     (MUL, zero_operation\<lparr>op_execute := Arith InstrMul, op_constantGas := GasFastStep, op_minStack := minStack 2 1,
       op_maxStack := maxStack 2 1, op_valid := True\<rparr>),
     (SUB, zero_operation\<lparr>op_execute := Arith InstrSub, op_constantGas := GasFastestStep, op_minStack := minStack 2 1,
       op_maxStack := maxStack 2 1, op_valid := True\<rparr>),
     (DIV, zero_operation\<lparr>op_execute := Arith InstrDiv, op_constantGas := GasFastStep, op_minStack := minStack 2 1,
       op_maxStack := maxStack 2 1, op_valid := True\<rparr>),
     (SDIV, zero_operation\<lparr>op_execute := Arith InstrSdiv, op_constantGas := GasFastStep, op_minStack := minStack 2 1,
       op_maxStack := maxStack 2 1, op_valid := True\<rparr>),
     (MOD, zero_operation\<lparr>op_execute := Arith InstrMod, op_constantGas := GasFastStep, op_minStack := minStack 2 1,
       op_maxStack := maxStack 2 1, op_valid := True\<rparr>),
     (SMOD, zero_operation\<lparr>op_execute := Arith InstrSmod, op_constantGas := GasFastStep, op_minStack := minStack 2 1,
       op_maxStack := maxStack 2 1, op_valid := True\<rparr>),
     (ADDMOD, zero_operation\<lparr>op_execute := Arith InstrAddmod, op_constantGas := GasMidStep, op_minStack := minStack 3 1,
       op_maxStack := maxStack 3 1, op_valid := True\<rparr>),
     (MULMOD, zero_operation\<lparr>op_execute := Arith InstrMulmod, op_constantGas := GasMidStep, op_minStack := minStack 3 1,
       op_maxStack := maxStack 3 1, op_valid := True\<rparr>),
     (EXP, zero_operation\<lparr>op_execute := Arith InstrExp, op_dynamicGas := Some GasExpFrontier,
       op_minStack := minStack 2 1, op_maxStack := maxStack 2 1, op_valid := True\<rparr>),
     (SIGNEXTEND, zero_operation\<lparr>op_execute := Arith InstrSignExtend, op_constantGas := GasFastStep,
       op_minStack := minStack 2 1, op_maxStack := maxStack 2 1, op_valid := True\<rparr>)]"

definition frontier_comparison :: "(byte \<times> operation) list" where
  "frontier_comparison = [
     (LT, zero_operation\<lparr>op_execute := Arith InstrLt, op_constantGas := GasFastestStep, op_minStack := minStack 2 1,
       op_maxStack := maxStack 2 1, op_valid := True\<rparr>),
     (GT, zero_operation\<lparr>op_execute := Arith InstrGt, op_constantGas := GasFastestStep, op_minStack := minStack 2 1,
       op_maxStack := maxStack 2 1, op_valid := True\<rparr>),
     (SLT, zero_operation\<lparr>op_execute := Arith InstrSlt, op_constantGas := GasFastestStep, op_minStack := minStack 2 1,
       op_maxStack := maxStack 2 1, op_valid := True\<rparr>),
     (SGT, zero_operation\<lparr>op_execute := Arith InstrSgt, op_constantGas := GasFastestStep, op_minStack := minStack 2 1,
       op_maxStack := maxStack 2 1, op_valid := True\<rparr>),
     (EQ, zero_operation\<lparr>op_execute := Arith InstrEq, op_constantGas := GasFastestStep, op_minStack := minStack 2 1,
       op_maxStack := maxStack 2 1, op_valid := True\<rparr>),
     (ISZERO, zero_operation\<lparr>op_execute := Arith InstrIszero, op_constantGas := GasFastestStep,
       op_minStack := minStack 1 1, op_maxStack := maxStack 1 1, op_valid := True\<rparr>),
     (ANDop, zero_operation\<lparr>op_execute := Arith InstrAnd, op_constantGas := GasFastestStep, op_minStack := minStack 2 1,
       op_maxStack := maxStack 2 1, op_valid := True\<rparr>),
     (XORop, zero_operation\<lparr>op_execute := Arith InstrXor, op_constantGas := GasFastestStep, op_minStack := minStack 2 1,
       op_maxStack := maxStack 2 1, op_valid := True\<rparr>),
     (ORop, zero_operation\<lparr>op_execute := Arith InstrOr, op_constantGas := GasFastestStep, op_minStack := minStack 2 1,
       op_maxStack := maxStack 2 1, op_valid := True\<rparr>),
     (NOTop, zero_operation\<lparr>op_execute := Arith InstrNot, op_constantGas := GasFastestStep, op_minStack := minStack 1 1,
       op_maxStack := maxStack 1 1, op_valid := True\<rparr>),
     (BYTE, zero_operation\<lparr>op_execute := Arith InstrByte, op_constantGas := GasFastestStep, op_minStack := minStack 2 1,
       op_maxStack := maxStack 2 1, op_valid := True\<rparr>)]"

definition frontier_closure :: "(byte \<times> operation) list" where
  "frontier_closure = [
     (SHA3, zero_operation\<lparr>op_execute := InstrSha3, op_constantGas := Sha3Gas, op_dynamicGas := Some GasSha3,
       op_minStack := minStack 2 1, op_maxStack := maxStack 2 1, op_memorySize := Some memorySha3,
       op_valid := True\<rparr>),
     (ADDRESS, zero_operation\<lparr>op_execute := Environ InstrAddress, op_constantGas := GasQuickStep,
       op_minStack := minStack 0 1, op_maxStack := maxStack 0 1, op_valid := True\<rparr>),
     (BALANCE, zero_operation\<lparr>op_execute := Environ InstrBalance, op_constantGas := BalanceGasFrontier,
       op_minStack := minStack 1 1, op_maxStack := maxStack 1 1, op_valid := True\<rparr>),
     (ORIGIN, zero_operation\<lparr>op_execute := Environ InstrOrigin, op_constantGas := GasQuickStep, op_minStack := minStack 0 1,
       op_maxStack := maxStack 0 1, op_valid := True\<rparr>),
     (CALLER, zero_operation\<lparr>op_execute := Environ InstrCaller, op_constantGas := GasQuickStep, op_minStack := minStack 0 1,
       op_maxStack := maxStack 0 1, op_valid := True\<rparr>),
     (CALLVALUE, zero_operation\<lparr>op_execute := Environ InstrCallValue, op_constantGas := GasQuickStep,
       op_minStack := minStack 0 1, op_maxStack := maxStack 0 1, op_valid := True\<rparr>),
     (CALLDATALOAD, zero_operation\<lparr>op_execute := Environ InstrCallDataLoad, op_constantGas := GasFastestStep,
       op_minStack := minStack 1 1, op_maxStack := maxStack 1 1, op_valid := True\<rparr>),
     (CALLDATASIZE, zero_operation\<lparr>op_execute := Environ InstrCallDataSize, op_constantGas := GasQuickStep,
       op_minStack := minStack 0 1, op_maxStack := maxStack 0 1, op_valid := True\<rparr>),
     (CALLDATACOPY, zero_operation\<lparr>op_execute := InstrCallDataCopy, op_constantGas := GasFastestStep,
       op_dynamicGas := Some gasCallDataCopy, op_minStack := minStack 3 0,
       op_maxStack := maxStack 3 0, op_memorySize := Some memoryCallDataCopy,
       op_valid := True\<rparr>),
     (CODESIZE, zero_operation\<lparr>op_execute := Environ InstrCodeSize, op_constantGas := GasQuickStep,
       op_minStack := minStack 0 1, op_maxStack := maxStack 0 1, op_valid := True\<rparr>),
     (CODECOPY, zero_operation\<lparr>op_execute := InstrCodeCopy, op_constantGas := GasFastestStep,
       op_dynamicGas := Some gasCodeCopy, op_minStack := minStack 3 0, op_maxStack := maxStack 3 0,
       op_memorySize := Some memoryCodeCopy, op_valid := True\<rparr>),
     (GASPRICE, zero_operation\<lparr>op_execute := Environ InstrGasprice, op_constantGas := GasQuickStep,
       op_minStack := minStack 0 1, op_maxStack := maxStack 0 1, op_valid := True\<rparr>),
     (EXTCODESIZE, zero_operation\<lparr>op_execute := Environ InstrExtCodeSize, op_constantGas := ExtcodeSizeGasFrontier,
       op_minStack := minStack 1 1, op_maxStack := maxStack 1 1, op_valid := True\<rparr>),
     (EXTCODECOPY, zero_operation\<lparr>op_execute := InstrExtCodeCopy, op_constantGas := ExtcodeCopyBaseFrontier,
       op_dynamicGas := Some gasExtCodeCopy, op_minStack := minStack 4 0,
       op_maxStack := maxStack 4 0, op_memorySize := Some memoryExtCodeCopy,
       op_valid := True\<rparr>)]"

definition frontier_block :: "(byte \<times> operation) list" where
  "frontier_block = [
     (BLOCKHASH, zero_operation\<lparr>op_execute := Environ InstrBlockhash, op_constantGas := GasExtStep,
       op_minStack := minStack 1 1, op_maxStack := maxStack 1 1, op_valid := True\<rparr>),
     (COINBASE, zero_operation\<lparr>op_execute := Environ InstrCoinbase, op_constantGas := GasQuickStep,
       op_minStack := minStack 0 1, op_maxStack := maxStack 0 1, op_valid := True\<rparr>),
     (TIMESTAMP, zero_operation\<lparr>op_execute := Environ InstrTimestamp, op_constantGas := GasQuickStep,
       op_minStack := minStack 0 1, op_maxStack := maxStack 0 1, op_valid := True\<rparr>),
     (NUMBER, zero_operation\<lparr>op_execute := Environ InstrNumber, op_constantGas := GasQuickStep, op_minStack := minStack 0 1,
       op_maxStack := maxStack 0 1, op_valid := True\<rparr>),
     (DIFFICULTY, zero_operation\<lparr>op_execute := Environ InstrDifficulty, op_constantGas := GasQuickStep,
       op_minStack := minStack 0 1, op_maxStack := maxStack 0 1, op_valid := True\<rparr>),
     (GASLIMIT, zero_operation\<lparr>op_execute := Environ InstrGasLimit, op_constantGas := GasQuickStep,
       op_minStack := minStack 0 1, op_maxStack := maxStack 0 1, op_valid := True\<rparr>)]"

definition frontier_storage :: "(byte \<times> operation) list" where
  "frontier_storage = [
     (POP, zero_operation\<lparr>op_execute := InstrPop, op_constantGas := GasQuickStep, op_minStack := minStack 1 0,
       op_maxStack := maxStack 1 0, op_valid := True\<rparr>),
     (MLOAD, zero_operation\<lparr>op_execute := InstrMload, op_constantGas := GasFastestStep,
       op_dynamicGas := Some gasMLoad, op_minStack := minStack 1 1, op_maxStack := maxStack 1 1,
       op_memorySize := Some memoryMLoad, op_valid := True\<rparr>),
     (MSTORE, zero_operation\<lparr>op_execute := InstrMstore, op_constantGas := GasFastestStep,
       op_dynamicGas := Some gasMStore, op_minStack := minStack 2 0, op_maxStack := maxStack 2 0,
       op_memorySize := Some memoryMStore, op_valid := True\<rparr>),
     (MSTORE8, zero_operation\<lparr>op_execute := InstrMstore8, op_constantGas := GasFastestStep,
       op_dynamicGas := Some gasMStore8, op_memorySize := Some memoryMStore8,
       op_minStack := minStack 2 0, op_maxStack := maxStack 2 0, op_valid := True\<rparr>),
     (SLOAD, zero_operation\<lparr>op_execute := InstrSload, op_constantGas := SloadGasFrontier,
       op_minStack := minStack 1 1, op_maxStack := maxStack 1 1, op_valid := True\<rparr>),
     (SSTORE, zero_operation\<lparr>op_execute := InstrSstore, op_dynamicGas := Some GasSStore,
       op_minStack := minStack 2 0, op_maxStack := maxStack 2 0, op_valid := True,
       op_writes := True\<rparr>),
     (JUMP, zero_operation\<lparr>op_execute := InstrJump, op_constantGas := GasMidStep, op_minStack := minStack 1 0,
       op_maxStack := maxStack 1 0, op_jumps := True, op_valid := True\<rparr>),
     (JUMPI, zero_operation\<lparr>op_execute := InstrJumpi, op_constantGas := GasSlowStep, op_minStack := minStack 2 0,
       op_maxStack := maxStack 2 0, op_jumps := True, op_valid := True\<rparr>),
     (PC, zero_operation\<lparr>op_execute := Environ InstrPc, op_constantGas := GasQuickStep, op_minStack := minStack 0 1,
       op_maxStack := maxStack 0 1, op_valid := True\<rparr>),
     (MSIZE, zero_operation\<lparr>op_execute := Environ InstrMsize, op_constantGas := GasQuickStep, op_minStack := minStack 0 1,
       op_maxStack := maxStack 0 1, op_valid := True\<rparr>),
     (GAS, zero_operation\<lparr>op_execute := Environ InstrGas, op_constantGas := GasQuickStep, op_minStack := minStack 0 1,
       op_maxStack := maxStack 0 1, op_valid := True\<rparr>),
     (JUMPDEST, zero_operation\<lparr>op_execute := InstrJumpdest, op_constantGas := JumpdestGas,
       op_minStack := minStack 0 0, op_maxStack := maxStack 0 0, op_valid := True\<rparr>)]"

text \<open>The entries of a family differ in the number only.\<close>

definition push_entry :: "nat \<Rightarrow> byte \<times> operation" where
  "push_entry n = (PUSH1 + (word_of_nat n - 1),
     zero_operation\<lparr>op_execute := (if n = 1 then InstrPush1 else InstrPush (word_of_nat n) n), op_constantGas := GasFastestStep,
       op_minStack := minStack 0 1, op_maxStack := maxStack 0 1, op_valid := True\<rparr>)"

definition dup_entry :: "nat \<Rightarrow> byte \<times> operation" where
  "dup_entry n = (DUP1 + (word_of_nat n - 1),
     zero_operation\<lparr>op_execute := InstrDup n, op_constantGas := GasFastestStep, op_minStack := minDupStack n,
       op_maxStack := maxDupStack n, op_valid := True\<rparr>)"

definition swap_entry :: "nat \<Rightarrow> byte \<times> operation" where
  "swap_entry n = (SWAP1 + (word_of_nat n - 1),
     zero_operation\<lparr>op_execute := InstrSwap n, op_constantGas := GasFastestStep, op_minStack := minSwapStack (n + 1),
       op_maxStack := maxSwapStack (n + 1), op_valid := True\<rparr>)"

definition log_entry :: "nat \<Rightarrow> byte \<times> operation" where
  "log_entry n = (LOG0 + word_of_nat n,
     zero_operation\<lparr>op_execute := InstrLog n, op_dynamicGas := Some (MakeGasLog (word_of_nat n)),
       op_minStack := minStack (n + 2) 0, op_maxStack := maxStack (n + 2) 0, op_memorySize := Some memoryLog,
       op_valid := True, op_writes := True\<rparr>)"

definition frontier_push_lo :: "(byte \<times> operation) list" where
  "frontier_push_lo = map push_entry [1, 2, 3, 4, 5, 6, 7, 8, 9, 10, 11, 12, 13, 14, 15, 16]"

definition frontier_push_hi :: "(byte \<times> operation) list" where
  "frontier_push_hi = map push_entry [17, 18, 19, 20, 21, 22, 23, 24, 25, 26, 27, 28, 29, 30, 31, 32]"

definition frontier_dup :: "(byte \<times> operation) list" where
  "frontier_dup = map dup_entry [1, 2, 3, 4, 5, 6, 7, 8, 9, 10, 11, 12, 13, 14, 15, 16]"

definition frontier_swap :: "(byte \<times> operation) list" where
  "frontier_swap = map swap_entry [1, 2, 3, 4, 5, 6, 7, 8, 9, 10, 11, 12, 13, 14, 15, 16]"

definition frontier_log :: "(byte \<times> operation) list" where
  "frontier_log = map log_entry [0, 1, 2, 3, 4]"

definition frontier_system :: "(byte \<times> operation) list" where
  "frontier_system = [
     (CREATE, zero_operation\<lparr>op_execute := InstrCreate, op_constantGas := CreateGas,
       op_dynamicGas := Some gasCreate, op_minStack := minStack 3 1, op_maxStack := maxStack 3 1,
       op_memorySize := Some memoryCreate, op_valid := True, op_writes := True,
       op_returns := True\<rparr>),
     (CALL, zero_operation\<lparr>op_execute := InstrCall, op_constantGas := CallGasFrontier,
       op_dynamicGas := Some GasCall, op_minStack := minStack 7 1, op_maxStack := maxStack 7 1,
       op_memorySize := Some memoryCall, op_valid := True, op_returns := True\<rparr>),
     (CALLCODE, zero_operation\<lparr>op_execute := InstrCallCode, op_constantGas := CallGasFrontier,
       op_dynamicGas := Some GasCallCode, op_minStack := minStack 7 1, op_maxStack := maxStack 7 1,
       op_memorySize := Some memoryCall, op_valid := True, op_returns := True\<rparr>),
     (RETURN, zero_operation\<lparr>op_execute := InstrReturn, op_dynamicGas := Some gasReturn,
       op_minStack := minStack 2 0, op_maxStack := maxStack 2 0,
       op_memorySize := Some memoryReturn, op_halts := True, op_valid := True\<rparr>),
     (SELFDESTRUCT, zero_operation\<lparr>op_execute := InstrSuicide, op_dynamicGas := Some GasSelfdestruct,
       op_minStack := minStack 1 0, op_maxStack := maxStack 1 0, op_halts := True,
       op_valid := True, op_writes := True\<rparr>)]"

definition newFrontierInstructionSet :: JumpTable where
  "newFrontierInstructionSet = table_of (frontier_arithmetic @ frontier_comparison @ frontier_closure @ frontier_block @
     frontier_storage @ frontier_push_lo @ frontier_push_hi @ frontier_dup @ frontier_swap @ frontier_log @ frontier_system)"

section \<open>Later instruction sets\<close>

definition newHomesteadInstructionSet :: JumpTable where
  "newHomesteadInstructionSet = newFrontierInstructionSet(DELEGATECALL := zero_operation\<lparr>op_execute := InstrDelegateCall, op_dynamicGas := Some GasDelegateCall,
       op_constantGas := CallGasFrontier, op_minStack := minStack 6 1, op_maxStack := maxStack 6 1,
       op_memorySize := Some memoryDelegateCall, op_valid := True, op_returns := True\<rparr>)"

text \<open>\<open>instructionSet[op].constantGas = gas\<close>\<close>

definition set_constantGas :: "byte \<Rightarrow> u64 \<Rightarrow> JumpTable \<Rightarrow> JumpTable" where
  "set_constantGas b gas jt = jt(b := (jt b)\<lparr>op_constantGas := gas\<rparr>)"

definition newTangerineWhistleInstructionSet :: JumpTable where
  "newTangerineWhistleInstructionSet =
    set_constantGas DELEGATECALL CallGasEIP150 (set_constantGas CALLCODE CallGasEIP150 (set_constantGas CALL CallGasEIP150
     (set_constantGas EXTCODECOPY ExtcodeCopyBaseEIP150 (set_constantGas SLOAD SloadGasEIP150
      (set_constantGas EXTCODESIZE ExtcodeSizeGasEIP150 (set_constantGas BALANCE BalanceGasEIP150 newHomesteadInstructionSet))))))"

definition newSpuriousDragonInstructionSet :: JumpTable where
  "newSpuriousDragonInstructionSet =
    newTangerineWhistleInstructionSet(EXP := (newTangerineWhistleInstructionSet EXP)\<lparr>op_dynamicGas := Some GasExpEIP158\<rparr>)"

definition newByzantiumInstructionSet :: JumpTable where
  "newByzantiumInstructionSet = newSpuriousDragonInstructionSet(STATICCALL := zero_operation\<lparr>op_execute := InstrStaticCall, op_constantGas := CallGasEIP150,
       op_dynamicGas := Some GasStaticCall, op_minStack := minStack 6 1,
       op_maxStack := maxStack 6 1, op_memorySize := Some memoryStaticCall, op_valid := True,
       op_returns := True\<rparr>,
     RETURNDATASIZE := zero_operation\<lparr>op_execute := Environ InstrReturnDataSize, op_constantGas := GasQuickStep,
       op_minStack := minStack 0 1, op_maxStack := maxStack 0 1, op_valid := True\<rparr>,
     RETURNDATACOPY := zero_operation\<lparr>op_execute := InstrReturnDataCopy, op_constantGas := GasFastestStep,
       op_dynamicGas := Some gasReturnDataCopy, op_minStack := minStack 3 0,
       op_maxStack := maxStack 3 0, op_memorySize := Some memoryReturnDataCopy,
       op_valid := True\<rparr>,
     REVERT := zero_operation\<lparr>op_execute := InstrRevert, op_dynamicGas := Some gasRevert,
       op_minStack := minStack 2 0, op_maxStack := maxStack 2 0,
       op_memorySize := Some memoryRevert, op_valid := True, op_reverts := True,
       op_returns := True\<rparr>)"

definition newConstantinopleInstructionSet :: JumpTable where
  "newConstantinopleInstructionSet = newByzantiumInstructionSet(SHL := zero_operation\<lparr>op_execute := Arith InstrSHL, op_constantGas := GasFastestStep, op_minStack := minStack 2 1,
       op_maxStack := maxStack 2 1, op_valid := True\<rparr>,
     SHR := zero_operation\<lparr>op_execute := Arith InstrSHR, op_constantGas := GasFastestStep, op_minStack := minStack 2 1,
       op_maxStack := maxStack 2 1, op_valid := True\<rparr>,
     SAR := zero_operation\<lparr>op_execute := Arith InstrSAR, op_constantGas := GasFastestStep, op_minStack := minStack 2 1,
       op_maxStack := maxStack 2 1, op_valid := True\<rparr>,
     EXTCODEHASH := zero_operation\<lparr>op_execute := Environ InstrExtCodeHash, op_constantGas := ExtcodeHashGasConstantinople,
       op_minStack := minStack 1 1, op_maxStack := maxStack 1 1, op_valid := True\<rparr>,
     CREATE2 := zero_operation\<lparr>op_execute := InstrCreate2, op_constantGas := Create2Gas,
       op_dynamicGas := Some GasCreate2, op_minStack := minStack 4 1, op_maxStack := maxStack 4 1,
       op_memorySize := Some memoryCreate2, op_valid := True, op_writes := True,
       op_returns := True\<rparr>)"

definition enable1884 :: "JumpTable \<Rightarrow> JumpTable" where
  "enable1884 jt =
    (set_constantGas EXTCODEHASH ExtcodeHashGasEIP1884 (set_constantGas BALANCE BalanceGasEIP1884
      (set_constantGas SLOAD SloadGasEIP1884 jt)))
     (SELFBALANCE := zero_operation\<lparr>op_execute := Environ InstrSelfBalance, op_constantGas := GasFastStep,
        op_minStack := minStack 0 1, op_maxStack := maxStack 0 1, op_valid := True\<rparr>)"

definition enable1344 :: "JumpTable \<Rightarrow> JumpTable" where
  "enable1344 jt = jt(CHAINID := zero_operation\<lparr>op_execute := Environ InstrChainID, op_constantGas := GasQuickStep,
     op_minStack := minStack 0 1, op_maxStack := maxStack 0 1, op_valid := True\<rparr>)"

definition enable2200 :: "JumpTable \<Rightarrow> JumpTable" where
  "enable2200 jt =
    (let jt1 = set_constantGas SLOAD SloadGasEIP2200 jt in jt1(SSTORE := (jt1 SSTORE)\<lparr>op_dynamicGas := Some GasSStoreEIP2200\<rparr>))"

text \<open>An unknown number leaves the table as it is; the error is logged.\<close>

definition EnableEIP :: "int \<Rightarrow> JumpTable \<Rightarrow> JumpTable option" where
  "EnableEIP eipNum jt =
    (if eipNum = 2200 then Some (enable2200 jt)
     else if eipNum = 1884 then Some (enable1884 jt)
     else if eipNum = 1344 then Some (enable1344 jt)
     else None)"

definition newIstanbulInstructionSet :: JumpTable where
  "newIstanbulInstructionSet = enable2200 (enable1884 (enable1344 newConstantinopleInstructionSet))"

section \<open>Well-formed tables\<close>

text \<open>What each instruction takes from the stack and leaves on it, and the functions that belong to it.\<close>

fun arith_arity :: "arith_instr \<Rightarrow> nat" where
  "arith_arity InstrAddmod = 3"
| "arith_arity InstrMulmod = 3"
| "arith_arity InstrNot = 1"
| "arith_arity InstrIszero = 1"
| "arith_arity _ = 2"

definition environ_arity :: "environ_instr \<Rightarrow> nat" where
  "environ_arity e =
    (if e \<in> {InstrBalance, InstrCallDataLoad, InstrExtCodeSize, InstrExtCodeHash, InstrBlockhash} then 1 else 0)"

fun instr_stack :: "executionFunc \<Rightarrow> nat \<times> nat" where
  "instr_stack (Arith a) = (arith_arity a, 1)"
| "instr_stack (Environ e) = (environ_arity e, 1)"
| "instr_stack InstrCreate2 = (4, 1)"
| "instr_stack InstrCreate = (3, 1)"
| "instr_stack InstrStaticCall = (6, 1)"
| "instr_stack InstrDelegateCall = (6, 1)"
| "instr_stack InstrCall = (7, 1)"
| "instr_stack InstrCallCode = (7, 1)"
| "instr_stack InstrReturnDataCopy = (3, 0)"
| "instr_stack InstrCallDataCopy = (3, 0)"
| "instr_stack InstrCodeCopy = (3, 0)"
| "instr_stack InstrExtCodeCopy = (4, 0)"
| "instr_stack InstrReturn = (2, 0)"
| "instr_stack InstrRevert = (2, 0)"
| "instr_stack InstrSha3 = (2, 1)"
| "instr_stack InstrPop = (1, 0)"
| "instr_stack InstrMload = (1, 1)"
| "instr_stack InstrMstore = (2, 0)"
| "instr_stack InstrMstore8 = (2, 0)"
| "instr_stack InstrSload = (1, 1)"
| "instr_stack InstrSstore = (2, 0)"
| "instr_stack InstrJump = (1, 0)"
| "instr_stack InstrJumpi = (2, 0)"
| "instr_stack InstrPush1 = (0, 1)"
| "instr_stack (InstrPush _ _) = (0, 1)"
| "instr_stack (InstrDup n) = (n, n + 1)"
| "instr_stack (InstrSwap n) = (n + 1, n + 1)"
| "instr_stack (InstrLog n) = (n + 2, 0)"
| "instr_stack InstrSuicide = (1, 0)"
| "instr_stack _ = (0, 0)"

fun instr_memory :: "executionFunc \<Rightarrow> memorySizeFunc option" where
  "instr_memory InstrCreate2 = Some memoryCreate2"
| "instr_memory InstrCreate = Some memoryCreate"
| "instr_memory InstrStaticCall = Some memoryStaticCall"
| "instr_memory InstrDelegateCall = Some memoryDelegateCall"
| "instr_memory InstrCall = Some memoryCall"
| "instr_memory InstrCallCode = Some memoryCall"
| "instr_memory InstrReturnDataCopy = Some memoryReturnDataCopy"
| "instr_memory InstrCallDataCopy = Some memoryCallDataCopy"
| "instr_memory InstrCodeCopy = Some memoryCodeCopy"
| "instr_memory InstrExtCodeCopy = Some memoryExtCodeCopy"
| "instr_memory InstrReturn = Some memoryReturn"
| "instr_memory InstrRevert = Some memoryRevert"
| "instr_memory InstrSha3 = Some memorySha3"
| "instr_memory InstrMload = Some memoryMLoad"
| "instr_memory InstrMstore = Some memoryMStore"
| "instr_memory InstrMstore8 = Some memoryMStore8"
| "instr_memory (InstrLog n) = Some memoryLog"
| "instr_memory _ = None"

fun instr_gas :: "executionFunc \<Rightarrow> gasFunc option list" where
  "instr_gas InstrCreate2 = [Some GasCreate2]"
| "instr_gas InstrCreate = [Some gasCreate]"
| "instr_gas InstrStaticCall = [Some GasStaticCall]"
| "instr_gas InstrDelegateCall = [Some GasDelegateCall]"
| "instr_gas InstrCall = [Some GasCall]"
| "instr_gas InstrCallCode = [Some GasCallCode]"
| "instr_gas InstrReturnDataCopy = [Some gasReturnDataCopy]"
| "instr_gas InstrCallDataCopy = [Some gasCallDataCopy]"
| "instr_gas InstrCodeCopy = [Some gasCodeCopy]"
| "instr_gas InstrExtCodeCopy = [Some gasExtCodeCopy]"
| "instr_gas InstrReturn = [Some gasReturn]"
| "instr_gas InstrRevert = [Some gasRevert]"
| "instr_gas InstrSha3 = [Some GasSha3]"
| "instr_gas InstrMload = [Some gasMLoad]"
| "instr_gas InstrMstore = [Some gasMStore]"
| "instr_gas InstrMstore8 = [Some gasMStore8]"
| "instr_gas (InstrLog n) = [Some (MakeGasLog (word_of_nat n))]"
| "instr_gas InstrSstore = [Some GasSStore, Some GasSStoreEIP2200]"
| "instr_gas (Arith InstrExp) = [Some GasExpFrontier, Some GasExpEIP158]"
| "instr_gas InstrSuicide = [Some GasSelfdestruct]"
| "instr_gas _ = [None]"

text \<open>Instructions whose gas function never returns zero.\<close>

definition gas_positive :: "executionFunc \<Rightarrow> bool" where
  "gas_positive e \<longleftrightarrow> e = InstrSstore \<or> e = Arith InstrExp \<or> (\<exists>n. e = InstrLog n)"

definition instr_writes :: "executionFunc \<Rightarrow> bool" where
  "instr_writes e \<longleftrightarrow> e = InstrSstore \<or> (\<exists>n. e = InstrLog n) \<or> e = InstrCreate \<or> e = InstrCreate2 \<or> e = InstrSuicide"

definition instr_calls :: "executionFunc \<Rightarrow> bool" where
  "instr_calls e \<longleftrightarrow> e \<in> {InstrCreate, InstrCreate2, InstrCall, InstrCallCode, InstrDelegateCall, InstrStaticCall}"

definition op_wf :: "byte \<Rightarrow> operation \<Rightarrow> bool" where
  "op_wf b p \<longleftrightarrow> op_valid p \<longrightarrow>
    op_execute p \<noteq> InstrNil \<and>
    op_minStack p = fst (instr_stack (op_execute p)) \<and>
    op_maxStack p + snd (instr_stack (op_execute p)) = 1024 + fst (instr_stack (op_execute p)) \<and>
    op_memorySize p = instr_memory (op_execute p) \<and>
    op_dynamicGas p \<in> set (instr_gas (op_execute p)) \<and>
    (op_halts p \<or> op_reverts p \<or> op_constantGas p > 0 \<or> gas_positive (op_execute p)) \<and>
    (instr_writes (op_execute p) \<longrightarrow> op_writes p) \<and>
    (op_halts p \<longleftrightarrow> op_execute p \<in> {InstrStop, InstrReturn, InstrSuicide}) \<and>
    (op_reverts p \<longleftrightarrow> op_execute p = InstrRevert) \<and>
    (op_jumps p \<longleftrightarrow> op_execute p \<in> {InstrJump, InstrJumpi}) \<and>
    (op_returns p \<longleftrightarrow> op_execute p = InstrRevert \<or> instr_calls (op_execute p)) \<and>
    (op_execute p = InstrCall \<longrightarrow> b = CALL) \<and>
    (op_execute p = InstrCreate2 \<or> instr_calls (op_execute p) \<longrightarrow> op_constantGas p > 0) \<and>
    (\<forall>n k. op_execute p = InstrPush n k \<longrightarrow> b \<noteq> 0 \<and> n = word_of_nat k \<and> k \<le> 32) \<and>
    (\<forall>n. op_execute p = InstrDup n \<longrightarrow> 1 \<le> n) \<and>
    (\<forall>n. op_execute p = InstrLog n \<longrightarrow> n \<le> 4)"

definition table_wf :: "JumpTable \<Rightarrow> bool" where
  "table_wf jt \<longleftrightarrow> (\<forall>b. op_wf b (jt b))"

lemmas stack_defs = minStack_def maxStack_def minSwapStack_def maxSwapStack_def minDupStack_def maxDupStack_def

lemmas op_wf_defs = op_wf_def zero_operation_def stack_defs environ_arity_def gas_positive_def instr_writes_def instr_calls_def

lemma frontier_wf:
  "list_all (\<lambda>(b, p). op_wf b p) frontier_arithmetic" "list_all (\<lambda>(b, p). op_wf b p) frontier_comparison"
  "list_all (\<lambda>(b, p). op_wf b p) frontier_closure" "list_all (\<lambda>(b, p). op_wf b p) frontier_block"
  "list_all (\<lambda>(b, p). op_wf b p) frontier_storage" "list_all (\<lambda>(b, p). op_wf b p) frontier_system"
  by (simp_all add: frontier_arithmetic_def frontier_comparison_def frontier_closure_def frontier_block_def
      frontier_storage_def frontier_system_def op_wf_defs)

lemma frontier_families_wf:
  "list_all (\<lambda>(b, p). op_wf b p) frontier_push_lo" "list_all (\<lambda>(b, p). op_wf b p) frontier_push_hi"
  "list_all (\<lambda>(b, p). op_wf b p) frontier_dup" "list_all (\<lambda>(b, p). op_wf b p) frontier_swap"
  "list_all (\<lambda>(b, p). op_wf b p) frontier_log"
  by (simp_all add: frontier_push_lo_def frontier_push_hi_def frontier_dup_def frontier_swap_def frontier_log_def
      push_entry_def dup_entry_def swap_entry_def log_entry_def op_wf_defs)

lemma zero_operation_wf [simp]: "op_wf b zero_operation"
  by (simp add: op_wf_def zero_operation_def)

lemma table_of_wf: "list_all (\<lambda>(b, p). op_wf b p) rows \<Longrightarrow> table_wf (table_of rows)"
  unfolding table_wf_def table_of_def by (auto simp: list_all_iff split: option.split dest: map_of_SomeD)

lemma table_upd_wf: "table_wf jt \<Longrightarrow> op_wf b p \<Longrightarrow> table_wf (jt(b := p))"
  by (simp add: table_wf_def)

lemma op_wf_constantGas: "op_wf b p \<Longrightarrow> gas > 0 \<Longrightarrow> op_wf b (p\<lparr>op_constantGas := gas\<rparr>)"
  by (simp add: op_wf_def)

lemma op_wf_sstore: "op_wf b p \<Longrightarrow> op_execute p = InstrSstore \<Longrightarrow> op_wf b (p\<lparr>op_dynamicGas := Some GasSStoreEIP2200\<rparr>)"
  by (simp add: op_wf_def gas_positive_def)

lemma set_constantGas_wf: "table_wf jt \<Longrightarrow> gas > 0 \<Longrightarrow> table_wf (set_constantGas b gas jt)"
  unfolding set_constantGas_def by (rule table_upd_wf) (simp_all add: table_wf_def op_wf_constantGas)

lemma newFrontierInstructionSet_wf: "table_wf newFrontierInstructionSet"
  unfolding newFrontierInstructionSet_def
  by (rule table_of_wf) (simp add: frontier_wf frontier_families_wf)

lemma newHomesteadInstructionSet_wf: "table_wf newHomesteadInstructionSet"
  unfolding newHomesteadInstructionSet_def
  by (intro table_upd_wf newFrontierInstructionSet_wf) (simp_all add: op_wf_defs)

lemma newTangerineWhistleInstructionSet_wf: "table_wf newTangerineWhistleInstructionSet"
  unfolding newTangerineWhistleInstructionSet_def
  by (intro set_constantGas_wf newHomesteadInstructionSet_wf) simp_all

lemma EXP_entry: "newTangerineWhistleInstructionSet EXP =
    zero_operation\<lparr>op_execute := Arith InstrExp, op_dynamicGas := Some GasExpFrontier, op_minStack := 2, op_maxStack := 1025, op_valid := True\<rparr>"
  by (simp add: newTangerineWhistleInstructionSet_def set_constantGas_def newHomesteadInstructionSet_def
      newFrontierInstructionSet_def table_of_def frontier_arithmetic_def stack_defs)

lemma newSpuriousDragonInstructionSet_wf: "table_wf newSpuriousDragonInstructionSet"
  unfolding newSpuriousDragonInstructionSet_def
  by (intro table_upd_wf newTangerineWhistleInstructionSet_wf) (simp add: EXP_entry op_wf_defs)

lemma newByzantiumInstructionSet_wf: "table_wf newByzantiumInstructionSet"
  unfolding newByzantiumInstructionSet_def
  by (intro table_upd_wf newSpuriousDragonInstructionSet_wf) (simp_all add: op_wf_defs)

lemma newConstantinopleInstructionSet_wf: "table_wf newConstantinopleInstructionSet"
  unfolding newConstantinopleInstructionSet_def
  by (intro table_upd_wf newByzantiumInstructionSet_wf) (simp_all add: op_wf_defs)

lemma enable1884_wf: "table_wf jt \<Longrightarrow> table_wf (enable1884 jt)"
  unfolding enable1884_def by (intro table_upd_wf set_constantGas_wf) (simp_all add: op_wf_defs)

lemma enable1344_wf: "table_wf jt \<Longrightarrow> table_wf (enable1344 jt)"
  unfolding enable1344_def by (intro table_upd_wf) (simp_all add: op_wf_defs)

definition sstore_entry :: "JumpTable \<Rightarrow> bool" where
  "sstore_entry jt \<longleftrightarrow> op_execute (jt SSTORE) = InstrSstore"

lemma enable2200_wf: "table_wf jt \<Longrightarrow> sstore_entry jt \<Longrightarrow> table_wf (enable2200 jt)"
  unfolding enable2200_def Let_def
  by (intro table_upd_wf set_constantGas_wf)
    (simp_all add: set_constantGas_def op_wf_sstore op_wf_constantGas sstore_entry_def table_wf_def)

lemma sstore_entry_eips: "sstore_entry jt \<Longrightarrow> sstore_entry (enable1884 jt)" "sstore_entry jt \<Longrightarrow> sstore_entry (enable1344 jt)"
  by (simp_all add: sstore_entry_def enable1884_def enable1344_def set_constantGas_def)

lemma sstore_entry_enable2200: "sstore_entry jt \<Longrightarrow> sstore_entry (enable2200 jt)"
  by (simp add: sstore_entry_def enable2200_def set_constantGas_def Let_def)

lemma sstore_entry_sets:
  "sstore_entry newFrontierInstructionSet" "sstore_entry newHomesteadInstructionSet"
  "sstore_entry newTangerineWhistleInstructionSet" "sstore_entry newSpuriousDragonInstructionSet"
  "sstore_entry newByzantiumInstructionSet" "sstore_entry newConstantinopleInstructionSet"
proof -
  show f: "sstore_entry newFrontierInstructionSet"
    by (simp add: sstore_entry_def newFrontierInstructionSet_def table_of_def frontier_arithmetic_def frontier_comparison_def
        frontier_closure_def frontier_block_def frontier_storage_def)
  show h: "sstore_entry newHomesteadInstructionSet" using f by (simp add: sstore_entry_def newHomesteadInstructionSet_def)
  show t: "sstore_entry newTangerineWhistleInstructionSet"
    using h by (simp add: sstore_entry_def newTangerineWhistleInstructionSet_def set_constantGas_def)
  show s: "sstore_entry newSpuriousDragonInstructionSet" using t by (simp add: sstore_entry_def newSpuriousDragonInstructionSet_def)
  show b: "sstore_entry newByzantiumInstructionSet" using s by (simp add: sstore_entry_def newByzantiumInstructionSet_def)
  show "sstore_entry newConstantinopleInstructionSet" using b by (simp add: sstore_entry_def newConstantinopleInstructionSet_def)
qed

lemma newIstanbulInstructionSet_wf: "table_wf newIstanbulInstructionSet" "sstore_entry newIstanbulInstructionSet"
  unfolding newIstanbulInstructionSet_def
  by (intro enable2200_wf enable1884_wf enable1344_wf newConstantinopleInstructionSet_wf sstore_entry_eips sstore_entry_sets,
      intro sstore_entry_enable2200 sstore_entry_eips sstore_entry_sets)

lemmas tables_wf = newFrontierInstructionSet_wf newHomesteadInstructionSet_wf newTangerineWhistleInstructionSet_wf
  newSpuriousDragonInstructionSet_wf newByzantiumInstructionSet_wf newConstantinopleInstructionSet_wf newIstanbulInstructionSet_wf

end
