(* ===== verification/StateObject.thy ===== *)
theory StateObject
  imports Common RlpContract
begin

text \<open>
  Accounts and state objects of package \<^verbatim>\<open>core/state\<close> (src/core/state/state_object.go). The Go interfaces
  \<open>Database\<close> and \<open>Trie\<close> (src/core/state/database.go) and \<open>snapshot.Snapshot\<close> are records of functions that
  the operations take as an argument, so that everything here holds for every implementation of them.
\<close>

section \<open>Interfaces\<close>

datatype db_error = DbError string | RlpError rlp_error

text \<open>
  \<open>backend\<close>: the hash function and the methods of \<open>Database\<close> and \<open>Trie\<close> that the state uses, over tries of
  type \<open>'t\<close>. \<open>emptyStorageTrie\<close> is \<open>OpenStorageTrie\<close> with the zero root, whose error the code ignores;
  \<open>iter\<close> is the order in which \<open>range\<close> visits the keys of a map.
\<close>

record 't backend =
  Keccak256 :: "bytes \<Rightarrow> bytes"
  OpenTrie :: "hash \<Rightarrow> db_error + 't"
  OpenStorageTrie :: "hash \<Rightarrow> hash \<Rightarrow> db_error + 't"
  emptyStorageTrie :: "hash \<Rightarrow> 't"
  ContractCode :: "hash \<Rightarrow> hash \<Rightarrow> bytes option \<times> db_error option"
  ContractCodeSize :: "hash \<Rightarrow> hash \<Rightarrow> nat \<times> db_error option"
  TryGet :: "'t \<Rightarrow> bytes \<Rightarrow> db_error + bytes"
  TryUpdate :: "'t \<Rightarrow> bytes \<Rightarrow> bytes \<Rightarrow> db_error option \<times> 't"
  TryDelete :: "'t \<Rightarrow> bytes \<Rightarrow> db_error option \<times> 't"
  Trie_Hash :: "'t \<Rightarrow> hash"
  iter :: "bytes set \<Rightarrow> bytes list"

text \<open>\<open>snapshot.Account\<close>, where empty roots and code hashes are empty slices, and \<open>snapshot.Snapshot\<close>.\<close>

record slim_account =
  slim_Nonce :: u64
  slim_Balance :: int
  slim_Root :: bytes
  slim_CodeHash :: bytes

record snapshot =
  snap_Root :: hash
  snap_Account :: "hash \<Rightarrow> db_error + slim_account option"
  snap_Storage :: "hash \<Rightarrow> hash \<Rightarrow> db_error + bytes"

section \<open>Accounts\<close>

text \<open>
  \<open>Account\<close>. A nil code hash is \<open>None\<close>; a nil balance is replaced by zero wherever an object is made, so
  the balance of \<open>Account{}\<close> is zero here.
\<close>

record Account =
  acc_Nonce :: u64
  acc_Balance :: int
  acc_Root :: hash
  acc_CodeHash :: "bytes option"

definition zero_Account :: Account where
  "zero_Account = \<lparr>acc_Nonce = 0, acc_Balance = 0, acc_Root = zero_hash, acc_CodeHash = None\<rparr>"

definition nil_slice :: "bytes option \<Rightarrow> bytes" where
  "nil_slice b = (case b of None \<Rightarrow> [] | Some b \<Rightarrow> b)"

definition account_type :: rtype where
  "account_type = TStruct [TUint 64, TBigIntPtr, TByteArray 32, TBytes] None"

definition account_val :: "Account \<Rightarrow> rval" where
  "account_val a = StructVal [UintVal (acc_Nonce a), BigIntPtr (Some (acc_Balance a)),
     ByteArrayVal (acc_Root a), BytesVal (nil_slice (acc_CodeHash a))]"

definition account_of :: "rval \<Rightarrow> Account option" where
  "account_of v =
    (case v of
       StructVal vs \<Rightarrow>
         (case vs of [n, b, r, c] \<Rightarrow>
            (case n of UintVal n \<Rightarrow> (case b of BigIntPtr b \<Rightarrow> (case r of ByteArrayVal r \<Rightarrow> (case c of BytesVal c \<Rightarrow>
               map_option (\<lambda>b. \<lparr>acc_Nonce = n, acc_Balance = b, acc_Root = r, acc_CodeHash = Some c\<rparr>) b
               | _ \<Rightarrow> None) | _ \<Rightarrow> None) | _ \<Rightarrow> None) | _ \<Rightarrow> None)
          | _ \<Rightarrow> None)
     | _ \<Rightarrow> None)"

definition emptyRoot :: hash where
  "emptyRoot = [0x56, 0xe8, 0x1f, 0x17, 0x1b, 0xcc, 0x55, 0xa6, 0xff, 0x83, 0x45, 0xe6, 0x92, 0xc0, 0xf8, 0x6e,
     0x5b, 0x48, 0xe0, 0x1b, 0x99, 0x6c, 0xad, 0xc0, 0x01, 0x62, 0x2f, 0xb5, 0xe3, 0x63, 0xb4, 0x21]"

definition emptyCodeHash :: "'t backend \<Rightarrow> bytes" where
  "emptyCodeHash E = Keccak256 E []"

text \<open>\<open>snapshot.AccountRLP\<close>: the slim encoding; \<open>None\<close> is its panic.\<close>

definition AccountRLP :: "'t backend \<Rightarrow> Account \<Rightarrow> bytes option" where
  "AccountRLP E a =
    (let slim = StructVal [UintVal (acc_Nonce a), BigIntPtr (Some (acc_Balance a)),
       BytesVal (if acc_Root a \<noteq> emptyRoot then acc_Root a else []),
       BytesVal (if nil_slice (acc_CodeHash a) \<noteq> emptyCodeHash E then nil_slice (acc_CodeHash a) else [])]
     in case EncodeToBytes slim of Some (Inr b) \<Rightarrow> Some b | _ \<Rightarrow> None)"

section \<open>State objects\<close>

type_synonym Storage = "hash \<rightharpoonup> hash"

definition storage_get :: "Storage \<Rightarrow> hash \<Rightarrow> hash" where
  "storage_get m k = (case m k of None \<Rightarrow> zero_hash | Some v \<Rightarrow> v)"

record 't stateObject =
  so_address :: address
  so_addrHash :: hash
  so_data :: Account
  so_dbErr :: "db_error option"
  so_trie :: "'t option"
  so_code :: "bytes option"
  originStorage :: Storage
  pendingStorage :: Storage
  dirtyStorage :: Storage
  fakeStorage :: "Storage option"
  dirtyCode :: bool
  suicided :: bool
  deleted :: bool

definition newObject :: "'t backend \<Rightarrow> address \<Rightarrow> Account \<Rightarrow> 't stateObject" where
  "newObject E addr data0 =
    (let data1 = (if acc_CodeHash data0 = None then data0\<lparr>acc_CodeHash := Some (emptyCodeHash E)\<rparr> else data0);
         data2 = (if acc_Root data1 = zero_hash then data1\<lparr>acc_Root := emptyRoot\<rparr> else data1)
     in \<lparr>so_address = addr, so_addrHash = Keccak256 E addr, so_data = data2, so_dbErr = None, so_trie = None,
         so_code = None, originStorage = Map.empty, pendingStorage = Map.empty, dirtyStorage = Map.empty,
         fakeStorage = None, dirtyCode = False, suicided = False, deleted = False\<rparr>)"

definition so_CodeHash :: "'t stateObject \<Rightarrow> bytes" where
  "so_CodeHash obj = nil_slice (acc_CodeHash (so_data obj))"

definition so_empty :: "'t backend \<Rightarrow> 't stateObject \<Rightarrow> bool" where
  "so_empty E obj \<longleftrightarrow> acc_Nonce (so_data obj) = 0 \<and> acc_Balance (so_data obj) = 0 \<and>
     so_CodeHash obj = emptyCodeHash E"

definition so_setError :: "db_error option \<Rightarrow> 't stateObject \<Rightarrow> 't stateObject" where
  "so_setError err obj = (if so_dbErr obj = None then obj\<lparr>so_dbErr := err\<rparr> else obj)"

definition setBalance :: "int \<Rightarrow> 't stateObject \<Rightarrow> 't stateObject" where
  "setBalance amount obj = obj\<lparr>so_data := (so_data obj)\<lparr>acc_Balance := amount\<rparr>\<rparr>"

definition setNonce :: "u64 \<Rightarrow> 't stateObject \<Rightarrow> 't stateObject" where
  "setNonce nonce obj = obj\<lparr>so_data := (so_data obj)\<lparr>acc_Nonce := nonce\<rparr>\<rparr>"

definition setCode :: "hash \<Rightarrow> bytes option \<Rightarrow> 't stateObject \<Rightarrow> 't stateObject" where
  "setCode codeHash code obj =
    obj\<lparr>so_code := code, so_data := (so_data obj)\<lparr>acc_CodeHash := Some codeHash\<rparr>, dirtyCode := True\<rparr>"

definition setState :: "hash \<Rightarrow> hash \<Rightarrow> 't stateObject \<Rightarrow> 't stateObject" where
  "setState key val obj = obj\<lparr>dirtyStorage := (dirtyStorage obj)(key \<mapsto> val)\<rparr>"

definition getTrie :: "'t backend \<Rightarrow> 't stateObject \<Rightarrow> 't \<times> 't stateObject" where
  "getTrie E obj =
    (case so_trie obj of
       Some t \<Rightarrow> (t, obj)
     | None \<Rightarrow>
         (case OpenStorageTrie E (so_addrHash obj) (acc_Root (so_data obj)) of
            Inr t \<Rightarrow> (t, obj\<lparr>so_trie := Some t\<rparr>)
          | Inl err \<Rightarrow>
              let t = emptyStorageTrie E (so_addrHash obj)
              in (t, so_setError (Some err) (obj\<lparr>so_trie := Some t\<rparr>))))"

text \<open>The end of \<open>GetCommittedState\<close>: unpack the stored value and cache it.\<close>

definition cache_value :: "hash \<Rightarrow> bytes \<Rightarrow> 't stateObject \<Rightarrow> hash \<times> 't stateObject" where
  "cache_value key enc obj =
    (let (val, obj1) =
       (if length enc > 0 then
          (case Split enc of
             Inl err \<Rightarrow> (zero_hash, so_setError (Some (RlpError err)) obj)
           | Inr (_, content, _) \<Rightarrow> (BytesToHash content, obj))
        else (zero_hash, obj))
     in (val, obj1\<lparr>originStorage := (originStorage obj1)(key \<mapsto> val)\<rparr>))"

definition read_trie :: "'t backend \<Rightarrow> hash \<Rightarrow> 't stateObject \<Rightarrow> hash \<times> 't stateObject" where
  "read_trie E key obj =
    (let (t, obj1) = getTrie E obj
     in case TryGet E t key of
          Inl err \<Rightarrow> (zero_hash, so_setError (Some err) obj1)
        | Inr enc \<Rightarrow> cache_value key enc obj1)"

definition so_GetCommittedState ::
  "'t backend \<Rightarrow> snapshot option \<Rightarrow> hash set \<Rightarrow> hash \<Rightarrow> 't stateObject \<Rightarrow> hash \<times> 't stateObject" where
  "so_GetCommittedState E snap snapDestructs key obj =
    (case fakeStorage obj of
       Some fake \<Rightarrow> (storage_get fake key, obj)
     | None \<Rightarrow>
         (case pendingStorage obj key of
            Some val \<Rightarrow> (val, obj)
          | None \<Rightarrow>
              (case originStorage obj key of
                 Some val \<Rightarrow> (val, obj)
               | None \<Rightarrow>
                   (case snap of
                      None \<Rightarrow> read_trie E key obj
                    | Some sn \<Rightarrow>
                        if so_addrHash obj \<in> snapDestructs then (zero_hash, obj)
                        else
                          (case snap_Storage sn (so_addrHash obj) (Keccak256 E key) of
                             Inl _ \<Rightarrow> read_trie E key obj
                           | Inr enc \<Rightarrow> cache_value key enc obj)))))"

definition so_GetState ::
  "'t backend \<Rightarrow> snapshot option \<Rightarrow> hash set \<Rightarrow> hash \<Rightarrow> 't stateObject \<Rightarrow> hash \<times> 't stateObject" where
  "so_GetState E snap snapDestructs key obj =
    (case fakeStorage obj of
       Some fake \<Rightarrow> (storage_get fake key, obj)
     | None \<Rightarrow>
         (case dirtyStorage obj key of
            Some val \<Rightarrow> (val, obj)
          | None \<Rightarrow> so_GetCommittedState E snap snapDestructs key obj))"

definition so_SetStorage :: "Storage \<Rightarrow> 't stateObject \<Rightarrow> 't stateObject" where
  "so_SetStorage storage obj =
    obj\<lparr>fakeStorage := Some ((case fakeStorage obj of None \<Rightarrow> Map.empty | Some m \<Rightarrow> m) ++ storage)\<rparr>"

definition so_Code :: "'t backend \<Rightarrow> 't stateObject \<Rightarrow> bytes option \<times> 't stateObject" where
  "so_Code E obj =
    (case so_code obj of
       Some code \<Rightarrow> (Some code, obj)
     | None \<Rightarrow>
         if so_CodeHash obj = emptyCodeHash E then (None, obj)
         else
           (let (code, err) = ContractCode E (so_addrHash obj) (BytesToHash (so_CodeHash obj));
                obj1 = (if err \<noteq> None then so_setError err obj else obj)
            in (code, obj1\<lparr>so_code := code\<rparr>)))"

definition so_finalise :: "'t stateObject \<Rightarrow> 't stateObject" where
  "so_finalise obj =
    obj\<lparr>pendingStorage := pendingStorage obj ++ dirtyStorage obj, dirtyStorage := Map.empty\<rparr>"

text \<open>
  One round of the loop of \<open>updateTrie\<close>: the storage trie, the object and, when a snapshot is present, the
  changed slots for it. \<open>v\<close> is nil for a deleted slot.
\<close>

definition update_slot ::
  "'t backend \<Rightarrow> hash \<Rightarrow> 't \<times> 't stateObject \<times> (hash \<rightharpoonup> bytes option) option \<Rightarrow>
     't \<times> 't stateObject \<times> (hash \<rightharpoonup> bytes option) option" where
  "update_slot E key st =
    (case st of (tr, obj, storage) \<Rightarrow>
       let val = storage_get (pendingStorage obj) key
       in if val = storage_get (originStorage obj) key then st
          else
            let obj1 = obj\<lparr>originStorage := (originStorage obj)(key \<mapsto> val)\<rparr>;
                v = (if val = zero_hash then None else Some (rlp_bytes (BytesVal (TrimLeftZeroes val))));
                (err, tr1) = (case v of None \<Rightarrow> TryDelete E tr key | Some b \<Rightarrow> TryUpdate E tr key b)
            in (tr1, so_setError err obj1, map_option (\<lambda>m. m(Keccak256 E key \<mapsto> v)) storage))"

text \<open>
  \<open>updateTrie\<close> with the snapshot storage of the state; the trie it returns is also the object's trie.
\<close>

definition updateTrie ::
  "'t backend \<Rightarrow> snapshot option \<Rightarrow> (hash \<rightharpoonup> hash \<rightharpoonup> bytes option) \<Rightarrow> 't stateObject \<Rightarrow>
     't option \<times> 't stateObject \<times> (hash \<rightharpoonup> hash \<rightharpoonup> bytes option)" where
  "updateTrie E snap snapStorage obj0 =
    (let obj = so_finalise obj0; ks = iter E (dom (pendingStorage obj))
     in if ks = [] then (so_trie obj, obj, snapStorage)
        else
          let storage =
                (if snap = None then None
                 else Some (case snapStorage (so_addrHash obj) of None \<Rightarrow> Map.empty | Some m \<Rightarrow> m));
              (tr0, obj1) = getTrie E obj;
              (tr, obj2, storage1) = fold (update_slot E) ks (tr0, obj1, storage);
              snapStorage1 =
                (case storage1 of None \<Rightarrow> snapStorage | Some m \<Rightarrow> snapStorage(so_addrHash obj \<mapsto> m))
          in (Some tr, obj2\<lparr>pendingStorage := Map.empty, so_trie := Some tr\<rparr>, snapStorage1))"

definition updateRoot ::
  "'t backend \<Rightarrow> snapshot option \<Rightarrow> (hash \<rightharpoonup> hash \<rightharpoonup> bytes option) \<Rightarrow> 't stateObject \<Rightarrow>
     't stateObject \<times> (hash \<rightharpoonup> hash \<rightharpoonup> bytes option)" where
  "updateRoot E snap snapStorage obj =
    (case updateTrie E snap snapStorage obj of
       (None, obj1, st) \<Rightarrow> (obj1, st)
     | (Some tr, obj1, st) \<Rightarrow> (obj1\<lparr>so_data := (so_data obj1)\<lparr>acc_Root := Trie_Hash E tr\<rparr>\<rparr>, st))"

definition deepCopy :: "'t backend \<Rightarrow> 't stateObject \<Rightarrow> 't stateObject" where
  "deepCopy E obj = (newObject E (so_address obj) (so_data obj))
     \<lparr>so_trie := so_trie obj, so_code := so_code obj, dirtyStorage := dirtyStorage obj,
      originStorage := originStorage obj, pendingStorage := pendingStorage obj, suicided := suicided obj,
      dirtyCode := dirtyCode obj, deleted := deleted obj\<rparr>"

end
