(* ===== verification/StateDB.thy ===== *)
theory StateDB
  imports StateObject
begin

text \<open>
  The state database of package \<^verbatim>\<open>core/state\<close> (src/core/state/statedb.go) with its journal
  (src/core/state/journal.go): reading and changing accounts, snapshots and their reversal, and the
  operations at the end of a transaction and of a block. A result \<open>None\<close> is a panic.
\<close>

section \<open>State\<close>

record Log =
  log_Address :: address
  log_Topics :: "hash list"
  log_Data :: bytes
  log_BlockNumber :: u64
  log_TxHash :: hash
  log_TxIndex :: u64
  log_BlockHash :: hash
  log_Index :: u64
  log_Removed :: bool

datatype 't journalEntry =
    CreateObjectChange address
  | ResetObjectChange "'t stateObject" bool
  | SuicideChange address bool int
  | BalanceChange address int
  | NonceChange address u64
  | StorageChange address hash hash
  | CodeChange address "bytes option" bytes
  | RefundChange u64
  | AddLogChange hash
  | AddPreimageChange hash
  | TouchChange address

fun dirtied :: "'t journalEntry \<Rightarrow> address option" where
  "dirtied (CreateObjectChange a) = Some a"
| "dirtied (ResetObjectChange _ _) = None"
| "dirtied (SuicideChange a _ _) = Some a"
| "dirtied (BalanceChange a _) = Some a"
| "dirtied (NonceChange a _) = Some a"
| "dirtied (StorageChange a _ _) = Some a"
| "dirtied (CodeChange a _ _) = Some a"
| "dirtied (RefundChange _) = None"
| "dirtied (AddLogChange _) = None"
| "dirtied (AddPreimageChange _) = None"
| "dirtied (TouchChange a) = Some a"

record revision =
  rev_id :: int
  rev_journalIndex :: nat

text \<open>The \<open>journal\<close> of the code is the pair of fields \<open>entries\<close> and \<open>dirties\<close>.\<close>

record 't StateDB =
  sdb_trie :: 't
  sdb_snap :: "snapshot option"
  snapDestructs :: "hash set"
  snapAccounts :: "hash \<rightharpoonup> bytes"
  snapStorage :: "hash \<rightharpoonup> hash \<rightharpoonup> bytes option"
  stateObjects :: "address \<rightharpoonup> 't stateObject"
  stateObjectsPending :: "address set"
  stateObjectsDirty :: "address set"
  sdb_dbErr :: "db_error option"
  refund :: u64
  thash :: hash
  bhash :: hash
  txIndex :: int
  logs :: "hash \<rightharpoonup> Log list"
  logSize :: u64
  preimages :: "hash \<rightharpoonup> bytes"
  entries :: "'t journalEntry list"
  dirties :: "address \<rightharpoonup> int"
  validRevisions :: "revision list"
  nextRevisionId :: int

definition newStateDB :: "'t \<Rightarrow> snapshot option \<Rightarrow> 't StateDB" where
  "newStateDB tr snap =
    \<lparr>sdb_trie = tr, sdb_snap = snap, snapDestructs = {}, snapAccounts = Map.empty, snapStorage = Map.empty,
     stateObjects = Map.empty, stateObjectsPending = {}, stateObjectsDirty = {}, sdb_dbErr = None, refund = 0,
     thash = zero_hash, bhash = zero_hash, txIndex = 0, logs = Map.empty, logSize = 0, preimages = Map.empty,
     entries = [], dirties = Map.empty, validRevisions = [], nextRevisionId = 0\<rparr>"

text \<open>\<open>New\<close>; \<open>snaps\<close> is the snapshot tree's \<open>Snapshot\<close> method.\<close>

definition New :: "'t backend \<Rightarrow> hash \<Rightarrow> (hash \<Rightarrow> snapshot option) \<Rightarrow> db_error + 't StateDB" where
  "New E root snaps = (case OpenTrie E root of Inl err \<Rightarrow> Inl err | Inr tr \<Rightarrow> Inr (newStateDB tr (snaps root)))"

section \<open>Journal\<close>

definition journal_dirty :: "address \<Rightarrow> 't StateDB \<Rightarrow> 't StateDB" where
  "journal_dirty addr s =
    s\<lparr>dirties := (dirties s)(addr \<mapsto> (case dirties s addr of None \<Rightarrow> 0 | Some n \<Rightarrow> n) + 1)\<rparr>"

definition journal_append :: "'t journalEntry \<Rightarrow> 't StateDB \<Rightarrow> 't StateDB" where
  "journal_append entry s =
    (let s1 = s\<lparr>entries := entries s @ [entry]\<rparr>
     in case dirtied entry of None \<Rightarrow> s1 | Some addr \<Rightarrow> journal_dirty addr s1)"

definition journal_undirty :: "'t journalEntry \<Rightarrow> 't StateDB \<Rightarrow> 't StateDB" where
  "journal_undirty entry s =
    (case dirtied entry of
       None \<Rightarrow> s
     | Some addr \<Rightarrow>
         let n = (case dirties s addr of None \<Rightarrow> 0 | Some n \<Rightarrow> n) - 1
         in s\<lparr>dirties := (dirties s)(addr := (if n = 0 then None else Some n))\<rparr>)"

section \<open>Objects\<close>

definition sdb_setError :: "db_error option \<Rightarrow> 't StateDB \<Rightarrow> 't StateDB" where
  "sdb_setError err s = (if sdb_dbErr s = None then s\<lparr>sdb_dbErr := err\<rparr> else s)"

definition setStateObject :: "'t stateObject \<Rightarrow> 't StateDB \<Rightarrow> 't StateDB" where
  "setStateObject obj s = s\<lparr>stateObjects := (stateObjects s)(so_address obj \<mapsto> obj)\<rparr>"

text \<open>The account data of \<open>getDeletedStateObject\<close>, from the snapshot or else from the trie.\<close>

definition trie_account :: "'t backend \<Rightarrow> address \<Rightarrow> 't StateDB \<Rightarrow> Account option \<times> 't StateDB" where
  "trie_account E addr s =
    (case TryGet E (sdb_trie s) addr of
       Inl err \<Rightarrow> (None, sdb_setError (Some err) s)
     | Inr enc \<Rightarrow>
         if length enc = 0 then (None, s)
         else
           (case DecodeBytes_typed account_type enc of
              Inr (Some v) \<Rightarrow> (account_of v, s)
            | _ \<Rightarrow> (None, s)))"

definition slim_data :: "'t backend \<Rightarrow> slim_account \<Rightarrow> Account" where
  "slim_data E acc =
    (let root = BytesToHash (slim_Root acc)
     in \<lparr>acc_Nonce = slim_Nonce acc, acc_Balance = slim_Balance acc,
         acc_Root = (if root = zero_hash then emptyRoot else root),
         acc_CodeHash = Some (if length (slim_CodeHash acc) = 0 then emptyCodeHash E else slim_CodeHash acc)\<rparr>)"

definition load_account :: "'t backend \<Rightarrow> address \<Rightarrow> 't StateDB \<Rightarrow> Account option \<times> 't StateDB" where
  "load_account E addr s =
    (case sdb_snap s of
       None \<Rightarrow> trie_account E addr s
     | Some sn \<Rightarrow>
         (case snap_Account sn (Keccak256 E addr) of
            Inl _ \<Rightarrow> trie_account E addr s
          | Inr None \<Rightarrow> (None, s)
          | Inr (Some acc) \<Rightarrow> (Some (slim_data E acc), s)))"

definition getDeletedStateObject :: "'t backend \<Rightarrow> address \<Rightarrow> 't StateDB \<Rightarrow> 't stateObject option \<times> 't StateDB" where
  "getDeletedStateObject E addr s =
    (case stateObjects s addr of
       Some obj \<Rightarrow> (Some obj, s)
     | None \<Rightarrow>
         (case load_account E addr s of
            (None, s1) \<Rightarrow> (None, s1)
          | (Some data, s1) \<Rightarrow>
              let obj = newObject E addr data in (Some obj, setStateObject obj s1)))"

definition getStateObject :: "'t backend \<Rightarrow> address \<Rightarrow> 't StateDB \<Rightarrow> 't stateObject option \<times> 't StateDB" where
  "getStateObject E addr s =
    (case getDeletedStateObject E addr s of
       (Some obj, s1) \<Rightarrow> (if deleted obj then None else Some obj, s1)
     | (None, s1) \<Rightarrow> (None, s1))"

definition createObject ::
  "'t backend \<Rightarrow> address \<Rightarrow> 't StateDB \<Rightarrow> ('t stateObject \<times> 't stateObject option) \<times> 't StateDB" where
  "createObject E addr s =
    (case getDeletedStateObject E addr s of (prev, s1) \<Rightarrow>
       let prevdestruct = (case prev of Some p \<Rightarrow> sdb_snap s1 \<noteq> None \<and> so_addrHash p \<in> snapDestructs s1 | None \<Rightarrow> False);
           s2 = (case prev of
                   Some p \<Rightarrow> if sdb_snap s1 \<noteq> None \<and> \<not> prevdestruct
                            then s1\<lparr>snapDestructs := insert (so_addrHash p) (snapDestructs s1)\<rparr> else s1
                 | None \<Rightarrow> s1);
           newobj = setNonce 0 (newObject E addr zero_Account);
           s3 = (case prev of
                   None \<Rightarrow> journal_append (CreateObjectChange addr) s2
                 | Some p \<Rightarrow> journal_append (ResetObjectChange p prevdestruct) s2)
       in ((newobj, prev), setStateObject newobj s3))"

definition GetOrNewStateObject :: "'t backend \<Rightarrow> address \<Rightarrow> 't StateDB \<Rightarrow> 't stateObject \<times> 't StateDB" where
  "GetOrNewStateObject E addr s =
    (case getStateObject E addr s of
       (Some obj, s1) \<Rightarrow> (obj, s1)
     | (None, s1) \<Rightarrow> (case createObject E addr s1 of ((obj, _), s2) \<Rightarrow> (obj, s2)))"

definition CreateAccount :: "'t backend \<Rightarrow> address \<Rightarrow> 't StateDB \<Rightarrow> 't StateDB" where
  "CreateAccount E addr s =
    (case createObject E addr s of
       ((newObj, Some prev), s1) \<Rightarrow> setStateObject (setBalance (acc_Balance (so_data prev)) newObj) s1
     | ((_, None), s1) \<Rightarrow> s1)"

section \<open>Reading\<close>

definition Exist :: "'t backend \<Rightarrow> address \<Rightarrow> 't StateDB \<Rightarrow> bool \<times> 't StateDB" where
  "Exist E addr s = (case getStateObject E addr s of (obj, s1) \<Rightarrow> (obj \<noteq> None, s1))"

definition Empty :: "'t backend \<Rightarrow> address \<Rightarrow> 't StateDB \<Rightarrow> bool \<times> 't StateDB" where
  "Empty E addr s =
    (case getStateObject E addr s of (None, s1) \<Rightarrow> (True, s1) | (Some obj, s1) \<Rightarrow> (so_empty E obj, s1))"

definition GetBalance :: "'t backend \<Rightarrow> address \<Rightarrow> 't StateDB \<Rightarrow> int \<times> 't StateDB" where
  "GetBalance E addr s =
    (case getStateObject E addr s of
       (None, s1) \<Rightarrow> (0, s1) | (Some obj, s1) \<Rightarrow> (acc_Balance (so_data obj), s1))"

definition GetNonce :: "'t backend \<Rightarrow> address \<Rightarrow> 't StateDB \<Rightarrow> u64 \<times> 't StateDB" where
  "GetNonce E addr s =
    (case getStateObject E addr s of
       (None, s1) \<Rightarrow> (0, s1) | (Some obj, s1) \<Rightarrow> (acc_Nonce (so_data obj), s1))"

definition GetCode :: "'t backend \<Rightarrow> address \<Rightarrow> 't StateDB \<Rightarrow> bytes option \<times> 't StateDB" where
  "GetCode E addr s =
    (case getStateObject E addr s of
       (None, s1) \<Rightarrow> (None, s1)
     | (Some obj, s1) \<Rightarrow> (case so_Code E obj of (code, obj1) \<Rightarrow> (code, setStateObject obj1 s1)))"

definition GetCodeSize :: "'t backend \<Rightarrow> address \<Rightarrow> 't StateDB \<Rightarrow> nat \<times> 't StateDB" where
  "GetCodeSize E addr s =
    (case getStateObject E addr s of
       (None, s1) \<Rightarrow> (0, s1)
     | (Some obj, s1) \<Rightarrow>
         (case so_code obj of
            Some code \<Rightarrow> (length code, s1)
          | None \<Rightarrow>
              (case ContractCodeSize E (so_addrHash obj) (BytesToHash (so_CodeHash obj)) of (sz, err) \<Rightarrow>
                 (sz, if err \<noteq> None then sdb_setError err s1 else s1))))"

definition GetCodeHash :: "'t backend \<Rightarrow> address \<Rightarrow> 't StateDB \<Rightarrow> hash \<times> 't StateDB" where
  "GetCodeHash E addr s =
    (case getStateObject E addr s of
       (None, s1) \<Rightarrow> (zero_hash, s1) | (Some obj, s1) \<Rightarrow> (BytesToHash (so_CodeHash obj), s1))"

definition GetState :: "'t backend \<Rightarrow> address \<Rightarrow> hash \<Rightarrow> 't StateDB \<Rightarrow> hash \<times> 't StateDB" where
  "GetState E addr key s =
    (case getStateObject E addr s of
       (None, s1) \<Rightarrow> (zero_hash, s1)
     | (Some obj, s1) \<Rightarrow>
         (case so_GetState E (sdb_snap s1) (snapDestructs s1) key obj of (val, obj1) \<Rightarrow>
            (val, setStateObject obj1 s1)))"

definition GetCommittedState :: "'t backend \<Rightarrow> address \<Rightarrow> hash \<Rightarrow> 't StateDB \<Rightarrow> hash \<times> 't StateDB" where
  "GetCommittedState E addr key s =
    (case getStateObject E addr s of
       (None, s1) \<Rightarrow> (zero_hash, s1)
     | (Some obj, s1) \<Rightarrow>
         (case so_GetCommittedState E (sdb_snap s1) (snapDestructs s1) key obj of (val, obj1) \<Rightarrow>
            (val, setStateObject obj1 s1)))"

definition HasSuicided :: "'t backend \<Rightarrow> address \<Rightarrow> 't StateDB \<Rightarrow> bool \<times> 't StateDB" where
  "HasSuicided E addr s =
    (case getStateObject E addr s of (None, s1) \<Rightarrow> (False, s1) | (Some obj, s1) \<Rightarrow> (suicided obj, s1))"

section \<open>Changing\<close>

definition ripemd :: address where
  "ripemd = BytesToAddress (replicate 19 0 @ [3])"

definition so_touch :: "'t stateObject \<Rightarrow> 't StateDB \<Rightarrow> 't StateDB" where
  "so_touch obj s =
    (let s1 = journal_append (TouchChange (so_address obj)) s
     in if so_address obj = ripemd then journal_dirty (so_address obj) s1 else s1)"

definition so_SetBalance :: "int \<Rightarrow> 't stateObject \<Rightarrow> 't StateDB \<Rightarrow> 't StateDB" where
  "so_SetBalance amount obj s = setStateObject (setBalance amount obj)
     (journal_append (BalanceChange (so_address obj) (acc_Balance (so_data obj))) s)"

definition so_AddBalance :: "'t backend \<Rightarrow> int \<Rightarrow> 't stateObject \<Rightarrow> 't StateDB \<Rightarrow> 't StateDB" where
  "so_AddBalance E amount obj s =
    (if amount = 0 then (if so_empty E obj then so_touch obj s else s)
     else so_SetBalance (acc_Balance (so_data obj) + amount) obj s)"

definition so_SubBalance :: "int \<Rightarrow> 't stateObject \<Rightarrow> 't StateDB \<Rightarrow> 't StateDB" where
  "so_SubBalance amount obj s =
    (if amount = 0 then s else so_SetBalance (acc_Balance (so_data obj) - amount) obj s)"

definition so_SetNonce :: "u64 \<Rightarrow> 't stateObject \<Rightarrow> 't StateDB \<Rightarrow> 't StateDB" where
  "so_SetNonce nonce obj s = setStateObject (setNonce nonce obj)
     (journal_append (NonceChange (so_address obj) (acc_Nonce (so_data obj))) s)"

definition so_SetCode :: "'t backend \<Rightarrow> hash \<Rightarrow> bytes \<Rightarrow> 't stateObject \<Rightarrow> 't StateDB \<Rightarrow> 't StateDB" where
  "so_SetCode E codeHash code obj s =
    (case so_Code E obj of (prevcode, obj1) \<Rightarrow>
       setStateObject (setCode codeHash (Some code) obj1)
         (journal_append (CodeChange (so_address obj1) prevcode (so_CodeHash obj1)) s))"

definition so_SetState :: "'t backend \<Rightarrow> hash \<Rightarrow> hash \<Rightarrow> 't stateObject \<Rightarrow> 't StateDB \<Rightarrow> 't StateDB" where
  "so_SetState E key val obj s =
    (case fakeStorage obj of
       Some fake \<Rightarrow> setStateObject (obj\<lparr>fakeStorage := Some (fake(key \<mapsto> val))\<rparr>) s
     | None \<Rightarrow>
         (case so_GetState E (sdb_snap s) (snapDestructs s) key obj of (prev, obj1) \<Rightarrow>
            if prev = val then setStateObject obj1 s
            else setStateObject (setState key val obj1)
              (journal_append (StorageChange (so_address obj1) key prev) s)))"

definition AddBalance :: "'t backend \<Rightarrow> address \<Rightarrow> int \<Rightarrow> 't StateDB \<Rightarrow> 't StateDB" where
  "AddBalance E addr amount s = (case GetOrNewStateObject E addr s of (obj, s1) \<Rightarrow> so_AddBalance E amount obj s1)"

definition SubBalance :: "'t backend \<Rightarrow> address \<Rightarrow> int \<Rightarrow> 't StateDB \<Rightarrow> 't StateDB" where
  "SubBalance E addr amount s = (case GetOrNewStateObject E addr s of (obj, s1) \<Rightarrow> so_SubBalance amount obj s1)"

definition SetBalance :: "'t backend \<Rightarrow> address \<Rightarrow> int \<Rightarrow> 't StateDB \<Rightarrow> 't StateDB" where
  "SetBalance E addr amount s = (case GetOrNewStateObject E addr s of (obj, s1) \<Rightarrow> so_SetBalance amount obj s1)"

definition SetNonce :: "'t backend \<Rightarrow> address \<Rightarrow> u64 \<Rightarrow> 't StateDB \<Rightarrow> 't StateDB" where
  "SetNonce E addr nonce s = (case GetOrNewStateObject E addr s of (obj, s1) \<Rightarrow> so_SetNonce nonce obj s1)"

definition SetCode :: "'t backend \<Rightarrow> address \<Rightarrow> bytes \<Rightarrow> 't StateDB \<Rightarrow> 't StateDB" where
  "SetCode E addr code s =
    (case GetOrNewStateObject E addr s of (obj, s1) \<Rightarrow> so_SetCode E (Keccak256 E code) code obj s1)"

definition SetState :: "'t backend \<Rightarrow> address \<Rightarrow> hash \<Rightarrow> hash \<Rightarrow> 't StateDB \<Rightarrow> 't StateDB" where
  "SetState E addr key val s = (case GetOrNewStateObject E addr s of (obj, s1) \<Rightarrow> so_SetState E key val obj s1)"

definition SetStorage :: "'t backend \<Rightarrow> address \<Rightarrow> Storage \<Rightarrow> 't StateDB \<Rightarrow> 't StateDB" where
  "SetStorage E addr storage s =
    (case GetOrNewStateObject E addr s of (obj, s1) \<Rightarrow> setStateObject (so_SetStorage storage obj) s1)"

definition Suicide :: "'t backend \<Rightarrow> address \<Rightarrow> 't StateDB \<Rightarrow> bool \<times> 't StateDB" where
  "Suicide E addr s =
    (case getStateObject E addr s of
       (None, s1) \<Rightarrow> (False, s1)
     | (Some obj, s1) \<Rightarrow>
         (True, setStateObject (setBalance 0 (obj\<lparr>suicided := True\<rparr>))
            (journal_append (SuicideChange addr (suicided obj) (acc_Balance (so_data obj))) s1)))"

definition AddRefund :: "u64 \<Rightarrow> 't StateDB \<Rightarrow> 't StateDB" where
  "AddRefund gas s = (let s1 = journal_append (RefundChange (refund s)) s in s1\<lparr>refund := refund s1 + gas\<rparr>)"

definition SubRefund :: "u64 \<Rightarrow> 't StateDB \<Rightarrow> 't StateDB option" where
  "SubRefund gas s =
    (let s1 = journal_append (RefundChange (refund s)) s
     in if gas > refund s1 then None else Some (s1\<lparr>refund := refund s1 - gas\<rparr>))"

definition AddLog :: "Log \<Rightarrow> 't StateDB \<Rightarrow> 't StateDB" where
  "AddLog log s =
    (let s1 = journal_append (AddLogChange (thash s)) s;
         log1 = log\<lparr>log_TxHash := thash s, log_BlockHash := bhash s, log_TxIndex := word_of_int (txIndex s),
                    log_Index := logSize s\<rparr>;
         old = (case logs s1 (thash s) of None \<Rightarrow> [] | Some ls \<Rightarrow> ls)
     in s1\<lparr>logs := (logs s1)(thash s \<mapsto> old @ [log1]), logSize := logSize s1 + 1\<rparr>)"

definition AddPreimage :: "hash \<Rightarrow> bytes \<Rightarrow> 't StateDB \<Rightarrow> 't StateDB" where
  "AddPreimage h preimage s =
    (if preimages s h = None then
       let s1 = journal_append (AddPreimageChange h) s
       in s1\<lparr>preimages := (preimages s1)(h \<mapsto> preimage)\<rparr>
     else s)"

definition sdb_Prepare :: "hash \<Rightarrow> hash \<Rightarrow> int \<Rightarrow> 't StateDB \<Rightarrow> 't StateDB" where
  "sdb_Prepare th bh ti s = s\<lparr>thash := th, bhash := bh, txIndex := ti\<rparr>"

section \<open>Snapshots\<close>

text \<open>\<open>revert\<close> of each journal entry. Dereferencing the nil object and slicing below zero panic.\<close>

definition with_object :: "'t backend \<Rightarrow> address \<Rightarrow> ('t stateObject \<Rightarrow> 't stateObject) \<Rightarrow> 't StateDB \<Rightarrow> 't StateDB option" where
  "with_object E addr f s =
    (case getStateObject E addr s of (None, _) \<Rightarrow> None | (Some obj, s1) \<Rightarrow> Some (setStateObject (f obj) s1))"

fun revert_entry :: "'t backend \<Rightarrow> 't journalEntry \<Rightarrow> 't StateDB \<Rightarrow> 't StateDB option" where
  "revert_entry E (CreateObjectChange addr) s =
     Some (s\<lparr>stateObjects := (stateObjects s)(addr := None), stateObjectsDirty := stateObjectsDirty s - {addr}\<rparr>)"
| "revert_entry E (ResetObjectChange prev prevdestruct) s =
     (let s1 = setStateObject prev s
      in Some (if \<not> prevdestruct \<and> sdb_snap s1 \<noteq> None
               then s1\<lparr>snapDestructs := snapDestructs s1 - {so_addrHash prev}\<rparr> else s1))"
| "revert_entry E (SuicideChange addr prev prevbalance) s =
     (case getStateObject E addr s of
        (None, s1) \<Rightarrow> Some s1
      | (Some obj, s1) \<Rightarrow> Some (setStateObject (setBalance prevbalance (obj\<lparr>suicided := prev\<rparr>)) s1))"
| "revert_entry E (TouchChange addr) s = Some s"
| "revert_entry E (BalanceChange addr prev) s = with_object E addr (setBalance prev) s"
| "revert_entry E (NonceChange addr prev) s = with_object E addr (setNonce prev) s"
| "revert_entry E (CodeChange addr prevcode prevhash) s =
     with_object E addr (setCode (BytesToHash prevhash) prevcode) s"
| "revert_entry E (StorageChange addr key prevalue) s = with_object E addr (setState key prevalue) s"
| "revert_entry E (RefundChange prev) s = Some (s\<lparr>refund := prev\<rparr>)"
| "revert_entry E (AddLogChange txhash) s =
     (let ls = (case logs s txhash of None \<Rightarrow> [] | Some ls \<Rightarrow> ls)
      in if ls = [] then None
         else Some (s\<lparr>logs := (logs s)(txhash := (if length ls = 1 then None else Some (butlast ls))),
                      logSize := logSize s - 1\<rparr>))"
| "revert_entry E (AddPreimageChange h) s = Some (s\<lparr>preimages := (preimages s)(h := None)\<rparr>)"

fun revert_entries :: "'t backend \<Rightarrow> 't journalEntry list \<Rightarrow> 't StateDB \<Rightarrow> 't StateDB option" where
  "revert_entries E [] s = Some s"
| "revert_entries E (e # es) s =
     (case revert_entry E e s of None \<Rightarrow> None | Some s1 \<Rightarrow> revert_entries E es (journal_undirty e s1))"

text \<open>The entries are undone from the last one down to index \<open>snapshot\<close>.\<close>

definition journal_revert :: "'t backend \<Rightarrow> nat \<Rightarrow> 't StateDB \<Rightarrow> 't StateDB option" where
  "journal_revert E snapshot s =
    map_option (\<lambda>s1. s1\<lparr>entries := take snapshot (entries s1)\<rparr>)
      (revert_entries E (rev (drop snapshot (entries s))) s)"

definition Snapshot :: "'t StateDB \<Rightarrow> int \<times> 't StateDB" where
  "Snapshot s =
    (nextRevisionId s,
     s\<lparr>nextRevisionId := nextRevisionId s + 1,
       validRevisions := validRevisions s @ [\<lparr>rev_id = nextRevisionId s, rev_journalIndex = length (entries s)\<rparr>]\<rparr>)"

text \<open>\<open>sort.Search\<close>: the smallest index in \<open>[i, j)\<close> with \<open>f\<close>, by bisection, or \<open>j\<close>.\<close>

function search_loop :: "(nat \<Rightarrow> bool) \<Rightarrow> nat \<Rightarrow> nat \<Rightarrow> nat" where
  "search_loop f i j =
    (if i < j then
       let h = (i + j) div 2
       in if \<not> f h then search_loop f (h + 1) j else search_loop f i h
     else i)"
  by pat_completeness auto
termination
  by (relation "measure (\<lambda>(f, i, j). j - i)") auto

declare search_loop.simps [simp del]

definition RevertToSnapshot :: "'t backend \<Rightarrow> int \<Rightarrow> 't StateDB \<Rightarrow> 't StateDB option" where
  "RevertToSnapshot E revid s =
    (let idx = search_loop (\<lambda>i. rev_id (validRevisions s ! i) \<ge> revid) 0 (length (validRevisions s))
     in if idx = length (validRevisions s) \<or> rev_id (validRevisions s ! idx) \<noteq> revid then None
        else map_option (\<lambda>s1. s1\<lparr>validRevisions := take idx (validRevisions s1)\<rparr>)
          (journal_revert E (rev_journalIndex (validRevisions s ! idx)) s))"

section \<open>Ends of transactions and blocks\<close>

definition clearJournalAndRefund :: "'t StateDB \<Rightarrow> 't StateDB" where
  "clearJournalAndRefund s =
    (let s1 = (if length (entries s) > 0 then s\<lparr>entries := [], dirties := Map.empty, refund := 0\<rparr> else s)
     in s1\<lparr>validRevisions := []\<rparr>)"

definition finalise_addr :: "'t backend \<Rightarrow> bool \<Rightarrow> address \<Rightarrow> 't StateDB \<Rightarrow> 't StateDB" where
  "finalise_addr E deleteEmptyObjects addr s =
    (case stateObjects s addr of
       None \<Rightarrow> s
     | Some obj \<Rightarrow>
         let s1 =
           (if suicided obj \<or> (deleteEmptyObjects \<and> so_empty E obj) then
              let s0 = s\<lparr>stateObjects := (stateObjects s)(addr \<mapsto> obj\<lparr>deleted := True\<rparr>)\<rparr>
              in if sdb_snap s0 \<noteq> None then
                   s0\<lparr>snapDestructs := insert (so_addrHash obj) (snapDestructs s0),
                      snapAccounts := (snapAccounts s0)(so_addrHash obj := None),
                      snapStorage := (snapStorage s0)(so_addrHash obj := None)\<rparr>
                 else s0
            else s\<lparr>stateObjects := (stateObjects s)(addr \<mapsto> so_finalise obj)\<rparr>)
         in s1\<lparr>stateObjectsPending := insert addr (stateObjectsPending s1),
              stateObjectsDirty := insert addr (stateObjectsDirty s1)\<rparr>)"

definition sdb_Finalise :: "'t backend \<Rightarrow> bool \<Rightarrow> 't StateDB \<Rightarrow> 't StateDB" where
  "sdb_Finalise E deleteEmptyObjects s =
    clearJournalAndRefund (fold (finalise_addr E deleteEmptyObjects) (iter E (dom (dirties s))) s)"

definition updateStateObject :: "'t backend \<Rightarrow> 't stateObject \<Rightarrow> 't StateDB \<Rightarrow> 't StateDB option" where
  "updateStateObject E obj s =
    (case EncodeToBytes (account_val (so_data obj)) of
       Some (Inr data) \<Rightarrow>
         (case TryUpdate E (sdb_trie s) (so_address obj) data of (err, tr) \<Rightarrow>
            let s1 = sdb_setError err (s\<lparr>sdb_trie := tr\<rparr>)
            in if sdb_snap s1 \<noteq> None then
                 map_option (\<lambda>b. s1\<lparr>snapAccounts := (snapAccounts s1)(so_addrHash obj \<mapsto> b)\<rparr>)
                   (AccountRLP E (so_data obj))
               else Some s1)
     | _ \<Rightarrow> None)"

definition deleteStateObject :: "'t backend \<Rightarrow> 't stateObject \<Rightarrow> 't StateDB \<Rightarrow> 't StateDB" where
  "deleteStateObject E obj s =
    (case TryDelete E (sdb_trie s) (so_address obj) of (err, tr) \<Rightarrow> sdb_setError err (s\<lparr>sdb_trie := tr\<rparr>))"

text \<open>One pending address in \<open>IntermediateRoot\<close>.\<close>

definition flush_addr :: "'t backend \<Rightarrow> address \<Rightarrow> 't StateDB \<Rightarrow> 't StateDB option" where
  "flush_addr E addr s =
    (case stateObjects s addr of
       None \<Rightarrow> None
     | Some obj \<Rightarrow>
         if deleted obj then Some (deleteStateObject E obj s)
         else
           (case updateRoot E (sdb_snap s) (snapStorage s) obj of (obj1, st) \<Rightarrow>
              updateStateObject E obj1 (setStateObject obj1 (s\<lparr>snapStorage := st\<rparr>))))"

fun flush_all :: "'t backend \<Rightarrow> address list \<Rightarrow> 't StateDB \<Rightarrow> 't StateDB option" where
  "flush_all E [] s = Some s"
| "flush_all E (a # as) s = (case flush_addr E a s of None \<Rightarrow> None | Some s1 \<Rightarrow> flush_all E as s1)"

definition IntermediateRoot :: "'t backend \<Rightarrow> bool \<Rightarrow> 't StateDB \<Rightarrow> (hash \<times> 't StateDB) option" where
  "IntermediateRoot E deleteEmptyObjects s =
    (let s1 = sdb_Finalise E deleteEmptyObjects s
     in map_option (\<lambda>s2. (Trie_Hash E (sdb_trie s2), s2\<lparr>stateObjectsPending := {}\<rparr>))
          (flush_all E (iter E (stateObjectsPending s1)) s1))"

definition sdb_Reset :: "'t backend \<Rightarrow> hash \<Rightarrow> (hash \<Rightarrow> snapshot option) option \<Rightarrow> 't StateDB \<Rightarrow> db_error + 't StateDB" where
  "sdb_Reset E root snaps s =
    (case OpenTrie E root of
       Inl err \<Rightarrow> Inl err
     | Inr tr \<Rightarrow>
         let s1 = clearJournalAndRefund
               (s\<lparr>sdb_trie := tr, stateObjects := Map.empty, stateObjectsPending := {}, stateObjectsDirty := {},
                  thash := zero_hash, bhash := zero_hash, txIndex := 0, logs := Map.empty, logSize := 0,
                  preimages := Map.empty\<rparr>)
         in Inr (case snaps of
                   None \<Rightarrow> s1
                 | Some sn \<Rightarrow> s1\<lparr>sdb_snap := sn root, snapDestructs := {}, snapAccounts := Map.empty,
                               snapStorage := Map.empty\<rparr>))"

text \<open>
  \<open>Copy\<close>: the objects in the journal, then the pending and the dirty ones, which it dereferences; logs and
  preimages; no journal, no snapshots and no transaction context.
\<close>

definition sdb_Copy :: "'t backend \<Rightarrow> 't StateDB \<Rightarrow> 't StateDB option" where
  "sdb_Copy E s =
    (let journaled = {a. a \<in> dom (dirties s) \<and> a \<in> dom (stateObjects s)};
         copied = journaled \<union> stateObjectsPending s \<union> stateObjectsDirty s
     in if stateObjectsPending s \<union> stateObjectsDirty s \<subseteq> dom (stateObjects s) then
          Some ((newStateDB (sdb_trie s) None)
            \<lparr>stateObjects := (\<lambda>a. if a \<in> copied then map_option (deepCopy E) (stateObjects s a) else None),
             stateObjectsPending := journaled \<union> stateObjectsPending s,
             stateObjectsDirty := journaled \<union> stateObjectsDirty s,
             refund := refund s, logs := logs s, logSize := logSize s, preimages := preimages s\<rparr>)
        else None)"

end
