(* ===== verification/StateView.thy ===== *)
theory StateView
  imports StateDB
begin

text \<open>
  What a user of the state database can see of it. \<open>view_obj\<close> and \<open>spec_of\<close> abstract from the caches: an
  account is its nonce, balance, code and storage as the getters report them. The lemmas show that
  loading objects, reading storage and reading code change caches only.
\<close>

section \<open>The backend\<close>

text \<open>\<open>slot_value\<close> unpacks a stored slot; \<open>storage_trie\<close> is the trie an object reads from.\<close>

definition slot_value :: "bytes \<Rightarrow> hash" where
  "slot_value enc =
    (if length enc > 0 then (case Split enc of Inl _ \<Rightarrow> zero_hash | Inr (_, content, _) \<Rightarrow> BytesToHash content)
     else zero_hash)"

definition storage_trie :: "'t backend \<Rightarrow> 't stateObject \<Rightarrow> 't" where
  "storage_trie E obj =
    (case so_trie obj of
       Some t \<Rightarrow> t
     | None \<Rightarrow>
         (case OpenStorageTrie E (so_addrHash obj) (acc_Root (so_data obj)) of
            Inr t \<Rightarrow> t | Inl _ \<Rightarrow> emptyStorageTrie E (so_addrHash obj)))"

definition trie_slot :: "'t backend \<Rightarrow> 't \<Rightarrow> hash \<Rightarrow> hash" where
  "trie_slot E t key = (case TryGet E t key of Inl _ \<Rightarrow> zero_hash | Inr enc \<Rightarrow> slot_value enc)"

text \<open>The value below the caches of an object with address hash \<open>h\<close>.\<close>

definition base_slot :: "'t backend \<Rightarrow> snapshot option \<Rightarrow> hash set \<Rightarrow> hash \<Rightarrow> 't \<Rightarrow> hash \<Rightarrow> hash" where
  "base_slot E snap D h t key =
    (case snap of
       None \<Rightarrow> trie_slot E t key
     | Some sn \<Rightarrow>
         if h \<in> D then zero_hash
         else (case snap_Storage sn h (Keccak256 E key) of Inl _ \<Rightarrow> trie_slot E t key | Inr enc \<Rightarrow> slot_value enc))"

definition committed_slot :: "'t backend \<Rightarrow> snapshot option \<Rightarrow> hash set \<Rightarrow> 't stateObject \<Rightarrow> hash \<Rightarrow> hash" where
  "committed_slot E snap D obj key =
    (case fakeStorage obj of
       Some fake \<Rightarrow> storage_get fake key
     | None \<Rightarrow>
         (case pendingStorage obj key of
            Some val \<Rightarrow> val
          | None \<Rightarrow>
              (case originStorage obj key of
                 Some val \<Rightarrow> val
               | None \<Rightarrow> base_slot E snap D (so_addrHash obj) (storage_trie E obj) key)))"

definition current_slot :: "'t backend \<Rightarrow> snapshot option \<Rightarrow> hash set \<Rightarrow> 't stateObject \<Rightarrow> hash \<Rightarrow> hash" where
  "current_slot E snap D obj key =
    (case fakeStorage obj of
       Some fake \<Rightarrow> storage_get fake key
     | None \<Rightarrow>
         (case dirtyStorage obj key of
            Some val \<Rightarrow> val | None \<Rightarrow> committed_slot E snap D obj key))"

definition current_code :: "'t backend \<Rightarrow> 't stateObject \<Rightarrow> bytes option" where
  "current_code E obj =
    (case so_code obj of
       Some code \<Rightarrow> Some code
     | None \<Rightarrow>
         if so_CodeHash obj = emptyCodeHash E then None
         else fst (ContractCode E (so_addrHash obj) (BytesToHash (so_CodeHash obj))))"

section \<open>Views\<close>

record acct_view =
  v_nonce :: u64
  v_balance :: int
  v_codehash :: bytes
  v_code :: "bytes option"
  v_state :: "hash \<Rightarrow> hash"
  v_committed :: "hash \<Rightarrow> hash"
  v_suicided :: bool
  v_deleted :: bool

definition view_obj :: "'t backend \<Rightarrow> snapshot option \<Rightarrow> hash set \<Rightarrow> 't stateObject \<Rightarrow> acct_view" where
  "view_obj E snap D obj =
    \<lparr>v_nonce = acc_Nonce (so_data obj), v_balance = acc_Balance (so_data obj), v_codehash = so_CodeHash obj,
     v_code = current_code E obj, v_state = current_slot E snap D obj,
     v_committed = committed_slot E snap D obj, v_suicided = suicided obj, v_deleted = deleted obj\<rparr>"

definition account_data :: "'t backend \<Rightarrow> snapshot option \<Rightarrow> 't \<Rightarrow> address \<Rightarrow> Account option" where
  "account_data E snap tr addr =
    (let trie_data = (case TryGet E tr addr of
           Inl _ \<Rightarrow> None
         | Inr enc \<Rightarrow> if length enc = 0 then None
                    else (case DecodeBytes_typed account_type enc of Inr (Some v) \<Rightarrow> account_of v | _ \<Rightarrow> None))
     in case snap of
          None \<Rightarrow> trie_data
        | Some sn \<Rightarrow>
            (case snap_Account sn (Keccak256 E addr) of
               Inl _ \<Rightarrow> trie_data | Inr None \<Rightarrow> None | Inr (Some acc) \<Rightarrow> Some (slim_data E acc)))"

definition live_object :: "'t backend \<Rightarrow> 't StateDB \<Rightarrow> address \<Rightarrow> 't stateObject option" where
  "live_object E s addr =
    (case stateObjects s addr of
       Some obj \<Rightarrow> Some obj
     | None \<Rightarrow> map_option (newObject E addr) (account_data E (sdb_snap s) (sdb_trie s) addr))"

abbreviation addresses :: "address set" where
  "addresses \<equiv> {a. length a = AddressLength}"

definition acct_of :: "'t backend \<Rightarrow> 't StateDB \<Rightarrow> address \<Rightarrow> acct_view option" where
  "acct_of E s addr =
    (if addr \<in> addresses then map_option (view_obj E (sdb_snap s) (snapDestructs s)) (live_object E s addr) else None)"

record spec =
  sp_accts :: "address \<Rightarrow> acct_view option"
  sp_refund :: u64
  sp_logs :: "hash \<rightharpoonup> Log list"
  sp_logSize :: u64
  sp_preimages :: "hash \<rightharpoonup> bytes"
  sp_thash :: hash
  sp_bhash :: hash
  sp_txIndex :: int

definition spec_of :: "'t backend \<Rightarrow> 't StateDB \<Rightarrow> spec" where
  "spec_of E s =
    \<lparr>sp_accts = acct_of E s, sp_refund = refund s, sp_logs = logs s, sp_logSize = logSize s,
     sp_preimages = preimages s, sp_thash = thash s, sp_bhash = bhash s, sp_txIndex = txIndex s\<rparr>"

text \<open>States that differ in caches, errors and bookkeeping only.\<close>

definition same :: "'t backend \<Rightarrow> 't StateDB \<Rightarrow> 't StateDB \<Rightarrow> bool" where
  "same E s t \<longleftrightarrow> spec_of E s = spec_of E t \<and> snapDestructs s = snapDestructs t \<and>
     sdb_snap s = sdb_snap t \<and> sdb_trie s = sdb_trie t"

section \<open>Reading an object\<close>

lemma so_setError_fields [simp]:
  "so_address (so_setError e obj) = so_address obj" "so_addrHash (so_setError e obj) = so_addrHash obj"
  "so_data (so_setError e obj) = so_data obj" "so_trie (so_setError e obj) = so_trie obj"
  "so_code (so_setError e obj) = so_code obj" "originStorage (so_setError e obj) = originStorage obj"
  "pendingStorage (so_setError e obj) = pendingStorage obj" "dirtyStorage (so_setError e obj) = dirtyStorage obj"
  "fakeStorage (so_setError e obj) = fakeStorage obj" "suicided (so_setError e obj) = suicided obj"
  "deleted (so_setError e obj) = deleted obj" "dirtyCode (so_setError e obj) = dirtyCode obj"
  by (simp_all add: so_setError_def)

text \<open>
  Objects that differ in the caches of a read: the same account fields, and the origin cache and the trie
  only filled with what a read would find.
\<close>

definition cached :: "'t backend \<Rightarrow> snapshot option \<Rightarrow> hash set \<Rightarrow> 't stateObject \<Rightarrow> 't stateObject \<Rightarrow> bool" where
  "cached E snap D obj obj1 \<longleftrightarrow>
    so_address obj1 = so_address obj \<and> so_addrHash obj1 = so_addrHash obj \<and> so_data obj1 = so_data obj \<and>
    pendingStorage obj1 = pendingStorage obj \<and> dirtyStorage obj1 = dirtyStorage obj \<and>
    fakeStorage obj1 = fakeStorage obj \<and> suicided obj1 = suicided obj \<and> deleted obj1 = deleted obj \<and>
    current_code E obj1 = current_code E obj \<and> storage_trie E obj1 = storage_trie E obj \<and>
    (\<forall>k. originStorage obj1 k = originStorage obj k \<or>
       originStorage obj k = None \<and> originStorage obj1 k = Some (base_slot E snap D (so_addrHash obj) (storage_trie E obj) k))"

lemma cached_refl: "cached E snap D obj obj"
  by (simp add: cached_def)

lemma cached_slots:
  assumes "cached E snap D obj obj1"
  shows "committed_slot E snap D obj1 = committed_slot E snap D obj" "current_slot E snap D obj1 = current_slot E snap D obj"
proof -
  have f: "so_addrHash obj1 = so_addrHash obj" "pendingStorage obj1 = pendingStorage obj"
    "dirtyStorage obj1 = dirtyStorage obj" "fakeStorage obj1 = fakeStorage obj"
    "storage_trie E obj1 = storage_trie E obj"
    using assms by (simp_all add: cached_def)
  have "committed_slot E snap D obj1 k = committed_slot E snap D obj k" for k
  proof -
    have "originStorage obj1 k = originStorage obj k \<or> originStorage obj k = None \<and>
        originStorage obj1 k = Some (base_slot E snap D (so_addrHash obj) (storage_trie E obj) k)"
      using assms by (simp add: cached_def)
    then show ?thesis by (auto simp: committed_slot_def f split: option.splits)
  qed
  then show c: "committed_slot E snap D obj1 = committed_slot E snap D obj" by blast
  show "current_slot E snap D obj1 = current_slot E snap D obj"
    by (simp add: current_slot_def fun_eq_iff f c split: option.split)
qed

lemma cached_view: "cached E snap D obj obj1 \<Longrightarrow> view_obj E snap D obj1 = view_obj E snap D obj"
  by (simp add: view_obj_def cached_slots) (simp add: cached_def so_CodeHash_def)

lemma view_parts [simp]:
  "storage_trie E (so_setError e obj) = storage_trie E obj" "current_code E (so_setError e obj) = current_code E obj"
  "storage_trie E (obj\<lparr>originStorage := m\<rparr>) = storage_trie E obj"
  "current_code E (obj\<lparr>originStorage := m\<rparr>) = current_code E obj"
  "current_code E (obj\<lparr>so_trie := t\<rparr>) = current_code E obj"
  "storage_trie E (obj\<lparr>so_code := c\<rparr>) = storage_trie E obj"
  by (simp_all add: storage_trie_def current_code_def so_CodeHash_def split: option.split sum.split)

lemma cached_error: "cached E snap D obj0 obj \<Longrightarrow> cached E snap D obj0 (so_setError e obj)"
  by (simp add: cached_def)

lemma fst_getTrie: "fst (getTrie E obj) = storage_trie E obj"
  by (simp add: getTrie_def storage_trie_def Let_def split: option.splits sum.splits)

lemma getTrie_cached:
  "cached E snap D obj (snd (getTrie E obj))" "originStorage (snd (getTrie E obj)) = originStorage obj"
proof -
  have "storage_trie E (snd (getTrie E obj)) = storage_trie E obj"
    by (simp add: getTrie_def storage_trie_def Let_def split: option.splits sum.splits)
  then show "cached E snap D obj (snd (getTrie E obj))" "originStorage (snd (getTrie E obj)) = originStorage obj"
    by (simp_all add: cached_def getTrie_def Let_def split: option.splits sum.splits)
qed

lemma cache_value_slot: "fst (cache_value key enc obj) = slot_value enc"
  by (simp add: cache_value_def slot_value_def Let_def split: sum.split prod.split)

lemma cache_value_object:
  "\<exists>e. snd (cache_value key enc obj) = (so_setError e obj)\<lparr>originStorage := (originStorage obj)(key \<mapsto> slot_value enc)\<rparr>
     \<or> snd (cache_value key enc obj) = obj\<lparr>originStorage := (originStorage obj)(key \<mapsto> slot_value enc)\<rparr>"
  by (simp add: cache_value_def slot_value_def Let_def split: sum.split prod.split) blast

lemma cache_value_cached:
  assumes "originStorage obj0 key = None" "base_slot E snap D (so_addrHash obj0) (storage_trie E obj0) key = slot_value enc"
    "cached E snap D obj0 obj" "originStorage obj = originStorage obj0"
  shows "cached E snap D obj0 (snd (cache_value key enc obj))"
proof -
  obtain e where "snd (cache_value key enc obj) = (so_setError e obj)\<lparr>originStorage := (originStorage obj)(key \<mapsto> slot_value enc)\<rparr>
     \<or> snd (cache_value key enc obj) = obj\<lparr>originStorage := (originStorage obj)(key \<mapsto> slot_value enc)\<rparr>"
    using cache_value_object by blast
  then show ?thesis
  proof
    assume "snd (cache_value key enc obj) = (so_setError e obj)\<lparr>originStorage := (originStorage obj)(key \<mapsto> slot_value enc)\<rparr>"
    then show ?thesis using assms by (simp add: cached_def)
  next
    assume "snd (cache_value key enc obj) = obj\<lparr>originStorage := (originStorage obj)(key \<mapsto> slot_value enc)\<rparr>"
    then show ?thesis using assms by (simp add: cached_def)
  qed
qed

lemma read_trie_slot: "fst (read_trie E key obj) = trie_slot E (storage_trie E obj) key"
  unfolding fst_getTrie [symmetric]
  by (simp add: read_trie_def trie_slot_def cache_value_slot case_prod_beta split: sum.split)

lemma read_trie_cached:
  assumes "originStorage obj key = None"
    "base_slot E snap D (so_addrHash obj) (storage_trie E obj) key = trie_slot E (storage_trie E obj) key"
  shows "cached E snap D obj (snd (read_trie E key obj))"
proof -
  note g = getTrie_cached(1) [of E snap D obj] getTrie_cached(2) [of E obj]
  show ?thesis
  proof (cases "TryGet E (storage_trie E obj) key")
    case (Inl e)
    then have "snd (read_trie E key obj) = so_setError (Some e) (snd (getTrie E obj))"
      by (simp add: read_trie_def case_prod_beta fst_getTrie)
    then show ?thesis using cached_error [OF g(1)] by simp
  next
    case (Inr enc)
    then have "snd (read_trie E key obj) = snd (cache_value key enc (snd (getTrie E obj)))"
      by (simp add: read_trie_def case_prod_beta fst_getTrie)
    then show ?thesis using cache_value_cached [OF assms(1) _ g] assms(2) Inr by (simp add: trie_slot_def)
  qed
qed

lemma so_GetCommittedState_slot:
  "fst (so_GetCommittedState E snap D key obj) = committed_slot E snap D obj key"
  by (simp add: so_GetCommittedState_def committed_slot_def base_slot_def read_trie_slot cache_value_slot
      split: option.split sum.split)

lemma so_GetCommittedState_cached: "cached E snap D obj (snd (so_GetCommittedState E snap D key obj))"
proof (cases "fakeStorage obj = None \<and> pendingStorage obj key = None \<and> originStorage obj key = None")
  case True
  then have o: "originStorage obj key = None" by simp
  show ?thesis
  proof (cases snap)
    case None
    then show ?thesis using True read_trie_cached [OF o]
      by (simp add: so_GetCommittedState_def base_slot_def)
  next
    case (Some sn)
    then show ?thesis
      using True read_trie_cached [OF o, of E snap D] cache_value_cached [OF o _ cached_refl refl, of E snap D]
      by (auto simp: so_GetCommittedState_def base_slot_def cached_refl split: sum.split)
  qed
next
  case False
  then show ?thesis by (auto simp: so_GetCommittedState_def cached_refl split: option.split)
qed

lemma so_GetState_slot: "fst (so_GetState E snap D key obj) = current_slot E snap D obj key"
  by (simp add: so_GetState_def current_slot_def so_GetCommittedState_slot split: option.split)

lemma so_GetState_cached: "cached E snap D obj (snd (so_GetState E snap D key obj))"
  by (simp add: so_GetState_def cached_refl so_GetCommittedState_cached split: option.split)

lemma so_Code_code: "fst (so_Code E obj) = current_code E obj"
  by (simp add: so_Code_def current_code_def Let_def split: option.split prod.split)

lemma so_Code_cached: "cached E snap D obj (snd (so_Code E obj))"
proof -
  have "current_code E (snd (so_Code E obj)) = current_code E obj"
    by (simp add: so_Code_def current_code_def so_CodeHash_def Let_def split: option.split prod.split)
  moreover have "storage_trie E (snd (so_Code E obj)) = storage_trie E obj"
    by (simp add: so_Code_def Let_def split: option.split prod.split)
  ultimately show ?thesis
    by (simp add: cached_def so_Code_def Let_def split: option.split prod.split)
qed

section \<open>Loading and storing objects\<close>

lemma sdb_setError_fields [simp]:
  "sdb_trie (sdb_setError e s) = sdb_trie s" "sdb_snap (sdb_setError e s) = sdb_snap s"
  "snapDestructs (sdb_setError e s) = snapDestructs s" "stateObjects (sdb_setError e s) = stateObjects s"
  "refund (sdb_setError e s) = refund s" "logs (sdb_setError e s) = logs s" "logSize (sdb_setError e s) = logSize s"
  "preimages (sdb_setError e s) = preimages s" "thash (sdb_setError e s) = thash s" "bhash (sdb_setError e s) = bhash s"
  "txIndex (sdb_setError e s) = txIndex s" "entries (sdb_setError e s) = entries s"
  "dirties (sdb_setError e s) = dirties s" "validRevisions (sdb_setError e s) = validRevisions s"
  "nextRevisionId (sdb_setError e s) = nextRevisionId s"
  by (simp_all add: sdb_setError_def)

text \<open>Fields that no operation on accounts touches except through the journal.\<close>

definition bookkeeping :: "'t StateDB \<Rightarrow> 't StateDB \<Rightarrow> bool" where
  "bookkeeping s t \<longleftrightarrow> sdb_trie t = sdb_trie s \<and> sdb_snap t = sdb_snap s \<and>
     validRevisions t = validRevisions s \<and> nextRevisionId t = nextRevisionId s"

lemma bookkeeping_trans: "bookkeeping s t \<Longrightarrow> bookkeeping t u \<Longrightarrow> bookkeeping s u"
  by (simp add: bookkeeping_def)

lemma load_account_data: "fst (load_account E addr s) = account_data E (sdb_snap s) (sdb_trie s) addr"
  by (auto simp: load_account_def trie_account_def account_data_def Let_def split: option.split sum.split)

lemma load_account_state: "\<exists>e. snd (load_account E addr s) = sdb_setError e s \<or> snd (load_account E addr s) = s"
  by (auto simp: load_account_def trie_account_def split: option.split sum.split)

lemma getDeleted_object: "fst (getDeletedStateObject E addr s) = live_object E s addr"
  unfolding getDeletedStateObject_def live_object_def load_account_data [symmetric]
  by (auto simp: Let_def split: option.split prod.split)

lemma newObject_address [simp]: "so_address (newObject E addr data) = addr" "so_addrHash (newObject E addr data) = Keccak256 E addr"
  "fakeStorage (newObject E addr data) = None" "deleted (newObject E addr data) = False"
  "suicided (newObject E addr data) = False" "so_code (newObject E addr data) = None"
  "originStorage (newObject E addr data) = Map.empty" "pendingStorage (newObject E addr data) = Map.empty"
  "dirtyStorage (newObject E addr data) = Map.empty" "so_trie (newObject E addr data) = None"
  by (simp_all add: newObject_def Let_def)

lemma getDeleted_state:
  fixes E :: "'t backend" and addr :: address and s :: "'t StateDB"
  defines "s1 \<equiv> snd (getDeletedStateObject E addr s)"
  shows "live_object E s1 = live_object E s" "stateObjects s1 = (stateObjects s)(addr := live_object E s addr)"
    "bookkeeping s s1" "snapDestructs s1 = snapDestructs s" "refund s1 = refund s" "logs s1 = logs s"
    "logSize s1 = logSize s" "preimages s1 = preimages s" "thash s1 = thash s" "bhash s1 = bhash s"
    "txIndex s1 = txIndex s" "entries s1 = entries s" "dirties s1 = dirties s"
proof -
  obtain e s2 where s2: "s2 = sdb_setError e s \<or> s2 = s" "snd (load_account E addr s) = s2"
    using load_account_state by blast
  consider obj where "stateObjects s addr = Some obj" "s1 = s"
    | "stateObjects s addr = None" "live_object E s addr = None" "s1 = s2"
    | obj where "stateObjects s addr = None" "live_object E s addr = Some obj" "so_address obj = addr" "s1 = setStateObject obj s2"
    using s2(2) load_account_data [of E addr s]
    by (cases "stateObjects s addr"; cases "load_account E addr s"; cases "fst (load_account E addr s)")
      (auto simp: s1_def getDeletedStateObject_def live_object_def Let_def)
  note cs = this
  have st: "stateObjects s1 = (stateObjects s)(addr := live_object E s addr)"
    using cs
  proof cases
    case (1 obj)
    then show ?thesis by (simp add: live_object_def fun_upd_idem)
  next
    case 2
    then show ?thesis using s2(1) by (auto simp: fun_upd_idem)
  next
    case (3 obj)
    then show ?thesis using s2(1) by (auto simp: setStateObject_def)
  qed
  then show "stateObjects s1 = (stateObjects s)(addr := live_object E s addr)" .
  have b: "bookkeeping s s1 \<and> snapDestructs s1 = snapDestructs s \<and> refund s1 = refund s \<and> logs s1 = logs s \<and>
    logSize s1 = logSize s \<and> preimages s1 = preimages s \<and> thash s1 = thash s \<and> bhash s1 = bhash s \<and>
    txIndex s1 = txIndex s \<and> entries s1 = entries s \<and> dirties s1 = dirties s"
    using cs s2(1) by cases (auto simp: setStateObject_def bookkeeping_def)
  then show "bookkeeping s s1" "snapDestructs s1 = snapDestructs s" "refund s1 = refund s" "logs s1 = logs s"
    "logSize s1 = logSize s" "preimages s1 = preimages s" "thash s1 = thash s" "bhash s1 = bhash s"
    "txIndex s1 = txIndex s" "entries s1 = entries s" "dirties s1 = dirties s" by simp_all
  show "live_object E s1 = live_object E s"
    using b st by (auto simp: live_object_def fun_eq_iff bookkeeping_def split: option.split)
qed

lemma same_refl: "same E s s"
  by (simp add: same_def)

lemma same_trans: "same E s t \<Longrightarrow> same E t u \<Longrightarrow> same E s u"
  by (simp add: same_def)

lemma same_sym: "same E s t \<Longrightarrow> same E t s"
  by (simp add: same_def)

lemma getDeleted_same: "same E (snd (getDeletedStateObject E addr s)) s"
  using getDeleted_state [where E = E and addr = addr and s = s]
  by (simp add: same_def spec_of_def acct_of_def fun_eq_iff bookkeeping_def)

lemma acct_of_setStateObject:
  "acct_of E (setStateObject obj s) a =
    (if a = so_address obj \<and> a \<in> addresses then Some (view_obj E (sdb_snap s) (snapDestructs s) obj) else acct_of E s a)"
  by (simp add: acct_of_def live_object_def setStateObject_def split: option.split)

end
