(* ===== verification/StateRefine.thy ===== *)
theory StateRefine
  imports StateView
begin

text \<open>
  The journal implements snapshots: every sequence of state operations, with snapshots and reverts to them
  nested at will, behaves as on a state that is copied at each snapshot and restored at each revert.
\<close>

section \<open>Specification\<close>

text \<open>
  The account seen at an address is missing, deleted or live. The operations of the specification act on
  the accounts directly.
\<close>

definition sp_get :: "address \<Rightarrow> spec \<Rightarrow> acct_view option" where
  "sp_get a sp = (case sp_accts sp a of Some v \<Rightarrow> if v_deleted v then None else Some v | None \<Rightarrow> None)"

definition fresh_acct :: "'t backend \<Rightarrow> acct_view" where
  "fresh_acct E =
    \<lparr>v_nonce = 0, v_balance = 0, v_codehash = emptyCodeHash E, v_code = None, v_state = (\<lambda>_. zero_hash),
     v_committed = (\<lambda>_. zero_hash), v_suicided = False, v_deleted = False\<rparr>"

definition sp_put :: "address \<Rightarrow> acct_view \<Rightarrow> spec \<Rightarrow> spec" where
  "sp_put a v sp = sp\<lparr>sp_accts := (sp_accts sp)(a \<mapsto> v)\<rparr>"

definition sp_update :: "'t backend \<Rightarrow> address \<Rightarrow> (acct_view \<Rightarrow> acct_view) \<Rightarrow> spec \<Rightarrow> spec" where
  "sp_update E a f sp = sp_put a (f (case sp_get a sp of Some v \<Rightarrow> v | None \<Rightarrow> fresh_acct E)) sp"

datatype state_op =
    OpAddBalance address int
  | OpSubBalance address int
  | OpSetBalance address int
  | OpSetNonce address u64
  | OpSetCode address bytes
  | OpSetState address hash hash
  | OpSuicide address
  | OpCreateAccount address
  | OpAddRefund u64
  | OpSubRefund u64
  | OpAddLog Log
  | OpAddPreimage hash bytes
  | OpGetState address hash
  | OpGetCommittedState address hash
  | OpGetCode address
  | OpGetBalance address
  | OpSnapshot
  | OpRevert int

fun exec :: "'t backend \<Rightarrow> state_op \<Rightarrow> 't StateDB \<Rightarrow> 't StateDB option" where
  "exec E (OpAddBalance a x) s = Some (AddBalance E a x s)"
| "exec E (OpSubBalance a x) s = Some (SubBalance E a x s)"
| "exec E (OpSetBalance a x) s = Some (SetBalance E a x s)"
| "exec E (OpSetNonce a n) s = Some (SetNonce E a n s)"
| "exec E (OpSetCode a c) s = Some (SetCode E a c s)"
| "exec E (OpSetState a k w) s = Some (SetState E a k w s)"
| "exec E (OpSuicide a) s = Some (snd (Suicide E a s))"
| "exec E (OpCreateAccount a) s = Some (CreateAccount E a s)"
| "exec E (OpAddRefund g) s = Some (AddRefund g s)"
| "exec E (OpSubRefund g) s = SubRefund g s"
| "exec E (OpAddLog l) s = Some (AddLog l s)"
| "exec E (OpAddPreimage h p) s = Some (AddPreimage h p s)"
| "exec E (OpGetState a k) s = Some (snd (GetState E a k s))"
| "exec E (OpGetCommittedState a k) s = Some (snd (GetCommittedState E a k s))"
| "exec E (OpGetCode a) s = Some (snd (GetCode E a s))"
| "exec E (OpGetBalance a) s = Some (snd (GetBalance E a s))"
| "exec E OpSnapshot s = Some (snd (Snapshot s))"
| "exec E (OpRevert i) s = RevertToSnapshot E i s"

fun exec_all :: "'t backend \<Rightarrow> state_op list \<Rightarrow> 't StateDB \<Rightarrow> 't StateDB option" where
  "exec_all E [] s = Some s"
| "exec_all E (op # ops) s = (case exec E op s of None \<Rightarrow> None | Some s1 \<Rightarrow> exec_all E ops s1)"

text \<open>The machine of the specification: the current state, the saved copies with their ids, the next id.\<close>

record machine =
  m_cur :: spec
  m_saved :: "(int \<times> spec) list"
  m_next :: int

fun spec_op :: "'t backend \<Rightarrow> state_op \<Rightarrow> spec \<Rightarrow> spec option" where
  "spec_op E (OpAddBalance a x) sp = Some (sp_update E a (\<lambda>v. v\<lparr>v_balance := v_balance v + x\<rparr>) sp)"
| "spec_op E (OpSubBalance a x) sp = Some (sp_update E a (\<lambda>v. v\<lparr>v_balance := v_balance v - x\<rparr>) sp)"
| "spec_op E (OpSetBalance a x) sp = Some (sp_update E a (\<lambda>v. v\<lparr>v_balance := x\<rparr>) sp)"
| "spec_op E (OpSetNonce a n) sp = Some (sp_update E a (\<lambda>v. v\<lparr>v_nonce := n\<rparr>) sp)"
| "spec_op E (OpSetCode a c) sp =
     Some (sp_update E a (\<lambda>v. v\<lparr>v_codehash := Keccak256 E c, v_code := Some c\<rparr>) sp)"
| "spec_op E (OpSetState a k w) sp = Some (sp_update E a (\<lambda>v. v\<lparr>v_state := (v_state v)(k := w)\<rparr>) sp)"
| "spec_op E (OpSuicide a) sp =
     Some (if sp_get a sp = None then sp
           else sp_update E a (\<lambda>v. v\<lparr>v_balance := 0, v_suicided := True\<rparr>) sp)"
| "spec_op E (OpCreateAccount a) sp =
     Some (sp_put a ((fresh_acct E)\<lparr>v_balance := (case sp_accts sp a of Some v \<Rightarrow> v_balance v | None \<Rightarrow> 0)\<rparr>) sp)"
| "spec_op E (OpAddRefund g) sp = Some (sp\<lparr>sp_refund := sp_refund sp + g\<rparr>)"
| "spec_op E (OpSubRefund g) sp = (if g > sp_refund sp then None else Some (sp\<lparr>sp_refund := sp_refund sp - g\<rparr>))"
| "spec_op E (OpAddLog l) sp =
     Some (sp\<lparr>sp_logs := (sp_logs sp)(sp_thash sp \<mapsto> (case sp_logs sp (sp_thash sp) of None \<Rightarrow> [] | Some ls \<Rightarrow> ls) @
             [l\<lparr>log_TxHash := sp_thash sp, log_BlockHash := sp_bhash sp, log_TxIndex := word_of_int (sp_txIndex sp),
                log_Index := sp_logSize sp\<rparr>]),
              sp_logSize := sp_logSize sp + 1\<rparr>)"
| "spec_op E (OpAddPreimage h p) sp =
     Some (if sp_preimages sp h = None then sp\<lparr>sp_preimages := (sp_preimages sp)(h \<mapsto> p)\<rparr> else sp)"
| "spec_op E _ sp = Some sp"

fun spec_exec :: "'t backend \<Rightarrow> state_op \<Rightarrow> machine \<Rightarrow> machine option" where
  "spec_exec E OpSnapshot m =
     Some (m\<lparr>m_saved := m_saved m @ [(m_next m, m_cur m)], m_next := m_next m + 1\<rparr>)"
| "spec_exec E (OpRevert i) m =
     (case map_of (m_saved m) i of
        None \<Rightarrow> None
      | Some sp \<Rightarrow> Some (m\<lparr>m_cur := sp, m_saved := takeWhile (\<lambda>(j, _). j < i) (m_saved m)\<rparr>))"
| "spec_exec E op m = map_option (\<lambda>sp. m\<lparr>m_cur := sp\<rparr>) (spec_op E op (m_cur m))"

fun spec_all :: "'t backend \<Rightarrow> state_op list \<Rightarrow> machine \<Rightarrow> machine option" where
  "spec_all E [] m = Some m"
| "spec_all E (op # ops) m = (case spec_exec E op m of None \<Rightarrow> None | Some m1 \<Rightarrow> spec_all E ops m1)"

section \<open>Invariant\<close>

text \<open>
  What the state relies on: addresses have distinct hashes, hashes have 32 bytes, stored accounts have a
  code hash of that length, an empty storage trie holds nothing and a snapshot has no storage for an
  account that does not exist.
\<close>

definition backend_ok :: "'t backend \<Rightarrow> snapshot option \<Rightarrow> 't \<Rightarrow> bool" where
  "backend_ok E snap tr \<longleftrightarrow>
    inj_on (Keccak256 E) addresses \<and> (\<forall>b. length (Keccak256 E b) = HashLength) \<and>
    (\<forall>a data. account_data E snap tr a = Some data \<longrightarrow> length (nil_slice (acc_CodeHash data)) = HashLength) \<and>
    (\<forall>h t k. OpenStorageTrie E h emptyRoot = Inr t \<longrightarrow> trie_slot E t k = zero_hash) \<and>
    (\<forall>h k. trie_slot E (emptyStorageTrie E h) k = zero_hash) \<and>
    (\<forall>sn a k enc. snap = Some sn \<longrightarrow> account_data E snap tr a = None \<longrightarrow>
       snap_Storage sn (Keccak256 E a) k = Inr enc \<longrightarrow> slot_value enc = zero_hash)"

definition obj_ok :: "'t backend \<Rightarrow> address \<Rightarrow> 't stateObject \<Rightarrow> bool" where
  "obj_ok E a obj \<longleftrightarrow> so_address obj = a \<and> so_addrHash obj = Keccak256 E a \<and> a \<in> addresses \<and>
     fakeStorage obj = None \<and> length (so_CodeHash obj) = HashLength"

fun entry_ok :: "'t backend \<Rightarrow> 't journalEntry \<Rightarrow> bool" where
  "entry_ok E (CreateObjectChange a) = (a \<in> addresses)"
| "entry_ok E (ResetObjectChange prev _) = obj_ok E (so_address prev) prev"
| "entry_ok E (SuicideChange a _ _) = (a \<in> addresses)"
| "entry_ok E (BalanceChange a _) = (a \<in> addresses)"
| "entry_ok E (NonceChange a _) = (a \<in> addresses)"
| "entry_ok E (StorageChange a _ _) = (a \<in> addresses)"
| "entry_ok E (CodeChange a _ h) = (a \<in> addresses)"
| "entry_ok E _ = True"

definition wf_state :: "'t backend \<Rightarrow> 't StateDB \<Rightarrow> bool" where
  "wf_state E s \<longleftrightarrow> (\<forall>a obj. stateObjects s a = Some obj \<longrightarrow> obj_ok E a obj) \<and>
     (\<forall>e \<in> set (entries s). entry_ok E e) \<and> backend_ok E (sdb_snap s) (sdb_trie s)"

lemma live_ok:
  assumes "wf_state E s" "a \<in> addresses" "live_object E s a = Some obj"
  shows "obj_ok E a obj"
proof (cases "stateObjects s a")
  case None
  then obtain data where d: "account_data E (sdb_snap s) (sdb_trie s) a = Some data" "obj = newObject E a data"
    using assms(3) by (auto simp: live_object_def)
  have "length (nil_slice (acc_CodeHash data)) = HashLength" "length (Keccak256 E []) = HashLength"
    using assms(1) d(1) by (auto simp: wf_state_def backend_ok_def)
  then have "length (so_CodeHash obj) = HashLength"
    by (auto simp: d(2) so_CodeHash_def newObject_def Let_def nil_slice_def emptyCodeHash_def split: option.splits)
  then show ?thesis using assms(2) by (simp add: obj_ok_def d(2))
next
  case (Some x)
  then show ?thesis using assms by (auto simp: wf_state_def live_object_def)
qed

section \<open>Views of changed objects\<close>

lemma slots_data [simp]:
  "acc_Root d = acc_Root (so_data obj) \<Longrightarrow> storage_trie E (obj\<lparr>so_data := d\<rparr>) = storage_trie E obj"
  "storage_trie E (obj\<lparr>suicided := b\<rparr>) = storage_trie E obj" "storage_trie E (obj\<lparr>dirtyCode := b\<rparr>) = storage_trie E obj"
  "storage_trie E (obj\<lparr>dirtyStorage := m\<rparr>) = storage_trie E obj" "current_code E (obj\<lparr>dirtyStorage := m\<rparr>) = current_code E obj"
  "current_code E (obj\<lparr>suicided := b\<rparr>) = current_code E obj"
  by (simp_all add: storage_trie_def current_code_def so_CodeHash_def split: option.split sum.split)

lemma slots_obj [simp]:
  "acc_Root d = acc_Root (so_data obj) \<Longrightarrow> committed_slot E snap D (obj\<lparr>so_data := d\<rparr>) = committed_slot E snap D obj"
  "committed_slot E snap D (obj\<lparr>suicided := b\<rparr>) = committed_slot E snap D obj"
  "committed_slot E snap D (obj\<lparr>dirtyCode := b\<rparr>) = committed_slot E snap D obj"
  "committed_slot E snap D (obj\<lparr>so_code := c\<rparr>) = committed_slot E snap D obj"
  "committed_slot E snap D (obj\<lparr>dirtyStorage := m\<rparr>) = committed_slot E snap D obj"
  by (simp_all add: committed_slot_def fun_eq_iff split: option.split)

lemma current_obj [simp]:
  "acc_Root d = acc_Root (so_data obj) \<Longrightarrow> current_slot E snap D (obj\<lparr>so_data := d\<rparr>) = current_slot E snap D obj"
  "current_slot E snap D (obj\<lparr>suicided := b\<rparr>) = current_slot E snap D obj"
  "current_slot E snap D (obj\<lparr>dirtyCode := b\<rparr>) = current_slot E snap D obj"
  "current_slot E snap D (obj\<lparr>so_code := c\<rparr>) = current_slot E snap D obj"
  by (simp_all add: current_slot_def fun_eq_iff split: option.split)

lemma current_code_data [simp]:
  "acc_CodeHash d = acc_CodeHash (so_data obj) \<Longrightarrow> current_code E (obj\<lparr>so_data := d\<rparr>) = current_code E obj"
  by (simp add: current_code_def so_CodeHash_def split: option.split)

lemma view_setBalance: "view_obj E snap D (setBalance b obj) = (view_obj E snap D obj)\<lparr>v_balance := b\<rparr>"
  by (simp add: view_obj_def setBalance_def so_CodeHash_def)

lemma view_setNonce: "view_obj E snap D (setNonce n obj) = (view_obj E snap D obj)\<lparr>v_nonce := n\<rparr>"
  by (simp add: view_obj_def setNonce_def so_CodeHash_def)

lemma view_suicided: "view_obj E snap D (obj\<lparr>suicided := b\<rparr>) = (view_obj E snap D obj)\<lparr>v_suicided := b\<rparr>"
  by (simp add: view_obj_def so_CodeHash_def)

lemma view_setState:
  "fakeStorage obj = None \<Longrightarrow>
    view_obj E snap D (setState k w obj) = (view_obj E snap D obj)\<lparr>v_state := (v_state (view_obj E snap D obj))(k := w)\<rparr>"
  by (simp add: view_obj_def setState_def so_CodeHash_def current_slot_def fun_eq_iff split: option.split)

definition code_view :: "'t backend \<Rightarrow> hash \<Rightarrow> hash \<Rightarrow> bytes option \<Rightarrow> bytes option" where
  "code_view E h codeHash code =
    (case code of Some c \<Rightarrow> Some c
     | None \<Rightarrow> if codeHash = emptyCodeHash E then None else fst (ContractCode E h (BytesToHash codeHash)))"

lemma current_code_view: "current_code E obj = code_view E (so_addrHash obj) (so_CodeHash obj) (so_code obj)"
  by (simp add: current_code_def code_view_def)

lemma view_setCode:
  "view_obj E snap D (setCode h c obj) =
    (view_obj E snap D obj)\<lparr>v_codehash := h, v_code := code_view E (so_addrHash obj) h c\<rparr>"
  by (simp add: view_obj_def setCode_def so_CodeHash_def nil_slice_def current_code_view)

lemmas view_set = view_setBalance view_setNonce view_suicided view_setState view_setCode

section \<open>Reverting respects the view\<close>

lemma obj_ok_set:
  assumes "obj_ok E a obj"
  shows "obj_ok E a (setBalance b obj)" "obj_ok E a (setNonce n obj)" "obj_ok E a (setState k w obj)"
    "length h = HashLength \<Longrightarrow> obj_ok E a (setCode h c obj)" "obj_ok E a (obj\<lparr>suicided := x\<rparr>)"
  using assms
  by (simp_all add: obj_ok_def setBalance_def setNonce_def setState_def setCode_def so_CodeHash_def nil_slice_def)

definition agree :: "'t backend \<Rightarrow> 't StateDB \<Rightarrow> 't StateDB \<Rightarrow> bool" where
  "agree E s t \<longleftrightarrow> same E s t \<and> wf_state E s \<and> wf_state E t"

lemma wf_setStateObject:
  "wf_state E s \<Longrightarrow> obj_ok E (so_address obj) obj \<Longrightarrow> wf_state E (setStateObject obj s)"
  by (auto simp: wf_state_def setStateObject_def)

lemma wf_getDeleted:
  assumes "wf_state E s" "a \<in> addresses"
  shows "wf_state E (snd (getDeletedStateObject E a s))"
proof -
  note g = getDeleted_state [where E = E and addr = a and s = s]
  have "obj_ok E b obj" if "stateObjects (snd (getDeletedStateObject E a s)) b = Some obj" for b obj
    using that assms live_ok [OF assms] unfolding g(2) by (auto simp: wf_state_def split: if_splits)
  then show ?thesis using assms(1) g by (simp add: wf_state_def bookkeeping_def)
qed

lemma getStateObject_snd: "snd (getStateObject E a s) = snd (getDeletedStateObject E a s)"
  by (simp add: getStateObject_def split: prod.split option.split)

lemma getStateObject_fst:
  "fst (getStateObject E a s) =
    (case live_object E s a of Some obj \<Rightarrow> if deleted obj then None else Some obj | None \<Rightarrow> None)"
  unfolding getDeleted_object [symmetric] by (simp add: getStateObject_def split: prod.split option.split)

lemma same_acct: "same E s t \<Longrightarrow> acct_of E s a = acct_of E t a"
  by (simp add: same_def spec_of_def)

lemma same_setStateObject:
  assumes "same E s t" "so_address o1 = so_address o2"
    "view_obj E (sdb_snap s) (snapDestructs s) o1 = view_obj E (sdb_snap s) (snapDestructs s) o2"
  shows "same E (setStateObject o1 s) (setStateObject o2 t)"
proof -
  have "acct_of E (setStateObject o1 s) = acct_of E (setStateObject o2 t)"
    using assms same_acct [OF assms(1)] by (auto simp: fun_eq_iff acct_of_setStateObject same_def)
  then show ?thesis using assms(1) by (simp add: same_def spec_of_def) (simp add: setStateObject_def)
qed

lemma agree_objects:
  assumes "agree E s t" "a \<in> addresses"
  shows "rel_option (\<lambda>o1 o2. view_obj E (sdb_snap s) (snapDestructs s) o1 = view_obj E (sdb_snap s) (snapDestructs s) o2 \<and>
      obj_ok E a o1 \<and> obj_ok E a o2) (live_object E s a) (live_object E t a)"
proof -
  have st: "same E s t" "wf_state E s" "wf_state E t" using assms(1) by (simp_all add: agree_def)
  have "acct_of E s a = acct_of E t a" by (rule same_acct [OF st(1)])
  then have m: "map_option (view_obj E (sdb_snap s) (snapDestructs s)) (live_object E s a) =
      map_option (view_obj E (sdb_snap s) (snapDestructs s)) (live_object E t a)"
    using assms(2) st(1) by (simp add: acct_of_def same_def)
  show ?thesis
  proof (cases "live_object E s a")
    case None
    then show ?thesis using m by simp
  next
    case (Some o1)
    then obtain o2 where "live_object E t a = Some o2" using m by (metis map_option_is_None not_None_eq option.simps(3))
    then show ?thesis using Some m live_ok [OF st(2) assms(2)] live_ok [OF st(3) assms(2)] by simp
  qed
qed

lemma agree_getDeleted:
  assumes "agree E s t" "a \<in> addresses"
  shows "agree E (snd (getDeletedStateObject E a s)) (snd (getDeletedStateObject E a t))"
  using assms getDeleted_same same_sym same_trans wf_getDeleted unfolding agree_def by blast

lemma agree_with_object:
  assumes "agree E s t" "a \<in> addresses"
    and f: "\<And>o1 o2 snap D. obj_ok E a o1 \<Longrightarrow> obj_ok E a o2 \<Longrightarrow> view_obj E snap D o1 = view_obj E snap D o2 \<Longrightarrow>
      view_obj E snap D (f o1) = view_obj E snap D (f o2) \<and> obj_ok E a (f o1) \<and> obj_ok E a (f o2)"
  shows "rel_option (agree E) (with_object E a f s) (with_object E a f t)"
proof -
  note o = agree_objects [OF assms(1,2)]
  have w: "with_object E a f u = (case live_object E u a of None \<Rightarrow> None | Some obj \<Rightarrow>
      if deleted obj then None else Some (setStateObject (f obj) (snd (getDeletedStateObject E a u))))" for u
    unfolding with_object_def using getStateObject_fst [of E a u] getStateObject_snd [of E a u]
    by (cases "getStateObject E a u") (auto split: option.splits if_splits)
  show ?thesis
  proof (cases "live_object E s a")
    case None
    then show ?thesis using o by (cases "live_object E t a") (simp_all add: w)
  next
    case (Some o1)
    then obtain o2 where o2: "live_object E t a = Some o2" using o by (cases "live_object E t a") auto
    have v: "view_obj E (sdb_snap s) (snapDestructs s) o1 = view_obj E (sdb_snap s) (snapDestructs s) o2"
      "obj_ok E a o1" "obj_ok E a o2" using o Some o2 by simp_all
    then have d: "deleted o1 = deleted o2" by (simp add: view_obj_def)
    note g = getDeleted_state [where E = E and addr = a and s = s]
    have ff: "view_obj E (sdb_snap s) (snapDestructs s) (f o1) = view_obj E (sdb_snap s) (snapDestructs s) (f o2)"
      "obj_ok E a (f o1)" "obj_ok E a (f o2)" using f [OF v(2,3,1)] by simp_all
    have ag: "agree E (snd (getDeletedStateObject E a s)) (snd (getDeletedStateObject E a t))"
      by (rule agree_getDeleted [OF assms(1,2)])
    have "agree E (setStateObject (f o1) (snd (getDeletedStateObject E a s)))
        (setStateObject (f o2) (snd (getDeletedStateObject E a t)))"
      using ag ff g(3,4) same_setStateObject [of E "snd (getDeletedStateObject E a s)" "snd (getDeletedStateObject E a t)" "f o1" "f o2"]
        wf_setStateObject [of E _ "f o1"] wf_setStateObject [of E _ "f o2"]
      by (simp add: agree_def obj_ok_def bookkeeping_def)
    then show ?thesis using Some o2 d by (simp add: w)
  qed
qed

end
