(* ===== verification/StateJournal.thy ===== *)
theory StateJournal
  imports StateRefine
begin

text \<open>
  The journal of src/core/state/journal.go against what a state shows: undoing an entry depends on the shown
  state only, and every change that goes through \<open>journal_append\<close> can be undone (\<open>journalled\<close>).
\<close>

section \<open>Undoing one entry\<close>

lemma view_eq_iff:
  "view_obj E snap D o1 = view_obj E snap D o2 \<longleftrightarrow>
    acc_Nonce (so_data o1) = acc_Nonce (so_data o2) \<and> acc_Balance (so_data o1) = acc_Balance (so_data o2) \<and>
    so_CodeHash o1 = so_CodeHash o2 \<and> current_code E o1 = current_code E o2 \<and>
    current_slot E snap D o1 = current_slot E snap D o2 \<and> committed_slot E snap D o1 = committed_slot E snap D o2 \<and>
    suicided o1 = suicided o2 \<and> deleted o1 = deleted o2"
  by (simp add: view_obj_def)

lemma live_object_fields [simp]:
  "live_object E (s\<lparr>refund := r\<rparr>) = live_object E s"
  "live_object E (s\<lparr>logs := l\<rparr>) = live_object E s"
  "live_object E (s\<lparr>logSize := n\<rparr>) = live_object E s"
  "live_object E (s\<lparr>preimages := p\<rparr>) = live_object E s"
  "live_object E (s\<lparr>entries := es\<rparr>) = live_object E s"
  "live_object E (s\<lparr>dirties := d\<rparr>) = live_object E s"
  "live_object E (s\<lparr>validRevisions := v\<rparr>) = live_object E s"
  "live_object E (s\<lparr>nextRevisionId := i\<rparr>) = live_object E s"
  "live_object E (s\<lparr>stateObjectsDirty := x\<rparr>) = live_object E s"
  "live_object E (s\<lparr>stateObjectsPending := x\<rparr>) = live_object E s"
  "live_object E (s\<lparr>snapDestructs := D\<rparr>) = live_object E s"
  by (simp_all add: live_object_def fun_eq_iff split: option.split)

lemma acct_of_fields [simp]:
  "acct_of E (s\<lparr>refund := r\<rparr>) = acct_of E s"
  "acct_of E (s\<lparr>logs := l\<rparr>) = acct_of E s"
  "acct_of E (s\<lparr>logSize := n\<rparr>) = acct_of E s"
  "acct_of E (s\<lparr>preimages := p\<rparr>) = acct_of E s"
  "acct_of E (s\<lparr>entries := es\<rparr>) = acct_of E s"
  "acct_of E (s\<lparr>dirties := d\<rparr>) = acct_of E s"
  "acct_of E (s\<lparr>validRevisions := v\<rparr>) = acct_of E s"
  "acct_of E (s\<lparr>nextRevisionId := i\<rparr>) = acct_of E s"
  "acct_of E (s\<lparr>stateObjectsDirty := x\<rparr>) = acct_of E s"
  "acct_of E (s\<lparr>stateObjectsPending := x\<rparr>) = acct_of E s"
  by (simp_all add: acct_of_def fun_eq_iff)

lemma same_fields:
  "same E s t \<Longrightarrow> same E (s\<lparr>refund := r\<rparr>) (t\<lparr>refund := r\<rparr>)"
  "same E s t \<Longrightarrow> same E (s\<lparr>preimages := p\<rparr>) (t\<lparr>preimages := p\<rparr>)"
  "same E s t \<Longrightarrow> same E (s\<lparr>logs := l, logSize := n\<rparr>) (t\<lparr>logs := l, logSize := n\<rparr>)"
  by (simp_all add: same_def spec_of_def)

lemma same_get: "same E s t \<Longrightarrow> refund s = refund t" "same E s t \<Longrightarrow> preimages s = preimages t"
  "same E s t \<Longrightarrow> logs s = logs t" "same E s t \<Longrightarrow> logSize s = logSize t" "same E s t \<Longrightarrow> thash s = thash t"
  by (simp_all add: same_def spec_of_def)

lemma wf_fields [simp]:
  "wf_state E (s\<lparr>refund := r\<rparr>) = wf_state E s" "wf_state E (s\<lparr>preimages := p\<rparr>) = wf_state E s"
  "wf_state E (s\<lparr>logs := l, logSize := n\<rparr>) = wf_state E s" "wf_state E (s\<lparr>snapDestructs := D\<rparr>) = wf_state E s"
  "wf_state E (s\<lparr>dirties := d\<rparr>) = wf_state E s" "wf_state E (s\<lparr>validRevisions := v\<rparr>) = wf_state E s"
  "wf_state E (s\<lparr>nextRevisionId := i\<rparr>) = wf_state E s"
  by (simp_all add: wf_state_def)

lemma view_destructs:
  assumes "obj_ok E b obj" "h \<noteq> Keccak256 E b"
  shows "view_obj E snap (D - {h}) obj = view_obj E snap D obj" "view_obj E snap (insert h D) obj = view_obj E snap D obj"
proof -
  have "base_slot E snap (D - {h}) (so_addrHash obj) = base_slot E snap D (so_addrHash obj)"
    "base_slot E snap (insert h D) (so_addrHash obj) = base_slot E snap D (so_addrHash obj)"
    using assms by (auto simp: base_slot_def obj_ok_def fun_eq_iff split: option.split)
  then show "view_obj E snap (D - {h}) obj = view_obj E snap D obj" "view_obj E snap (insert h D) obj = view_obj E snap D obj"
    by (simp_all add: view_obj_def current_slot_def committed_slot_def fun_eq_iff split: option.split)
qed

lemma acct_of_delete:
  assumes "wf_state E s" "obj_ok E a obj" "b \<in> addresses"
  shows "acct_of E ((setStateObject obj s)\<lparr>snapDestructs := snapDestructs s - {so_addrHash obj}\<rparr>) b =
    (if b = a then Some (view_obj E (sdb_snap s) (snapDestructs s - {so_addrHash obj}) obj) else acct_of E s b)"
proof (cases "b = a")
  case True
  then show ?thesis using assms by (simp add: acct_of_def live_object_def setStateObject_def obj_ok_def)
next
  case False
  have "inj_on (Keccak256 E) addresses" using assms(1) by (simp add: wf_state_def backend_ok_def)
  then have h: "so_addrHash obj \<noteq> Keccak256 E b"
    using False assms(2,3) by (auto simp: obj_ok_def dest: inj_onD)
  have l: "live_object E ((setStateObject obj s)\<lparr>snapDestructs := snapDestructs s - {so_addrHash obj}\<rparr>) b = live_object E s b"
    using False assms(2) by (simp add: live_object_def setStateObject_def obj_ok_def split: option.split)
  have "map_option (view_obj E (sdb_snap s) (snapDestructs s - {so_addrHash obj})) (live_object E s b) =
      map_option (view_obj E (sdb_snap s) (snapDestructs s)) (live_object E s b)"
    using view_destructs(1) [OF live_ok [OF assms(1,3)] h] by (cases "live_object E s b") simp_all
  then show ?thesis using False assms(3) l by (simp add: acct_of_def) (simp add: setStateObject_def)
qed

lemma revert_entry_agree:
  assumes ag: "agree E s t" and e: "entry_ok E e"
  shows "rel_option (agree E) (revert_entry E e s) (revert_entry E e t)"
proof -
  have st: "same E s t" "wf_state E s" "wf_state E t" using ag by (simp_all add: agree_def)
  show ?thesis
  proof (cases e)
    case (CreateObjectChange a)
    have d: "acct_of E (u\<lparr>stateObjects := (stateObjects u)(a := None), stateObjectsDirty := x\<rparr>) b =
        (if b = a then (if a \<in> addresses then map_option (view_obj E (sdb_snap u) (snapDestructs u) \<circ> newObject E a)
           (account_data E (sdb_snap u) (sdb_trie u) a) else None) else acct_of E u b)" for u x b
      by (simp add: acct_of_def live_object_def option.map_comp split: option.split)
    have "same E (s\<lparr>stateObjects := (stateObjects s)(a := None), stateObjectsDirty := stateObjectsDirty s - {a}\<rparr>)
       (t\<lparr>stateObjects := (stateObjects t)(a := None), stateObjectsDirty := stateObjectsDirty t - {a}\<rparr>)"
      using st(1) same_acct [OF st(1)] d by (simp add: same_def spec_of_def fun_eq_iff)
    then show ?thesis using CreateObjectChange st(2,3) by (auto simp: agree_def wf_state_def)
  next
    case (ResetObjectChange prev pd)
    then have ok: "obj_ok E (so_address prev) prev" using e by simp
    have a1: "same E (setStateObject prev s) (setStateObject prev t)" by (rule same_setStateObject [OF st(1)]) simp_all
    have a2: "same E ((setStateObject prev s)\<lparr>snapDestructs := snapDestructs s - {so_addrHash prev}\<rparr>)
        ((setStateObject prev t)\<lparr>snapDestructs := snapDestructs t - {so_addrHash prev}\<rparr>)"
    proof -
      have "acct_of E ((setStateObject prev s)\<lparr>snapDestructs := snapDestructs s - {so_addrHash prev}\<rparr>) b =
          acct_of E ((setStateObject prev t)\<lparr>snapDestructs := snapDestructs t - {so_addrHash prev}\<rparr>) b" for b
        using acct_of_delete [OF st(2) ok, of b] acct_of_delete [OF st(3) ok, of b] same_acct [OF st(1), of b] st(1)
        by (cases "b \<in> addresses") (simp_all add: same_def acct_of_def)
      then show ?thesis using st(1) by (simp add: same_def spec_of_def fun_eq_iff) (simp add: setStateObject_def)
    qed
    have w: "wf_state E (setStateObject prev s)" "wf_state E (setStateObject prev t)"
      using wf_setStateObject ok st(2,3) by blast+
    have f: "sdb_snap (setStateObject prev s) = sdb_snap s" "snapDestructs (setStateObject prev s) = snapDestructs s"
      "sdb_snap (setStateObject prev t) = sdb_snap s" "snapDestructs (setStateObject prev t) = snapDestructs t"
      using st(1) by (simp_all add: setStateObject_def same_def)
    show ?thesis using a1 a2 w by (simp add: ResetObjectChange agree_def Let_def f)
  next
    case (SuicideChange a p b)
    note aw = agree_with_object [OF ag, of a "\<lambda>obj. setBalance b (obj\<lparr>suicided := p\<rparr>)"]
    have "rel_option (agree E) (with_object E a (\<lambda>obj. setBalance b (obj\<lparr>suicided := p\<rparr>)) s)
        (with_object E a (\<lambda>obj. setBalance b (obj\<lparr>suicided := p\<rparr>)) t)"
      using e SuicideChange by (intro aw) (simp_all add: view_setBalance view_suicided obj_ok_set)
    moreover have "agree E (snd (getStateObject E a s)) (snd (getStateObject E a t))"
      using agree_getDeleted [OF ag] e SuicideChange by (simp add: getStateObject_snd)
    ultimately show ?thesis using SuicideChange
      by (auto simp: with_object_def split: prod.splits option.splits)
  next
    case (BalanceChange a b)
    then show ?thesis using e by (auto intro!: agree_with_object [OF ag] simp: view_setBalance obj_ok_set)
  next
    case (NonceChange a n)
    then show ?thesis using e by (auto intro!: agree_with_object [OF ag] simp: view_setNonce obj_ok_set)
  next
    case (StorageChange a k w)
    then show ?thesis using e
      by (auto intro!: agree_with_object [OF ag] simp: view_setState obj_ok_set) (auto simp: obj_ok_def view_setState)
  next
    case (CodeChange a c h)
    then show ?thesis using e
      by (auto intro!: agree_with_object [OF ag] simp: view_setCode obj_ok_set) (auto simp: obj_ok_def)
  next
    case (RefundChange r)
    then show ?thesis using st same_fields(1) by (auto simp: agree_def)
  next
    case (AddLogChange h)
    then show ?thesis using st same_fields(3) [OF st(1)] same_get [OF st(1)] by (auto simp: agree_def Let_def)
  next
    case (AddPreimageChange h)
    then show ?thesis using st same_fields(2) [OF st(1)] same_get [OF st(1)] by (auto simp: agree_def)
  next
    case (TouchChange a)
    then show ?thesis using ag by simp
  qed
qed

section \<open>Journalled changes\<close>

lemma undirty_fields [simp]:
  "wf_state E (journal_undirty e s) = wf_state E s" "same E (journal_undirty e s) t = same E s t"
  "same E t (journal_undirty e s) = same E t s"
  by (simp_all add: journal_undirty_def Let_def same_def spec_of_def split: option.split)

lemma agree_undirty [simp]: "agree E (journal_undirty e s) (journal_undirty e t) = agree E s t"
  by (simp add: agree_def)

lemma revert_entries_agree:
  "agree E s t \<Longrightarrow> \<forall>e \<in> set es. entry_ok E e \<Longrightarrow>
    rel_option (agree E) (revert_entries E es s) (revert_entries E es t)"
proof (induction es arbitrary: s t)
  case (Cons e es)
  have "rel_option (agree E) (revert_entry E e s) (revert_entry E e t)"
    using revert_entry_agree [OF Cons(2)] Cons(3) by simp
  then show ?case using Cons(1,3) by (cases rule: option.rel_cases) auto
qed simp

lemma revert_entries_append:
  "revert_entries E (es @ fs) s = (case revert_entries E es s of None \<Rightarrow> None | Some t \<Rightarrow> revert_entries E fs t)"
  by (induction es arbitrary: s) (auto split: option.split)

text \<open>
  One journalled change: the entries it appends, undone in reverse order, lead undone to a state that looks
  like the one before.
\<close>

definition journalled :: "'t backend \<Rightarrow> 't StateDB \<Rightarrow> 't StateDB \<Rightarrow> bool" where
  "journalled E s s1 \<longleftrightarrow> wf_state E s1 \<and> bookkeeping s s1 \<and>
    (\<exists>es. entries s1 = entries s @ es \<and> (\<exists>t. revert_entries E (rev es) s1 = Some t \<and> agree E t s))"

lemma journalled_same:
  "same E s1 s \<Longrightarrow> wf_state E s1 \<Longrightarrow> wf_state E s \<Longrightarrow> bookkeeping s s1 \<Longrightarrow> entries s1 = entries s \<Longrightarrow> journalled E s s1"
  by (simp add: journalled_def agree_def)

lemma journalled_wf: "journalled E s s1 \<Longrightarrow> wf_state E s1"
  by (simp add: journalled_def)

lemma journalled_trans:
  assumes "journalled E s s1" "journalled E s1 s2"
  shows "journalled E s s2"
proof -
  obtain es t where es: "entries s1 = entries s @ es" "revert_entries E (rev es) s1 = Some t" "agree E t s"
    using assms(1) by (auto simp: journalled_def)
  obtain fs u where fs: "entries s2 = entries s1 @ fs" "revert_entries E (rev fs) s2 = Some u" "agree E u s1"
    using assms(2) by (auto simp: journalled_def)
  have "\<forall>e \<in> set (rev es). entry_ok E e" using assms(1) es(1) by (auto simp: journalled_def wf_state_def)
  from revert_entries_agree [OF fs(3) this] obtain w where w: "revert_entries E (rev es) u = Some w" "agree E w t"
    using es(2) by (cases "revert_entries E (rev es) u") auto
  then have "agree E w s" using es(3) same_trans unfolding agree_def by blast
  then show ?thesis
    using assms es(1) fs(1,2) w(1) bookkeeping_trans unfolding journalled_def
    by (intro conjI exI [of _ "es @ fs"] exI [of _ w]) (auto simp: revert_entries_append)
qed

lemma journal_append_fields [simp]:
  "stateObjects (journal_append e s) = stateObjects s" "sdb_snap (journal_append e s) = sdb_snap s"
  "sdb_trie (journal_append e s) = sdb_trie s" "snapDestructs (journal_append e s) = snapDestructs s"
  "entries (journal_append e s) = entries s @ [e]" "refund (journal_append e s) = refund s"
  "logs (journal_append e s) = logs s" "logSize (journal_append e s) = logSize s"
  "preimages (journal_append e s) = preimages s" "thash (journal_append e s) = thash s"
  "bhash (journal_append e s) = bhash s" "txIndex (journal_append e s) = txIndex s"
  "validRevisions (journal_append e s) = validRevisions s" "nextRevisionId (journal_append e s) = nextRevisionId s"
  "stateObjectsPending (journal_append e s) = stateObjectsPending s"
  by (simp_all add: journal_append_def journal_dirty_def Let_def split: option.split)

lemma journal_append_view [simp]:
  "acct_of E (journal_append e s) = acct_of E s" "live_object E (journal_append e s) = live_object E s"
  "spec_of E (journal_append e s) = spec_of E s"
proof -
  show l: "live_object E (journal_append e s) = live_object E s"
    by (simp add: live_object_def fun_eq_iff split: option.split)
  then show a: "acct_of E (journal_append e s) = acct_of E s" by (simp add: acct_of_def fun_eq_iff)
  show "spec_of E (journal_append e s) = spec_of E s" by (simp add: spec_of_def a)
qed

lemma wf_journal_append: "wf_state E s \<Longrightarrow> entry_ok E e \<Longrightarrow> wf_state E (journal_append e s)"
  by (auto simp: wf_state_def)

lemma setStateObject_fields [simp]:
  "sdb_snap (setStateObject obj s) = sdb_snap s" "sdb_trie (setStateObject obj s) = sdb_trie s"
  "snapDestructs (setStateObject obj s) = snapDestructs s" "entries (setStateObject obj s) = entries s"
  "refund (setStateObject obj s) = refund s" "logs (setStateObject obj s) = logs s"
  "logSize (setStateObject obj s) = logSize s" "preimages (setStateObject obj s) = preimages s"
  "thash (setStateObject obj s) = thash s" "bhash (setStateObject obj s) = bhash s"
  "txIndex (setStateObject obj s) = txIndex s" "validRevisions (setStateObject obj s) = validRevisions s"
  "nextRevisionId (setStateObject obj s) = nextRevisionId s" "dirties (setStateObject obj s) = dirties s"
  "stateObjects (setStateObject obj s) = (stateObjects s)(so_address obj \<mapsto> obj)"
  by (simp_all add: setStateObject_def)

lemma acct_of_live:
  "a \<in> addresses \<Longrightarrow> stateObjects s a = Some obj \<Longrightarrow> acct_of E s a = Some (view_obj E (sdb_snap s) (snapDestructs s) obj)"
  by (simp add: acct_of_def live_object_def)

text \<open>Changing a live object with an entry that restores what the view shows of it.\<close>

lemma journalled_change:
  assumes s: "wf_state E s" "stateObjects s a = Some obj" "deleted obj = False"
    and e: "entry_ok E e" "\<And>t. fst (getStateObject E a t) = Some obj1 \<Longrightarrow> revert_entry E e t = with_object E a f t"
    and o1: "obj_ok E a obj1" "deleted obj1 = False"
    and undone: "view_obj E (sdb_snap s) (snapDestructs s) (f obj1) = view_obj E (sdb_snap s) (snapDestructs s) obj"
      "obj_ok E a (f obj1)"
  shows "journalled E s (setStateObject obj1 (journal_append e s))"
proof -
  let ?s1 = "setStateObject obj1 (journal_append e s)"
  have a: "a \<in> addresses" "so_address obj1 = a" "so_address (f obj1) = a" using o1(1) undone(2) by (auto simp: obj_ok_def)
  have w1: "wf_state E ?s1" using wf_setStateObject [OF wf_journal_append [OF s(1) e(1)]] o1(1) a(2) by simp
  have g: "getStateObject E a ?s1 = (Some obj1, ?s1)"
    using a(2) o1(2) by (simp add: getStateObject_def getDeletedStateObject_def)
  let ?t = "setStateObject (f obj1) ?s1"
  have r: "revert_entry E e ?s1 = Some ?t" by (simp add: e(2) with_object_def g)
  have "acct_of E ?t b = acct_of E s b" for b
    using undone(1) a acct_of_live [OF a(1) s(2), of E] by (simp add: acct_of_setStateObject)
  then have "same E ?t s" by (simp add: same_def spec_of_def fun_eq_iff)
  moreover have "wf_state E ?t" using wf_setStateObject [OF w1] undone(2) a(3) by simp
  ultimately have "agree E (journal_undirty e ?t) s" using s(1) by (simp add: agree_def)
  then show ?thesis using w1 r
    by (auto simp: journalled_def bookkeeping_def intro!: exI [of _ "[e]"])
qed

section \<open>New objects\<close>

definition blank_object :: "'t backend \<Rightarrow> address \<Rightarrow> 't stateObject" where
  "blank_object E a = setNonce 0 (newObject E a zero_Account)"

lemma blank_fields [simp]:
  "so_address (blank_object E a) = a" "so_addrHash (blank_object E a) = Keccak256 E a" "deleted (blank_object E a) = False"
  "fakeStorage (blank_object E a) = None"
  by (simp_all add: blank_object_def setNonce_def)

lemma blank_ok: "backend_ok E snap tr \<Longrightarrow> a \<in> addresses \<Longrightarrow> obj_ok E a (blank_object E a)"
  by (simp add: obj_ok_def) (simp add: blank_object_def setNonce_def newObject_def zero_Account_def so_CodeHash_def
      nil_slice_def emptyCodeHash_def backend_ok_def Let_def)

lemma view_blank:
  assumes "backend_ok E snap tr" "snap = None \<or> Keccak256 E a \<in> D \<or> account_data E snap tr a = None"
  shows "view_obj E snap D (blank_object E a) = fresh_acct E"
proof -
  let ?o = "blank_object E a"
  have o: "so_data ?o = \<lparr>acc_Nonce = 0, acc_Balance = 0, acc_Root = emptyRoot, acc_CodeHash = Some (emptyCodeHash E)\<rparr>"
    "so_trie ?o = None" "so_code ?o = None" "originStorage ?o = Map.empty" "pendingStorage ?o = Map.empty"
    "dirtyStorage ?o = Map.empty" "suicided ?o = False"
    by (simp_all add: blank_object_def setNonce_def newObject_def zero_Account_def Let_def)
  have t: "trie_slot E (storage_trie E ?o) k = zero_hash" for k
    using assms(1) by (auto simp: storage_trie_def o backend_ok_def split: sum.split)
  have "base_slot E snap D (Keccak256 E a) (storage_trie E ?o) k = zero_hash" for k
    using assms t by (auto simp: base_slot_def backend_ok_def split: option.split sum.split)
  then have c: "committed_slot E snap D ?o = (\<lambda>_. zero_hash)" by (simp add: committed_slot_def o fun_eq_iff)
  then have "current_slot E snap D ?o = (\<lambda>_. zero_hash)" by (simp add: current_slot_def o fun_eq_iff)
  then show ?thesis using c
    by (simp add: view_obj_def fresh_acct_def o current_code_def so_CodeHash_def nil_slice_def)
qed

lemma getDeleted_journalled:
  "wf_state E s \<Longrightarrow> a \<in> addresses \<Longrightarrow> journalled E s (snd (getDeletedStateObject E a s))"
  using getDeleted_state [where E = E and addr = a and s = s] wf_getDeleted [of E s a]
  by (intro journalled_same getDeleted_same) auto

lemma spec_of_setStateObject:
  "so_address obj \<in> addresses \<Longrightarrow>
    spec_of E (setStateObject obj s) = sp_put (so_address obj) (view_obj E (sdb_snap s) (snapDestructs s) obj) (spec_of E s)"
  by (simp add: spec_of_def sp_put_def fun_eq_iff acct_of_setStateObject)

text \<open>Marking an address as destructed changes no other account.\<close>

lemma acct_of_insert:
  assumes "wf_state E s" "a \<in> addresses" "b \<noteq> a"
  shows "acct_of E (s\<lparr>snapDestructs := insert (Keccak256 E a) (snapDestructs s)\<rparr>) b = acct_of E s b"
proof (cases "b \<in> addresses")
  case True
  have "inj_on (Keccak256 E) addresses" using assms(1) by (simp add: wf_state_def backend_ok_def)
  then have "Keccak256 E a \<noteq> Keccak256 E b" using True assms(2,3) by (auto dest: inj_onD)
  then show ?thesis
    using True view_destructs(2) [OF live_ok [OF assms(1) True]] by (cases "live_object E s b") (simp_all add: acct_of_def)
qed (simp add: acct_of_def)

lemma createObject_cases:
  assumes "wf_state E s" "a \<in> addresses"
  obtains (created) s1 where "live_object E s a = None" "s1 = snd (getDeletedStateObject E a s)"
      "createObject E a s = ((blank_object E a, None), setStateObject (blank_object E a) (journal_append (CreateObjectChange a) s1))"
    | (kept) s1 p pd where "live_object E s a = Some p" "s1 = snd (getDeletedStateObject E a s)"
      "sdb_snap s1 = None \<and> \<not> pd \<or> pd \<and> sdb_snap s1 \<noteq> None \<and> Keccak256 E a \<in> snapDestructs s1"
      "createObject E a s = ((blank_object E a, Some p), setStateObject (blank_object E a) (journal_append (ResetObjectChange p pd) s1))"
    | (marked) s1 p where "live_object E s a = Some p" "s1 = snd (getDeletedStateObject E a s)"
      "sdb_snap s1 \<noteq> None" "Keccak256 E a \<notin> snapDestructs s1"
      "createObject E a s = ((blank_object E a, Some p), setStateObject (blank_object E a)
         (journal_append (ResetObjectChange p False) (s1\<lparr>snapDestructs := insert (Keccak256 E a) (snapDestructs s1)\<rparr>)))"
proof -
  define s1 where "s1 = snd (getDeletedStateObject E a s)"
  have g: "getDeletedStateObject E a s = (live_object E s a, s1)"
    by (simp add: s1_def getDeleted_object [symmetric])
  show thesis
  proof (cases "live_object E s a")
    case None
    show thesis
      by (rule created [OF None s1_def]) (simp add: createObject_def g None blank_object_def Let_def)
  next
    case (Some p)
    have h: "so_addrHash p = Keccak256 E a" using live_ok [OF assms Some] by (simp add: obj_ok_def)
    show thesis
    proof (cases "sdb_snap s1 \<noteq> None \<and> Keccak256 E a \<notin> snapDestructs s1")
      case True
      show thesis
        by (rule marked [OF Some s1_def]) (use True in \<open>simp_all add: createObject_def g Some h blank_object_def Let_def\<close>)
    next
      case False
      show thesis
      proof (rule kept [OF Some s1_def, of "sdb_snap s1 \<noteq> None \<and> Keccak256 E a \<in> snapDestructs s1"])
        show "sdb_snap s1 = None \<and> \<not> (sdb_snap s1 \<noteq> None \<and> Keccak256 E a \<in> snapDestructs s1) \<or>
            (sdb_snap s1 \<noteq> None \<and> Keccak256 E a \<in> snapDestructs s1) \<and> sdb_snap s1 \<noteq> None \<and> Keccak256 E a \<in> snapDestructs s1"
          using False by blast
        have "\<not> (sdb_snap s1 \<noteq> None \<and> \<not> (sdb_snap s1 \<noteq> None \<and> Keccak256 E a \<in> snapDestructs s1))"
          using False by blast
        then show "createObject E a s = ((blank_object E a, Some p), setStateObject (blank_object E a)
            (journal_append (ResetObjectChange p (sdb_snap s1 \<noteq> None \<and> Keccak256 E a \<in> snapDestructs s1)) s1))"
          unfolding createObject_def g Some Let_def h blank_object_def prod.case option.case by (simp only: if_False)
      qed
    qed
  qed
qed

lemma createObject_ok:
  assumes w: "wf_state E s" and a: "a \<in> addresses"
  shows "journalled E s (snd (createObject E a s))"
    "spec_of E (snd (createObject E a s)) = sp_put a (fresh_acct E) (spec_of E s)"
    "fst (createObject E a s) = (blank_object E a, live_object E s a)"
    "stateObjects (snd (createObject E a s)) a = Some (blank_object E a)"
proof -
  define s1 where "s1 = snd (getDeletedStateObject E a s)"
  note g = getDeleted_state [where E = E and addr = a and s = s, folded s1_def]
  have j1: "journalled E s s1" unfolding s1_def by (rule getDeleted_journalled [OF w a])
  have w1: "wf_state E s1" using j1 by (rule journalled_wf)
  have b1: "backend_ok E (sdb_snap s1) (sdb_trie s1)" using w1 by (simp add: wf_state_def)
  have sp1: "spec_of E s1 = spec_of E s" using getDeleted_same [of E a s] by (simp add: same_def s1_def)
  have ok: "obj_ok E a (blank_object E a)" by (rule blank_ok [OF b1 a])
  let ?n = "blank_object E a"
  have "journalled E s1 (snd (createObject E a s)) \<and>
    spec_of E (snd (createObject E a s)) = sp_put a (fresh_acct E) (spec_of E s) \<and>
    fst (createObject E a s) = (?n, live_object E s a) \<and> stateObjects (snd (createObject E a s)) a = Some ?n"
    using w a
  proof (cases rule: createObject_cases)
    case (created t)
    then have t: "t = s1" by (simp add: s1_def)
    let ?s2 = "setStateObject ?n (journal_append (CreateObjectChange a) s1)"
    let ?r = "?s2\<lparr>stateObjects := (stateObjects ?s2)(a := None), stateObjectsDirty := stateObjectsDirty ?s2 - {a}\<rparr>"
    have acc: "account_data E (sdb_snap s1) (sdb_trie s1) a = None" "stateObjects s1 a = None"
    proof -
      have l: "live_object E s1 a = None" using created(1) g(1) by simp
      show "stateObjects s1 a = None" using created(1) g(2) by simp
      then show "account_data E (sdb_snap s1) (sdb_trie s1) a = None" using l by (simp add: live_object_def)
    qed
    have v: "view_obj E (sdb_snap s1) (snapDestructs s1) ?n = fresh_acct E"
      using view_blank [OF b1] acc(1) by blast
    have w2: "wf_state E ?s2" using wf_setStateObject [OF wf_journal_append [OF w1]] ok a by simp
    have "live_object E ?r b = live_object E s1 b" for b using acc(2) by (simp add: live_object_def split: option.split)
    then have "same E ?r s1" by (simp add: same_def spec_of_def acct_of_def fun_eq_iff)
    moreover have "wf_state E ?r" using w2 by (auto simp: wf_state_def)
    ultimately have "agree E (journal_undirty (CreateObjectChange a) ?r) s1" using w1 by (simp add: agree_def)
    then have "journalled E s1 ?s2" using w2
      by (auto simp: journalled_def bookkeeping_def intro!: exI [of _ "[CreateObjectChange a]"])
    then show ?thesis using v a by (simp add: created(1) created(3) [unfolded t] spec_of_setStateObject sp1)
  next
    case (kept t p pd)
    then have t: "t = s1" by (simp add: s1_def)
    have p: "stateObjects s1 a = Some p" "obj_ok E a p" using kept(1) g(2) live_ok [OF w a kept(1)] by simp_all
    let ?s2 = "setStateObject ?n (journal_append (ResetObjectChange p pd) s1)"
    have v: "view_obj E (sdb_snap s1) (snapDestructs s1) ?n = fresh_acct E"
      using view_blank [OF b1, of a "snapDestructs s1"] kept(3) unfolding t by blast
    have en: "entry_ok E (ResetObjectChange p pd)" using p(2) by (simp add: obj_ok_def)
    have w2: "wf_state E ?s2" using wf_setStateObject [OF wf_journal_append [OF w1 en]] ok by simp
    have r: "revert_entry E (ResetObjectChange p pd) ?s2 = Some (setStateObject p ?s2)"
      using kept(3) unfolding t by (auto simp: Let_def)
    have "acct_of E (setStateObject p ?s2) b = acct_of E s1 b" for b
      using p acct_of_live [OF a p(1)] by (simp add: acct_of_setStateObject obj_ok_def)
    then have "same E (setStateObject p ?s2) s1" by (simp add: same_def spec_of_def fun_eq_iff)
    then have "agree E (journal_undirty (ResetObjectChange p pd) (setStateObject p ?s2)) s1"
      using w1 wf_setStateObject [OF w2] p(2) by (simp add: agree_def obj_ok_def)
    then have "journalled E s1 ?s2" using w2 r
      by (auto simp: journalled_def bookkeeping_def simp del: revert_entry.simps intro!: exI [of _ "[ResetObjectChange p pd]"])
    then show ?thesis using v a by (simp add: kept(1) kept(4) [unfolded t] spec_of_setStateObject sp1)
  next
    case (marked t p)
    then have t: "t = s1" by (simp add: s1_def)
    have p: "stateObjects s1 a = Some p" "obj_ok E a p" "so_address p = a" "so_addrHash p = Keccak256 E a"
      using marked(1) g(2) live_ok [OF w a marked(1)] by (simp_all add: obj_ok_def)
    let ?m = "s1\<lparr>snapDestructs := insert (Keccak256 E a) (snapDestructs s1)\<rparr>"
    let ?s2 = "setStateObject ?n (journal_append (ResetObjectChange p False) ?m)"
    have v: "view_obj E (sdb_snap s1) (insert (Keccak256 E a) (snapDestructs s1)) ?n = fresh_acct E"
      using view_blank [OF b1] by blast
    have en: "entry_ok E (ResetObjectChange p False)" using p(2,3) by simp
    have wm: "wf_state E ?m" using w1 by simp
    have w2: "wf_state E ?s2" using wf_setStateObject [OF wf_journal_append [OF wm en]] ok by simp
    let ?r = "(setStateObject p ?s2)\<lparr>snapDestructs := snapDestructs s1\<rparr>"
    have r: "revert_entry E (ResetObjectChange p False) ?s2 = Some ?r"
      using marked(3,4) p(4) unfolding t by (simp add: Let_def)
    have "live_object E ?r b = live_object E s1 b" for b
      using p(1,3) by (simp add: live_object_def split: option.split)
    then have "same E ?r s1" by (simp add: same_def spec_of_def acct_of_def fun_eq_iff)
    moreover have "wf_state E ?r" using wf_setStateObject [OF w2] p(2,3) by simp
    ultimately have "agree E (journal_undirty (ResetObjectChange p False) ?r) s1" using w1 by (simp add: agree_def)
    then have j: "journalled E s1 ?s2" using w2 r
      by (auto simp: journalled_def bookkeeping_def simp del: revert_entry.simps
          intro!: exI [of _ "[ResetObjectChange p False]"])
    have "acct_of E ?s2 b = sp_accts (sp_put a (fresh_acct E) (spec_of E s1)) b" for b
      using acct_of_insert [OF w1 a, of b] v a by (auto simp: acct_of_setStateObject sp_put_def spec_of_def)
    then have "spec_of E ?s2 = sp_put a (fresh_acct E) (spec_of E s1)"
      by (simp add: spec_of_def sp_put_def fun_eq_iff)
    then show ?thesis using j by (simp add: marked(1) marked(5) [unfolded t] sp1)
  qed
  then show "journalled E s (snd (createObject E a s))"
    "spec_of E (snd (createObject E a s)) = sp_put a (fresh_acct E) (spec_of E s)"
    "fst (createObject E a s) = (?n, live_object E s a)"
    "stateObjects (snd (createObject E a s)) a = Some ?n"
    using journalled_trans [OF j1] by blast+
qed

end
