(* ===== verification/StateSim.thy ===== *)
theory StateSim
  imports StateJournal
begin

text \<open>
  Every operation of the state is a journalled change that does to the shown state what the specification
  says (\<open>refines\<close>), and the state with its list of revisions simulates the specification with its list of
  saved copies (\<open>sim\<close>).
\<close>

section \<open>Operations on one object\<close>

abbreviation cur_view :: "'t backend \<Rightarrow> 't StateDB \<Rightarrow> 't stateObject \<Rightarrow> acct_view" where
  "cur_view E s \<equiv> view_obj E (sdb_snap s) (snapDestructs s)"

definition sp_acct :: "'t backend \<Rightarrow> address \<Rightarrow> spec \<Rightarrow> acct_view" where
  "sp_acct E a sp = (case sp_get a sp of Some v \<Rightarrow> v | None \<Rightarrow> fresh_acct E)"

lemma sp_put_put [simp]: "sp_put a v (sp_put a w sp) = sp_put a v sp"
  by (simp add: sp_put_def)

lemma sp_get_spec:
  assumes "a \<in> addresses"
  shows "sp_get a (spec_of E s) = (case live_object E s a of Some obj \<Rightarrow> if deleted obj then None else Some (cur_view E s obj) | None \<Rightarrow> None)"
  using assms by (simp add: sp_get_def spec_of_def acct_of_def view_obj_def split: option.split)

lemma sp_put_same: "sp_get a sp = Some v \<Longrightarrow> sp_put a v sp = sp"
  by (auto simp: sp_get_def sp_put_def fun_upd_idem split: option.splits if_splits)

lemma GetOrNew_ok:
  assumes w: "wf_state E s" and a: "a \<in> addresses" and g: "GetOrNewStateObject E a s = (obj, s1)"
  shows "journalled E s s1" "stateObjects s1 a = Some obj" "deleted obj = False" "obj_ok E a obj"
    "cur_view E s1 obj = sp_acct E a (spec_of E s)" "spec_of E s1 = sp_put a (sp_acct E a (spec_of E s)) (spec_of E s)"
    "wf_state E s1"
proof -
  define t where "t = snd (getDeletedStateObject E a s)"
  note gd = getDeleted_state [where E = E and addr = a and s = s, folded t_def]
  have j: "journalled E s t" unfolding t_def by (rule getDeleted_journalled [OF w a])
  have sp: "spec_of E t = spec_of E s" using getDeleted_same [of E a s] by (simp add: same_def t_def)
  have f: "sdb_snap t = sdb_snap s" "snapDestructs t = snapDestructs s" using gd(3,4) by (simp_all add: bookkeeping_def)
  have gs: "getStateObject E a s = (case live_object E s a of Some obj \<Rightarrow> if deleted obj then None else Some obj | None \<Rightarrow> None, t)"
    using getStateObject_fst [of E a s] getStateObject_snd [of E a s] by (metis prod.collapse t_def)
  have "journalled E s s1 \<and> stateObjects s1 a = Some obj \<and> deleted obj = False \<and> obj_ok E a obj \<and>
    cur_view E s1 obj = sp_acct E a (spec_of E s) \<and> spec_of E s1 = sp_put a (sp_acct E a (spec_of E s)) (spec_of E s)"
  proof (cases "sp_get a (spec_of E s)")
    case (Some v)
    then obtain o1 where o1: "live_object E s a = Some o1" "deleted o1 = False" "v = cur_view E s o1"
      using sp_get_spec [OF a, of E s] by (auto split: option.splits if_splits)
    then have "obj = o1" "s1 = t" using g gs by (simp_all add: GetOrNewStateObject_def)
    then show ?thesis
      using j o1 gd(2) f sp sp_put_same [OF Some] live_ok [OF w a o1(1)] Some by (simp add: sp_acct_def)
  next
    case None
    then have n: "getStateObject E a s = (None, t)"
      using gs sp_get_spec [OF a, of E s] by (auto split: option.splits if_splits)
    have w1: "wf_state E t" by (rule journalled_wf [OF j])
    note c = createObject_ok [OF w1 a]
    have os: "obj = blank_object E a" "s1 = snd (createObject E a t)"
      using g n c(3) by (auto simp: GetOrNewStateObject_def split: prod.splits)
    have ws: "wf_state E s1" using journalled_wf [OF c(1)] os by simp
    then have bk: "obj_ok E a obj" using os blank_ok a by (auto simp: wf_state_def)
    have "spec_of E s1 = sp_put a (fresh_acct E) (spec_of E s)" using c(2) os sp by simp
    moreover have "Some (cur_view E s1 obj) = sp_accts (spec_of E s1) a"
      using acct_of_live [OF a, of s1 obj E] c(4) os by (simp add: spec_of_def)
    ultimately show ?thesis
      using journalled_trans [OF j c(1)] c(4) os bk None by (simp add: sp_acct_def sp_put_def)
  qed
  then show "journalled E s s1" "stateObjects s1 a = Some obj" "deleted obj = False" "obj_ok E a obj"
    "cur_view E s1 obj = sp_acct E a (spec_of E s)" "spec_of E s1 = sp_put a (sp_acct E a (spec_of E s)) (spec_of E s)"
    "wf_state E s1" using journalled_wf by auto
qed

definition refines :: "'t backend \<Rightarrow> 't StateDB \<Rightarrow> 't StateDB \<Rightarrow> spec \<Rightarrow> bool" where
  "refines E s s1 sp \<longleftrightarrow> journalled E s s1 \<and> spec_of E s1 = sp"

lemma refines_trans: "refines E s s1 sp1 \<Longrightarrow> refines E s1 s2 sp \<Longrightarrow> refines E s s2 sp"
  using journalled_trans by (auto simp: refines_def)

lemma change_refines:
  assumes "wf_state E s" "stateObjects s a = Some obj" "deleted obj = False"
    "entry_ok E e" "\<And>t. fst (getStateObject E a t) = Some obj1 \<Longrightarrow> revert_entry E e t = with_object E a f t"
    "obj_ok E a obj1" "deleted obj1 = False" "cur_view E s (f obj1) = cur_view E s obj" "obj_ok E a (f obj1)"
  shows "refines E s (setStateObject obj1 (journal_append e s)) (sp_put a (cur_view E s obj1) (spec_of E s))"
proof -
  have "so_address obj1 = a" "a \<in> addresses" using assms(6) by (auto simp: obj_ok_def)
  then show ?thesis using journalled_change [OF assms] spec_of_setStateObject [of obj1 E "journal_append e s"]
    by (simp add: refines_def)
qed

lemma SetBalance_refines:
  assumes "wf_state E s" "stateObjects s a = Some obj" "deleted obj = False" "obj_ok E a obj"
  shows "refines E s (so_SetBalance x obj s) (sp_put a ((cur_view E s obj)\<lparr>v_balance := x\<rparr>) (spec_of E s))"
proof -
  have a: "so_address obj = a" "a \<in> addresses" using assms(4) by (auto simp: obj_ok_def)
  have "refines E s (setStateObject (setBalance x obj) (journal_append (BalanceChange a (acc_Balance (so_data obj))) s))
      (sp_put a (cur_view E s (setBalance x obj)) (spec_of E s))"
    using assms a
    by (intro change_refines [where f = "setBalance (acc_Balance (so_data obj))"])
      (simp_all add: obj_ok_set view_setBalance, simp_all add: setBalance_def view_obj_def)
  then show ?thesis by (simp add: so_SetBalance_def a view_setBalance)
qed

lemma SetNonce_refines:
  assumes "wf_state E s" "stateObjects s a = Some obj" "deleted obj = False" "obj_ok E a obj"
  shows "refines E s (so_SetNonce x obj s) (sp_put a ((cur_view E s obj)\<lparr>v_nonce := x\<rparr>) (spec_of E s))"
proof -
  have a: "so_address obj = a" "a \<in> addresses" using assms(4) by (auto simp: obj_ok_def)
  have "refines E s (setStateObject (setNonce x obj) (journal_append (NonceChange a (acc_Nonce (so_data obj))) s))
      (sp_put a (cur_view E s (setNonce x obj)) (spec_of E s))"
    using assms a
    by (intro change_refines [where f = "setNonce (acc_Nonce (so_data obj))"])
      (simp_all add: obj_ok_set view_setNonce, simp_all add: setNonce_def view_obj_def)
  then show ?thesis by (simp add: so_SetNonce_def a view_setNonce)
qed

lemma cached_ok: "cached E snap D obj obj1 \<Longrightarrow> obj_ok E a obj \<Longrightarrow> obj_ok E a obj1"
  by (simp add: cached_def obj_ok_def so_CodeHash_def)

lemma code_view_current: "code_view E (so_addrHash obj) (so_CodeHash obj) (current_code E obj) = current_code E obj"
  by (auto simp: current_code_def code_view_def split: option.splits)

lemma SetCode_refines:
  assumes "wf_state E s" "stateObjects s a = Some obj" "deleted obj = False" "obj_ok E a obj" "length h = HashLength"
  shows "refines E s (so_SetCode E h c obj s)
    (sp_put a ((cur_view E s obj)\<lparr>v_codehash := h, v_code := Some c\<rparr>) (spec_of E s))"
proof -
  define o1 where "o1 = snd (so_Code E obj)"
  have c: "cached E (sdb_snap s) (snapDestructs s) obj o1" unfolding o1_def by (rule so_Code_cached)
  have v: "cur_view E s o1 = cur_view E s obj" by (rule cached_view [OF c])
  have ok: "obj_ok E a o1" by (rule cached_ok [OF c assms(4)])
  have a: "so_address o1 = a" "a \<in> addresses" using ok by (auto simp: obj_ok_def)
  have d: "deleted o1 = False" using c assms(3) by (simp add: cached_def)
  have cc: "fst (so_Code E obj) = current_code E o1" using c by (simp add: so_Code_code cached_def)
  have hh: "BytesToHash (so_CodeHash o1) = so_CodeHash o1" using ok by (simp add: obj_ok_def BytesToHash_id)
  have "refines E s (setStateObject (setCode h (Some c) o1)
        (journal_append (CodeChange a (current_code E o1) (so_CodeHash o1)) s))
      (sp_put a (cur_view E s (setCode h (Some c) o1)) (spec_of E s))"
  proof (rule change_refines [where f = "setCode (so_CodeHash o1) (current_code E o1)", OF assms(1-3)])
    show "cur_view E s (setCode (so_CodeHash o1) (current_code E o1) (setCode h (Some c) o1)) = cur_view E s obj"
      unfolding v [symmetric] using code_view_current [of E o1]
      by (simp add: view_setCode) (simp add: setCode_def view_obj_def)
    show "obj_ok E a (setCode (so_CodeHash o1) (current_code E o1) (setCode h (Some c) o1))"
      using ok assms(5) by (intro obj_ok_set) (auto simp: obj_ok_def)
  qed (use a ok assms(5) d hh in \<open>simp_all add: obj_ok_set, simp_all add: setCode_def\<close>)
  then show ?thesis using v
    by (simp add: so_SetCode_def case_prod_beta cc a view_setCode code_view_def flip: o1_def)
qed

lemma journalled_refresh:
  assumes "wf_state E s" "stateObjects s a = Some obj" "obj_ok E a obj" "cached E (sdb_snap s) (snapDestructs s) obj obj1"
  shows "refines E s (setStateObject obj1 s) (spec_of E s)"
proof -
  have ok: "obj_ok E a obj1" by (rule cached_ok [OF assms(4,3)])
  then have a: "so_address obj1 = a" "a \<in> addresses" by (auto simp: obj_ok_def)
  have "acct_of E (setStateObject obj1 s) b = acct_of E s b" for b
    using cached_view [OF assms(4)] acct_of_live [OF a(2) assms(2)] a by (simp add: acct_of_setStateObject)
  then have sp: "spec_of E (setStateObject obj1 s) = spec_of E s" by (simp add: spec_of_def fun_eq_iff)
  then have "same E (setStateObject obj1 s) s" by (simp add: same_def)
  then show ?thesis using sp assms(1) wf_setStateObject [OF assms(1)] ok a
    by (auto simp: refines_def bookkeeping_def intro!: journalled_same)
qed

lemma SetState_refines:
  assumes "wf_state E s" "stateObjects s a = Some obj" "deleted obj = False" "obj_ok E a obj"
  shows "refines E s (so_SetState E k w obj s)
    (sp_put a ((cur_view E s obj)\<lparr>v_state := (v_state (cur_view E s obj))(k := w)\<rparr>) (spec_of E s))"
proof -
  define o1 where "o1 = snd (so_GetState E (sdb_snap s) (snapDestructs s) k obj)"
  have c: "cached E (sdb_snap s) (snapDestructs s) obj o1" unfolding o1_def by (rule so_GetState_cached)
  have v: "cur_view E s o1 = cur_view E s obj" by (rule cached_view [OF c])
  have ok: "obj_ok E a o1" by (rule cached_ok [OF c assms(4)])
  have a: "so_address o1 = a" "a \<in> addresses" "fakeStorage o1 = None" "fakeStorage obj = None"
    using ok assms(4) by (auto simp: obj_ok_def)
  have d: "deleted o1 = False" using c assms(3) by (simp add: cached_def)
  let ?p = "v_state (cur_view E s obj) k"
  have p: "fst (so_GetState E (sdb_snap s) (snapDestructs s) k obj) = ?p" by (simp add: so_GetState_slot view_obj_def)
  show ?thesis
  proof (cases "?p = w")
    case True
    have e: "(cur_view E s obj)\<lparr>v_state := (v_state (cur_view E s obj))(k := w)\<rparr> = cur_view E s obj"
      using True by (simp add: fun_upd_idem)
    have "sp_put a (cur_view E s obj) (spec_of E s) = spec_of E s"
      using acct_of_live [OF a(2) assms(2)] by (simp add: sp_put_def spec_of_def fun_upd_idem)
    then show ?thesis using journalled_refresh [OF assms(1,2,4) c] True a(4)
      unfolding e by (simp add: so_SetState_def case_prod_beta p flip: o1_def)
  next
    case False
    have "refines E s (setStateObject (setState k w o1) (journal_append (StorageChange a k ?p) s))
        (sp_put a (cur_view E s (setState k w o1)) (spec_of E s))"
    proof (rule change_refines [where f = "setState k ?p", OF assms(1-3)])
      have "fakeStorage (setState k w o1) = None" using a(3) by (simp add: setState_def)
      then show "cur_view E s (setState k ?p (setState k w o1)) = cur_view E s obj"
        using a(3) by (simp add: view_setState v)
    qed (use a ok d in \<open>simp_all add: obj_ok_set, simp_all add: setState_def\<close>)
    then show ?thesis using False a
      by (simp add: so_SetState_def case_prod_beta p view_setState v flip: o1_def)
  qed
qed

section \<open>Operations of the state\<close>

lemma sp_update_acct: "sp_update E a f sp = sp_put a (f (sp_acct E a sp)) sp"
  by (simp add: sp_update_def sp_acct_def)

text \<open>An operation on the object that \<open>GetOrNewStateObject\<close> returns.\<close>

lemma on_object:
  assumes "wf_state E s" "a \<in> addresses" "GetOrNewStateObject E a s = (obj, s1)"
    and "\<And>v. wf_state E s1 \<Longrightarrow> stateObjects s1 a = Some obj \<Longrightarrow> deleted obj = False \<Longrightarrow> obj_ok E a obj \<Longrightarrow>
      refines E s1 s2 (sp_put a (f (cur_view E s1 obj)) (spec_of E s1))"
  shows "refines E s s2 (sp_update E a f (spec_of E s))"
proof -
  note g = GetOrNew_ok [OF assms(1-3)]
  have "refines E s1 s2 (sp_put a (f (cur_view E s1 obj)) (spec_of E s1))" by (rule assms(4) [OF g(7,2-4)])
  then show ?thesis using g(1,5,6) journalled_trans by (auto simp: refines_def sp_update_acct)
qed

lemma touch_refines:
  assumes "wf_state E s"
  shows "refines E s (so_touch obj s) (spec_of E s)"
proof -
  have d: "spec_of E (journal_dirty a t) = spec_of E t" "wf_state E (journal_dirty a t) = wf_state E t"
    "same E (journal_dirty a t) u = same E t u" "entries (journal_dirty a t) = entries t"
    "bookkeeping u (journal_dirty a t) = bookkeeping u t" for a :: address and t u
    by (simp_all add: journal_dirty_def same_def spec_of_def bookkeeping_def)
  have w: "wf_state E (journal_append (TouchChange (so_address obj)) s)" using wf_journal_append [OF assms] by simp
  have bk: "bookkeeping s (journal_append e s)" for e by (simp add: bookkeeping_def)
  have same: "same E (journal_append (TouchChange (so_address obj)) s) s" by (simp add: same_def)
  show ?thesis using assms w same
    by (auto simp: refines_def so_touch_def Let_def journalled_def agree_def d bk
        intro!: exI [of _ "[TouchChange (so_address obj)]"])
qed

lemma keep_refines:
  assumes "wf_state E s" "stateObjects s a = Some obj" "obj_ok E a obj"
  shows "sp_put a (cur_view E s obj) (spec_of E s) = spec_of E s"
proof -
  have "a \<in> addresses" using assms(3) by (simp add: obj_ok_def)
  then show ?thesis using acct_of_live [OF _ assms(2)] by (simp add: sp_put_def spec_of_def fun_upd_idem)
qed

lemma refines_refl: "wf_state E s \<Longrightarrow> refines E s s (spec_of E s)"
  by (simp add: refines_def journalled_same same_refl bookkeeping_def)

lemma AddBalance_refines:
  assumes "wf_state E s" "a \<in> addresses"
  shows "refines E s (AddBalance E a x s) (sp_update E a (\<lambda>v. v\<lparr>v_balance := v_balance v + x\<rparr>) (spec_of E s))"
proof -
  obtain obj s1 where g: "GetOrNewStateObject E a s = (obj, s1)" by fastforce
  show ?thesis unfolding AddBalance_def g prod.case
  proof (rule on_object [OF assms g])
    assume o: "wf_state E s1" "stateObjects s1 a = Some obj" "deleted obj = False" "obj_ok E a obj"
    have b: "acc_Balance (so_data obj) = v_balance (cur_view E s1 obj)" by (simp add: view_obj_def)
    show "refines E s1 (so_AddBalance E x obj s1)
        (sp_put a ((cur_view E s1 obj)\<lparr>v_balance := v_balance (cur_view E s1 obj) + x\<rparr>) (spec_of E s1))"
      using SetBalance_refines [OF o] touch_refines [OF o(1)] refines_refl [OF o(1)] keep_refines [OF o(1,2,4)]
      by (cases "x = 0") (simp_all add: so_AddBalance_def b)
  qed
qed

lemma SubBalance_refines:
  assumes "wf_state E s" "a \<in> addresses"
  shows "refines E s (SubBalance E a x s) (sp_update E a (\<lambda>v. v\<lparr>v_balance := v_balance v - x\<rparr>) (spec_of E s))"
proof -
  obtain obj s1 where g: "GetOrNewStateObject E a s = (obj, s1)" by fastforce
  show ?thesis unfolding SubBalance_def g prod.case
  proof (rule on_object [OF assms g])
    assume o: "wf_state E s1" "stateObjects s1 a = Some obj" "deleted obj = False" "obj_ok E a obj"
    have b: "acc_Balance (so_data obj) = v_balance (cur_view E s1 obj)" by (simp add: view_obj_def)
    show "refines E s1 (so_SubBalance x obj s1)
        (sp_put a ((cur_view E s1 obj)\<lparr>v_balance := v_balance (cur_view E s1 obj) - x\<rparr>) (spec_of E s1))"
      using SetBalance_refines [OF o] refines_refl [OF o(1)] keep_refines [OF o(1,2,4)]
      by (cases "x = 0") (simp_all add: so_SubBalance_def b)
  qed
qed

lemma setters_refine:
  assumes "wf_state E s" "a \<in> addresses"
  shows "refines E s (SetBalance E a x s) (sp_update E a (\<lambda>v. v\<lparr>v_balance := x\<rparr>) (spec_of E s))"
    "refines E s (SetNonce E a n s) (sp_update E a (\<lambda>v. v\<lparr>v_nonce := n\<rparr>) (spec_of E s))"
    "refines E s (SetCode E a c s)
      (sp_update E a (\<lambda>v. v\<lparr>v_codehash := Keccak256 E c, v_code := Some c\<rparr>) (spec_of E s))"
    "refines E s (SetState E a k w s) (sp_update E a (\<lambda>v. v\<lparr>v_state := (v_state v)(k := w)\<rparr>) (spec_of E s))"
proof -
  obtain obj s1 where g: "GetOrNewStateObject E a s = (obj, s1)" by fastforce
  note on = on_object [OF assms g]
  have l: "length (Keccak256 E c) = HashLength" using assms(1) by (simp add: wf_state_def backend_ok_def)
  show "refines E s (SetBalance E a x s) (sp_update E a (\<lambda>v. v\<lparr>v_balance := x\<rparr>) (spec_of E s))"
    unfolding SetBalance_def g prod.case by (rule on, rule SetBalance_refines)
  show "refines E s (SetNonce E a n s) (sp_update E a (\<lambda>v. v\<lparr>v_nonce := n\<rparr>) (spec_of E s))"
    unfolding SetNonce_def g prod.case by (rule on, rule SetNonce_refines)
  show "refines E s (SetCode E a c s)
      (sp_update E a (\<lambda>v. v\<lparr>v_codehash := Keccak256 E c, v_code := Some c\<rparr>) (spec_of E s))"
    unfolding SetCode_def g prod.case using l by (intro on) (simp add: SetCode_refines BytesToHash_id)
  show "refines E s (SetState E a k w s) (sp_update E a (\<lambda>v. v\<lparr>v_state := (v_state v)(k := w)\<rparr>) (spec_of E s))"
    unfolding SetState_def g prod.case by (rule on, rule SetState_refines)
qed

text \<open>Reading caches what it loads.\<close>

lemma get_refines:
  assumes "wf_state E s" "a \<in> addresses" "getStateObject E a s = (r, s1)"
  shows "refines E s s1 (spec_of E s)" "wf_state E s1"
    "r = Some obj \<Longrightarrow> stateObjects s1 a = Some obj \<and> deleted obj = False \<and> obj_ok E a obj \<and> sp_get a (spec_of E s) = Some (cur_view E s1 obj)"
    "r = None \<Longrightarrow> sp_get a (spec_of E s) = None"
proof -
  have s1: "s1 = snd (getDeletedStateObject E a s)" using getStateObject_snd [of E a s] assms(3) by simp
  note gd = getDeleted_state [where E = E and addr = a and s = s, folded s1]
  have j: "journalled E s s1" unfolding s1 by (rule getDeleted_journalled [OF assms(1,2)])
  then show "refines E s s1 (spec_of E s)" "wf_state E s1"
    using getDeleted_same [of E a s] journalled_wf by (auto simp: refines_def same_def s1)
  have r: "r = (case live_object E s a of Some obj \<Rightarrow> if deleted obj then None else Some obj | None \<Rightarrow> None)"
    using getStateObject_fst [of E a s] assms(3) by simp
  note sg = sp_get_spec [OF assms(2), of E s]
  show "sp_get a (spec_of E s) = None" if "r = None" using r sg that by (auto split: option.splits if_splits)
  assume "r = Some obj"
  then have l: "live_object E s a = Some obj" "deleted obj = False" using r by (auto split: option.splits if_splits)
  then show "stateObjects s1 a = Some obj \<and> deleted obj = False \<and> obj_ok E a obj \<and> sp_get a (spec_of E s) = Some (cur_view E s1 obj)"
    using gd(2,3,4) sg live_ok [OF assms(1,2)] by (simp add: bookkeeping_def)
qed

lemma read_refines:
  assumes "wf_state E s" "a \<in> addresses" "getStateObject E a s = (Some obj, s1)"
    "cached E (sdb_snap s1) (snapDestructs s1) obj obj1"
  shows "refines E s (setStateObject obj1 s1) (spec_of E s)"
proof -
  note g = get_refines [OF assms(1-3)]
  have "refines E s1 (setStateObject obj1 s1) (spec_of E s1)"
    using g(2) g(3) [OF refl] assms(4) by (intro journalled_refresh) auto
  then show ?thesis using g(1) refines_trans by (fastforce simp: refines_def)
qed

lemma reader_refines:
  fixes get :: "snapshot option \<Rightarrow> hash set \<Rightarrow> 't stateObject \<Rightarrow> 'v \<times> 't stateObject" and d :: 'v
  assumes "wf_state E s" "a \<in> addresses"
    and f: "\<And>s1. f = (case getStateObject E a s of (None, s1) \<Rightarrow> (d, s1)
      | (Some obj, s1) \<Rightarrow> (case get (sdb_snap s1) (snapDestructs s1) obj of (x, obj1) \<Rightarrow> (x, setStateObject obj1 s1)))"
    and get: "\<And>snap D obj. cached E snap D obj (snd (get snap D obj))" "\<And>snap D obj. fst (get snap D obj) = val (view_obj E snap D obj)"
  shows "refines E s (snd f) (spec_of E s) \<and> fst f = (case sp_get a (spec_of E s) of Some v \<Rightarrow> val v | None \<Rightarrow> d)"
proof -
  obtain r s1 where g: "getStateObject E a s = (r, s1)" by fastforce
  note gr = get_refines [OF assms(1,2) g]
  show ?thesis
  proof (cases r)
    case None
    then show ?thesis using gr(1,4) by (simp add: f g)
  next
    case (Some obj)
    then show ?thesis using gr(3) [OF Some] read_refines [OF assms(1,2) _ get(1)] g get(2)
      by (simp add: f case_prod_beta)
  qed
qed

lemma GetState_refines:
  assumes "wf_state E s" "a \<in> addresses"
  shows "refines E s (snd (GetState E a k s)) (spec_of E s) \<and>
    fst (GetState E a k s) = (case sp_get a (spec_of E s) of Some v \<Rightarrow> v_state v k | None \<Rightarrow> zero_hash)"
  by (rule reader_refines [OF assms, where get = "\<lambda>snap D. so_GetState E snap D k"])
    (simp_all add: GetState_def so_GetState_cached so_GetState_slot view_obj_def)

lemma GetCommittedState_refines:
  assumes "wf_state E s" "a \<in> addresses"
  shows "refines E s (snd (GetCommittedState E a k s)) (spec_of E s) \<and>
    fst (GetCommittedState E a k s) = (case sp_get a (spec_of E s) of Some v \<Rightarrow> v_committed v k | None \<Rightarrow> zero_hash)"
  by (rule reader_refines [OF assms, where get = "\<lambda>snap D. so_GetCommittedState E snap D k"])
    (simp_all add: GetCommittedState_def so_GetCommittedState_cached so_GetCommittedState_slot view_obj_def)

lemma GetCode_refines:
  assumes "wf_state E s" "a \<in> addresses"
  shows "refines E s (snd (GetCode E a s)) (spec_of E s) \<and>
    fst (GetCode E a s) = (case sp_get a (spec_of E s) of Some v \<Rightarrow> v_code v | None \<Rightarrow> None)"
  by (rule reader_refines [OF assms, where get = "\<lambda>snap D. so_Code E"])
    (simp_all add: GetCode_def so_Code_cached so_Code_code view_obj_def)

lemma GetBalance_refines:
  assumes "wf_state E s" "a \<in> addresses"
  shows "refines E s (snd (GetBalance E a s)) (spec_of E s) \<and>
    fst (GetBalance E a s) = (case sp_get a (spec_of E s) of Some v \<Rightarrow> v_balance v | None \<Rightarrow> 0)"
proof -
  obtain r s1 where g: "getStateObject E a s = (r, s1)" by fastforce
  note gr = get_refines [OF assms g]
  show ?thesis using gr(1,3,4) g by (cases r) (simp_all add: GetBalance_def view_obj_def)
qed

lemma Suicide_refines:
  assumes "wf_state E s" "a \<in> addresses"
  shows "refines E s (snd (Suicide E a s)) (if sp_get a (spec_of E s) = None then spec_of E s
      else sp_update E a (\<lambda>v. v\<lparr>v_balance := 0, v_suicided := True\<rparr>) (spec_of E s))"
    "fst (Suicide E a s) = (sp_get a (spec_of E s) \<noteq> None)"
proof -
  obtain r s1 where g: "getStateObject E a s = (r, s1)" by fastforce
  note gr = get_refines [OF assms g]
  show "fst (Suicide E a s) = (sp_get a (spec_of E s) \<noteq> None)"
    using gr(3,4) g by (cases r) (simp_all add: Suicide_def)
  show "refines E s (snd (Suicide E a s)) (if sp_get a (spec_of E s) = None then spec_of E s
      else sp_update E a (\<lambda>v. v\<lparr>v_balance := 0, v_suicided := True\<rparr>) (spec_of E s))"
  proof (cases r)
    case None
    then show ?thesis using gr(1,4) g by (simp add: Suicide_def)
  next
    case (Some obj)
    note o = gr(3) [OF Some, THEN conjunct1] gr(3) [OF Some, THEN conjunct2, THEN conjunct1]
      gr(3) [OF Some, THEN conjunct2, THEN conjunct2, THEN conjunct1]
    let ?b = "acc_Balance (so_data obj)" and ?o1 = "setBalance 0 (obj\<lparr>suicided := True\<rparr>)"
    let ?f = "\<lambda>x. setBalance ?b (x\<lparr>suicided := suicided obj\<rparr>)"
    have "refines E s1 (setStateObject ?o1 (journal_append (SuicideChange a (suicided obj) ?b) s1))
        (sp_put a (cur_view E s1 ?o1) (spec_of E s1))"
    proof (rule change_refines [where f = ?f, OF gr(2) o(1,2)])
      show "revert_entry E (SuicideChange a (suicided obj) ?b) t = with_object E a ?f t"
        if "fst (getStateObject E a t) = Some ?o1" for t
        using that by (cases "getStateObject E a t") (simp add: with_object_def)
      show "cur_view E s1 (?f ?o1) = cur_view E s1 obj"
        by (simp add: view_setBalance view_suicided) (simp add: view_obj_def)
    qed (use assms(2) o in \<open>simp_all add: obj_ok_set\<close>, simp add: setBalance_def)
    moreover have "sp_put a (cur_view E s1 ?o1) (spec_of E s1) =
        sp_update E a (\<lambda>v. v\<lparr>v_balance := 0, v_suicided := True\<rparr>) (spec_of E s)"
      using gr(1) gr(3) [OF Some] by (simp add: refines_def sp_update_def view_setBalance view_suicided) (simp add: view_obj_def)
    ultimately show ?thesis using refines_trans [OF gr(1)] gr(3) [OF Some] g Some by (simp add: Suicide_def)
  qed
qed

lemma reset_overwrites:
  "so_address obj = so_address p \<Longrightarrow>
    revert_entry E (ResetObjectChange p pd) (setStateObject obj s) = revert_entry E (ResetObjectChange p pd) s"
  by (simp add: setStateObject_def Let_def)

lemma createObject_reset:
  assumes "wf_state E s" "a \<in> addresses" "live_object E s a = Some p"
  shows "\<exists>pd. entries (snd (createObject E a s)) = entries s @ [ResetObjectChange p pd]"
proof -
  note g = getDeleted_state(12) [where E = E and addr = a and s = s]
  show ?thesis using assms(1,2)
    by (cases rule: createObject_cases) (use assms(3) g in auto)
qed

text \<open>Moving the balance over is not journalled: undoing the replacement drops the new object.\<close>

lemma CreateAccount_refines:
  assumes "wf_state E s" "a \<in> addresses"
  shows "refines E s (CreateAccount E a s)
    (sp_put a ((fresh_acct E)\<lparr>v_balance := (case sp_accts (spec_of E s) a of Some v \<Rightarrow> v_balance v | None \<Rightarrow> 0)\<rparr>) (spec_of E s))"
proof -
  define s1 where "s1 = snd (createObject E a s)"
  note c = createObject_ok [OF assms, folded s1_def]
  have cr: "createObject E a s = ((blank_object E a, live_object E s a), s1)" using c(3) by (simp add: prod_eq_iff s1_def)
  have acc: "sp_accts (spec_of E s) a = map_option (cur_view E s) (live_object E s a)"
    using assms(2) by (simp add: spec_of_def acct_of_def)
  have w1: "wf_state E s1" by (rule journalled_wf [OF c(1)])
  show ?thesis
  proof (cases "live_object E s a")
    case None
    have "(fresh_acct E)\<lparr>v_balance := 0\<rparr> = fresh_acct E" by (simp add: fresh_acct_def)
    then show ?thesis using c(1,2) acc None by (simp add: CreateAccount_def cr refines_def)
  next
    case (Some p)
    define o1 where "o1 = setBalance (acc_Balance (so_data p)) (blank_object E a)"
    have ok: "obj_ok E a o1" unfolding o1_def using w1 c(4) by (intro obj_ok_set) (simp add: wf_state_def)
    then have a1: "so_address o1 = a" by (simp add: obj_ok_def)
    have pa: "so_address p = a" using live_ok [OF assms Some] by (simp add: obj_ok_def)
    obtain pd where e: "entries s1 = entries s @ [ResetObjectChange p pd]"
      using createObject_reset [OF assms Some] by (auto simp: s1_def)
    obtain t where t: "revert_entries E [ResetObjectChange p pd] s1 = Some t" "agree E t s"
      using c(1) e by (auto simp: journalled_def)
    have "revert_entries E [ResetObjectChange p pd] (setStateObject o1 s1) = Some t"
      using t(1) reset_overwrites [of o1 p E pd s1] a1 pa by (simp del: revert_entry.simps)
    then have j: "journalled E s (setStateObject o1 s1)"
      using c(1) e t(2) wf_setStateObject [OF w1, of o1] ok a1
      by (auto simp: journalled_def bookkeeping_def simp del: revert_entries.simps intro!: exI [of _ "[ResetObjectChange p pd]"])
    have "Some (cur_view E s1 (blank_object E a)) = sp_accts (spec_of E s1) a"
      using acct_of_live [OF assms(2) c(4), of E] by (simp add: spec_of_def)
    then have "cur_view E s1 (blank_object E a) = fresh_acct E" by (simp add: c(2) sp_put_def)
    then have "spec_of E (setStateObject o1 s1) = sp_put a ((fresh_acct E)\<lparr>v_balance := acc_Balance (so_data p)\<rparr>) (spec_of E s)"
      using spec_of_setStateObject [of o1 E s1] a1 assms(2) by (simp add: c(2)) (simp add: o1_def view_setBalance)
    then show ?thesis using j acc Some by (simp add: CreateAccount_def cr refines_def view_obj_def flip: o1_def)
  qed
qed

lemma AddRefund_refines:
  assumes "wf_state E s"
  shows "refines E s (AddRefund g s) ((spec_of E s)\<lparr>sp_refund := sp_refund (spec_of E s) + g\<rparr>)"
proof -
  let ?s1 = "AddRefund g s"
  have w: "wf_state E ?s1" using wf_journal_append [OF assms] by (simp add: AddRefund_def Let_def)
  have "agree E (journal_undirty (RefundChange (refund s)) (?s1\<lparr>refund := refund s\<rparr>)) s"
    using assms w by (simp add: agree_def) (simp add: AddRefund_def Let_def same_def spec_of_def)
  then show ?thesis using w
    by (auto simp: refines_def journalled_def intro!: exI [of _ "[RefundChange (refund s)]"])
      (simp_all add: AddRefund_def Let_def bookkeeping_def spec_of_def)
qed

lemma SubRefund_refines:
  assumes "wf_state E s" "\<not> g > refund s"
  shows "\<exists>s1. SubRefund g s = Some s1 \<and> refines E s s1 ((spec_of E s)\<lparr>sp_refund := sp_refund (spec_of E s) - g\<rparr>)"
proof -
  let ?s1 = "(journal_append (RefundChange (refund s)) s)\<lparr>refund := refund s - g\<rparr>"
  have w: "wf_state E ?s1" using wf_journal_append [OF assms(1)] by simp
  have "agree E (journal_undirty (RefundChange (refund s)) (?s1\<lparr>refund := refund s\<rparr>)) s"
    using assms w by (simp add: agree_def) (simp add: same_def spec_of_def)
  then have "refines E s ?s1 ((spec_of E s)\<lparr>sp_refund := sp_refund (spec_of E s) - g\<rparr>)" using w
    by (auto simp: refines_def journalled_def intro!: exI [of _ "[RefundChange (refund s)]"])
      (simp_all add: bookkeeping_def spec_of_def)
  then show ?thesis using assms(2) by (simp add: SubRefund_def Let_def)
qed

lemma AddPreimage_refines:
  assumes "wf_state E s"
  shows "refines E s (AddPreimage h p s)
    (if sp_preimages (spec_of E s) h = None then (spec_of E s)\<lparr>sp_preimages := (sp_preimages (spec_of E s))(h \<mapsto> p)\<rparr> else spec_of E s)"
proof (cases "preimages s h")
  case None
  let ?s1 = "(journal_append (AddPreimageChange h) s)\<lparr>preimages := (preimages s)(h \<mapsto> p)\<rparr>"
  have w: "wf_state E ?s1" using wf_journal_append [OF assms(1)] by simp
  have "(preimages s)(h := None) = preimages s" using None by (simp add: fun_upd_idem)
  then have "agree E (journal_undirty (AddPreimageChange h) (?s1\<lparr>preimages := (preimages ?s1)(h := None)\<rparr>)) s"
    using assms w by (simp add: agree_def) (simp add: same_def spec_of_def)
  then have "refines E s ?s1 ((spec_of E s)\<lparr>sp_preimages := (preimages s)(h \<mapsto> p)\<rparr>)" using w
    by (auto simp: refines_def journalled_def intro!: exI [of _ "[AddPreimageChange h]"])
      (simp_all add: bookkeeping_def spec_of_def)
  then show ?thesis using None by (simp add: AddPreimage_def Let_def spec_of_def)
next
  case (Some x)
  then show ?thesis using refines_refl [OF assms] by (simp add: AddPreimage_def spec_of_def)
qed

lemma AddLog_refines:
  assumes "wf_state E s" "\<forall>h. logs s h \<noteq> Some []"
  shows "refines E s (AddLog l s) (the (spec_op E (OpAddLog l) (spec_of E s)))"
proof -
  define ls where "ls = (case logs s (thash s) of None \<Rightarrow> [] | Some x \<Rightarrow> x)"
  define l1 where "l1 = l\<lparr>log_TxHash := thash s, log_BlockHash := bhash s, log_TxIndex := word_of_int (txIndex s), log_Index := logSize s\<rparr>"
  let ?e = "AddLogChange (thash s)"
  let ?s1 = "(journal_append ?e s)\<lparr>logs := (logs s)(thash s \<mapsto> ls @ [l1]), logSize := logSize s + 1\<rparr>"
  have d: "AddLog l s = ?s1" by (simp add: AddLog_def Let_def ls_def l1_def)
  have w: "wf_state E ?s1" using wf_journal_append [OF assms(1)] by simp
  let ?t = "?s1\<lparr>logs := logs s, logSize := logSize s\<rparr>"
  have back1: "(logs s)(thash s := (if ls = [] then None else Some ls)) = logs s"
    using assms(2) by (auto simp: ls_def fun_eq_iff split: option.splits)
  have r: "revert_entry E ?e ?s1 = Some ?t"
    using back1 by (cases "ls = []") (simp_all add: Let_def)
  have "agree E (journal_undirty ?e ?t) s"
    using assms w by (simp add: agree_def) (simp add: same_def spec_of_def)
  then have "journalled E s ?s1" using w r
    by (auto simp: journalled_def simp del: revert_entry.simps intro!: exI [of _ "[?e]"]) (simp_all add: bookkeeping_def)
  moreover have "spec_of E ?s1 = the (spec_op E (OpAddLog l) (spec_of E s))"
    by (simp add: spec_of_def ls_def l1_def)
  ultimately show ?thesis by (simp add: refines_def d)
qed

text \<open>Bisection on a monotone predicate finds its first index.\<close>

lemma search_loop_first:
  assumes "i \<le> j" "j \<le> n" "\<And>k l. k \<le> l \<Longrightarrow> l < n \<Longrightarrow> f k \<Longrightarrow> f l" "\<And>k. k < i \<Longrightarrow> \<not> f k"
  shows "i \<le> search_loop f i j \<and> search_loop f i j \<le> j \<and> (\<forall>k < search_loop f i j. \<not> f k) \<and>
    (search_loop f i j < j \<longrightarrow> f (search_loop f i j))"
  using assms
proof (induction f i j rule: search_loop.induct)
  case (1 f i j)
  note ij = 1(3) and jn = 1(4) and mono = 1(5) and low = 1(6)
  let ?h = "(i + j) div 2"
  show ?case
  proof (cases "i < j")
    case False
    have "search_loop f i j = i" using False by (simp add: search_loop.simps [of f i j])
    then show ?thesis using False ij low by auto
  next
    case True
    have h: "i \<le> ?h" "?h < j" "?h + 1 \<le> j" "?h < n" "?h \<le> n" using True jn by auto
    show ?thesis
    proof (cases "f ?h")
      case fh: True
      have "search_loop f i j = search_loop f i ?h" using True fh by (simp add: search_loop.simps [of f i j] Let_def)
      moreover have "i \<le> search_loop f i ?h \<and> search_loop f i ?h \<le> ?h \<and> (\<forall>k < search_loop f i ?h. \<not> f k) \<and>
          (search_loop f i ?h < ?h \<longrightarrow> f (search_loop f i ?h))"
        by (rule 1(2) [OF True refl _ h(1,5) mono low]) (use fh in simp_all)
      moreover from this have "f (search_loop f i ?h)" using fh by (cases "search_loop f i ?h = ?h") auto
      ultimately show ?thesis using h(2) by auto
    next
      case fh: False
      have low1: "\<not> f k" if "k < ?h + 1" for k using fh mono [of k ?h] that h(4) by auto
      have "search_loop f i j = search_loop f (?h + 1) j" using True fh by (simp add: search_loop.simps [of f i j] Let_def)
      moreover have "?h + 1 \<le> search_loop f (?h + 1) j \<and> search_loop f (?h + 1) j \<le> j \<and>
          (\<forall>k < search_loop f (?h + 1) j. \<not> f k) \<and> (search_loop f (?h + 1) j < j \<longrightarrow> f (search_loop f (?h + 1) j))"
        by (rule 1(1) [OF True refl fh h(3) jn mono low1])
      ultimately show ?thesis using h(1) by auto
    qed
  qed
qed

section \<open>Reverting to a revision\<close>

lemma RevertToSnapshot_finds:
  assumes "sorted_wrt (<) (map rev_id (validRevisions s))"
  shows "i \<notin> set (map rev_id (validRevisions s)) \<Longrightarrow> RevertToSnapshot E i s = None"
    "k < length (validRevisions s) \<Longrightarrow> rev_id (validRevisions s ! k) = i \<Longrightarrow>
      RevertToSnapshot E i s = map_option (\<lambda>s1. s1\<lparr>validRevisions := take k (validRevisions s1)\<rparr>)
        (journal_revert E (rev_journalIndex (validRevisions s ! k)) s)"
proof -
  let ?vr = "validRevisions s" and ?f = "\<lambda>k. rev_id (validRevisions s ! k) \<ge> i"
  define idx where "idx = search_loop ?f 0 (length ?vr)"
  have lt: "rev_id (?vr ! k) < rev_id (?vr ! l)" if "k < l" "l < length ?vr" for k l
    using sorted_wrt_nth_less [OF assms that(1)] that by simp
  then have "rev_id (?vr ! k) \<le> rev_id (?vr ! l)" if "k \<le> l" "l < length ?vr" for k l
    using that by (cases "k = l") (auto simp: less_imp_le)
  then have mono: "?f l" if "k \<le> l" "l < length ?vr" "?f k" for k l using that by fastforce
  have s: "idx \<le> length ?vr" "\<forall>k < idx. \<not> ?f k" "idx < length ?vr \<longrightarrow> ?f idx"
    using search_loop_first [of 0 "length ?vr" "length ?vr" ?f, OF _ _ mono] by (auto simp: idx_def)
  have r: "RevertToSnapshot E i s =
      (if idx = length ?vr \<or> rev_id (?vr ! idx) \<noteq> i then None
       else map_option (\<lambda>s1. s1\<lparr>validRevisions := take idx (validRevisions s1)\<rparr>)
          (journal_revert E (rev_journalIndex (?vr ! idx)) s))"
    by (simp add: RevertToSnapshot_def Let_def idx_def)
  show "RevertToSnapshot E i s = None" if "i \<notin> set (map rev_id ?vr)"
  proof -
    have "idx = length ?vr \<or> rev_id (?vr ! idx) \<noteq> i"
      using that s(1) by (metis in_set_conv_nth le_neq_implies_less length_map nth_map)
    then show ?thesis using r by simp
  qed
  assume k: "k < length ?vr" "rev_id (?vr ! k) = i"
  have "\<not> k < idx" using s(2) k(2) by auto
  moreover have "\<not> idx < k" using lt [of idx k] s(3) k by auto
  ultimately have "idx = k" by simp
  then show "RevertToSnapshot E i s = map_option (\<lambda>s1. s1\<lparr>validRevisions := take k (validRevisions s1)\<rparr>)
        (journal_revert E (rev_journalIndex (?vr ! k)) s)" using r k by simp
qed

lemma with_object_keeps:
  assumes "with_object E a f s = Some t"
  shows "entries t = entries s \<and> bookkeeping s t"
proof -
  obtain obj where "t = setStateObject (f obj) (snd (getStateObject E a s))"
    using assms by (auto simp: with_object_def split: prod.splits option.splits)
  then show ?thesis
    using getDeleted_state [where E = E and addr = a and s = s] by (simp add: getStateObject_snd bookkeeping_def)
qed

lemma revert_entry_keeps:
  assumes "revert_entry E e s = Some t"
  shows "entries t = entries s \<and> bookkeeping s t"
proof (cases e)
  case (SuicideChange a p b)
  have k: "entries s1 = entries s \<and> bookkeeping s s1" if "getStateObject E a s = (r, s1)" for r s1
    using getDeleted_state [where E = E and addr = a and s = s] getStateObject_snd [of E a s] that by simp
  obtain r s1 where g: "getStateObject E a s = (r, s1)" by fastforce
  show ?thesis using assms k [OF g] g unfolding SuicideChange by (cases r) (auto simp: bookkeeping_def)
qed (use assms in \<open>auto simp: Let_def bookkeeping_def dest!: with_object_keeps split: if_splits option.splits\<close>)

lemma revert_entries_keeps:
  "revert_entries E es s = Some t \<Longrightarrow> entries t = entries s \<and> bookkeeping s t"
proof (induction es arbitrary: s)
  case (Cons e es)
  then obtain s1 where s1: "revert_entry E e s = Some s1" "revert_entries E es (journal_undirty e s1) = Some t"
    by (auto split: option.splits)
  have "entries (journal_undirty e s1) = entries s1 \<and> bookkeeping s1 (journal_undirty e s1)"
    by (simp add: journal_undirty_def Let_def bookkeeping_def split: option.split)
  then show ?case using Cons(1) [OF s1(2)] revert_entry_keeps [OF s1(1)] by (simp add: bookkeeping_def)
qed (simp add: bookkeeping_def)

text \<open>Undoing the entries from index \<open>idx\<close> on gives a state that looks like \<open>sp\<close>.\<close>

definition restores :: "'t backend \<Rightarrow> 't StateDB \<Rightarrow> nat \<Rightarrow> spec \<Rightarrow> bool" where
  "restores E s idx sp \<longleftrightarrow> idx \<le> length (entries s) \<and>
    (\<exists>t. revert_entries E (rev (drop idx (entries s))) s = Some t \<and> wf_state E t \<and> spec_of E t = sp)"

lemma revert_spec:
  assumes "agree E s t" "\<forall>e \<in> set es. entry_ok E e" "revert_entries E es t = Some u" "wf_state E u"
  shows "\<exists>v. revert_entries E es s = Some v \<and> wf_state E v \<and> spec_of E v = spec_of E u"
  using revert_entries_agree [OF assms(1,2)] assms(3,4)
  by (cases "revert_entries E es s") (auto simp: agree_def same_def)

lemma restores_step:
  assumes "journalled E s s1" "wf_state E s" "restores E s idx sp"
  shows "restores E s1 idx sp"
proof -
  obtain es t where es: "entries s1 = entries s @ es" "revert_entries E (rev es) s1 = Some t" "agree E t s"
    using assms(1) by (auto simp: journalled_def)
  obtain u where u: "idx \<le> length (entries s)" "revert_entries E (rev (drop idx (entries s))) s = Some u" "wf_state E u" "spec_of E u = sp"
    using assms(3) by (auto simp: restores_def)
  have "\<forall>e \<in> set (rev (drop idx (entries s))). entry_ok E e" using assms(2) by (auto simp: wf_state_def dest: in_set_dropD)
  from revert_spec [OF es(3) this u(2,3)] show ?thesis
    unfolding restores_def u(4) using es(1,2) u(1) by (simp add: revert_entries_append)
qed

lemma restores_snapshot: "wf_state E s \<Longrightarrow> restores E s (length (entries s)) (spec_of E s)"
  by (simp add: restores_def)

lemma journal_revert_restores:
  assumes "wf_state E s" "restores E s idx sp"
  obtains t where "journal_revert E idx s = Some t" "wf_state E t" "spec_of E t = sp" "bookkeeping s t"
    "entries t = take idx (entries s)" "\<forall>i sp1. i \<le> idx \<longrightarrow> restores E s i sp1 \<longrightarrow> restores E t i sp1"
proof -
  obtain t where t: "idx \<le> length (entries s)" "revert_entries E (rev (drop idx (entries s))) s = Some t" "wf_state E t" "spec_of E t = sp"
    using assms(2) by (auto simp: restores_def)
  have k: "entries t = entries s" "bookkeeping s t" using revert_entries_keeps [OF t(2)] by simp_all
  let ?t = "t\<lparr>entries := take idx (entries s)\<rparr>"
  have w: "wf_state E ?t" using t(3) k(1) by (auto simp: wf_state_def dest: in_set_takeD)
  have a: "agree E ?t t" using w t(3) by (simp add: agree_def same_def spec_of_def)
  have r: "restores E ?t i sp1" if i: "i \<le> idx" "restores E s i sp1" for i sp1
  proof -
    obtain u where u: "revert_entries E (rev (drop i (entries s))) s = Some u" "wf_state E u" "spec_of E u = sp1"
      using i(2) by (auto simp: restores_def)
    have "drop i (entries s) = drop i (take idx (entries s)) @ drop idx (entries s)"
      using drop_append [of i "take idx (entries s)" "drop idx (entries s)"] i(1) t(1) by simp
    then have back1: "revert_entries E (rev (drop i (take idx (entries s)))) t = Some u"
      using u(1) t(2) by (simp add: revert_entries_append)
    have "set (rev (drop i (take idx (entries s)))) \<subseteq> set (entries s)"
      by (metis set_rev set_drop_subset set_take_subset order_trans)
    then have ok: "\<forall>e \<in> set (rev (drop i (take idx (entries s)))). entry_ok E e"
      using assms(1) unfolding wf_state_def by blast
    show ?thesis using revert_spec [OF a ok back1 u(2)] unfolding restores_def u(3) using i(1) t(1) by simp
  qed
  show thesis
  proof (rule that [of ?t])
    show "journal_revert E idx s = Some ?t" using t(2) k(1) by (simp add: journal_revert_def)
    show "spec_of E ?t = sp" using t(4) by (simp add: spec_of_def)
    show "bookkeeping s ?t" using k(2) by (simp add: bookkeeping_def)
    show "wf_state E ?t" by (rule w)
    show "entries ?t = take idx (entries s)" by simp
    show "\<forall>i sp1. i \<le> idx \<longrightarrow> restores E s i sp1 \<longrightarrow> restores E ?t i sp1" using r by blast
  qed
qed

section \<open>Simulation\<close>

fun op_ok :: "state_op \<Rightarrow> bool" where
  "op_ok (OpAddBalance a _) = (a \<in> addresses)"
| "op_ok (OpSubBalance a _) = (a \<in> addresses)"
| "op_ok (OpSetBalance a _) = (a \<in> addresses)"
| "op_ok (OpSetNonce a _) = (a \<in> addresses)"
| "op_ok (OpSetCode a _) = (a \<in> addresses)"
| "op_ok (OpSetState a _ _) = (a \<in> addresses)"
| "op_ok (OpSuicide a) = (a \<in> addresses)"
| "op_ok (OpCreateAccount a) = (a \<in> addresses)"
| "op_ok (OpGetState a _) = (a \<in> addresses)"
| "op_ok (OpGetCommittedState a _) = (a \<in> addresses)"
| "op_ok (OpGetCode a) = (a \<in> addresses)"
| "op_ok (OpGetBalance a) = (a \<in> addresses)"
| "op_ok _ = True"

abbreviation logs_ok :: "spec \<Rightarrow> bool" where
  "logs_ok sp \<equiv> \<forall>h. sp_logs sp h \<noteq> Some []"

abbreviation snapshot_op :: "state_op \<Rightarrow> bool" where
  "snapshot_op op \<equiv> op = OpSnapshot \<or> (\<exists>i. op = OpRevert i)"

lemma exec_refines:
  assumes "wf_state E s" "logs_ok (spec_of E s)" "op_ok op" "\<not> snapshot_op op"
  shows "rel_option (refines E s) (exec E op s) (spec_op E op (spec_of E s))"
proof (cases op)
  case (OpSubRefund g)
  show ?thesis
  proof (cases "g > refund s")
    case True
    then show ?thesis by (simp add: OpSubRefund SubRefund_def Let_def spec_of_def)
  next
    case False
    then obtain s1 where "SubRefund g s = Some s1"
        "refines E s s1 ((spec_of E s)\<lparr>sp_refund := sp_refund (spec_of E s) - g\<rparr>)"
      using SubRefund_refines [OF assms(1) False] by blast
    moreover have "sp_refund (spec_of E s) = refund s" by (simp add: spec_of_def)
    ultimately show ?thesis using False by (simp add: OpSubRefund)
  qed
next
  case (OpAddLog l)
  have "\<forall>h. logs s h \<noteq> Some []" using assms(2) by (simp add: spec_of_def)
  note r = AddLog_refines [OF assms(1) this, of l, unfolded spec_op.simps option.sel]
  show ?thesis unfolding OpAddLog exec.simps spec_op.simps option.rel_inject(2) by (rule r)
next
  case (OpSuicide a)
  show ?thesis unfolding OpSuicide exec.simps spec_op.simps option.rel_inject(2)
    by (rule Suicide_refines(1)) (use assms OpSuicide in simp_all)
next
  case (OpCreateAccount a)
  show ?thesis unfolding OpCreateAccount exec.simps spec_op.simps option.rel_inject(2)
    by (rule CreateAccount_refines) (use assms OpCreateAccount in simp_all)
next
  case (OpAddPreimage h p)
  show ?thesis unfolding OpAddPreimage exec.simps spec_op.simps option.rel_inject(2)
    by (rule AddPreimage_refines) (use assms in simp_all)
next
  case (OpGetState a k)
  then show ?thesis using GetState_refines [OF assms(1), of a k] assms(3) by simp
next
  case (OpGetCommittedState a k)
  then show ?thesis using GetCommittedState_refines [OF assms(1), of a k] assms(3) by simp
next
  case (OpGetCode a)
  then show ?thesis using GetCode_refines [OF assms(1), of a] assms(3) by simp
next
  case (OpGetBalance a)
  then show ?thesis using GetBalance_refines [OF assms(1), of a] assms(3) by simp
qed (use assms in \<open>simp_all add: AddBalance_refines SubBalance_refines setters_refine AddRefund_refines\<close>)

lemma spec_op_logs_ok: "logs_ok sp \<Longrightarrow> spec_op E op sp = Some sp1 \<Longrightarrow> logs_ok sp1"
proof (cases op)
  case (OpSubRefund g)
  then show "logs_ok sp \<Longrightarrow> spec_op E op sp = Some sp1 \<Longrightarrow> logs_ok sp1" by (cases "g > sp_refund sp") auto
next
  case (OpSuicide a)
  then show "logs_ok sp \<Longrightarrow> spec_op E op sp = Some sp1 \<Longrightarrow> logs_ok sp1"
    by (cases "sp_get a sp") (auto simp: sp_update_def sp_put_def)
next
  case (OpAddPreimage h p)
  then show "logs_ok sp \<Longrightarrow> spec_op E op sp = Some sp1 \<Longrightarrow> logs_ok sp1" by (cases "sp_preimages sp h") auto
next
  case (OpAddLog l)
  then show "logs_ok sp \<Longrightarrow> spec_op E op sp = Some sp1 \<Longrightarrow> logs_ok sp1" by (clarsimp split: if_splits)
qed (auto simp: sp_update_def sp_put_def)

text \<open>The simulation: what the state shows is the current copy, and every valid revision restores its saved one.\<close>

definition sim :: "'t backend \<Rightarrow> 't StateDB \<Rightarrow> machine \<Rightarrow> bool" where
  "sim E s m \<longleftrightarrow> wf_state E s \<and> spec_of E s = m_cur m \<and> logs_ok (m_cur m) \<and> nextRevisionId s = m_next m \<and>
    list_all2 (\<lambda>r (i, sp). rev_id r = i \<and> i < m_next m \<and> logs_ok sp \<and> restores E s (rev_journalIndex r) sp)
      (validRevisions s) (m_saved m) \<and>
    sorted_wrt (\<lambda>r q. rev_id r < rev_id q \<and> rev_journalIndex r \<le> rev_journalIndex q) (validRevisions s)"

lemma sim_step:
  assumes "sim E s m" "refines E s s1 sp" "logs_ok sp"
  shows "sim E s1 (m\<lparr>m_cur := sp\<rparr>)"
proof -
  have j: "journalled E s s1" "spec_of E s1 = sp" "wf_state E s1" using assms(2) journalled_wf by (auto simp: refines_def)
  then have b: "bookkeeping s s1" by (simp add: journalled_def)
  have w: "wf_state E s" using assms(1) by (simp add: sim_def)
  have "list_all2 (\<lambda>r (i, sp). rev_id r = i \<and> i < m_next m \<and> logs_ok sp \<and> restores E s1 (rev_journalIndex r) sp)
      (validRevisions s) (m_saved m)"
    by (rule list_all2_mono [OF conjunct1 [OF conjunct2 [OF conjunct2 [OF conjunct2 [OF conjunct2 [OF assms(1) [unfolded sim_def]]]]]]])
      (use restores_step [OF j(1) w] in auto)
  then show ?thesis using assms(1,3) j b by (simp add: sim_def bookkeeping_def)
qed

lemma sim_exec:
  assumes "sim E s m" "op_ok op" "\<not> snapshot_op op"
  shows "rel_option (sim E) (exec E op s) (spec_exec E op m)"
proof -
  have s: "wf_state E s" "logs_ok (spec_of E s)" "spec_of E s = m_cur m" using assms(1) by (simp_all add: sim_def)
  have "spec_exec E op m = map_option (\<lambda>sp. m\<lparr>m_cur := sp\<rparr>) (spec_op E op (m_cur m))"
    using assms(3) by (cases op) auto
  moreover have "rel_option (refines E s) (exec E op s) (spec_op E op (m_cur m))"
    using exec_refines [OF s(1,2) assms(2,3)] s(3) by simp
  ultimately show ?thesis
    using sim_step [OF assms(1)] spec_op_logs_ok [of "m_cur m" E op] s(2,3)
    by (cases "exec E op s"; cases "spec_op E op (m_cur m)") auto
qed

lemma restores_agree:
  assumes "agree E t s" "entries t = entries s" "restores E s idx sp"
  shows "restores E t idx sp"
proof -
  obtain u where u: "idx \<le> length (entries s)" "revert_entries E (rev (drop idx (entries s))) s = Some u" "wf_state E u" "spec_of E u = sp"
    using assms(3) by (auto simp: restores_def)
  have "\<forall>e \<in> set (rev (drop idx (entries s))). entry_ok E e"
    using assms(1) by (auto simp: agree_def wf_state_def dest: in_set_dropD)
  from revert_spec [OF assms(1) this u(2,3)] show ?thesis using u(1,4) assms(2) by (simp add: restores_def)
qed

lemma sim_Snapshot:
  assumes "sim E s m"
  shows "sim E (snd (Snapshot s)) (m\<lparr>m_saved := m_saved m @ [(m_next m, m_cur m)], m_next := m_next m + 1\<rparr>)"
proof -
  let ?s1 = "snd (Snapshot s)"
  have w: "wf_state E s" and la: "list_all2 (\<lambda>r (i, sp). rev_id r = i \<and> i < m_next m \<and> logs_ok sp \<and>
      restores E s (rev_journalIndex r) sp) (validRevisions s) (m_saved m)"
    and o: "sorted_wrt (\<lambda>r q. rev_id r < rev_id q \<and> rev_journalIndex r \<le> rev_journalIndex q) (validRevisions s)"
    and c: "spec_of E s = m_cur m" "logs_ok (m_cur m)" "nextRevisionId s = m_next m"
    using assms by (simp_all add: sim_def)
  have f: "entries ?s1 = entries s" "wf_state E ?s1" "spec_of E ?s1 = spec_of E s" "agree E ?s1 s"
    using w by (simp_all add: Snapshot_def agree_def same_def spec_of_def)
  have r: "restores E ?s1 idx sp" if "restores E s idx sp" for idx sp
    using restores_agree [OF f(4,1)] that by blast
  have la1: "list_all2 (\<lambda>r (i, sp). rev_id r = i \<and> i < m_next m + 1 \<and> logs_ok sp \<and>
      restores E ?s1 (rev_journalIndex r) sp) (validRevisions s) (m_saved m)"
    by (rule list_all2_mono [OF la]) (use r in auto)
  have "\<forall>r \<in> set (validRevisions s). rev_id r < m_next m \<and> rev_journalIndex r \<le> length (entries s)"
    using la by (auto simp: list_all2_conv_all_nth in_set_conv_nth restores_def case_prod_beta)
  then have o1: "sorted_wrt (\<lambda>r q. rev_id r < rev_id q \<and> rev_journalIndex r \<le> rev_journalIndex q) (validRevisions ?s1)"
    using o c(3) by (simp add: Snapshot_def sorted_wrt_append)
  have "list_all2 (\<lambda>r (i, sp). rev_id r = i \<and> i < m_next m + 1 \<and> logs_ok sp \<and>
      restores E ?s1 (rev_journalIndex r) sp) (validRevisions ?s1) (m_saved m @ [(m_next m, m_cur m)])"
    using list_all2_appendI [OF la1, of "[\<lparr>rev_id = nextRevisionId s, rev_journalIndex = length (entries s)\<rparr>]" "[(m_next m, m_cur m)]"]
      r [OF restores_snapshot [OF w]] c by (simp add: Snapshot_def)
  moreover have "nextRevisionId ?s1 = m_next m + 1" using c(3) by (simp add: Snapshot_def)
  ultimately show ?thesis using f(2,3) c(1,2) o1 by (simp add: sim_def)
qed

lemma sorted_lookup:
  fixes xs :: "('k :: linorder \<times> 'v) list"
  assumes "sorted_wrt (<) (map fst xs)" "k < length xs" "fst (xs ! k) = i"
  shows "map_of xs i = Some (snd (xs ! k))" "takeWhile (\<lambda>(j, _). j < i) xs = take k xs"
proof -
  have "(i, snd (xs ! k)) \<in> set xs" using assms(2,3) by (metis nth_mem prod.collapse)
  then show "map_of xs i = Some (snd (xs ! k))" using assms(1) by (simp add: strict_sorted_iff)
  show "takeWhile (\<lambda>(j, _). j < i) xs = take k xs"
  proof (rule takeWhile_eq_take_P_nth)
    show "case xs ! l of (j, _) \<Rightarrow> j < i" if "l < k" "l < length xs" for l
      using sorted_wrt_nth_less [OF assms(1) that(1)] that assms(2,3) by (simp add: case_prod_beta)
  qed (use assms(3) in \<open>simp add: case_prod_beta\<close>)
qed

lemma sim_Revert:
  assumes "sim E s m"
  shows "rel_option (sim E) (RevertToSnapshot E i s) (spec_exec E (OpRevert i) m)"
proof -
  let ?vr = "validRevisions s" and ?sv = "m_saved m"
  have w: "wf_state E s" and la: "list_all2 (\<lambda>r (i, sp). rev_id r = i \<and> i < m_next m \<and> logs_ok sp \<and>
      restores E s (rev_journalIndex r) sp) ?vr ?sv"
    and o: "sorted_wrt (\<lambda>r q. rev_id r < rev_id q \<and> rev_journalIndex r \<le> rev_journalIndex q) ?vr"
    and n: "nextRevisionId s = m_next m"
    using assms by (simp_all add: sim_def)
  have len: "length ?vr = length ?sv" by (rule list_all2_lengthD [OF la])
  have ids: "map rev_id ?vr = map fst ?sv"
    using la by (auto simp: list_all2_conv_all_nth case_prod_beta intro: nth_equalityI)
  have so: "sorted_wrt (<) (map rev_id ?vr)"
    unfolding sorted_wrt_map by (rule sorted_wrt_mono_rel [OF _ o]) simp
  note finds = RevertToSnapshot_finds [OF so]
  show ?thesis
  proof (cases "i \<in> set (map fst ?sv)")
    case False
    then have "map_of ?sv i = None" by (simp add: map_of_eq_None_iff)
    then show ?thesis using finds(1) False ids by simp
  next
    case True
    then obtain k where k: "k < length ?sv" "fst (?sv ! k) = i" by (auto simp: in_set_conv_nth)
    define idx sp where "idx = rev_journalIndex (?vr ! k)" and "sp = snd (?sv ! k)"
    have r: "rev_id (?vr ! k) = i" "logs_ok sp" "restores E s idx sp"
      using list_all2_nthD2 [OF la k(1)] k(2) by (simp_all add: case_prod_beta idx_def sp_def)
    obtain t where t: "journal_revert E idx s = Some t" "wf_state E t" "spec_of E t = sp" "bookkeeping s t"
      "entries t = take idx (entries s)" "\<forall>i sp1. i \<le> idx \<longrightarrow> restores E s i sp1 \<longrightarrow> restores E t i sp1"
      by (rule journal_revert_restores [OF w r(3)])
    have tv: "validRevisions t = ?vr" "nextRevisionId t = m_next m" using t(4) n by (simp_all add: bookkeeping_def)
    let ?s1 = "t\<lparr>validRevisions := take k ?vr\<rparr>"
    have s1: "RevertToSnapshot E i s = Some ?s1" using finds(2) [of k] k(1) len r(1) t(1) tv(1) by (simp add: idx_def)
    have m1: "spec_exec E (OpRevert i) m = Some (m\<lparr>m_cur := sp, m_saved := take k ?sv\<rparr>)"
      using sorted_lookup [OF so [unfolded ids] k] by (simp add: sp_def)
    have a: "agree E ?s1 t" using t(2) by (simp add: agree_def same_def spec_of_def)
    have le: "rev_journalIndex (?vr ! l) \<le> idx" if "l < k" for l
      using sorted_wrt_nth_less [OF o that] k(1) len by (simp add: idx_def)
    have rs: "restores E ?s1 (rev_journalIndex (?vr ! l)) q" if "l < k" "restores E s (rev_journalIndex (?vr ! l)) q" for l q
      using restores_agree [OF a _ t(6) [rule_format, OF le [OF that(1)] that(2)]] by simp
    have "list_all2 (\<lambda>r (i, sp). rev_id r = i \<and> i < m_next m \<and> logs_ok sp \<and> restores E ?s1 (rev_journalIndex r) sp)
        (take k ?vr) (take k ?sv)"
      unfolding list_all2_conv_all_nth
    proof (intro conjI allI impI)
      fix l assume "l < length (take k ?vr)"
      then have l: "l < k" "l < length ?vr" by auto
      show "case take k ?sv ! l of (i, sp) \<Rightarrow> rev_id (take k ?vr ! l) = i \<and> i < m_next m \<and> logs_ok sp \<and>
          restores E ?s1 (rev_journalIndex (take k ?vr ! l)) sp"
        using list_all2_nthD [OF la l(2)] rs [OF l(1)] l(1) by (simp add: case_prod_beta)
    qed (simp add: len)
    then have "sim E ?s1 (m\<lparr>m_cur := sp, m_saved := take k ?sv\<rparr>)"
      using t(2,3) r(2) tv(2) sorted_wrt_take [OF o] by (simp add: sim_def spec_of_def)
    then show ?thesis unfolding s1 m1 option.rel_inject(2) .
  qed
qed

lemma sim_exec_all:
  "sim E s m \<Longrightarrow> list_all op_ok ops \<Longrightarrow> rel_option (sim E) (exec_all E ops s) (spec_all E ops m)"
proof (induction ops arbitrary: s m)
  case (Cons op ops)
  have "rel_option (sim E) (exec E op s) (spec_exec E op m)"
  proof (cases "snapshot_op op")
    case True
    then show ?thesis using sim_Snapshot [OF Cons(2)] sim_Revert [OF Cons(2)] by auto
  next
    case False
    then show ?thesis using sim_exec [OF Cons(2)] Cons(3) by simp
  qed
  then show ?case using Cons(1,3) by (cases rule: option.rel_cases) auto
qed simp

lemma sim_start:
  assumes "backend_ok E snap tr"
  shows "sim E (newStateDB tr snap) \<lparr>m_cur = spec_of E (newStateDB tr snap), m_saved = [], m_next = 0\<rparr>"
  using assms by (simp add: sim_def wf_state_def) (simp add: newStateDB_def spec_of_def)

end
