(* ===== verification/EvmTypes.thy ===== *)
theory EvmTypes
  imports EvmTable StateSim
begin

text \<open>
  The environment of the virtual machine: fork rules (src/params/config.go), the interface to the state
  (src/core/vm/interface.go), contracts (contract.go), the machine and its configuration (evm.go,
  interpreter.go). \<open>EVM\<close> is the part that does not change during a run; \<open>vm\<close> has the mutable fields of the Go
  structs \<open>EVM\<close> and \<open>EVMInterpreter\<close>, with the state behind the interface.
\<close>

section \<open>Fork rules\<close>

record ChainConfig =
  ChainID :: "int option"
  HomesteadBlock :: "int option"
  EIP150Block :: "int option"
  EIP155Block :: "int option"
  EIP158Block :: "int option"
  ByzantiumBlock :: "int option"
  ConstantinopleBlock :: "int option"
  PetersburgBlock :: "int option"
  IstanbulBlock :: "int option"
  EWASMBlock :: "int option"

record Rules =
  r_ChainID :: int
  IsHomestead :: bool
  IsEIP150 :: bool
  IsEIP155 :: bool
  IsEIP158 :: bool
  IsByzantium :: bool
  IsConstantinople :: bool
  IsPetersburg :: bool
  IsIstanbul :: bool

definition isForked :: "int option \<Rightarrow> int \<Rightarrow> bool" where
  "isForked s head = (case s of None \<Rightarrow> False | Some b \<Rightarrow> b \<le> head)"

definition cfg_IsPetersburg :: "ChainConfig \<Rightarrow> int \<Rightarrow> bool" where
  "cfg_IsPetersburg c num \<longleftrightarrow>
    isForked (PetersburgBlock c) num \<or> (PetersburgBlock c = None \<and> isForked (ConstantinopleBlock c) num)"

definition ChainConfig_Rules :: "ChainConfig \<Rightarrow> int \<Rightarrow> Rules" where
  "ChainConfig_Rules c num =
    \<lparr>r_ChainID = (case ChainID c of None \<Rightarrow> 0 | Some i \<Rightarrow> i),
     IsHomestead = isForked (HomesteadBlock c) num,
     IsEIP150 = isForked (EIP150Block c) num,
     IsEIP155 = isForked (EIP155Block c) num,
     IsEIP158 = isForked (EIP158Block c) num,
     IsByzantium = isForked (ByzantiumBlock c) num,
     IsConstantinople = isForked (ConstantinopleBlock c) num,
     IsPetersburg = cfg_IsPetersburg c num,
     IsIstanbul = isForked (IstanbulBlock c) num\<rparr>"

definition MainnetChainConfig :: ChainConfig where
  "MainnetChainConfig =
    \<lparr>ChainID = Some 625, HomesteadBlock = Some 0, EIP150Block = Some 0, EIP155Block = Some 0, EIP158Block = Some 0,
     ByzantiumBlock = Some 0, ConstantinopleBlock = Some 0, PetersburgBlock = Some 0, IstanbulBlock = Some 0,
     EWASMBlock = None\<rparr>"

section \<open>Interface to the state\<close>

text \<open>
  The methods of \<open>vm.StateDB\<close> on a state of type \<open>'s\<close>. Reading may fill caches, so it returns the state;
  \<open>SubRefund\<close> and \<open>RevertToSnapshot\<close> may panic.
\<close>

record 's vm_StateDB =
  db_CreateAccount :: "address \<Rightarrow> 's \<Rightarrow> 's"
  db_SubBalance :: "address \<Rightarrow> int \<Rightarrow> 's \<Rightarrow> 's"
  db_AddBalance :: "address \<Rightarrow> int \<Rightarrow> 's \<Rightarrow> 's"
  db_GetBalance :: "address \<Rightarrow> 's \<Rightarrow> int \<times> 's"
  db_GetNonce :: "address \<Rightarrow> 's \<Rightarrow> u64 \<times> 's"
  db_SetNonce :: "address \<Rightarrow> u64 \<Rightarrow> 's \<Rightarrow> 's"
  db_GetCodeHash :: "address \<Rightarrow> 's \<Rightarrow> hash \<times> 's"
  db_GetCode :: "address \<Rightarrow> 's \<Rightarrow> bytes option \<times> 's"
  db_SetCode :: "address \<Rightarrow> bytes \<Rightarrow> 's \<Rightarrow> 's"
  db_GetCodeSize :: "address \<Rightarrow> 's \<Rightarrow> nat \<times> 's"
  db_AddRefund :: "u64 \<Rightarrow> 's \<Rightarrow> 's"
  db_SubRefund :: "u64 \<Rightarrow> 's \<Rightarrow> 's option"
  db_GetCommittedState :: "address \<Rightarrow> hash \<Rightarrow> 's \<Rightarrow> hash \<times> 's"
  db_GetState :: "address \<Rightarrow> hash \<Rightarrow> 's \<Rightarrow> hash \<times> 's"
  db_SetState :: "address \<Rightarrow> hash \<Rightarrow> hash \<Rightarrow> 's \<Rightarrow> 's"
  db_Suicide :: "address \<Rightarrow> 's \<Rightarrow> bool \<times> 's"
  db_HasSuicided :: "address \<Rightarrow> 's \<Rightarrow> bool \<times> 's"
  db_Exist :: "address \<Rightarrow> 's \<Rightarrow> bool \<times> 's"
  db_Empty :: "address \<Rightarrow> 's \<Rightarrow> bool \<times> 's"
  db_RevertToSnapshot :: "int \<Rightarrow> 's \<Rightarrow> 's option"
  db_Snapshot :: "'s \<Rightarrow> int \<times> 's"
  db_AddLog :: "Log \<Rightarrow> 's \<Rightarrow> 's"
  db_AddPreimage :: "hash \<Rightarrow> bytes \<Rightarrow> 's \<Rightarrow> 's"

section \<open>Contracts\<close>

text \<open>
  The field \<open>caller\<close> is only read by \<open>AsDelegate\<close>, which gets it as an argument; the cached jump
  destinations are recomputed (\<open>validJumpdest\<close>).
\<close>

record Contract =
  CallerAddress :: address
  c_self :: address
  Code :: bytes
  CodeHash :: hash
  CodeAddr :: "address option"
  c_Input :: bytes
  Gas :: u64
  c_value :: int

datatype ContractRef = AccountRef address | ContractRef Contract

fun ref_Address :: "ContractRef \<Rightarrow> address" where
  "ref_Address (AccountRef a) = a"
| "ref_Address (ContractRef c) = c_self c"

definition NewContract :: "ContractRef \<Rightarrow> address \<Rightarrow> int \<Rightarrow> u64 \<Rightarrow> Contract" where
  "NewContract caller obj val gas =
    \<lparr>CallerAddress = ref_Address caller, c_self = obj, Code = [], CodeHash = zero_hash, CodeAddr = None, c_Input = [],
     Gas = gas, c_value = val\<rparr>"

text \<open>The type assertion \<open>c.caller.(*Contract)\<close> panics if the caller is not a contract.\<close>

definition AsDelegate :: "ContractRef \<Rightarrow> Contract \<Rightarrow> panic + Contract" where
  "AsDelegate caller c =
    (case caller of
       AccountRef _ \<Rightarrow> Inl PanicNil
     | ContractRef parent \<Rightarrow> Inr (c\<lparr>CallerAddress := CallerAddress parent, c_value := c_value parent\<rparr>))"

definition UseGas :: "u64 \<Rightarrow> Contract \<Rightarrow> bool \<times> Contract" where
  "UseGas gas c = (if Gas c < gas then (False, c) else (True, c\<lparr>Gas := Gas c - gas\<rparr>))"

definition SetCallCode :: "address option \<Rightarrow> hash \<Rightarrow> bytes \<Rightarrow> Contract \<Rightarrow> Contract" where
  "SetCallCode addr h code c = c\<lparr>Code := code, CodeHash := h, CodeAddr := addr\<rparr>"

section \<open>The machine\<close>

text \<open>
  Cryptography is a parameter: \<open>crypto.Ecrecover\<close>, the hash functions, the operations of bn256 on points
  (in a representation of their own) and the compression function of blake2b.
\<close>

record natives =
  Ecrecover :: "bytes \<Rightarrow> bytes \<Rightarrow> bytes option"
  Sum256 :: "bytes \<Rightarrow> bytes"
  ripemd160 :: "bytes \<Rightarrow> bytes"
  G1_Unmarshal :: "bytes \<Rightarrow> bytes option"
  G1_Add :: "bytes \<Rightarrow> bytes \<Rightarrow> bytes"
  G1_ScalarMult :: "bytes \<Rightarrow> int \<Rightarrow> bytes"
  G1_Marshal :: "bytes \<Rightarrow> bytes"
  G2_Unmarshal :: "bytes \<Rightarrow> bytes option"
  PairingCheck :: "bytes list \<Rightarrow> bytes list \<Rightarrow> bool"
  blake2b_F :: "u64 list \<Rightarrow> u64 list \<Rightarrow> u64 list \<Rightarrow> bool \<Rightarrow> nat \<Rightarrow> u64 list"

text \<open>\<open>Context\<close>; its functions \<open>CanTransfer\<close> and \<open>Transfer\<close> are the ones of src/core/evm.go.\<close>

record Context =
  ctx_GetHash :: "u64 \<Rightarrow> hash"
  ctx_Origin :: address
  ctx_GasPrice :: int
  ctx_Coinbase :: address
  ctx_GasLimit :: u64
  ctx_BlockNumber :: int
  ctx_Time :: int
  ctx_Difficulty :: int

record Config =
  NoRecursion :: bool
  EnablePreimageRecording :: bool
  ExtraEips :: "int list"

record 's EVM =
  evm_db :: "'s vm_StateDB"
  evm_ctx :: Context
  evm_ChainID :: "int option"
  chainRules :: Rules
  vmConfig :: Config
  jump_table :: JumpTable
  evm_keccak :: "bytes \<Rightarrow> bytes"
  evm_natives :: natives
  growcap :: "nat \<Rightarrow> nat \<Rightarrow> nat"

record 's vm =
  vm_db :: 's
  vm_depth :: int
  callGasTemp :: u64
  readOnly :: bool
  returnData :: mem_slice

text \<open>
  The loop over \<open>cfg.ExtraEips\<close> in \<open>NewEVMInterpreter\<close>. \<open>range\<close> goes over the indices of the slice as it was
  at the start, while \<open>append(cfg.ExtraEips[:i], cfg.ExtraEips[i+1:]...)\<close> shifts the elements of the same
  array and shortens the slice to length \<open>len\<close>.
\<close>

fun enable_eips :: "nat \<Rightarrow> nat \<Rightarrow> int list \<Rightarrow> nat \<Rightarrow> JumpTable \<Rightarrow> panic + JumpTable" where
  "enable_eips 0 i arr len jt = Inr jt"
| "enable_eips (Suc n) i arr len jt =
    (case EnableEIP (arr ! i) jt of
       Some jt1 \<Rightarrow> enable_eips n (i + 1) arr len jt1
     | None \<Rightarrow>
         if i + 1 > len then Inl PanicBounds
         else enable_eips n (i + 1) (take i arr @ drop (i + 1) (take len arr) @ drop (len - 1) arr) (len - 1) jt)"

definition base_table :: "Rules \<Rightarrow> JumpTable" where
  "base_table rules =
    (if IsIstanbul rules then newIstanbulInstructionSet
     else if IsConstantinople rules then newConstantinopleInstructionSet
     else if IsByzantium rules then newByzantiumInstructionSet
     else if IsEIP158 rules then newSpuriousDragonInstructionSet
     else if IsEIP150 rules then newTangerineWhistleInstructionSet
     else if IsHomestead rules then newHomesteadInstructionSet
     else newFrontierInstructionSet)"

definition NewEVMInterpreter :: "Rules \<Rightarrow> Config \<Rightarrow> panic + JumpTable" where
  "NewEVMInterpreter rules cfg =
    enable_eips (length (ExtraEips cfg)) 0 (ExtraEips cfg) (length (ExtraEips cfg)) (base_table rules)"

text \<open>\<open>NewEVM\<close> panics after the EWASM fork, for which there is no interpreter.\<close>

definition NewEVM ::
  "'s vm_StateDB \<Rightarrow> Context \<Rightarrow> ChainConfig \<Rightarrow> Config \<Rightarrow> (bytes \<Rightarrow> bytes) \<Rightarrow> natives \<Rightarrow> (nat \<Rightarrow> nat \<Rightarrow> nat) \<Rightarrow> panic + 's EVM" where
  "NewEVM db ctx cfg vmcfg keccak nat_fns grow =
    (let rules = ChainConfig_Rules cfg (ctx_BlockNumber ctx) in
     if isForked (EWASMBlock cfg) (ctx_BlockNumber ctx) then Inl PanicNil
     else bindp (NewEVMInterpreter rules vmcfg) (\<lambda>jt.
       Inr \<lparr>evm_db = db, evm_ctx = ctx, evm_ChainID = ChainID cfg, chainRules = rules, vmConfig = vmcfg,
            jump_table = jt, evm_keccak = keccak, evm_natives = nat_fns, growcap = grow\<rparr>))"

end
