(* ===== verification/EvmPrecompiles.thy ===== *)
theory EvmPrecompiles
  imports EvmTypes
begin

text \<open>
  Precompiled contracts (src/core/vm/contracts.go): their gas, their argument and result formats, and the
  two that compute on integers. The cryptographic operations are the parameters in \<open>natives\<close>.
\<close>

section \<open>Contracts\<close>

datatype PrecompiledContract =
    ecrecover | sha256hash | ripemd160hash | dataCopy | bigModExp
  | bn256AddByzantium | bn256ScalarMulByzantium | bn256PairingByzantium
  | bn256AddIstanbul | bn256ScalarMulIstanbul | bn256PairingIstanbul | blake2F

definition PrecompiledContractsHomestead :: "address \<rightharpoonup> PrecompiledContract" where
  "PrecompiledContractsHomestead = map_of [
     (BytesToAddress [1], ecrecover),
     (BytesToAddress [2], sha256hash),
     (BytesToAddress [3], ripemd160hash),
     (BytesToAddress [4], dataCopy)]"

definition PrecompiledContractsByzantium :: "address \<rightharpoonup> PrecompiledContract" where
  "PrecompiledContractsByzantium = map_of [
     (BytesToAddress [1], ecrecover),
     (BytesToAddress [2], sha256hash),
     (BytesToAddress [3], ripemd160hash),
     (BytesToAddress [4], dataCopy),
     (BytesToAddress [5], bigModExp),
     (BytesToAddress [6], bn256AddByzantium),
     (BytesToAddress [7], bn256ScalarMulByzantium),
     (BytesToAddress [8], bn256PairingByzantium)]"

definition PrecompiledContractsIstanbul :: "address \<rightharpoonup> PrecompiledContract" where
  "PrecompiledContractsIstanbul = map_of [
     (BytesToAddress [1], ecrecover),
     (BytesToAddress [2], sha256hash),
     (BytesToAddress [3], ripemd160hash),
     (BytesToAddress [4], dataCopy),
     (BytesToAddress [5], bigModExp),
     (BytesToAddress [6], bn256AddIstanbul),
     (BytesToAddress [7], bn256ScalarMulIstanbul),
     (BytesToAddress [8], bn256PairingIstanbul),
     (BytesToAddress [9], blake2F)]"

definition precompiles :: "Rules \<Rightarrow> address \<rightharpoonup> PrecompiledContract" where
  "precompiles rules =
    (if IsIstanbul rules then PrecompiledContractsIstanbul
     else if IsByzantium rules then PrecompiledContractsByzantium
     else PrecompiledContractsHomestead)"

section \<open>Modular exponentiation\<close>

definition modexp_input :: "bytes \<Rightarrow> bytes" where
  "modexp_input input = (if length input > 96 then drop 96 input else [])"

definition bigModExp_RequiredGas :: "bytes \<Rightarrow> panic + u64" where
  "bigModExp_RequiredGas input0 =
    bindp (getData input0 0 32) (\<lambda>b. bindp (getData input0 32 32) (\<lambda>e. bindp (getData input0 64 32) (\<lambda>m.
      let baseLen = big_SetBytes b; expLen = big_SetBytes e; modLen = big_SetBytes m; input = modexp_input input0 in
      bindp
        (if int (length input) \<le> baseLen then Inr 0
         else if expLen > 32 then bindp (getData input (big_Uint64 baseLen) 32) (\<lambda>d. Inr (big_SetBytes d))
         else bindp (getData input (big_Uint64 baseLen) (big_Uint64 expLen)) (\<lambda>d. Inr (big_SetBytes d)))
        (\<lambda>expHead.
          let msb = (if bitlen (nat expHead) > 0 then int (bitlen (nat expHead)) - 1 else 0);
              adjExpLen = (if expLen > 32 then 8 * (expLen - 32) else 0) + msb;
              gas = BigMax modLen baseLen;
              gas = (if gas \<le> 64 then gas * gas
                     else if gas \<le> 1024 then gas * gas div 4 + (96 * gas - 3072)
                     else gas * gas div 16 + (480 * gas - 199680));
              gas = gas * BigMax adjExpLen 1 div uint ModExpQuadCoeffDiv
          in Inr (if bitlen (nat gas) > 64 then MaxUint64 else big_Uint64 gas)))))"

definition bigModExp_Run :: "bytes \<Rightarrow> panic + bytes" where
  "bigModExp_Run input0 =
    bindp (getData input0 0 32) (\<lambda>b. bindp (getData input0 32 32) (\<lambda>e. bindp (getData input0 64 32) (\<lambda>m.
      let baseLen = big_Uint64 (big_SetBytes b); expLen = big_Uint64 (big_SetBytes e);
          modLen = big_Uint64 (big_SetBytes m); input = modexp_input input0 in
      if baseLen = 0 \<and> modLen = 0 then Inr []
      else
        bindp (getData input 0 baseLen) (\<lambda>bs. bindp (getData input baseLen expLen) (\<lambda>es.
          bindp (getData input (baseLen + expLen) modLen) (\<lambda>ms.
            let base = big_SetBytes bs; ex = big_SetBytes es; md = big_SetBytes ms in
            if md = 0 then Inr (LeftPadBytes [] (sint modLen))
            else Inr (LeftPadBytes (big_Bytes (base ^ nat ex mod md)) (sint modLen))))))))"

section \<open>Elliptic curves\<close>

definition secp256k1N :: int where
  "secp256k1N = 0xfffffffffffffffffffffffffffffffebaaedce6af48a03bbfd25e8cd0364141"

definition secp256k1halfN :: int where
  "secp256k1halfN = secp256k1N div 2"

definition ValidateSignatureValues :: "byte \<Rightarrow> int \<Rightarrow> int \<Rightarrow> bool \<Rightarrow> bool" where
  "ValidateSignatureValues v r s homestead =
    (if r < 1 \<or> s < 1 then False
     else if homestead \<and> s > secp256k1halfN then False
     else r < secp256k1N \<and> s < secp256k1N \<and> (v = 0 \<or> v = 1))"

definition ecrecover_Run :: "natives \<Rightarrow> (bytes \<Rightarrow> bytes) \<Rightarrow> bytes \<Rightarrow> bytes" where
  "ecrecover_Run nf keccak input0 =
    (let input = RightPadBytes input0 128;
         r = big_SetBytes (take 32 (drop 64 input));
         s = big_SetBytes (take 32 (drop 96 input));
         v = input ! 63 - 27
     in if \<not> allZero (take 31 (drop 32 input)) \<or> \<not> ValidateSignatureValues v r s False then []
        else case Ecrecover nf (take 32 input) (take 64 (drop 64 input) @ [v]) of
          None \<Rightarrow> []
        | Some pubKey \<Rightarrow> LeftPadBytes (drop 7 (keccak (drop 1 pubKey))) 32)"

definition newCurvePoint :: "natives \<Rightarrow> bytes \<Rightarrow> vm_error + bytes" where
  "newCurvePoint nf blob = (case G1_Unmarshal nf blob of None \<Rightarrow> Inl ErrBadPoint | Some p \<Rightarrow> Inr p)"

definition newTwistPoint :: "natives \<Rightarrow> bytes \<Rightarrow> vm_error + bytes" where
  "newTwistPoint nf blob = (case G2_Unmarshal nf blob of None \<Rightarrow> Inl ErrBadPoint | Some p \<Rightarrow> Inr p)"

definition runBn256Add :: "natives \<Rightarrow> bytes \<Rightarrow> panic + (vm_error + bytes)" where
  "runBn256Add nf input =
    bindp (getData input 0 64) (\<lambda>a. bindp (getData input 64 64) (\<lambda>b.
      Inr (case newCurvePoint nf a of
             Inl e \<Rightarrow> Inl e
           | Inr x \<Rightarrow> (case newCurvePoint nf b of
                Inl e \<Rightarrow> Inl e
              | Inr y \<Rightarrow> Inr (G1_Marshal nf (G1_Add nf x y))))))"

definition runBn256ScalarMul :: "natives \<Rightarrow> bytes \<Rightarrow> panic + (vm_error + bytes)" where
  "runBn256ScalarMul nf input =
    bindp (getData input 0 64) (\<lambda>a. bindp (getData input 64 32) (\<lambda>b.
      Inr (case newCurvePoint nf a of
             Inl e \<Rightarrow> Inl e
           | Inr p \<Rightarrow> Inr (G1_Marshal nf (G1_ScalarMult nf p (big_SetBytes b))))))"

text \<open>The loop over the input, 192 bytes at a time.\<close>

fun pairing_points :: "natives \<Rightarrow> nat \<Rightarrow> bytes \<Rightarrow> bytes list \<Rightarrow> bytes list \<Rightarrow> vm_error + bytes list \<times> bytes list" where
  "pairing_points nf 0 input cs ts = Inr (cs, ts)"
| "pairing_points nf (Suc n) input cs ts =
    (case newCurvePoint nf (take 64 input) of
       Inl e \<Rightarrow> Inl e
     | Inr c \<Rightarrow>
         (case newTwistPoint nf (take 128 (drop 64 input)) of
            Inl e \<Rightarrow> Inl e
          | Inr t \<Rightarrow> pairing_points nf n (drop 192 input) (cs @ [c]) (ts @ [t])))"

definition true32Byte :: bytes where "true32Byte = replicate 31 0 @ [1]"

definition false32Byte :: bytes where "false32Byte = replicate 32 0"

definition runBn256Pairing :: "natives \<Rightarrow> bytes \<Rightarrow> vm_error + bytes" where
  "runBn256Pairing nf input =
    (if length input mod 192 > 0 then Inl ErrBadPairingInput
     else case pairing_points nf (length input div 192) input [] [] of
       Inl e \<Rightarrow> Inl e
     | Inr (cs, ts) \<Rightarrow> Inr (if PairingCheck nf cs ts then true32Byte else false32Byte))"

section \<open>Blake2\<close>

definition LittleEndian_Uint64 :: "bytes \<Rightarrow> u64" where
  "LittleEndian_Uint64 b = word_of_nat (be_nat (rev (take 8 b)))"

definition LittleEndian_PutUint64 :: "u64 \<Rightarrow> bytes" where
  "LittleEndian_PutUint64 w = map (\<lambda>i. ucast (drop_bit (8 * i) w)) [0, 1, 2, 3, 4, 5, 6, 7]"

definition blake2F_RequiredGas :: "bytes \<Rightarrow> u64" where
  "blake2F_RequiredGas input = (if length input \<noteq> 213 then 0 else word_of_nat (be_nat (take 4 input)))"

definition blake2F_Run :: "natives \<Rightarrow> bytes \<Rightarrow> vm_error + bytes" where
  "blake2F_Run nf input =
    (if length input \<noteq> 213 then Inl ErrBlake2FInvalidInputLength
     else if input ! 212 \<noteq> 0 \<and> input ! 212 \<noteq> 1 then Inl ErrBlake2FInvalidFinalFlag
     else
       let rounds = be_nat (take 4 input);
           final = (input ! 212 = 1);
           h = map (\<lambda>i. LittleEndian_Uint64 (drop (4 + i * 8) input)) [0..<8];
           m = map (\<lambda>i. LittleEndian_Uint64 (drop (68 + i * 8) input)) [0..<16];
           t = [LittleEndian_Uint64 (drop 196 input), LittleEndian_Uint64 (drop 204 input)]
       in Inr (concat (map LittleEndian_PutUint64 (blake2b_F nf h m t final rounds))))"

section \<open>Gas and execution\<close>

definition ecrecover_RequiredGas :: "bytes \<Rightarrow> u64" where
  "ecrecover_RequiredGas input = EcrecoverGas"

definition sha256hash_RequiredGas :: "bytes \<Rightarrow> u64" where
  "sha256hash_RequiredGas input = word_of_nat (length input + 31) div 32 * Sha256PerWordGas + Sha256BaseGas"

definition ripemd160hash_RequiredGas :: "bytes \<Rightarrow> u64" where
  "ripemd160hash_RequiredGas input = word_of_nat (length input + 31) div 32 * Ripemd160PerWordGas + Ripemd160BaseGas"

definition dataCopy_RequiredGas :: "bytes \<Rightarrow> u64" where
  "dataCopy_RequiredGas input = word_of_nat (length input + 31) div 32 * IdentityPerWordGas + IdentityBaseGas"

definition bn256AddByzantium_RequiredGas :: "bytes \<Rightarrow> u64" where
  "bn256AddByzantium_RequiredGas input = Bn256AddGasByzantium"

definition bn256AddIstanbul_RequiredGas :: "bytes \<Rightarrow> u64" where
  "bn256AddIstanbul_RequiredGas input = Bn256AddGasIstanbul"

definition bn256ScalarMulByzantium_RequiredGas :: "bytes \<Rightarrow> u64" where
  "bn256ScalarMulByzantium_RequiredGas input = Bn256ScalarMulGasByzantium"

definition bn256ScalarMulIstanbul_RequiredGas :: "bytes \<Rightarrow> u64" where
  "bn256ScalarMulIstanbul_RequiredGas input = Bn256ScalarMulGasIstanbul"

definition bn256PairingByzantium_RequiredGas :: "bytes \<Rightarrow> u64" where
  "bn256PairingByzantium_RequiredGas input =
    Bn256PairingBaseGasByzantium + word_of_nat (length input div 192) * Bn256PairingPerPointGasByzantium"

definition bn256PairingIstanbul_RequiredGas :: "bytes \<Rightarrow> u64" where
  "bn256PairingIstanbul_RequiredGas input =
    Bn256PairingBaseGasIstanbul + word_of_nat (length input div 192) * Bn256PairingPerPointGasIstanbul"

fun RequiredGas :: "PrecompiledContract \<Rightarrow> bytes \<Rightarrow> panic + u64" where
  "RequiredGas ecrecover input = Inr (ecrecover_RequiredGas input)"
| "RequiredGas sha256hash input = Inr (sha256hash_RequiredGas input)"
| "RequiredGas ripemd160hash input = Inr (ripemd160hash_RequiredGas input)"
| "RequiredGas dataCopy input = Inr (dataCopy_RequiredGas input)"
| "RequiredGas bigModExp input = bigModExp_RequiredGas input"
| "RequiredGas bn256AddByzantium input = Inr (bn256AddByzantium_RequiredGas input)"
| "RequiredGas bn256AddIstanbul input = Inr (bn256AddIstanbul_RequiredGas input)"
| "RequiredGas bn256ScalarMulByzantium input = Inr (bn256ScalarMulByzantium_RequiredGas input)"
| "RequiredGas bn256ScalarMulIstanbul input = Inr (bn256ScalarMulIstanbul_RequiredGas input)"
| "RequiredGas bn256PairingByzantium input = Inr (bn256PairingByzantium_RequiredGas input)"
| "RequiredGas bn256PairingIstanbul input = Inr (bn256PairingIstanbul_RequiredGas input)"
| "RequiredGas blake2F input = Inr (blake2F_RequiredGas input)"

text \<open>A result is a slice of its own, or the slice of the input itself (\<open>dataCopy\<close>).\<close>

datatype ret_slice = Fresh bytes | InputSlice

definition wrap_result :: "vm_error + bytes \<Rightarrow> ret_slice \<times> vm_error option" where
  "wrap_result r = (case r of Inl e \<Rightarrow> (Fresh [], Some e) | Inr b \<Rightarrow> (Fresh b, None))"

definition sha256hash_Run :: "natives \<Rightarrow> bytes \<Rightarrow> bytes" where
  "sha256hash_Run nf input = Sum256 nf input"

definition ripemd160hash_Run :: "natives \<Rightarrow> bytes \<Rightarrow> bytes" where
  "ripemd160hash_Run nf input = LeftPadBytes (ripemd160 nf input) 32"

definition dataCopy_Run :: "bytes \<Rightarrow> ret_slice" where
  "dataCopy_Run input = InputSlice"

fun precompile_Run :: "natives \<Rightarrow> (bytes \<Rightarrow> bytes) \<Rightarrow> PrecompiledContract \<Rightarrow> bytes \<Rightarrow> panic + ret_slice \<times> vm_error option" where
  "precompile_Run nf keccak ecrecover input = Inr (Fresh (ecrecover_Run nf keccak input), None)"
| "precompile_Run nf keccak sha256hash input = Inr (Fresh (sha256hash_Run nf input), None)"
| "precompile_Run nf keccak ripemd160hash input = Inr (Fresh (ripemd160hash_Run nf input), None)"
| "precompile_Run nf keccak dataCopy input = Inr (dataCopy_Run input, None)"
| "precompile_Run nf keccak bigModExp input = bindp (bigModExp_Run input) (\<lambda>b. Inr (Fresh b, None))"
| "precompile_Run nf keccak bn256AddByzantium input = bindp (runBn256Add nf input) (\<lambda>r. Inr (wrap_result r))"
| "precompile_Run nf keccak bn256AddIstanbul input = bindp (runBn256Add nf input) (\<lambda>r. Inr (wrap_result r))"
| "precompile_Run nf keccak bn256ScalarMulByzantium input = bindp (runBn256ScalarMul nf input) (\<lambda>r. Inr (wrap_result r))"
| "precompile_Run nf keccak bn256ScalarMulIstanbul input = bindp (runBn256ScalarMul nf input) (\<lambda>r. Inr (wrap_result r))"
| "precompile_Run nf keccak bn256PairingByzantium input = Inr (wrap_result (runBn256Pairing nf input))"
| "precompile_Run nf keccak bn256PairingIstanbul input = Inr (wrap_result (runBn256Pairing nf input))"
| "precompile_Run nf keccak blake2F input = Inr (wrap_result (blake2F_Run nf input))"

definition RunPrecompiledContract ::
  "natives \<Rightarrow> (bytes \<Rightarrow> bytes) \<Rightarrow> PrecompiledContract \<Rightarrow> bytes \<Rightarrow> Contract \<Rightarrow> panic + ret_slice \<times> vm_error option \<times> Contract" where
  "RunPrecompiledContract nf keccak p input contract =
    bindp (RequiredGas p input) (\<lambda>gas.
      case UseGas gas contract of
        (True, c) \<Rightarrow> bindp (precompile_Run nf keccak p input) (\<lambda>(ret, err). Inr (ret, err, c))
      | (False, c) \<Rightarrow> Inr (Fresh [], Some ErrOutOfGas, c))"

end
