(* ===== verification/EvmCalls.thy ===== *)
theory EvmCalls
  imports EvmPrecompiles
begin

text \<open>
  Calls and contract creation (src/core/vm/evm.go) with the transfer of value (src/core/evm.go) and the
  addresses of new contracts (src/crypto/crypto.go). The functions get the interpreter's \<open>Run\<close> as an argument,
  since it calls them in turn. They return the slice of the result, the gas left, the error and the machine.
\<close>

type_synonym 's runner = "Contract \<Rightarrow> bytes \<Rightarrow> bool \<Rightarrow> 's vm \<Rightarrow> panic + bytes \<times> vm_error option \<times> Contract \<times> 's vm"

type_synonym 's call_result = "panic + ret_slice \<times> u64 \<times> vm_error option \<times> 's vm"

section \<open>Transfer and addresses\<close>

definition CanTransfer :: "'s vm_StateDB \<Rightarrow> address \<Rightarrow> int \<Rightarrow> 's \<Rightarrow> bool \<times> 's" where
  "CanTransfer db addr amount s = (case db_GetBalance db addr s of (b, s1) \<Rightarrow> (b \<ge> amount, s1))"

definition Transfer :: "'s vm_StateDB \<Rightarrow> address \<Rightarrow> address \<Rightarrow> int \<Rightarrow> 's \<Rightarrow> 's" where
  "Transfer db sender recipient amount s = db_AddBalance db recipient amount (db_SubBalance db sender amount s)"

definition CreateAddress :: "(bytes \<Rightarrow> bytes) \<Rightarrow> address \<Rightarrow> u64 \<Rightarrow> address" where
  "CreateAddress keccak b nonce =
    (let data = (case EncodeToBytes (SliceVal False [InterfaceVal (Some (ByteArrayVal b)), InterfaceVal (Some (UintVal nonce))]) of
                   Some (Inr d) \<Rightarrow> d | _ \<Rightarrow> [])
     in BytesToAddress (drop 7 (keccak data)))"

definition CreateAddress2 :: "(bytes \<Rightarrow> bytes) \<Rightarrow> address \<Rightarrow> hash \<Rightarrow> bytes \<Rightarrow> address" where
  "CreateAddress2 keccak b salt inithash = BytesToAddress (drop 7 (keccak ([0xff] @ b @ salt @ inithash)))"

section \<open>Running code\<close>

definition run ::
  "'s EVM \<Rightarrow> 's runner \<Rightarrow> Contract \<Rightarrow> bytes \<Rightarrow> bool \<Rightarrow> 's vm \<Rightarrow> panic + ret_slice \<times> vm_error option \<times> Contract \<times> 's vm" where
  "run env Run contract input ro vm =
    (case Option.bind (CodeAddr contract) (precompiles (chainRules env)) of
       Some p \<Rightarrow>
         bindp (RunPrecompiledContract (evm_natives env) (evm_keccak env) p input contract)
           (\<lambda>(ret, err, c). Inr (ret, err, c, vm))
     | None \<Rightarrow> bindp (Run contract input ro vm) (\<lambda>(ret, err, c, vm1). Inr (Fresh ret, err, c, vm1)))"

text \<open>The end of every call: an error undoes all changes and, unless it is a revert, takes the gas.\<close>

definition revert_on_error ::
  "'s EVM \<Rightarrow> int \<Rightarrow> ret_slice \<times> vm_error option \<times> Contract \<times> 's vm \<Rightarrow> 's call_result" where
  "revert_on_error env snapshot r =
    (case r of (ret, err, contract, vm) \<Rightarrow>
       case err of
         None \<Rightarrow> Inr (ret, Gas contract, None, vm)
       | Some e \<Rightarrow>
           (case db_RevertToSnapshot (evm_db env) snapshot (vm_db vm) of
              None \<Rightarrow> Inl PanicRevision
            | Some s \<Rightarrow>
                let contract1 = (if e \<noteq> ErrExecutionReverted then snd (UseGas (Gas contract) contract) else contract)
                in Inr (ret, Gas contract1, Some e, vm\<lparr>vm_db := s\<rparr>)))"

text \<open>\<open>contract.SetCallCode(&addr, evm.StateDB.GetCodeHash(addr), evm.StateDB.GetCode(addr))\<close>\<close>

definition load_code :: "'s EVM \<Rightarrow> address \<Rightarrow> Contract \<Rightarrow> 's vm \<Rightarrow> Contract \<times> 's vm" where
  "load_code env addr contract vm =
    (case db_GetCodeHash (evm_db env) addr (vm_db vm) of (h, s1) \<Rightarrow>
       case db_GetCode (evm_db env) addr s1 of (code, s2) \<Rightarrow>
         (SetCallCode (Some addr) h (nil_slice code) contract, vm\<lparr>vm_db := s2\<rparr>))"

section \<open>Calls\<close>

definition Call :: "'s EVM \<Rightarrow> 's runner \<Rightarrow> ContractRef \<Rightarrow> address \<Rightarrow> bytes \<Rightarrow> u64 \<Rightarrow> int \<Rightarrow> 's vm \<Rightarrow> 's call_result" where
  "Call env Run caller addr input gas val vm =
    (if NoRecursion (vmConfig env) \<and> vm_depth vm > 0 then Inr (Fresh [], gas, None, vm)
     else if vm_depth vm > CallCreateDepth then Inr (Fresh [], gas, Some ErrDepth, vm)
     else case CanTransfer (evm_db env) (ref_Address caller) val (vm_db vm) of (can, s1) \<Rightarrow>
       if \<not> can then Inr (Fresh [], gas, Some ErrInsufficientBalance, vm\<lparr>vm_db := s1\<rparr>)
       else case db_Snapshot (evm_db env) s1 of (snapshot, s2) \<Rightarrow>
         case db_Exist (evm_db env) addr s2 of (ex, s3) \<Rightarrow>
           if \<not> ex \<and> precompiles (chainRules env) addr = None \<and> IsEIP158 (chainRules env) \<and> val = 0
           then Inr (Fresh [], gas, None, vm\<lparr>vm_db := s3\<rparr>)
           else
             let s4 = (if ex then s3 else db_CreateAccount (evm_db env) addr s3);
                 s5 = Transfer (evm_db env) (ref_Address caller) addr val s4;
                 (contract, vm1) = load_code env addr (NewContract caller addr val gas) (vm\<lparr>vm_db := s5\<rparr>)
             in bindp (run env Run contract input False vm1) (revert_on_error env snapshot))"

definition CallCode :: "'s EVM \<Rightarrow> 's runner \<Rightarrow> ContractRef \<Rightarrow> address \<Rightarrow> bytes \<Rightarrow> u64 \<Rightarrow> int \<Rightarrow> 's vm \<Rightarrow> 's call_result" where
  "CallCode env Run caller addr input gas val vm =
    (if NoRecursion (vmConfig env) \<and> vm_depth vm > 0 then Inr (Fresh [], gas, None, vm)
     else if vm_depth vm > CallCreateDepth then Inr (Fresh [], gas, Some ErrDepth, vm)
     else case CanTransfer (evm_db env) (ref_Address caller) val (vm_db vm) of (can, s1) \<Rightarrow>
       if \<not> can then Inr (Fresh [], gas, Some ErrInsufficientBalance, vm\<lparr>vm_db := s1\<rparr>)
       else case db_Snapshot (evm_db env) s1 of (snapshot, s2) \<Rightarrow>
         let (contract, vm1) = load_code env addr (NewContract caller (ref_Address caller) val gas) (vm\<lparr>vm_db := s2\<rparr>)
         in bindp (run env Run contract input False vm1) (revert_on_error env snapshot))"

definition DelegateCall :: "'s EVM \<Rightarrow> 's runner \<Rightarrow> ContractRef \<Rightarrow> address \<Rightarrow> bytes \<Rightarrow> u64 \<Rightarrow> 's vm \<Rightarrow> 's call_result" where
  "DelegateCall env Run caller addr input gas vm =
    (if NoRecursion (vmConfig env) \<and> vm_depth vm > 0 then Inr (Fresh [], gas, None, vm)
     else if vm_depth vm > CallCreateDepth then Inr (Fresh [], gas, Some ErrDepth, vm)
     else case db_Snapshot (evm_db env) (vm_db vm) of (snapshot, s1) \<Rightarrow>
       bindp (AsDelegate caller (NewContract caller (ref_Address caller) 0 gas)) (\<lambda>c.
         let (contract, vm1) = load_code env addr c (vm\<lparr>vm_db := s1\<rparr>)
         in bindp (run env Run contract input False vm1) (revert_on_error env snapshot)))"

definition StaticCall :: "'s EVM \<Rightarrow> 's runner \<Rightarrow> ContractRef \<Rightarrow> address \<Rightarrow> bytes \<Rightarrow> u64 \<Rightarrow> 's vm \<Rightarrow> 's call_result" where
  "StaticCall env Run caller addr input gas vm =
    (if NoRecursion (vmConfig env) \<and> vm_depth vm > 0 then Inr (Fresh [], gas, None, vm)
     else if vm_depth vm > CallCreateDepth then Inr (Fresh [], gas, Some ErrDepth, vm)
     else case db_Snapshot (evm_db env) (vm_db vm) of (snapshot, s1) \<Rightarrow>
       let (contract, vm1) = load_code env addr (NewContract caller addr 0 gas) (vm\<lparr>vm_db := s1\<rparr>);
           vm2 = vm1\<lparr>vm_db := db_AddBalance (evm_db env) addr 0 (vm_db vm1)\<rparr>
       in bindp (run env Run contract input True vm2) (revert_on_error env snapshot))"

section \<open>Contract creation\<close>

text \<open>
  The part of \<open>create\<close> after the new code has run: storing its result as the code of the account, with the
  limit on its size and the gas for it.
\<close>

definition store_code ::
  "'s EVM \<Rightarrow> int \<Rightarrow> address \<Rightarrow> bytes \<times> vm_error option \<times> Contract \<times> 's vm \<Rightarrow>
   panic + bytes \<times> address \<times> u64 \<times> vm_error option \<times> 's vm" where
  "store_code env snapshot address r =
    (case r of (ret, err0, contract0, vm0) \<Rightarrow>
       let maxCodeSizeExceeded = (IsEIP158 (chainRules env) \<and> length ret > MaxCodeSize);
           (err, contract, vm) =
             (if err0 = None \<and> \<not> maxCodeSizeExceeded then
                case UseGas (word_of_nat (length ret) * CreateDataGas) contract0 of
                  (True, c) \<Rightarrow> (None, c, vm0\<lparr>vm_db := db_SetCode (evm_db env) address ret (vm_db vm0)\<rparr>)
                | (False, c) \<Rightarrow> (Some ErrCodeStoreOutOfGas, c, vm0)
              else (err0, contract0, vm0));
           err1 = (if maxCodeSizeExceeded \<and> err = None then Some ErrMaxCodeSizeExceeded else err)
       in if maxCodeSizeExceeded \<or>
             (err \<noteq> None \<and> (IsHomestead (chainRules env) \<or> err \<noteq> Some ErrCodeStoreOutOfGas)) then
            case db_RevertToSnapshot (evm_db env) snapshot (vm_db vm) of
              None \<Rightarrow> Inl PanicRevision
            | Some s \<Rightarrow>
                let contract1 = (if err \<noteq> Some ErrExecutionReverted then snd (UseGas (Gas contract) contract) else contract)
                in Inr (ret, address, Gas contract1, err1, vm\<lparr>vm_db := s\<rparr>)
          else Inr (ret, address, Gas contract, err1, vm))"

definition zero_address :: address where
  "zero_address = replicate AddressLength 0"

text \<open>The initialisation code runs with a nil input, so a result that is the input slice is empty.\<close>

definition create ::
  "'s EVM \<Rightarrow> 's runner \<Rightarrow> ContractRef \<Rightarrow> bytes \<Rightarrow> hash \<Rightarrow> u64 \<Rightarrow> int \<Rightarrow> address \<Rightarrow> 's vm \<Rightarrow>
   panic + bytes \<times> address \<times> u64 \<times> vm_error option \<times> 's vm" where
  "create env Run caller code codeHash gas val address vm =
    (if vm_depth vm > CallCreateDepth then Inr ([], zero_address, gas, Some ErrDepth, vm)
     else case CanTransfer (evm_db env) (ref_Address caller) val (vm_db vm) of (can, s1) \<Rightarrow>
       if \<not> can then Inr ([], zero_address, gas, Some ErrInsufficientBalance, vm\<lparr>vm_db := s1\<rparr>)
       else case db_GetNonce (evm_db env) (ref_Address caller) s1 of (nonce, s2) \<Rightarrow>
         let s3 = db_SetNonce (evm_db env) (ref_Address caller) (nonce + 1) s2 in
         case db_GetCodeHash (evm_db env) address s3 of (contractHash, s4) \<Rightarrow>
           case db_GetNonce (evm_db env) address s4 of (n, s5) \<Rightarrow>
             if n \<noteq> 0 \<or> (contractHash \<noteq> zero_hash \<and> contractHash \<noteq> BytesToHash (evm_keccak env []))
             then Inr ([], zero_address, 0, Some ErrContractAddressCollision, vm\<lparr>vm_db := s5\<rparr>)
             else case db_Snapshot (evm_db env) s5 of (snapshot, s6) \<Rightarrow>
               let s7 = db_CreateAccount (evm_db env) address s6;
                   s8 = (if IsEIP158 (chainRules env) then db_SetNonce (evm_db env) address 1 s7 else s7);
                   s9 = Transfer (evm_db env) (ref_Address caller) address val s8;
                   contract = SetCallCode (Some address) codeHash code (NewContract caller address val gas);
                   vm1 = vm\<lparr>vm_db := s9\<rparr>
               in if NoRecursion (vmConfig env) \<and> vm_depth vm > 0 then Inr ([], address, gas, None, vm1)
                  else bindp (run env Run contract [] False vm1) (\<lambda>(ret, err, c, vm2).
                    store_code env snapshot address ((case ret of Fresh b \<Rightarrow> b | InputSlice \<Rightarrow> []), err, c, vm2)))"

definition Create ::
  "'s EVM \<Rightarrow> 's runner \<Rightarrow> ContractRef \<Rightarrow> bytes \<Rightarrow> u64 \<Rightarrow> int \<Rightarrow> 's vm \<Rightarrow>
   panic + bytes \<times> address \<times> u64 \<times> vm_error option \<times> 's vm" where
  "Create env Run caller code gas val vm =
    (case db_GetNonce (evm_db env) (ref_Address caller) (vm_db vm) of (nonce, s) \<Rightarrow>
       create env Run caller code zero_hash gas val (CreateAddress (evm_keccak env) (ref_Address caller) nonce) (vm\<lparr>vm_db := s\<rparr>))"

definition Create2 ::
  "'s EVM \<Rightarrow> 's runner \<Rightarrow> ContractRef \<Rightarrow> bytes \<Rightarrow> u64 \<Rightarrow> int \<Rightarrow> int \<Rightarrow> 's vm \<Rightarrow>
   panic + bytes \<times> address \<times> u64 \<times> vm_error option \<times> 's vm" where
  "Create2 env Run caller code gas endowment salt vm =
    (let h = BytesToHash (evm_keccak env code)
     in create env Run caller code h gas endowment
          (CreateAddress2 (evm_keccak env) (ref_Address caller) (BigToHash salt) h) vm)"

end
