(* ===== verification/EvmGas.thy ===== *)
theory EvmGas
  imports EvmCalls
begin

text \<open>
  Dynamic gas (src/core/vm/gas_table.go, gas.go). A gas function may update the last memory cost, the gas
  reserved for a call (\<open>callGasTemp\<close>) and, for SSTORE and SELFDESTRUCT, the refund counter.
\<close>

section \<open>Frames\<close>

text \<open>\<open>callCtx\<close> with the program counter; the top of the stack is the first element.\<close>

record frame =
  fr_pc :: u64
  fr_mem :: Memory
  fr_stack :: "int list"
  fr_contract :: Contract

type_synonym 's gas_result = "panic + (vm_error + u64) \<times> frame \<times> 's vm"

text \<open>\<open>stack.Back(n)\<close>\<close>

definition stack_Back :: "nat \<Rightarrow> frame \<Rightarrow> (int \<Rightarrow> panic + 'a) \<Rightarrow> panic + 'a" where
  "stack_Back n fr k = bindp (need (n + 1) (fr_stack fr) (fr_stack fr ! n)) k"

definition binde :: "vm_error + 'a \<Rightarrow> ('a \<Rightarrow> vm_error + 'b) \<Rightarrow> vm_error + 'b" where
  "binde x f = (case x of Inl e \<Rightarrow> Inl e | Inr a \<Rightarrow> f a)"

lemma binde_simps [simp]: "binde (Inl e) f = Inl e" "binde (Inr a) f = f a"
  by (simp_all add: binde_def)

definition add_gas :: "u64 \<Rightarrow> u64 \<Rightarrow> vm_error + u64" where
  "add_gas a b = (case SafeAdd a b of (g, overflow) \<Rightarrow> if overflow then Inl ErrGasUintOverflow else Inr g)"

definition mul_gas :: "u64 \<Rightarrow> u64 \<Rightarrow> vm_error + u64" where
  "mul_gas a b = (case SafeMul a b of (g, overflow) \<Rightarrow> if overflow then Inl ErrGasUintOverflow else Inr g)"

definition uint_gas :: "int \<Rightarrow> vm_error + u64" where
  "uint_gas v = (case bigUint64 v of (g, overflow) \<Rightarrow> if overflow then Inl ErrGasUintOverflow else Inr g)"

definition mem_gas :: "u64 \<Rightarrow> frame \<Rightarrow> (vm_error + u64) \<times> frame" where
  "mem_gas ms fr = (case memoryGasCost ms (fr_mem fr) of (r, m) \<Rightarrow> (r, fr\<lparr>fr_mem := m\<rparr>))"

section \<open>Memory, hashing and logs\<close>

definition pureMemoryGascost :: "u64 \<Rightarrow> frame \<Rightarrow> 's vm \<Rightarrow> 's gas_result" where
  "pureMemoryGascost ms fr vm = (case mem_gas ms fr of (r, fr1) \<Rightarrow> Inr (r, fr1, vm))"

definition memoryCopierGas :: "nat \<Rightarrow> u64 \<Rightarrow> frame \<Rightarrow> 's vm \<Rightarrow> 's gas_result" where
  "memoryCopierGas stackpos ms fr vm =
    (case mem_gas ms fr of
       (Inl e, fr1) \<Rightarrow> Inr (Inl e, fr1, vm)
     | (Inr gas, fr1) \<Rightarrow> stack_Back stackpos fr1 (\<lambda>l.
         Inr (binde (uint_gas l) (\<lambda>words. binde (mul_gas (toWordSize words) CopyGas) (\<lambda>w. add_gas gas w)), fr1, vm)))"

definition gasSha3 :: "u64 \<Rightarrow> frame \<Rightarrow> 's vm \<Rightarrow> 's gas_result" where
  "gasSha3 ms fr vm =
    (case mem_gas ms fr of
       (Inl e, fr1) \<Rightarrow> Inr (Inl e, fr1, vm)
     | (Inr gas, fr1) \<Rightarrow> stack_Back 1 fr1 (\<lambda>l.
         Inr (binde (uint_gas l) (\<lambda>words. binde (mul_gas (toWordSize words) Sha3WordGas) (\<lambda>w. add_gas gas w)), fr1, vm)))"

definition gasCreate2 :: "u64 \<Rightarrow> frame \<Rightarrow> 's vm \<Rightarrow> 's gas_result" where
  "gasCreate2 ms fr vm =
    (case mem_gas ms fr of
       (Inl e, fr1) \<Rightarrow> Inr (Inl e, fr1, vm)
     | (Inr gas, fr1) \<Rightarrow> stack_Back 2 fr1 (\<lambda>l.
         Inr (binde (uint_gas l) (\<lambda>words. binde (mul_gas (toWordSize words) Sha3WordGas) (\<lambda>w. add_gas gas w)), fr1, vm)))"

definition makeGasLog :: "u64 \<Rightarrow> u64 \<Rightarrow> frame \<Rightarrow> 's vm \<Rightarrow> 's gas_result" where
  "makeGasLog n ms fr vm =
    stack_Back 1 fr (\<lambda>l.
      case uint_gas l of
        Inl e \<Rightarrow> Inr (Inl e, fr, vm)
      | Inr requestedSize \<Rightarrow>
          (case mem_gas ms fr of (r, fr1) \<Rightarrow>
             Inr (binde r (\<lambda>gas. binde (add_gas gas LogGas) (\<lambda>gas. binde (add_gas gas (n * LogTopicGas)) (\<lambda>gas.
                  binde (mul_gas requestedSize LogDataGas) (\<lambda>g. add_gas gas g)))), fr1, vm)))"

section \<open>Storage\<close>

definition refund_panic :: "'s option \<Rightarrow> panic + 's" where
  "refund_panic r = (case r of None \<Rightarrow> Inl PanicRefund | Some s \<Rightarrow> Inr s)"

text \<open>
  The net metering shared by EIP-1283 (in \<open>gasSStore\<close>) and EIP-2200 (\<open>gasSStoreEIP2200\<close>), with the gas and
  refund constants of each.
\<close>

record sstore_costs =
  sc_noop :: u64
  sc_init :: u64
  sc_clean :: u64
  sc_dirty :: u64
  sc_clearRefund :: u64
  sc_resetClearRefund :: u64
  sc_resetRefund :: u64

definition net_sstore ::
  "'s vm_StateDB \<Rightarrow> sstore_costs \<Rightarrow> address \<Rightarrow> hash \<Rightarrow> hash \<Rightarrow> hash \<Rightarrow> 's \<Rightarrow> panic + u64 \<times> 's" where
  "net_sstore db k addr key current val s =
    (if current = val then Inr (sc_noop k, s)
     else case db_GetCommittedState db addr key s of (original, s1) \<Rightarrow>
       if original = current then
         if original = zero_hash then Inr (sc_init k, s1)
         else
           let s2 = (if val = zero_hash then db_AddRefund db (sc_clearRefund k) s1 else s1)
           in Inr (sc_clean k, s2)
       else
         bindp
           (if original \<noteq> zero_hash then
              if current = zero_hash then refund_panic (db_SubRefund db (sc_clearRefund k) s1)
              else if val = zero_hash then Inr (db_AddRefund db (sc_clearRefund k) s1)
              else Inr s1
            else Inr s1)
           (\<lambda>s2.
             let s3 =
               (if original = val then
                  if original = zero_hash then db_AddRefund db (sc_resetClearRefund k) s2
                  else db_AddRefund db (sc_resetRefund k) s2
                else s2)
             in Inr (sc_dirty k, s3)))"

definition costs1283 :: sstore_costs where
  "costs1283 = \<lparr>sc_noop = NetSstoreNoopGas, sc_init = NetSstoreInitGas, sc_clean = NetSstoreCleanGas,
     sc_dirty = NetSstoreDirtyGas, sc_clearRefund = NetSstoreClearRefund,
     sc_resetClearRefund = NetSstoreResetClearRefund, sc_resetRefund = NetSstoreResetRefund\<rparr>"

definition costs2200 :: sstore_costs where
  "costs2200 = \<lparr>sc_noop = SstoreNoopGasEIP2200, sc_init = SstoreInitGasEIP2200, sc_clean = SstoreCleanGasEIP2200,
     sc_dirty = SstoreDirtyGasEIP2200, sc_clearRefund = SstoreClearRefundEIP2200,
     sc_resetClearRefund = SstoreInitRefundEIP2200, sc_resetRefund = SstoreCleanRefundEIP2200\<rparr>"

definition gasSStore :: "'s EVM \<Rightarrow> frame \<Rightarrow> 's vm \<Rightarrow> 's gas_result" where
  "gasSStore env fr vm =
    stack_Back 1 fr (\<lambda>y. stack_Back 0 fr (\<lambda>x.
      case db_GetState (evm_db env) (c_self (fr_contract fr)) (BigToHash x) (vm_db vm) of (current, s1) \<Rightarrow>
        if IsPetersburg (chainRules env) \<or> \<not> IsConstantinople (chainRules env) then
          if current = zero_hash \<and> y \<noteq> 0 then Inr (Inr SstoreSetGas, fr, vm\<lparr>vm_db := s1\<rparr>)
          else if current \<noteq> zero_hash \<and> y = 0
          then Inr (Inr SstoreClearGas, fr, vm\<lparr>vm_db := db_AddRefund (evm_db env) SstoreRefundGas s1\<rparr>)
          else Inr (Inr SstoreResetGas, fr, vm\<lparr>vm_db := s1\<rparr>)
        else
          bindp (net_sstore (evm_db env) costs1283 (c_self (fr_contract fr)) (BigToHash x) current (BigToHash y) s1)
            (\<lambda>(gas, s2). Inr (Inr gas, fr, vm\<lparr>vm_db := s2\<rparr>))))"

definition gasSStoreEIP2200 :: "'s EVM \<Rightarrow> frame \<Rightarrow> 's vm \<Rightarrow> 's gas_result" where
  "gasSStoreEIP2200 env fr vm =
    (if Gas (fr_contract fr) \<le> SstoreSentryGasEIP2200 then Inr (Inl ErrSentryGas, fr, vm)
     else stack_Back 1 fr (\<lambda>y. stack_Back 0 fr (\<lambda>x.
       case db_GetState (evm_db env) (c_self (fr_contract fr)) (BigToHash x) (vm_db vm) of (current, s1) \<Rightarrow>
         bindp (net_sstore (evm_db env) costs2200 (c_self (fr_contract fr)) (BigToHash x) current (BigToHash y) s1)
           (\<lambda>(gas, s2). Inr (Inr gas, fr, vm\<lparr>vm_db := s2\<rparr>)))))"

section \<open>Exponentiation\<close>

definition gasExp :: "u64 \<Rightarrow> frame \<Rightarrow> 's vm \<Rightarrow> 's gas_result" where
  "gasExp perByte fr vm =
    stack_Back 1 fr (\<lambda>e.
      let expByteLen = word_of_nat ((bitlen (nat \<bar>e\<bar>) + 7) div 8)
      in Inr (add_gas (expByteLen * perByte) ExpGas, fr, vm))"

definition gasExpFrontier :: "frame \<Rightarrow> 's vm \<Rightarrow> 's gas_result" where
  "gasExpFrontier fr vm = gasExp ExpByteFrontier fr vm"

definition gasExpEIP158 :: "frame \<Rightarrow> 's vm \<Rightarrow> 's gas_result" where
  "gasExpEIP158 fr vm = gasExp ExpByteEIP158 fr vm"

section \<open>Calls\<close>

definition callGas :: "bool \<Rightarrow> u64 \<Rightarrow> u64 \<Rightarrow> int \<Rightarrow> vm_error + u64" where
  "callGas isEip150 availableGas base callCost =
    (let availableGas = availableGas - base; gas = availableGas - availableGas div 64 in
     if isEip150 \<and> (\<not> big_IsUint64 callCost \<or> gas < big_Uint64 callCost) then Inr gas
     else if \<not> big_IsUint64 callCost then Inl ErrGasUintOverflow
     else Inr (big_Uint64 callCost))"

text \<open>Reserving the gas of the callee; \<open>gas\<close> is the cost apart from it. On an error \<open>callGasTemp\<close> is set to zero.\<close>

definition reserve_gas :: "'s EVM \<Rightarrow> u64 \<Rightarrow> frame \<Rightarrow> 's vm \<Rightarrow> 's gas_result" where
  "reserve_gas env gas fr vm =
    stack_Back 0 fr (\<lambda>callCost.
      case callGas (IsEIP150 (chainRules env)) (Gas (fr_contract fr)) gas callCost of
        Inl e \<Rightarrow> Inr (Inl e, fr, vm\<lparr>callGasTemp := 0\<rparr>)
      | Inr g \<Rightarrow> Inr (add_gas gas g, fr, vm\<lparr>callGasTemp := g\<rparr>))"

definition gasCall :: "'s EVM \<Rightarrow> u64 \<Rightarrow> frame \<Rightarrow> 's vm \<Rightarrow> 's gas_result" where
  "gasCall env ms fr vm =
    stack_Back 2 fr (\<lambda>v. stack_Back 1 fr (\<lambda>a.
      let transfersValue = (v \<noteq> 0);
          address = BigToAddress a;
          (new, s1) =
            (if IsEIP158 (chainRules env) then
               if transfersValue then db_Empty (evm_db env) address (vm_db vm) else (False, vm_db vm)
             else (case db_Exist (evm_db env) address (vm_db vm) of (ex, s) \<Rightarrow> (\<not> ex, s)));
          gas = (if new then CallNewAccountGas else 0) + (if transfersValue then CallValueTransferGas else 0);
          vm1 = vm\<lparr>vm_db := s1\<rparr>
      in case mem_gas ms fr of
           (Inl e, fr1) \<Rightarrow> Inr (Inl e, fr1, vm1)
         | (Inr memoryGas, fr1) \<Rightarrow>
             (case add_gas gas memoryGas of
                Inl e \<Rightarrow> Inr (Inl e, fr1, vm1)
              | Inr gas1 \<Rightarrow> reserve_gas env gas1 fr1 vm1)))"

definition gasCallCode :: "'s EVM \<Rightarrow> u64 \<Rightarrow> frame \<Rightarrow> 's vm \<Rightarrow> 's gas_result" where
  "gasCallCode env ms fr vm =
    (case mem_gas ms fr of
       (Inl e, fr1) \<Rightarrow> Inr (Inl e, fr1, vm)
     | (Inr memoryGas, fr1) \<Rightarrow> stack_Back 2 fr1 (\<lambda>v.
         case add_gas (if v \<noteq> 0 then CallValueTransferGas else 0) memoryGas of
           Inl e \<Rightarrow> Inr (Inl e, fr1, vm)
         | Inr gas \<Rightarrow> reserve_gas env gas fr1 vm))"

definition gasDelegateCall :: "'s EVM \<Rightarrow> u64 \<Rightarrow> frame \<Rightarrow> 's vm \<Rightarrow> 's gas_result" where
  "gasDelegateCall env ms fr vm =
    (case mem_gas ms fr of
       (Inl e, fr1) \<Rightarrow> Inr (Inl e, fr1, vm)
     | (Inr gas, fr1) \<Rightarrow> reserve_gas env gas fr1 vm)"

definition gasStaticCall :: "'s EVM \<Rightarrow> u64 \<Rightarrow> frame \<Rightarrow> 's vm \<Rightarrow> 's gas_result" where
  "gasStaticCall env ms fr vm =
    (case mem_gas ms fr of
       (Inl e, fr1) \<Rightarrow> Inr (Inl e, fr1, vm)
     | (Inr gas, fr1) \<Rightarrow> reserve_gas env gas fr1 vm)"

section \<open>Self-destruction\<close>

definition gasSelfdestruct :: "'s EVM \<Rightarrow> frame \<Rightarrow> 's vm \<Rightarrow> 's gas_result" where
  "gasSelfdestruct env fr vm =
    stack_Back 0 fr (\<lambda>x.
      let self = c_self (fr_contract fr);
          address = BigToAddress x;
          (gas, s1) =
            (if IsEIP150 (chainRules env) then
               if IsEIP158 (chainRules env) then
                 (case db_Empty (evm_db env) address (vm_db vm) of
                    (False, s) \<Rightarrow> (SelfdestructGasEIP150, s)
                  | (True, s) \<Rightarrow>
                      (case db_GetBalance (evm_db env) self s of (b, s') \<Rightarrow>
                         (SelfdestructGasEIP150 + (if b \<noteq> 0 then CreateBySelfdestructGas else 0), s')))
               else
                 (case db_Exist (evm_db env) address (vm_db vm) of (ex, s) \<Rightarrow>
                    (SelfdestructGasEIP150 + (if \<not> ex then CreateBySelfdestructGas else 0), s))
             else (0, vm_db vm));
          (dead, s2) = db_HasSuicided (evm_db env) self s1;
          s3 = (if dead then s2 else db_AddRefund (evm_db env) SelfdestructRefundGas s2)
      in Inr (Inr gas, fr, vm\<lparr>vm_db := s3\<rparr>))"

section \<open>Dispatch\<close>

fun dynamic_gas :: "gasFunc \<Rightarrow> 's EVM \<Rightarrow> u64 \<Rightarrow> frame \<Rightarrow> 's vm \<Rightarrow> 's gas_result" where
  "dynamic_gas PureMemoryGascost env ms fr vm = pureMemoryGascost ms fr vm"
| "dynamic_gas (MemoryCopierGas n) env ms fr vm = memoryCopierGas n ms fr vm"
| "dynamic_gas GasSStore env ms fr vm = gasSStore env fr vm"
| "dynamic_gas GasSStoreEIP2200 env ms fr vm = gasSStoreEIP2200 env fr vm"
| "dynamic_gas (MakeGasLog n) env ms fr vm = makeGasLog n ms fr vm"
| "dynamic_gas GasSha3 env ms fr vm = gasSha3 ms fr vm"
| "dynamic_gas GasCreate2 env ms fr vm = gasCreate2 ms fr vm"
| "dynamic_gas GasExpFrontier env ms fr vm = gasExpFrontier fr vm"
| "dynamic_gas GasExpEIP158 env ms fr vm = gasExpEIP158 fr vm"
| "dynamic_gas GasCall env ms fr vm = gasCall env ms fr vm"
| "dynamic_gas GasCallCode env ms fr vm = gasCallCode env ms fr vm"
| "dynamic_gas GasDelegateCall env ms fr vm = gasDelegateCall env ms fr vm"
| "dynamic_gas GasStaticCall env ms fr vm = gasStaticCall env ms fr vm"
| "dynamic_gas GasSelfdestruct env ms fr vm = gasSelfdestruct env fr vm"

end
