(* ===== verification/EvmInstr.thy ===== *)
theory EvmInstr
  imports EvmGas
begin

text \<open>
  The instructions (src/core/vm/instructions.go, eips.go). Each takes the environment, the interpreter (for
  calls), the frame and the machine, and returns the result slice, the error, the new frame and the new
  machine. A stack that is too short panics; the interpreter checks its length before.
\<close>

type_synonym 's instr_result = "panic + mem_slice \<times> vm_error option \<times> frame \<times> 's vm"

type_synonym 's instr = "'s EVM \<Rightarrow> 's runner \<Rightarrow> frame \<Rightarrow> 's vm \<Rightarrow> 's instr_result"

definition finish :: "frame \<Rightarrow> 's vm \<Rightarrow> 's instr_result" where
  "finish fr vm = Inr (Bytes [], None, fr, vm)"

definition push :: "int \<Rightarrow> frame \<Rightarrow> 's vm \<Rightarrow> 's instr_result" where
  "push x fr vm = finish (fr\<lparr>fr_stack := x # fr_stack fr\<rparr>) vm"

section \<open>Arithmetic\<close>

definition unop :: "(int \<Rightarrow> int) \<Rightarrow> 's instr" where
  "unop f env Run fr vm =
    (case fr_stack fr of
       x # st \<Rightarrow> finish (fr\<lparr>fr_stack := f x # st\<rparr>) vm
     | _ \<Rightarrow> Inl PanicBounds)"

definition binop :: "(int \<Rightarrow> int \<Rightarrow> int) \<Rightarrow> 's instr" where
  "binop f env Run fr vm =
    (case fr_stack fr of
       x # y # st \<Rightarrow> finish (fr\<lparr>fr_stack := f x y # st\<rparr>) vm
     | _ \<Rightarrow> Inl PanicBounds)"

definition ternop :: "(int \<Rightarrow> int \<Rightarrow> int \<Rightarrow> int) \<Rightarrow> 's instr" where
  "ternop f env Run fr vm =
    (case fr_stack fr of
       x # y # z # st \<Rightarrow> finish (fr\<lparr>fr_stack := f x y z # st\<rparr>) vm
     | _ \<Rightarrow> Inl PanicBounds)"

definition ar_And :: "int \<Rightarrow> int \<Rightarrow> int" where
  "ar_And x y = x AND y"

definition ar_Or :: "int \<Rightarrow> int \<Rightarrow> int" where
  "ar_Or x y = x OR y"

definition ar_Xor :: "int \<Rightarrow> int \<Rightarrow> int" where
  "ar_Xor x y = x XOR y"

fun arith :: "arith_instr \<Rightarrow> 's instr" where
  "arith InstrAdd = binop ar_Add"
| "arith InstrSub = binop ar_Sub"
| "arith InstrMul = binop ar_Mul"
| "arith InstrDiv = binop ar_Div"
| "arith InstrSdiv = binop ar_Sdiv"
| "arith InstrMod = binop ar_Mod"
| "arith InstrSmod = binop ar_Smod"
| "arith InstrExp = binop ar_Exp"
| "arith InstrSignExtend = binop ar_SignExtend"
| "arith InstrLt = binop ar_Lt"
| "arith InstrGt = binop ar_Gt"
| "arith InstrSlt = binop ar_Slt"
| "arith InstrSgt = binop ar_Sgt"
| "arith InstrEq = binop ar_Eq"
| "arith InstrAnd = binop ar_And"
| "arith InstrOr = binop ar_Or"
| "arith InstrXor = binop ar_Xor"
| "arith InstrByte = binop ar_Byte"
| "arith InstrSHL = binop ar_SHL"
| "arith InstrSHR = binop ar_SHR"
| "arith InstrSAR = binop ar_SAR"
| "arith InstrAddmod = ternop ar_Addmod"
| "arith InstrMulmod = ternop ar_Mulmod"
| "arith InstrNot = unop ar_Not"
| "arith InstrIszero = unop ar_Iszero"

section \<open>Environment\<close>

definition opAddress :: "'s instr" where
  "opAddress env Run fr vm = push (big_SetBytes (c_self (fr_contract fr))) fr vm"

definition opBalance :: "'s instr" where
  "opBalance env Run fr vm =
    (case fr_stack fr of
       slot # st \<Rightarrow>
         (case db_GetBalance (evm_db env) (BigToAddress slot) (vm_db vm) of (b, s) \<Rightarrow>
            finish (fr\<lparr>fr_stack := b # st\<rparr>) (vm\<lparr>vm_db := s\<rparr>))
     | _ \<Rightarrow> Inl PanicBounds)"

definition opOrigin :: "'s instr" where
  "opOrigin env Run fr vm = push (big_SetBytes (ctx_Origin (evm_ctx env))) fr vm"

definition opCaller :: "'s instr" where
  "opCaller env Run fr vm = push (big_SetBytes (CallerAddress (fr_contract fr))) fr vm"

definition opCallValue :: "'s instr" where
  "opCallValue env Run fr vm = push (c_value (fr_contract fr)) fr vm"

definition opCallDataLoad :: "'s instr" where
  "opCallDataLoad env Run fr vm =
    (case fr_stack fr of
       off # st \<Rightarrow> bindp (getDataBig (c_Input (fr_contract fr)) off 32) (\<lambda>d.
         finish (fr\<lparr>fr_stack := big_SetBytes d # st\<rparr>) vm)
     | _ \<Rightarrow> Inl PanicBounds)"

definition opCallDataSize :: "'s instr" where
  "opCallDataSize env Run fr vm = push (int (length (c_Input (fr_contract fr)))) fr vm"

definition opReturnDataSize :: "'s instr" where
  "opReturnDataSize env Run fr vm = push (int (length (deref (fr_mem fr) (returnData vm)))) fr vm"

definition opExtCodeSize :: "'s instr" where
  "opExtCodeSize env Run fr vm =
    (case fr_stack fr of
       slot # st \<Rightarrow>
         (case db_GetCodeSize (evm_db env) (BigToAddress slot) (vm_db vm) of (n, s) \<Rightarrow>
            finish (fr\<lparr>fr_stack := uint (word_of_nat n :: u64) # st\<rparr>) (vm\<lparr>vm_db := s\<rparr>))
     | _ \<Rightarrow> Inl PanicBounds)"

definition opCodeSize :: "'s instr" where
  "opCodeSize env Run fr vm = push (int (length (Code (fr_contract fr)))) fr vm"

definition opExtCodeHash :: "'s instr" where
  "opExtCodeHash env Run fr vm =
    (case fr_stack fr of
       slot # st \<Rightarrow>
         (case db_Empty (evm_db env) (BigToAddress slot) (vm_db vm) of
            (True, s) \<Rightarrow> finish (fr\<lparr>fr_stack := 0 # st\<rparr>) (vm\<lparr>vm_db := s\<rparr>)
          | (False, s) \<Rightarrow>
              (case db_GetCodeHash (evm_db env) (BigToAddress slot) s of (h, s1) \<Rightarrow>
                 finish (fr\<lparr>fr_stack := big_SetBytes h # st\<rparr>) (vm\<lparr>vm_db := s1\<rparr>)))
     | _ \<Rightarrow> Inl PanicBounds)"

definition opGasprice :: "'s instr" where
  "opGasprice env Run fr vm = push (ctx_GasPrice (evm_ctx env)) fr vm"

definition opBlockhash :: "'s instr" where
  "opBlockhash env Run fr vm =
    (case fr_stack fr of
       num # st \<Rightarrow>
         let n = ctx_BlockNumber (evm_ctx env) - 257;
             r = (if num > n \<and> num < ctx_BlockNumber (evm_ctx env)
                  then big_SetBytes (ctx_GetHash (evm_ctx env) (big_Uint64 num)) else 0)
         in finish (fr\<lparr>fr_stack := r # st\<rparr>) vm
     | _ \<Rightarrow> Inl PanicBounds)"

definition opCoinbase :: "'s instr" where
  "opCoinbase env Run fr vm = push (big_SetBytes (ctx_Coinbase (evm_ctx env))) fr vm"

definition opTimestamp :: "'s instr" where
  "opTimestamp env Run fr vm = push (U256 (ctx_Time (evm_ctx env))) fr vm"

definition opNumber :: "'s instr" where
  "opNumber env Run fr vm = push (U256 (ctx_BlockNumber (evm_ctx env))) fr vm"

definition opDifficulty :: "'s instr" where
  "opDifficulty env Run fr vm = push (U256 (ctx_Difficulty (evm_ctx env))) fr vm"

definition opGasLimit :: "'s instr" where
  "opGasLimit env Run fr vm = push (U256 (uint (ctx_GasLimit (evm_ctx env)))) fr vm"

definition opSelfBalance :: "'s instr" where
  "opSelfBalance env Run fr vm =
    (case db_GetBalance (evm_db env) (c_self (fr_contract fr)) (vm_db vm) of (b, s) \<Rightarrow> push b fr (vm\<lparr>vm_db := s\<rparr>))"

definition opChainID :: "'s instr" where
  "opChainID env Run fr vm = (case evm_ChainID env of None \<Rightarrow> Inl PanicNil | Some i \<Rightarrow> push i fr vm)"

definition opPc :: "'s instr" where
  "opPc env Run fr vm = push (uint (fr_pc fr)) fr vm"

definition opMsize :: "'s instr" where
  "opMsize env Run fr vm = push (int (store_len (fr_mem fr))) fr vm"

definition opGas :: "'s instr" where
  "opGas env Run fr vm = push (uint (Gas (fr_contract fr))) fr vm"

fun environ :: "environ_instr \<Rightarrow> 's instr" where
  "environ InstrAddress = opAddress"
| "environ InstrBalance = opBalance"
| "environ InstrOrigin = opOrigin"
| "environ InstrCaller = opCaller"
| "environ InstrCallValue = opCallValue"
| "environ InstrCallDataLoad = opCallDataLoad"
| "environ InstrCallDataSize = opCallDataSize"
| "environ InstrCodeSize = opCodeSize"
| "environ InstrGasprice = opGasprice"
| "environ InstrExtCodeSize = opExtCodeSize"
| "environ InstrExtCodeHash = opExtCodeHash"
| "environ InstrBlockhash = opBlockhash"
| "environ InstrCoinbase = opCoinbase"
| "environ InstrTimestamp = opTimestamp"
| "environ InstrNumber = opNumber"
| "environ InstrDifficulty = opDifficulty"
| "environ InstrGasLimit = opGasLimit"
| "environ InstrSelfBalance = opSelfBalance"
| "environ InstrChainID = opChainID"
| "environ InstrReturnDataSize = opReturnDataSize"
| "environ InstrPc = opPc"
| "environ InstrMsize = opMsize"
| "environ InstrGas = opGas"

section \<open>Memory and copying\<close>

definition set_mem :: "panic + Memory \<Rightarrow> int list \<Rightarrow> frame \<Rightarrow> 's vm \<Rightarrow> 's instr_result" where
  "set_mem r st fr vm = bindp r (\<lambda>m. finish (fr\<lparr>fr_mem := m, fr_stack := st\<rparr>) vm)"

definition opSha3 :: "'s instr" where
  "opSha3 env Run fr vm =
    (case fr_stack fr of
       offset # sz # st \<Rightarrow>
         bindp (mem_GetPtr (big_Int64 offset) (big_Int64 sz) (fr_mem fr)) (\<lambda>sl.
           let data = deref (fr_mem fr) sl;
               h = BytesToHash (evm_keccak env data);
               vm1 = (if EnablePreimageRecording (vmConfig env)
                      then vm\<lparr>vm_db := db_AddPreimage (evm_db env) h data (vm_db vm)\<rparr> else vm)
           in finish (fr\<lparr>fr_stack := big_SetBytes h # st\<rparr>) vm1)
     | _ \<Rightarrow> Inl PanicBounds)"

definition opCallDataCopy :: "'s instr" where
  "opCallDataCopy env Run fr vm =
    (case fr_stack fr of
       memOffset # dataOffset # len # st \<Rightarrow>
         bindp (getDataBig (c_Input (fr_contract fr)) dataOffset len) (\<lambda>d.
           set_mem (mem_Set (big_Uint64 memOffset) (big_Uint64 len) d (fr_mem fr)) st fr vm)
     | _ \<Rightarrow> Inl PanicBounds)"

definition opReturnDataCopy :: "'s instr" where
  "opReturnDataCopy env Run fr vm =
    (case fr_stack fr of
       memOffset # dataOffset # len # st \<Rightarrow>
         let e = dataOffset + len; data = deref (fr_mem fr) (returnData vm) in
         if \<not> big_IsUint64 e \<or> word_of_nat (length data) < big_Uint64 e
         then Inr (Bytes [], Some ErrReturnDataOutOfBounds, fr\<lparr>fr_stack := st\<rparr>, vm)
         else bindp (subslice data (unat (big_Uint64 dataOffset)) (unat (big_Uint64 e))) (\<lambda>d.
           set_mem (mem_Set (big_Uint64 memOffset) (big_Uint64 len) d (fr_mem fr)) st fr vm)
     | _ \<Rightarrow> Inl PanicBounds)"

definition opCodeCopy :: "'s instr" where
  "opCodeCopy env Run fr vm =
    (case fr_stack fr of
       memOffset # codeOffset # len # st \<Rightarrow>
         bindp (getDataBig (Code (fr_contract fr)) codeOffset len) (\<lambda>d.
           set_mem (mem_Set (big_Uint64 memOffset) (big_Uint64 len) d (fr_mem fr)) st fr vm)
     | _ \<Rightarrow> Inl PanicBounds)"

definition opExtCodeCopy :: "'s instr" where
  "opExtCodeCopy env Run fr vm =
    (case fr_stack fr of
       addr # memOffset # codeOffset # len # st \<Rightarrow>
         (case db_GetCode (evm_db env) (BigToAddress addr) (vm_db vm) of (code, s) \<Rightarrow>
            bindp (getDataBig (nil_slice code) codeOffset len) (\<lambda>d.
              set_mem (mem_Set (big_Uint64 memOffset) (big_Uint64 len) d (fr_mem fr)) st fr (vm\<lparr>vm_db := s\<rparr>)))
     | _ \<Rightarrow> Inl PanicBounds)"

definition opMload :: "'s instr" where
  "opMload env Run fr vm =
    (case fr_stack fr of
       v # st \<Rightarrow> bindp (mem_GetPtr (big_Int64 v) 32 (fr_mem fr)) (\<lambda>sl.
         finish (fr\<lparr>fr_stack := big_SetBytes (deref (fr_mem fr) sl) # st\<rparr>) vm)
     | _ \<Rightarrow> Inl PanicBounds)"

definition opMstore :: "'s instr" where
  "opMstore env Run fr vm =
    (case fr_stack fr of
       mStart # val # st \<Rightarrow> set_mem (mem_Set32 (big_Uint64 mStart) val (fr_mem fr)) st fr vm
     | _ \<Rightarrow> Inl PanicBounds)"

definition opMstore8 :: "'s instr" where
  "opMstore8 env Run fr vm =
    (case fr_stack fr of
       off # val # st \<Rightarrow> set_mem (mem_Set8 (big_Int64 off) (word_of_int (big_Int64 val AND 0xff)) (fr_mem fr)) st fr vm
     | _ \<Rightarrow> Inl PanicBounds)"

section \<open>Stack, storage and control\<close>

definition opPop :: "'s instr" where
  "opPop env Run fr vm =
    (case fr_stack fr of _ # st \<Rightarrow> finish (fr\<lparr>fr_stack := st\<rparr>) vm | _ \<Rightarrow> Inl PanicBounds)"

definition opSload :: "'s instr" where
  "opSload env Run fr vm =
    (case fr_stack fr of
       loc # st \<Rightarrow>
         (case db_GetState (evm_db env) (c_self (fr_contract fr)) (BigToHash loc) (vm_db vm) of (v, s) \<Rightarrow>
            finish (fr\<lparr>fr_stack := big_SetBytes v # st\<rparr>) (vm\<lparr>vm_db := s\<rparr>))
     | _ \<Rightarrow> Inl PanicBounds)"

definition opSstore :: "'s instr" where
  "opSstore env Run fr vm =
    (case fr_stack fr of
       loc # val # st \<Rightarrow>
         finish (fr\<lparr>fr_stack := st\<rparr>)
           (vm\<lparr>vm_db := db_SetState (evm_db env) (c_self (fr_contract fr)) (BigToHash loc) (BigToHash val) (vm_db vm)\<rparr>)
     | _ \<Rightarrow> Inl PanicBounds)"

definition jump_to :: "int \<Rightarrow> int list \<Rightarrow> frame \<Rightarrow> 's vm \<Rightarrow> 's instr_result" where
  "jump_to pos st fr vm =
    (case validJumpdest (Code (fr_contract fr)) pos of
       None \<Rightarrow> Inl PanicBounds
     | Some False \<Rightarrow> Inr (Bytes [], Some ErrInvalidJump, fr\<lparr>fr_stack := st\<rparr>, vm)
     | Some True \<Rightarrow> finish (fr\<lparr>fr_stack := st, fr_pc := big_Uint64 pos\<rparr>) vm)"

definition opJump :: "'s instr" where
  "opJump env Run fr vm =
    (case fr_stack fr of pos # st \<Rightarrow> jump_to pos st fr vm | _ \<Rightarrow> Inl PanicBounds)"

definition opJumpi :: "'s instr" where
  "opJumpi env Run fr vm =
    (case fr_stack fr of
       pos # cond # st \<Rightarrow>
         if cond \<noteq> 0 then jump_to pos st fr vm
         else finish (fr\<lparr>fr_stack := st, fr_pc := fr_pc fr + 1\<rparr>) vm
     | _ \<Rightarrow> Inl PanicBounds)"

definition opJumpdest :: "'s instr" where
  "opJumpdest env Run fr vm = finish fr vm"

definition opPush1 :: "'s instr" where
  "opPush1 env Run fr vm =
    (let code = Code (fr_contract fr);
         pc = fr_pc fr + 1;
         x = (if pc < word_of_nat (length code) then uint (code ! unat pc) else 0)
     in finish (fr\<lparr>fr_pc := pc, fr_stack := x # fr_stack fr\<rparr>) vm)"

definition makePush :: "u64 \<Rightarrow> nat \<Rightarrow> 's instr" where
  "makePush sz pushByteSize env Run fr vm =
    (let code = Code (fr_contract fr);
         codeLen = int (length code);
         startMin = (if sint (fr_pc fr + 1) < codeLen then sint (fr_pc fr + 1) else codeLen);
         endMin = (if startMin + int pushByteSize < codeLen then startMin + int pushByteSize else codeLen)
     in if startMin < 0 then Inl PanicBounds
        else bindp (subslice code (nat startMin) (nat endMin)) (\<lambda>d.
          finish (fr\<lparr>fr_pc := fr_pc fr + sz, fr_stack := big_SetBytes (RightPadBytes d (int pushByteSize)) # fr_stack fr\<rparr>) vm))"

definition makeDup :: "nat \<Rightarrow> 's instr" where
  "makeDup n env Run fr vm =
    (if 1 \<le> n \<and> n \<le> length (fr_stack fr) then push (fr_stack fr ! (n - 1)) fr vm else Inl PanicBounds)"

definition makeSwap :: "nat \<Rightarrow> 's instr" where
  "makeSwap n env Run fr vm =
    (let st = fr_stack fr in
     if n + 1 \<le> length st then finish (fr\<lparr>fr_stack := st[0 := st ! n, n := st ! 0]\<rparr>) vm else Inl PanicBounds)"

definition makeLog :: "nat \<Rightarrow> 's instr" where
  "makeLog n env Run fr vm =
    (case fr_stack fr of
       mStart # mSize # st \<Rightarrow>
         if n \<le> length st then
           bindp (mem_GetCopy (big_Int64 mStart) (big_Int64 mSize) (fr_mem fr)) (\<lambda>d.
             finish (fr\<lparr>fr_stack := drop n st\<rparr>)
               (vm\<lparr>vm_db := db_AddLog (evm_db env)
                  \<lparr>log_Address = c_self (fr_contract fr), log_Topics = map BigToHash (take n st), log_Data = d,
                   log_BlockNumber = big_Uint64 (ctx_BlockNumber (evm_ctx env)), log_TxHash = zero_hash, log_TxIndex = 0,
                   log_BlockHash = zero_hash, log_Index = 0, log_Removed = False\<rparr> (vm_db vm)\<rparr>))
         else Inl PanicBounds
     | _ \<Rightarrow> Inl PanicBounds)"

section \<open>Creation\<close>

definition opCreate :: "'s instr" where
  "opCreate env Run fr vm =
    (case fr_stack fr of
       val # offset # sz # st \<Rightarrow>
         bindp (mem_GetCopy (big_Int64 offset) (big_Int64 sz) (fr_mem fr)) (\<lambda>input.
           let gas0 = Gas (fr_contract fr);
               gas = (if IsEIP150 (chainRules env) then gas0 - gas0 div 64 else gas0);
               c = snd (UseGas gas (fr_contract fr))
           in bindp (Create env Run (ContractRef c) input gas val vm) (\<lambda>(res, addr, returnGas, suberr, vm1).
             let x = (if IsHomestead (chainRules env) \<and> suberr = Some ErrCodeStoreOutOfGas then 0
                      else if suberr \<noteq> None \<and> suberr \<noteq> Some ErrCodeStoreOutOfGas then 0
                      else big_SetBytes addr);
                 fr1 = fr\<lparr>fr_stack := x # st, fr_contract := c\<lparr>Gas := Gas c + returnGas\<rparr>\<rparr>
             in Inr (Bytes (if suberr = Some ErrExecutionReverted then res else []), None, fr1, vm1)))
     | _ \<Rightarrow> Inl PanicBounds)"

definition opCreate2 :: "'s instr" where
  "opCreate2 env Run fr vm =
    (case fr_stack fr of
       endowment # offset # sz # salt # st \<Rightarrow>
         bindp (mem_GetCopy (big_Int64 offset) (big_Int64 sz) (fr_mem fr)) (\<lambda>input.
           let gas0 = Gas (fr_contract fr);
               gas = gas0 - gas0 div 64;
               c = snd (UseGas gas (fr_contract fr))
           in bindp (Create2 env Run (ContractRef c) input gas endowment salt vm) (\<lambda>(res, addr, returnGas, suberr, vm1).
             let x = (if suberr \<noteq> None then 0 else big_SetBytes addr);
                 fr1 = fr\<lparr>fr_stack := x # st, fr_contract := c\<lparr>Gas := Gas c + returnGas\<rparr>\<rparr>
             in Inr (Bytes (if suberr = Some ErrExecutionReverted then res else []), None, fr1, vm1)))
     | _ \<Rightarrow> Inl PanicBounds)"

section \<open>Calls\<close>

text \<open>
  The end of the four calls: the success flag, the copy of the returned data into memory and the gas that
  comes back. A result that is the input slice aliases the memory of the caller.
\<close>

definition end_call ::
  "mem_slice \<Rightarrow> int \<Rightarrow> int \<Rightarrow> int list \<Rightarrow> frame \<Rightarrow> ret_slice \<times> u64 \<times> vm_error option \<times> 's vm \<Rightarrow> 's instr_result" where
  "end_call args retOffset retSize st fr r =
    (case r of (ret0, returnGas, err, vm) \<Rightarrow>
       let ret = (case ret0 of Fresh b \<Rightarrow> Bytes b | InputSlice \<Rightarrow> args);
           x = (if err \<noteq> None then 0 else 1)
       in bindp
            (if err = None \<or> err = Some ErrExecutionReverted
             then mem_Set (big_Uint64 retOffset) (big_Uint64 retSize) (deref (fr_mem fr) ret) (fr_mem fr)
             else Inr (fr_mem fr))
            (\<lambda>m. Inr (ret, None, fr\<lparr>fr_stack := x # st, fr_mem := m,
                 fr_contract := (fr_contract fr)\<lparr>Gas := Gas (fr_contract fr) + returnGas\<rparr>\<rparr>, vm)))"

definition opCall :: "'s instr" where
  "opCall env Run fr vm =
    (case fr_stack fr of
       _ # addr # value0 # inOffset # inSize # retOffset # retSize # st \<Rightarrow>
         let val = U256 value0 in
         bindp (mem_GetPtr (big_Int64 inOffset) (big_Int64 inSize) (fr_mem fr)) (\<lambda>args.
           let gas = callGasTemp vm + (if val \<noteq> 0 then CallStipend else 0) in
           bindp (Call env Run (ContractRef (fr_contract fr)) (BigToAddress addr) (deref (fr_mem fr) args) gas val vm)
             (end_call args retOffset retSize st fr))
     | _ \<Rightarrow> Inl PanicBounds)"

definition opCallCode :: "'s instr" where
  "opCallCode env Run fr vm =
    (case fr_stack fr of
       _ # addr # value0 # inOffset # inSize # retOffset # retSize # st \<Rightarrow>
         let val = U256 value0 in
         bindp (mem_GetPtr (big_Int64 inOffset) (big_Int64 inSize) (fr_mem fr)) (\<lambda>args.
           let gas = callGasTemp vm + (if val \<noteq> 0 then CallStipend else 0) in
           bindp (CallCode env Run (ContractRef (fr_contract fr)) (BigToAddress addr) (deref (fr_mem fr) args) gas val vm)
             (end_call args retOffset retSize st fr))
     | _ \<Rightarrow> Inl PanicBounds)"

definition opDelegateCall :: "'s instr" where
  "opDelegateCall env Run fr vm =
    (case fr_stack fr of
       _ # addr # inOffset # inSize # retOffset # retSize # st \<Rightarrow>
         bindp (mem_GetPtr (big_Int64 inOffset) (big_Int64 inSize) (fr_mem fr)) (\<lambda>args.
           bindp (DelegateCall env Run (ContractRef (fr_contract fr)) (BigToAddress addr) (deref (fr_mem fr) args)
               (callGasTemp vm) vm)
             (end_call args retOffset retSize st fr))
     | _ \<Rightarrow> Inl PanicBounds)"

definition opStaticCall :: "'s instr" where
  "opStaticCall env Run fr vm =
    (case fr_stack fr of
       _ # addr # inOffset # inSize # retOffset # retSize # st \<Rightarrow>
         bindp (mem_GetPtr (big_Int64 inOffset) (big_Int64 inSize) (fr_mem fr)) (\<lambda>args.
           bindp (StaticCall env Run (ContractRef (fr_contract fr)) (BigToAddress addr) (deref (fr_mem fr) args)
               (callGasTemp vm) vm)
             (end_call args retOffset retSize st fr))
     | _ \<Rightarrow> Inl PanicBounds)"

section \<open>Halting\<close>

definition opReturn :: "'s instr" where
  "opReturn env Run fr vm =
    (case fr_stack fr of
       offset # sz # st \<Rightarrow>
         bindp (mem_GetPtr (big_Int64 offset) (big_Int64 sz) (fr_mem fr)) (\<lambda>ret. Inr (ret, None, fr\<lparr>fr_stack := st\<rparr>, vm))
     | _ \<Rightarrow> Inl PanicBounds)"

definition opRevert :: "'s instr" where
  "opRevert env Run fr vm =
    (case fr_stack fr of
       offset # sz # st \<Rightarrow>
         bindp (mem_GetPtr (big_Int64 offset) (big_Int64 sz) (fr_mem fr)) (\<lambda>ret. Inr (ret, None, fr\<lparr>fr_stack := st\<rparr>, vm))
     | _ \<Rightarrow> Inl PanicBounds)"

definition opStop :: "'s instr" where
  "opStop env Run fr vm = finish fr vm"

definition opSuicide :: "'s instr" where
  "opSuicide env Run fr vm =
    (case fr_stack fr of
       beneficiary # st \<Rightarrow>
         (case db_GetBalance (evm_db env) (c_self (fr_contract fr)) (vm_db vm) of (balance, s1) \<Rightarrow>
            let s2 = db_AddBalance (evm_db env) (BigToAddress beneficiary) balance s1;
                s3 = snd (db_Suicide (evm_db env) (c_self (fr_contract fr)) s2)
            in finish (fr\<lparr>fr_stack := st\<rparr>) (vm\<lparr>vm_db := s3\<rparr>))
     | _ \<Rightarrow> Inl PanicBounds)"

section \<open>Dispatch\<close>

fun execute :: "executionFunc \<Rightarrow> 's instr" where
  "execute InstrNil = (\<lambda>env Run fr vm. Inl PanicNil)"
| "execute (Arith a) = arith a"
| "execute (Environ e) = environ e"
| "execute InstrCreate2 = opCreate2"
| "execute InstrStaticCall = opStaticCall"
| "execute InstrReturnDataCopy = opReturnDataCopy"
| "execute InstrRevert = opRevert"
| "execute InstrDelegateCall = opDelegateCall"
| "execute InstrStop = opStop"
| "execute InstrSha3 = opSha3"
| "execute InstrCallDataCopy = opCallDataCopy"
| "execute InstrCodeCopy = opCodeCopy"
| "execute InstrExtCodeCopy = opExtCodeCopy"
| "execute InstrPop = opPop"
| "execute InstrMload = opMload"
| "execute InstrMstore = opMstore"
| "execute InstrMstore8 = opMstore8"
| "execute InstrSload = opSload"
| "execute InstrSstore = opSstore"
| "execute InstrJump = opJump"
| "execute InstrJumpi = opJumpi"
| "execute InstrJumpdest = opJumpdest"
| "execute InstrPush1 = opPush1"
| "execute (InstrPush n k) = makePush n k"
| "execute (InstrDup n) = makeDup n"
| "execute (InstrSwap n) = makeSwap n"
| "execute (InstrLog n) = makeLog n"
| "execute InstrCreate = opCreate"
| "execute InstrCall = opCall"
| "execute InstrCallCode = opCallCode"
| "execute InstrReturn = opReturn"
| "execute InstrSuicide = opSuicide"

end
