(* ===== verification/EvmRun.thy ===== *)
theory EvmRun
  imports EvmInstr
begin

text \<open>
  The interpreter loop (src/core/vm/interpreter.go). \<open>run_step\<close> is one turn of the loop, \<open>run_loop\<close> the loop with
  fuel and \<open>Run\<close> the function with fuel for the nesting of calls. \<open>Run\<close> gives the loop the gas of the contract plus
  one as fuel: every turn that does not end the loop uses gas. The call depth is limited to 1024, so 1025
  levels of nesting are enough from depth zero. The tracer and the cancellation from another goroutine are
  not modelled.
\<close>

datatype 's step_result =
    Continue frame "'s vm"
  | Halt bytes "vm_error option" Contract "'s vm"

definition stop_with :: "vm_error \<Rightarrow> frame \<Rightarrow> 's vm \<Rightarrow> panic + 's step_result" where
  "stop_with e fr vm = Inr (Halt [] (Some e) (fr_contract fr) vm)"

text \<open>The required memory size in whole words; the flag says that it does not fit into 64 bits.\<close>

definition required_memory :: "operation \<Rightarrow> int list \<Rightarrow> panic + u64 \<times> bool" where
  "required_memory p st =
    (case op_memorySize p of
       None \<Rightarrow> Inr (0, False)
     | Some f \<Rightarrow> bindp (memory_size f st) (\<lambda>(memSize, overflow).
         if overflow then Inr (0, True) else Inr (SafeMul (toWordSize memSize) 32)))"

text \<open>After the instruction: the return data, then the end of the loop or the next position.\<close>

definition after_execute :: "operation \<Rightarrow> mem_slice \<times> vm_error option \<times> frame \<times> 's vm \<Rightarrow> panic + 's step_result" where
  "after_execute p r =
    (case r of (res, err, fr, vm) \<Rightarrow>
       let vm1 = (if op_returns p then vm\<lparr>returnData := res\<rparr> else vm) in
       case err of
         Some e \<Rightarrow> Inr (Halt [] (Some e) (fr_contract fr) vm1)
       | None \<Rightarrow>
           if op_reverts p then Inr (Halt (deref (fr_mem fr) res) (Some ErrExecutionReverted) (fr_contract fr) vm1)
           else if op_halts p then Inr (Halt (deref (fr_mem fr) res) None (fr_contract fr) vm1)
           else if \<not> op_jumps p then Inr (Continue (fr\<lparr>fr_pc := fr_pc fr + 1\<rparr>) vm1)
           else Inr (Continue fr vm1))"

text \<open>The turn of the loop after the checks and the static gas.\<close>

definition run_operation :: "'s EVM \<Rightarrow> 's runner \<Rightarrow> operation \<Rightarrow> frame \<Rightarrow> 's vm \<Rightarrow> panic + 's step_result" where
  "run_operation env Run p fr vm =
    bindp (required_memory p (fr_stack fr)) (\<lambda>(memorySize, overflow).
      if overflow then stop_with ErrGasUintOverflow fr vm
      else
        bindp
          (case op_dynamicGas p of
             None \<Rightarrow> Inr (Inr 0, fr, vm)
           | Some g \<Rightarrow> dynamic_gas g env memorySize fr vm)
          (\<lambda>(cost, fr1, vm1).
            case cost of
              Inl _ \<Rightarrow> stop_with ErrOutOfGas fr1 vm1
            | Inr dynamicCost \<Rightarrow>
                (case UseGas dynamicCost (fr_contract fr1) of
                   (False, _) \<Rightarrow> stop_with ErrOutOfGas fr1 vm1
                 | (True, c) \<Rightarrow>
                     let m = (if memorySize > 0 then mem_Resize (growcap env) memorySize (fr_mem fr1) else fr_mem fr1)
                     in bindp (execute (op_execute p) env Run (fr1\<lparr>fr_contract := c, fr_mem := m\<rparr>) vm1)
                          (after_execute p))))"

definition run_step :: "'s EVM \<Rightarrow> 's runner \<Rightarrow> frame \<Rightarrow> 's vm \<Rightarrow> panic + 's step_result" where
  "run_step env Run fr vm =
    (let opc = GetByte (Code (fr_contract fr)) (fr_pc fr);
         p = jump_table env opc;
         sLen = length (fr_stack fr)
     in if \<not> op_valid p then stop_with (ErrInvalidOpcode opc) fr vm
        else if sLen < op_minStack p then stop_with (ErrStackUnderflow sLen (op_minStack p)) fr vm
        else if sLen > op_maxStack p then stop_with (ErrStackLimit sLen (op_maxStack p)) fr vm
        else if readOnly vm \<and> IsByzantium (chainRules env) \<and> (op_writes p \<or> (opc = CALL \<and> fr_stack fr ! 2 \<noteq> 0))
        then stop_with ErrWriteProtection fr vm
        else
          (case UseGas (op_constantGas p) (fr_contract fr) of
             (False, _) \<Rightarrow> stop_with ErrOutOfGas fr vm
           | (True, c) \<Rightarrow> run_operation env Run p (fr\<lparr>fr_contract := c\<rparr>) vm))"

primrec run_loop :: "nat \<Rightarrow> 's EVM \<Rightarrow> 's runner \<Rightarrow> frame \<Rightarrow> 's vm \<Rightarrow> panic + bytes \<times> vm_error option \<times> Contract \<times> 's vm" where
  "run_loop 0 env Run fr vm = Inl NoReturn"
| "run_loop (Suc n) env Run fr vm =
    bindp (run_step env Run fr vm) (\<lambda>r.
      case r of
        Continue fr1 vm1 \<Rightarrow> run_loop n env Run fr1 vm1
      | Halt ret err c vm1 \<Rightarrow> Inr (ret, err, c, vm1))"

text \<open>The deferred functions: the depth goes back and the read-only mode ends where it began.\<close>

definition leave_run :: "bool \<Rightarrow> bytes \<times> vm_error option \<times> Contract \<times> 's vm \<Rightarrow> panic + bytes \<times> vm_error option \<times> Contract \<times> 's vm" where
  "leave_run entered r =
    (case r of (ret, err, c, vm) \<Rightarrow>
       Inr (ret, err, c, vm\<lparr>vm_depth := vm_depth vm - 1, readOnly := (if entered then False else readOnly vm)\<rparr>))"

definition Run_body :: "'s EVM \<Rightarrow> 's runner \<Rightarrow> 's runner" where
  "Run_body env Run contract input ro vm =
    (let entered = (ro \<and> \<not> readOnly vm);
         vm1 = vm\<lparr>vm_depth := vm_depth vm + 1, readOnly := (readOnly vm \<or> entered), returnData := Bytes []\<rparr>
     in if Code contract = [] then leave_run entered ([], None, contract, vm1)
        else
          bindp
            (run_loop (unat (Gas contract) + 1) env Run
              \<lparr>fr_pc = 0, fr_mem = NewMemory, fr_stack = [], fr_contract = contract\<lparr>c_Input := input\<rparr>\<rparr> vm1)
            (leave_run entered))"

primrec Run :: "nat \<Rightarrow> 's EVM \<Rightarrow> 's runner" where
  "Run 0 env = (\<lambda>contract input ro vm. Inl NoReturn)"
| "Run (Suc n) env = Run_body env (Run n env)"

definition evm_Call :: "'s EVM \<Rightarrow> ContractRef \<Rightarrow> address \<Rightarrow> bytes \<Rightarrow> u64 \<Rightarrow> int \<Rightarrow> 's vm \<Rightarrow> 's call_result" where
  "evm_Call env = Call env (Run 1025 env)"

definition evm_Create ::
  "'s EVM \<Rightarrow> ContractRef \<Rightarrow> bytes \<Rightarrow> u64 \<Rightarrow> int \<Rightarrow> 's vm \<Rightarrow> panic + bytes \<times> address \<times> u64 \<times> vm_error option \<times> 's vm" where
  "evm_Create env = Create env (Run 1025 env)"

end
