(* ===== verification/EvmState.thy ===== *)
theory EvmState
  imports EvmRun
begin

text \<open>
  The state as the virtual machine sees it. \<open>vm_state\<close> is the contract of the interface \<open>vm.StateDB\<close>: its methods
  act on what they show as the specification of the state says. \<open>effect\<close> is a step relation with the changes of the
  shown state that instructions, calls and contract creation are made of. The step relation keeps balances
  non-negative and never increases their sum; in a static context it keeps every account.
\<close>

section \<open>What a state shows\<close>

definition sp_balance :: "spec \<Rightarrow> address \<Rightarrow> int" where
  "sp_balance sp a = (case sp_get a sp of Some v \<Rightarrow> v_balance v | None \<Rightarrow> 0)"

definition sp_nonce :: "spec \<Rightarrow> address \<Rightarrow> u64" where
  "sp_nonce sp a = (case sp_get a sp of Some v \<Rightarrow> v_nonce v | None \<Rightarrow> 0)"

definition sp_code :: "spec \<Rightarrow> address \<Rightarrow> bytes option" where
  "sp_code sp a = (case sp_get a sp of Some v \<Rightarrow> v_code v | None \<Rightarrow> None)"

definition sp_codehash :: "spec \<Rightarrow> address \<Rightarrow> hash" where
  "sp_codehash sp a = (case sp_get a sp of Some v \<Rightarrow> BytesToHash (v_codehash v) | None \<Rightarrow> zero_hash)"

definition sp_state :: "spec \<Rightarrow> address \<Rightarrow> hash \<Rightarrow> hash" where
  "sp_state sp a k = (case sp_get a sp of Some v \<Rightarrow> v_state v k | None \<Rightarrow> zero_hash)"

definition sp_committed :: "spec \<Rightarrow> address \<Rightarrow> hash \<Rightarrow> hash" where
  "sp_committed sp a k = (case sp_get a sp of Some v \<Rightarrow> v_committed v k | None \<Rightarrow> zero_hash)"

definition sp_suicided :: "spec \<Rightarrow> address \<Rightarrow> bool" where
  "sp_suicided sp a = (case sp_get a sp of Some v \<Rightarrow> v_suicided v | None \<Rightarrow> False)"

definition sp_empty :: "'t backend \<Rightarrow> spec \<Rightarrow> address \<Rightarrow> bool" where
  "sp_empty E sp a =
    (case sp_get a sp of Some v \<Rightarrow> v_nonce v = 0 \<and> v_balance v = 0 \<and> v_codehash v = emptyCodeHash E | None \<Rightarrow> True)"

lemmas shown_defs = sp_balance_def sp_nonce_def sp_code_def sp_codehash_def sp_state_def sp_suicided_def

definition total_balance :: "spec \<Rightarrow> int" where
  "total_balance sp = (\<Sum>a \<in> addresses. sp_balance sp a)"

text \<open>The state after an operation that cannot fail.\<close>

definition doing :: "'t backend \<Rightarrow> state_op \<Rightarrow> spec \<Rightarrow> spec" where
  "doing E op sp = the (spec_op E op sp)"

section \<open>Contract of the interface\<close>

definition gives :: "('s \<Rightarrow> machine \<Rightarrow> bool) \<Rightarrow> machine \<Rightarrow> 'v \<Rightarrow> 'v \<times> 's \<Rightarrow> bool" where
  "gives R m x r \<longleftrightarrow> fst r = x \<and> R (snd r) m"

abbreviation in_machine :: "'t backend \<Rightarrow> state_op \<Rightarrow> machine \<Rightarrow> machine" where
  "in_machine E op m \<equiv> m\<lparr>m_cur := doing E op (m_cur m)\<rparr>"

locale vm_state =
  fixes db :: "'s vm_StateDB" and E :: "'t backend" and R :: "'s \<Rightarrow> machine \<Rightarrow> bool"
  assumes saved: "R s m \<Longrightarrow> \<forall>(i, _) \<in> set (m_saved m). i < m_next m"
    and CreateAccount: "R s m \<Longrightarrow> a \<in> addresses \<Longrightarrow> R (db_CreateAccount db a s) (in_machine E (OpCreateAccount a) m)"
    and SubBalance: "R s m \<Longrightarrow> a \<in> addresses \<Longrightarrow> R (db_SubBalance db a x s) (in_machine E (OpSubBalance a x) m)"
    and AddBalance: "R s m \<Longrightarrow> a \<in> addresses \<Longrightarrow> R (db_AddBalance db a x s) (in_machine E (OpAddBalance a x) m)"
    and SetNonce: "R s m \<Longrightarrow> a \<in> addresses \<Longrightarrow> R (db_SetNonce db a n s) (in_machine E (OpSetNonce a n) m)"
    and SetCode: "R s m \<Longrightarrow> a \<in> addresses \<Longrightarrow> R (db_SetCode db a c s) (in_machine E (OpSetCode a c) m)"
    and SetState: "R s m \<Longrightarrow> a \<in> addresses \<Longrightarrow> R (db_SetState db a k w s) (in_machine E (OpSetState a k w) m)"
    and Suicide: "R s m \<Longrightarrow> a \<in> addresses \<Longrightarrow> R (snd (db_Suicide db a s)) (in_machine E (OpSuicide a) m)"
    and AddRefund: "R s m \<Longrightarrow> R (db_AddRefund db g s) (in_machine E (OpAddRefund g) m)"
    and SubRefund: "R s m \<Longrightarrow> rel_option R (db_SubRefund db g s) (spec_exec E (OpSubRefund g) m)"
    and AddLog: "R s m \<Longrightarrow> R (db_AddLog db l s) (in_machine E (OpAddLog l) m)"
    and AddPreimage: "R s m \<Longrightarrow> R (db_AddPreimage db h p s) (in_machine E (OpAddPreimage h p) m)"
    and Snapshot: "R s m \<Longrightarrow> fst (db_Snapshot db s) = m_next m \<and>
      R (snd (db_Snapshot db s)) (m\<lparr>m_saved := m_saved m @ [(m_next m, m_cur m)], m_next := m_next m + 1\<rparr>)"
    and RevertToSnapshot: "R s m \<Longrightarrow> rel_option R (db_RevertToSnapshot db i s) (spec_exec E (OpRevert i) m)"
    and GetBalance: "R s m \<Longrightarrow> a \<in> addresses \<Longrightarrow> gives R m (sp_balance (m_cur m) a) (db_GetBalance db a s)"
    and GetNonce: "R s m \<Longrightarrow> a \<in> addresses \<Longrightarrow> gives R m (sp_nonce (m_cur m) a) (db_GetNonce db a s)"
    and GetCodeHash: "R s m \<Longrightarrow> a \<in> addresses \<Longrightarrow> gives R m (sp_codehash (m_cur m) a) (db_GetCodeHash db a s)"
    and GetCode: "R s m \<Longrightarrow> a \<in> addresses \<Longrightarrow> gives R m (sp_code (m_cur m) a) (db_GetCode db a s)"
    and GetCodeSize: "R s m \<Longrightarrow> a \<in> addresses \<Longrightarrow> R (snd (db_GetCodeSize db a s)) m"
    and GetState: "R s m \<Longrightarrow> a \<in> addresses \<Longrightarrow> gives R m (sp_state (m_cur m) a k) (db_GetState db a k s)"
    and GetCommittedState: "R s m \<Longrightarrow> a \<in> addresses \<Longrightarrow> gives R m (sp_committed (m_cur m) a k) (db_GetCommittedState db a k s)"
    and HasSuicided: "R s m \<Longrightarrow> a \<in> addresses \<Longrightarrow> gives R m (sp_suicided (m_cur m) a) (db_HasSuicided db a s)"
    and Exist: "R s m \<Longrightarrow> a \<in> addresses \<Longrightarrow> gives R m (sp_get a (m_cur m) \<noteq> None) (db_Exist db a s)"
    and Empty: "R s m \<Longrightarrow> a \<in> addresses \<Longrightarrow> gives R m (sp_empty E (m_cur m) a) (db_Empty db a s)"

section \<open>The state database implements it\<close>

text \<open>The methods of \<open>StateDB\<close> (src/core/state/statedb.go) as the interface has them.\<close>

definition statedb_methods :: "'t backend \<Rightarrow> 't StateDB vm_StateDB" where
  "statedb_methods E =
    \<lparr>db_CreateAccount = CreateAccount E, db_SubBalance = SubBalance E, db_AddBalance = AddBalance E,
     db_GetBalance = GetBalance E, db_GetNonce = GetNonce E, db_SetNonce = SetNonce E, db_GetCodeHash = GetCodeHash E,
     db_GetCode = GetCode E, db_SetCode = SetCode E, db_GetCodeSize = GetCodeSize E, db_AddRefund = AddRefund,
     db_SubRefund = SubRefund, db_GetCommittedState = GetCommittedState E, db_GetState = GetState E,
     db_SetState = SetState E, db_Suicide = Suicide E, db_HasSuicided = HasSuicided E, db_Exist = Exist E,
     db_Empty = Empty E, db_RevertToSnapshot = RevertToSnapshot E, db_Snapshot = Snapshot, db_AddLog = AddLog,
     db_AddPreimage = AddPreimage\<rparr>"

lemma sim_saved_ids: "sim E s m \<Longrightarrow> \<forall>(i, _) \<in> set (m_saved m). i < m_next m"
  by (fastforce simp: sim_def list_all2_conv_all_nth in_set_conv_nth)

lemma sim_total_op:
  assumes "sim E s m" "op_ok op" "\<not> snapshot_op op" "exec E op s = Some s1"
  shows "sim E s1 (in_machine E op m)"
proof -
  have "rel_option (sim E) (Some s1) (spec_exec E op m)" using sim_exec [OF assms(1-3)] assms(4) by simp
  moreover have "spec_exec E op m = map_option (\<lambda>sp. m\<lparr>m_cur := sp\<rparr>) (spec_op E op (m_cur m))"
    using assms(3) by (cases op) auto
  ultimately show ?thesis by (cases "spec_op E op (m_cur m)") (auto simp: doing_def)
qed

lemma sim_read:
  assumes "sim E s m" "refines E s s1 (spec_of E s)"
  shows "sim E s1 m"
  using sim_step [OF assms(1), of s1 "m_cur m"] assms by (simp add: sim_def)

lemma sim_error: "sim E s m \<Longrightarrow> sim E (sdb_setError e s) m"
proof -
  assume a: "sim E s m"
  have "acct_of E (sdb_setError e s) b = acct_of E s b" for b by (simp add: acct_of_def live_object_def split: option.split)
  then have sp: "spec_of E (sdb_setError e s) = spec_of E s" by (simp add: spec_of_def fun_eq_iff)
  have w: "wf_state E (sdb_setError e s)" "spec_of E (sdb_setError e s) = spec_of E s"
    using a sp by (simp_all add: sim_def wf_state_def)
  then have ag: "agree E (sdb_setError e s) s" using a by (simp add: agree_def same_def sim_def)
  show ?thesis using a w restores_agree [OF ag] by (auto simp: sim_def elim!: list_all2_mono)
qed

lemma get_shows:
  assumes "sim E s m" "a \<in> addresses"
    and f: "f = (case getStateObject E a s of (None, s1) \<Rightarrow> (d, s1) | (Some obj, s1) \<Rightarrow> (g obj, s1))"
    and g: "\<And>s1 obj. g obj = val (cur_view E s1 obj)"
  shows "gives (sim E) m (case sp_get a (m_cur m) of Some v \<Rightarrow> val v | None \<Rightarrow> d) f"
proof -
  have w: "wf_state E s" "spec_of E s = m_cur m" using assms(1) by (simp_all add: sim_def)
  obtain r s1 where r: "getStateObject E a s = (r, s1)" by fastforce
  note gr = get_refines [OF w(1) assms(2) r]
  show ?thesis using gr(1,3,4) sim_read [OF assms(1)] w(2) by (cases r) (simp_all add: gives_def f r g)
qed

lemma sim_shows:
  "sim E s m \<Longrightarrow> refines E s (snd r) (spec_of E s) \<and> fst r = x \<Longrightarrow> gives (sim E) m x r"
  by (simp add: gives_def sim_read)

lemma GetCodeSize_sim:
  assumes "sim E s m" "a \<in> addresses"
  shows "sim E (snd (GetCodeSize E a s)) m"
proof -
  have w: "wf_state E s" using assms(1) by (simp add: sim_def)
  obtain r s1 where r: "getStateObject E a s = (r, s1)" by fastforce
  have s1: "sim E s1 m" by (rule sim_read [OF assms(1) get_refines(1) [OF w assms(2) r]])
  show ?thesis using s1 by (auto simp: GetCodeSize_def r sim_error split: option.split prod.split)
qed

lemmas sim_ops = sim_total_op [OF _ _ _ exec.simps(1)] sim_total_op [OF _ _ _ exec.simps(2)]
  sim_total_op [OF _ _ _ exec.simps(4)] sim_total_op [OF _ _ _ exec.simps(5)] sim_total_op [OF _ _ _ exec.simps(6)]
  sim_total_op [OF _ _ _ exec.simps(7)] sim_total_op [OF _ _ _ exec.simps(8)] sim_total_op [OF _ _ _ exec.simps(9)]
  sim_total_op [OF _ _ _ exec.simps(11)] sim_total_op [OF _ _ _ exec.simps(12)]

interpretation statedb: vm_state "statedb_methods E" E "sim E" for E :: "'t backend"
proof
  fix s m a assume s: "sim E s m" and a: "a \<in> addresses"
  have w: "wf_state E s" "spec_of E s = m_cur m" using s by (simp_all add: sim_def)
  note view = view_obj_def
  show "gives (sim E) m (sp_balance (m_cur m) a) (db_GetBalance (statedb_methods E) a s)"
    unfolding sp_balance_def by (rule get_shows [OF s a]) (simp_all add: statedb_methods_def GetBalance_def view)
  show "gives (sim E) m (sp_nonce (m_cur m) a) (db_GetNonce (statedb_methods E) a s)"
    unfolding sp_nonce_def by (rule get_shows [OF s a]) (simp_all add: statedb_methods_def GetNonce_def view)
  show "gives (sim E) m (sp_codehash (m_cur m) a) (db_GetCodeHash (statedb_methods E) a s)"
    unfolding sp_codehash_def by (rule get_shows [OF s a]) (simp_all add: statedb_methods_def GetCodeHash_def view)
  show "gives (sim E) m (sp_suicided (m_cur m) a) (db_HasSuicided (statedb_methods E) a s)"
    unfolding sp_suicided_def by (rule get_shows [OF s a]) (simp_all add: statedb_methods_def HasSuicided_def view)
  show "gives (sim E) m (sp_empty E (m_cur m) a) (db_Empty (statedb_methods E) a s)"
    unfolding sp_empty_def by (rule get_shows [OF s a]) (simp_all add: statedb_methods_def Empty_def view so_empty_def split: prod.split option.split)
  have "gives (sim E) m (case sp_get a (m_cur m) of Some v \<Rightarrow> True | None \<Rightarrow> False) (db_Exist (statedb_methods E) a s)"
    by (rule get_shows [OF s a]) (simp_all add: statedb_methods_def Exist_def split: prod.split option.split)
  then show "gives (sim E) m (sp_get a (m_cur m) \<noteq> None) (db_Exist (statedb_methods E) a s)"
    by (cases "sp_get a (m_cur m)") simp_all
  show "gives (sim E) m (sp_code (m_cur m) a) (db_GetCode (statedb_methods E) a s)"
    using sim_shows [OF s GetCode_refines [OF w(1) a]] by (simp add: statedb_methods_def sp_code_def w(2))
  show "sim E (snd (db_GetCodeSize (statedb_methods E) a s)) m"
    using GetCodeSize_sim [OF s a] by (simp add: statedb_methods_def)
  fix k
  show "gives (sim E) m (sp_state (m_cur m) a k) (db_GetState (statedb_methods E) a k s)"
    using sim_shows [OF s GetState_refines [OF w(1) a]] by (simp add: statedb_methods_def sp_state_def w(2))
  show "gives (sim E) m (sp_committed (m_cur m) a k) (db_GetCommittedState (statedb_methods E) a k s)"
    using sim_shows [OF s GetCommittedState_refines [OF w(1) a]] by (simp add: statedb_methods_def sp_committed_def w(2))
next
  fix s m assume s: "sim E s m"
  show "\<forall>(i, _) \<in> set (m_saved m). i < m_next m" by (rule sim_saved_ids [OF s])
  show "rel_option (sim E) (db_SubRefund (statedb_methods E) g s) (spec_exec E (OpSubRefund g) m)" for g
    using sim_exec [OF s, of "OpSubRefund g"] by (simp add: statedb_methods_def)
  show "rel_option (sim E) (db_RevertToSnapshot (statedb_methods E) i s) (spec_exec E (OpRevert i) m)" for i
    using sim_Revert [OF s, of i] by (simp add: statedb_methods_def)
  show "fst (db_Snapshot (statedb_methods E) s) = m_next m \<and> sim E (snd (db_Snapshot (statedb_methods E) s))
      (m\<lparr>m_saved := m_saved m @ [(m_next m, m_cur m)], m_next := m_next m + 1\<rparr>)"
    using sim_Snapshot [OF s] s by (simp add: statedb_methods_def) (simp add: Snapshot_def sim_def)
qed (simp_all add: statedb_methods_def sim_ops)

section \<open>Changes of the shown state\<close>

inductive effect :: "'t backend \<Rightarrow> bool \<Rightarrow> spec \<Rightarrow> spec \<Rightarrow> bool" for E and ro where
  touch: "a \<in> addresses \<Longrightarrow> effect E ro sp (doing E (OpAddBalance a 0) sp)"
| create_missing: "a \<in> addresses \<Longrightarrow> sp_get a sp = None \<Longrightarrow> effect E ro sp (doing E (OpCreateAccount a) sp)"
| transfer: "a \<in> addresses \<Longrightarrow> b \<in> addresses \<Longrightarrow> 0 \<le> x \<Longrightarrow> x \<le> sp_balance sp a \<Longrightarrow> x = 0 \<or> \<not> ro \<Longrightarrow>
    effect E ro sp (doing E (OpAddBalance b x) (doing E (OpSubBalance a x) sp))"
| preimage: "effect E ro sp (doing E (OpAddPreimage h p) sp)"
| new_contract: "\<not> ro \<Longrightarrow> a \<in> addresses \<Longrightarrow> sp_nonce sp a = 0 \<Longrightarrow>
    sp_codehash sp a = zero_hash \<or> sp_codehash sp a = BytesToHash (Keccak256 E []) \<Longrightarrow>
    effect E ro sp (doing E (OpCreateAccount a) sp)"
| nonce: "\<not> ro \<Longrightarrow> a \<in> addresses \<Longrightarrow> effect E ro sp (doing E (OpSetNonce a (sp_nonce sp a + 1)) sp)"
| code: "\<not> ro \<Longrightarrow> a \<in> addresses \<Longrightarrow> length c < 2 ^ 61 \<Longrightarrow> effect E ro sp (doing E (OpSetCode a c) sp)"
| storage: "\<not> ro \<Longrightarrow> a \<in> addresses \<Longrightarrow> length w = HashLength \<Longrightarrow> effect E ro sp (doing E (OpSetState a k w) sp)"
| suicide: "\<not> ro \<Longrightarrow> a \<in> addresses \<Longrightarrow> b \<in> addresses \<Longrightarrow>
    effect E ro sp (doing E (OpSuicide a) (doing E (OpAddBalance b (sp_balance sp a)) sp))"
| log: "\<not> ro \<Longrightarrow> effect E ro sp (doing E (OpAddLog l) sp)"
| add_refund: "\<not> ro \<Longrightarrow> effect E ro sp (doing E (OpAddRefund g) sp)"
| sub_refund: "\<not> ro \<Longrightarrow> g \<le> sp_refund sp \<Longrightarrow> effect E ro sp (doing E (OpSubRefund g) sp)"

text \<open>
  What a state shows is well-formed: accounts have addresses of the right length, no negative balance, storage of
  whole words and code of bounded length; deleted accounts have no balance; all balances fit into a word.
\<close>

definition acct_ok :: "acct_view \<Rightarrow> bool" where
  "acct_ok v \<longleftrightarrow> 0 \<le> v_balance v \<and> (v_deleted v \<longrightarrow> v_balance v = 0) \<and>
    (\<forall>k. length (v_state v k) = HashLength) \<and> length (nil_slice (v_code v)) < 2 ^ 61"

definition accts_ok :: "spec \<Rightarrow> bool" where
  "accts_ok sp \<longleftrightarrow> (\<forall>a v. sp_accts sp a = Some v \<longrightarrow> a \<in> addresses \<and> acct_ok v)"

definition spec_ok :: "spec \<Rightarrow> bool" where
  "spec_ok sp \<longleftrightarrow> accts_ok sp \<and> total_balance sp < 2 ^ 256"

section \<open>Sums\<close>

lemma finite_addresses [simp]: "finite addresses"
  using finite_lists_length_eq [of "UNIV :: byte set"] by simp

lemma sp_get_put: "sp_get b (sp_put a v sp) = (if b = a then if v_deleted v then None else Some v else sp_get b sp)"
  by (simp add: sp_get_def sp_put_def)

lemma sp_balance_put: "sp_balance (sp_put a v sp) b = (if b = a then if v_deleted v then 0 else v_balance v else sp_balance sp b)"
  by (simp add: sp_balance_def sp_get_put)

lemma total_put:
  assumes "a \<in> addresses" "\<not> v_deleted v"
  shows "total_balance (sp_put a v sp) = total_balance sp - sp_balance sp a + v_balance v"
proof -
  have "total_balance (sp_put a v sp) = v_balance v + (\<Sum>b \<in> addresses - {a}. sp_balance (sp_put a v sp) b)"
    using sum.remove [OF finite_addresses assms(1), of "sp_balance (sp_put a v sp)"] assms(2) by (simp add: total_balance_def sp_balance_put)
  also have "(\<Sum>b \<in> addresses - {a}. sp_balance (sp_put a v sp) b) = (\<Sum>b \<in> addresses - {a}. sp_balance sp b)"
    by (rule sum.cong) (simp_all add: sp_balance_put)
  also have "\<dots> = total_balance sp - sp_balance sp a"
    using sum.remove [OF finite_addresses assms(1), of "sp_balance sp"] by (simp add: total_balance_def)
  finally show ?thesis by simp
qed

lemma sp_acct_ok:
  assumes "spec_ok sp"
  shows "acct_ok (sp_acct E a sp)" "\<not> v_deleted (sp_acct E a sp)" "v_balance (sp_acct E a sp) = sp_balance sp a"
  using assms
  by (auto simp: sp_acct_def sp_balance_def fresh_acct_def acct_ok_def spec_ok_def accts_ok_def sp_get_def zero_hash_def nil_slice_def
      split: option.splits if_splits)

lemma balance_ok:
  assumes "spec_ok sp"
  shows "0 \<le> sp_balance sp a" "sp_balance sp a < 2 ^ 256"
proof -
  have n: "0 \<le> sp_balance sp b" for b
    using assms by (auto simp: sp_balance_def spec_ok_def accts_ok_def sp_get_def acct_ok_def split: option.split)
  then show "0 \<le> sp_balance sp a" .
  show "sp_balance sp a < 2 ^ 256"
  proof (cases "a \<in> addresses")
    case True
    then have "sp_balance sp a \<le> total_balance sp" unfolding total_balance_def by (intro member_le_sum) (simp_all add: n)
    then show ?thesis using assms by (simp add: spec_ok_def)
  next
    case False
    then have "sp_get a sp = None" using assms by (auto simp: spec_ok_def accts_ok_def sp_get_def split: option.split)
    then show ?thesis by (simp add: sp_balance_def)
  qed
qed

lemma accts_ok_put: "accts_ok sp \<Longrightarrow> a \<in> addresses \<Longrightarrow> acct_ok v \<Longrightarrow> accts_ok (sp_put a v sp)"
  by (simp add: accts_ok_def sp_put_def)

lemma spec_ok_put:
  assumes "spec_ok sp" "a \<in> addresses" "acct_ok v" "\<not> v_deleted v" "v_balance v \<le> sp_balance sp a"
  shows "spec_ok (sp_put a v sp)" "total_balance (sp_put a v sp) \<le> total_balance sp"
proof -
  show t: "total_balance (sp_put a v sp) \<le> total_balance sp" using total_put [OF assms(2,4), of sp] assms(5) by simp
  show "spec_ok (sp_put a v sp)" using assms(1) t accts_ok_put [OF _ assms(2,3)] unfolding spec_ok_def by fastforce
qed

lemma spec_ok_cong: "sp_accts sp' = sp_accts sp \<Longrightarrow> spec_ok sp' = spec_ok sp \<and> total_balance sp' = total_balance sp"
  by (simp add: spec_ok_def accts_ok_def total_balance_def sp_balance_def sp_get_def)

lemma doing_update:
  "doing E (OpAddBalance a x) sp = sp_put a ((sp_acct E a sp)\<lparr>v_balance := v_balance (sp_acct E a sp) + x\<rparr>) sp"
  "doing E (OpSubBalance a x) sp = sp_put a ((sp_acct E a sp)\<lparr>v_balance := v_balance (sp_acct E a sp) - x\<rparr>) sp"
  "doing E (OpSetNonce a n) sp = sp_put a ((sp_acct E a sp)\<lparr>v_nonce := n\<rparr>) sp"
  "doing E (OpSetCode a c) sp = sp_put a ((sp_acct E a sp)\<lparr>v_codehash := Keccak256 E c, v_code := Some c\<rparr>) sp"
  "doing E (OpSetState a k w) sp = sp_put a ((sp_acct E a sp)\<lparr>v_state := (v_state (sp_acct E a sp))(k := w)\<rparr>) sp"
  "doing E (OpSuicide a) sp =
    (if sp_get a sp = None then sp else sp_put a ((sp_acct E a sp)\<lparr>v_balance := 0, v_suicided := True\<rparr>) sp)"
  by (simp_all add: doing_def sp_update_acct)

lemma doing_touch:
  "doing E (OpAddBalance a 0) sp = sp_put a (sp_acct E a sp) sp" "doing E (OpSubBalance a 0) sp = sp_put a (sp_acct E a sp) sp"
  by (simp_all add: doing_update)

lemma doing_accts [simp]:
  "sp_accts (doing E (OpAddPreimage h p) sp) = sp_accts sp" "sp_accts (doing E (OpAddLog l) sp) = sp_accts sp"
  "sp_accts (doing E (OpAddRefund g) sp) = sp_accts sp" "g \<le> sp_refund sp \<Longrightarrow> sp_accts (doing E (OpSubRefund g) sp) = sp_accts sp"
  by (auto simp: doing_def)

lemma acct_ok_fresh [simp]: "acct_ok (fresh_acct E)" "\<not> v_deleted (fresh_acct E)"
  by (simp_all add: acct_ok_def fresh_acct_def zero_hash_def nil_slice_def)

lemma doing_CreateAccount:
  assumes "spec_ok sp"
  shows "doing E (OpCreateAccount a) sp = sp_put a ((fresh_acct E)\<lparr>v_balance := sp_balance sp a\<rparr>) sp"
  using assms by (auto simp: doing_def sp_balance_def sp_get_def spec_ok_def accts_ok_def acct_ok_def split: option.split)

section \<open>Effects keep the state well-formed\<close>

lemma transfer_ok:
  assumes "spec_ok sp" "a \<in> addresses" "b \<in> addresses" "0 \<le> x" "x \<le> sp_balance sp a"
  shows "spec_ok (doing E (OpAddBalance b x) (doing E (OpSubBalance a x) sp))"
    "total_balance (doing E (OpAddBalance b x) (doing E (OpSubBalance a x) sp)) = total_balance sp"
proof -
  let ?v = "(sp_acct E a sp)\<lparr>v_balance := v_balance (sp_acct E a sp) - x\<rparr>"
  note a = sp_acct_ok [OF assms(1), of E a]
  have v: "acct_ok ?v" "\<not> v_deleted ?v" "v_balance ?v = sp_balance sp a - x" using a assms(5) by (simp_all add: acct_ok_def)
  let ?s = "sp_put a ?v sp"
  have s: "spec_ok ?s" by (rule spec_ok_put) (use assms v in simp_all)
  let ?w = "(sp_acct E b ?s)\<lparr>v_balance := v_balance (sp_acct E b ?s) + x\<rparr>"
  note b = sp_acct_ok [OF s, of E b]
  have w: "acct_ok ?w" "\<not> v_deleted ?w" "v_balance ?w = sp_balance ?s b + x" using b assms(4) by (simp_all add: acct_ok_def)
  show t: "total_balance (doing E (OpAddBalance b x) (doing E (OpSubBalance a x) sp)) = total_balance sp"
    using total_put [OF assms(3) w(2), of ?s] total_put [OF assms(2) v(2), of sp] v(3) w(3) by (simp add: doing_update)
  show "spec_ok (doing E (OpAddBalance b x) (doing E (OpSubBalance a x) sp))"
    using s t assms(1) accts_ok_put [OF _ assms(3) w(1), of ?s] unfolding spec_ok_def doing_update by fastforce
qed

lemma suicide_ok:
  assumes "spec_ok sp" "a \<in> addresses" "b \<in> addresses"
  shows "spec_ok (doing E (OpSuicide a) (doing E (OpAddBalance b (sp_balance sp a)) sp)) \<and>
    total_balance (doing E (OpSuicide a) (doing E (OpAddBalance b (sp_balance sp a)) sp)) \<le> total_balance sp"
proof -
  let ?w = "(sp_acct E b sp)\<lparr>v_balance := v_balance (sp_acct E b sp) + sp_balance sp a\<rparr>"
  let ?s = "sp_put b ?w sp"
  note b = sp_acct_ok [OF assms(1), of E b]
  have n: "0 \<le> sp_balance sp a" by (rule balance_ok [OF assms(1)])
  have w: "acct_ok ?w" "\<not> v_deleted ?w" "v_balance ?w = sp_balance sp b + sp_balance sp a" using b n by (simp_all add: acct_ok_def)
  have ts: "total_balance ?s = total_balance sp + sp_balance sp a" using total_put [OF assms(3) w(2), of sp] w(3) by simp
  have ok: "accts_ok ?s" using assms(1) accts_ok_put [OF _ assms(3) w(1), of sp] unfolding spec_ok_def by fastforce
  show ?thesis
  proof (cases "sp_get a ?s")
    case None
    then have "sp_balance sp a = 0" using w(2) by (auto simp: sp_get_put sp_balance_def split: if_splits)
    then show ?thesis using None ts ok assms(1) by (simp add: doing_update spec_ok_def)
  next
    case (Some v)
    let ?z = "(sp_acct E a ?s)\<lparr>v_balance := 0, v_suicided := True\<rparr>"
    have v: "sp_acct E a ?s = v" "acct_ok v" "\<not> v_deleted v"
      using Some ok by (auto simp: accts_ok_def sp_acct_def sp_get_def split: option.splits if_splits)
    have z: "acct_ok ?z" "\<not> v_deleted ?z" using v by (simp_all add: acct_ok_def)
    have "total_balance (sp_put a ?z ?s) = total_balance ?s - sp_balance ?s a" using total_put [OF assms(2) z(2), of ?s] by simp
    moreover have "sp_balance sp a \<le> sp_balance ?s a" using n w(2,3) balance_ok(1) [OF assms(1), of b] by (simp add: sp_balance_put)
    ultimately have "total_balance (sp_put a ?z ?s) \<le> total_balance sp" using ts by simp
    moreover have "accts_ok (sp_put a ?z ?s)" by (rule accts_ok_put [OF ok assms(2) z(1)])
    moreover have "doing E (OpSuicide a) (doing E (OpAddBalance b (sp_balance sp a)) sp) = sp_put a ?z ?s"
      using Some by (simp add: doing_update)
    ultimately show ?thesis using assms(1) by (simp add: spec_ok_def)
  qed
qed

lemma effect_ok:
  assumes "effect E ro sp sp'" "spec_ok sp"
  shows "spec_ok sp' \<and> total_balance sp' \<le> total_balance sp"
  using assms
proof (cases rule: effect.cases)
  case (touch a)
  then show ?thesis using spec_ok_put [OF assms(2), of a "(sp_acct E a sp)"] sp_acct_ok [OF assms(2), of E a] by (simp add: doing_touch)
next
  case (create_missing a)
  show ?thesis unfolding create_missing(1) doing_CreateAccount [OF assms(2)]
    by (intro conjI spec_ok_put [OF assms(2)]) (use create_missing balance_ok [OF assms(2), of a] in \<open>simp_all add: acct_ok_def fresh_acct_def zero_hash_def nil_slice_def\<close>)
next
  case (new_contract a)
  show ?thesis unfolding new_contract(1) doing_CreateAccount [OF assms(2)]
    by (intro conjI spec_ok_put [OF assms(2)]) (use new_contract balance_ok [OF assms(2), of a] in \<open>simp_all add: acct_ok_def fresh_acct_def zero_hash_def nil_slice_def\<close>)
next
  case (transfer a b x)
  then show ?thesis using transfer_ok [OF assms(2) transfer(2-5), of E] by simp
next
  case (nonce a)
  show ?thesis unfolding nonce(1) doing_update
    by (intro conjI spec_ok_put [OF assms(2)]) (use nonce sp_acct_ok [OF assms(2), of E a] in \<open>simp_all add: acct_ok_def\<close>)
next
  case (code a c)
  show ?thesis unfolding code(1) doing_update
    by (intro conjI spec_ok_put [OF assms(2)]) (use code sp_acct_ok [OF assms(2), of E a] in \<open>simp_all add: acct_ok_def nil_slice_def\<close>)
next
  case (storage a w k)
  show ?thesis unfolding storage(1) doing_update
    by (intro conjI spec_ok_put [OF assms(2)]) (use storage sp_acct_ok [OF assms(2), of E a] in \<open>simp_all add: acct_ok_def\<close>)
next
  case (suicide a b)
  then show ?thesis using suicide_ok [OF assms(2) suicide(3,4), of E] by simp
qed (use assms(2) spec_ok_cong [of sp' sp] in simp_all)

lemma effects_ok: "(effect E ro)\<^sup>*\<^sup>* sp sp' \<Longrightarrow> spec_ok sp \<Longrightarrow> spec_ok sp' \<and> total_balance sp' \<le> total_balance sp"
  by (induction rule: rtranclp_induct) (use effect_ok in fastforce)+

section \<open>Effects in a static context\<close>

text \<open>Every account shows the same balance, nonce, code and storage, and there is no new log and no refund.\<close>

definition same_accounts :: "spec \<Rightarrow> spec \<Rightarrow> bool" where
  "same_accounts sp sp' \<longleftrightarrow> sp_balance sp' = sp_balance sp \<and> sp_nonce sp' = sp_nonce sp \<and> sp_code sp' = sp_code sp \<and>
    sp_state sp' = sp_state sp \<and> sp_suicided sp' = sp_suicided sp \<and> sp_logs sp' = sp_logs sp \<and> sp_refund sp' = sp_refund sp"

lemma same_put:
  assumes "v_balance v = sp_balance sp a" "v_nonce v = sp_nonce sp a" "v_code v = sp_code sp a" "v_state v = sp_state sp a"
    "v_suicided v = sp_suicided sp a" "\<not> v_deleted v"
  shows "same_accounts sp (sp_put a v sp)"
  using assms by (auto simp: same_accounts_def fun_eq_iff shown_defs sp_get_put) (simp_all add: sp_put_def)

lemma same_accounts_cong: "sp_accts sp' = sp_accts sp \<Longrightarrow> sp_logs sp' = sp_logs sp \<Longrightarrow> sp_refund sp' = sp_refund sp \<Longrightarrow> same_accounts sp sp'"
  by (simp add: same_accounts_def fun_eq_iff shown_defs sp_get_def)

lemma same_accounts_trans: "same_accounts sp sp1 \<Longrightarrow> same_accounts sp1 sp2 \<Longrightarrow> same_accounts sp sp2"
  by (simp add: same_accounts_def)

lemma same_acct_put: "spec_ok sp \<Longrightarrow> same_accounts sp (sp_put a (sp_acct E a sp) sp)"
  by (rule same_put) (simp_all add: sp_acct_ok, auto simp: sp_acct_def shown_defs fresh_acct_def split: option.split)

lemma effect_static:
  assumes "effect E True sp sp'" "spec_ok sp"
  shows "same_accounts sp sp'"
  using assms(1)
proof (cases rule: effect.cases)
  case (touch a)
  then show ?thesis using same_acct_put [OF assms(2), of a E] by (simp add: doing_touch)
next
  case (create_missing a)
  show ?thesis unfolding create_missing(1) doing_CreateAccount [OF assms(2)]
    by (rule same_put) (use create_missing(3) in \<open>simp_all add: fun_eq_iff shown_defs fresh_acct_def\<close>)
next
  case (transfer a b x)
  then have "sp' = sp_put b (sp_acct E b (sp_put a (sp_acct E a sp) sp)) (sp_put a (sp_acct E a sp) sp)" by (simp add: doing_touch)
  moreover have "spec_ok (sp_put a (sp_acct E a sp) sp)"
    by (rule spec_ok_put) (use assms(2) transfer sp_acct_ok [OF assms(2), of E a] in simp_all)
  ultimately show ?thesis using same_acct_put assms(2) same_accounts_trans by blast
next
  case (preimage h p)
  then show ?thesis by (intro same_accounts_cong) (simp_all add: doing_def)
qed simp_all

lemma effects_static: "(effect E True)\<^sup>*\<^sup>* sp sp' \<Longrightarrow> spec_ok sp \<Longrightarrow> same_accounts sp sp'"
proof (induction rule: rtranclp_induct)
  case (step y z)
  then show ?case using effects_ok [OF step(1)] effect_static same_accounts_trans by blast
qed (simp add: same_accounts_def)

lemma effect_static_any: "effect E True sp sp' \<Longrightarrow> effect E ro sp sp'"
  by (cases rule: effect.cases) (auto intro: effect.intros)

end
