(* ===== verification/EvmInvariant.thy ===== *)
theory EvmInvariant
  imports EvmState
begin

text \<open>
  The invariant of a running contract and what each gas function keeps of it. \<open>safe\<close> states that a computation
  returns a result with a property, or panics in \<open>SubRefund\<close>, the only panic that is not excluded.
\<close>

section \<open>Results\<close>

definition safe :: "panic + 'a \<Rightarrow> ('a \<Rightarrow> bool) \<Rightarrow> bool" where
  "safe r Q \<longleftrightarrow> (case r of Inl p \<Rightarrow> p = PanicRefund | Inr x \<Rightarrow> Q x)"

lemma safe_simps [simp]: "safe (Inr x) Q = Q x" "safe (Inl p) Q = (p = PanicRefund)"
  by (simp_all add: safe_def)

lemma safe_bindp [simp]: "safe (bindp r f) Q = safe r (\<lambda>x. safe (f x) Q)"
  by (cases r) simp_all

lemma safe_mono: "safe r Q \<Longrightarrow> (\<And>x. Q x \<Longrightarrow> Q' x) \<Longrightarrow> safe r Q'"
  by (cases r) simp_all

lemma safe_need [simp]: "n \<le> length st \<Longrightarrow> safe (need n st x) Q = Q x"
  by (simp add: need_def)

section \<open>Progress of the state\<close>

text \<open>The shown state changed by effects only, and the revisions are the old ones and newer ones.\<close>

definition moved :: "'t backend \<Rightarrow> bool \<Rightarrow> machine \<Rightarrow> machine \<Rightarrow> bool" where
  "moved E ro m m' \<longleftrightarrow> (effect E ro)\<^sup>*\<^sup>* (m_cur m) (m_cur m') \<and> m_next m \<le> m_next m' \<and>
    (\<exists>xs. m_saved m' = m_saved m @ xs \<and> (\<forall>(i, _) \<in> set xs. m_next m \<le> i))"

lemma moved_refl [simp]: "moved E ro m m"
  by (simp add: moved_def)

lemma moved_trans: "moved E ro m m1 \<Longrightarrow> moved E ro m1 m2 \<Longrightarrow> moved E ro m m2"
  unfolding moved_def by (fastforce intro: rtranclp_trans)

lemma moved_effect: "effect E ro (m_cur m) sp \<Longrightarrow> moved E ro m (m\<lparr>m_cur := sp\<rparr>)"
  by (simp add: moved_def)

lemma moved_ok: "moved E ro m m' \<Longrightarrow> spec_ok (m_cur m) \<Longrightarrow> spec_ok (m_cur m')"
  using effects_ok by (auto simp: moved_def)

lemma moved_static_any: "moved E True m m' \<Longrightarrow> moved E ro m m'"
  unfolding moved_def by (auto elim: rtranclp_mono [THEN predicate2D, rotated] intro: effect_static_any)

lemma moved_snapshot: "moved E ro m (m\<lparr>m_saved := m_saved m @ [(m_next m, m_cur m)], m_next := m_next m + 1\<rparr>)"
  by (simp add: moved_def)

section \<open>Invariant of a frame\<close>

definition contract_ok :: "Contract \<Rightarrow> bool" where
  "contract_ok c \<longleftrightarrow> c_self c \<in> addresses \<and> CallerAddress c \<in> addresses \<and> length (Code c) < 2 ^ 61 \<and>
    length (c_Input c) < 2 ^ 61 \<and> is_word (c_value c) \<and> unat (Gas c) < 2 ^ 62"

definition frame_ok :: "frame \<Rightarrow> bool" where
  "frame_ok fr \<longleftrightarrow> mem_ok (fr_mem fr) \<and> fee_ok (fr_mem fr) \<and> list_all is_word (fr_stack fr) \<and>
    length (fr_stack fr) \<le> 1024 \<and> contract_ok (fr_contract fr)"

fun slice_ok :: "mem_slice \<Rightarrow> bool" where
  "slice_ok (Bytes b) = (length b < 2 ^ 61)"
| "slice_ok (Alias i off len) = (len < 2 ^ 61)"

lemma deref_length: "slice_ok sl \<Longrightarrow> length (deref m sl) < 2 ^ 61"
  by (cases sl) (simp_all add: deref_def)

text \<open>
  What the machine relies on: a well-formed instruction table, the hash function of the state, words in the
  block context, a chain id and results of bounded length of the cryptographic functions.
\<close>

definition natives_ok :: "natives \<Rightarrow> bool" where
  "natives_ok nf \<longleftrightarrow> (\<forall>b. length (Sum256 nf b) < 2 ^ 61) \<and> (\<forall>b. length (ripemd160 nf b) < 2 ^ 61) \<and>
    (\<forall>p. length (G1_Marshal nf p) < 2 ^ 61) \<and> (\<forall>h m t f r. length (blake2b_F nf h m t f r) = 8)"

definition env_ok :: "'t backend \<Rightarrow> 's EVM \<Rightarrow> bool" where
  "env_ok E env \<longleftrightarrow> table_wf (jump_table env) \<and> evm_keccak env = Keccak256 E \<and> (\<forall>b. length (Keccak256 E b) = HashLength) \<and>
    is_word (ctx_GasPrice (evm_ctx env)) \<and> ctx_Origin (evm_ctx env) \<in> addresses \<and> ctx_Coinbase (evm_ctx env) \<in> addresses \<and>
    (\<forall>n. length (ctx_GetHash (evm_ctx env) n) = HashLength) \<and> (\<exists>i. evm_ChainID env = Some i \<and> is_word i) \<and>
    natives_ok (evm_natives env)"

lemma length_BigToAddress [simp]: "length (BigToAddress x) = AddressLength"
  by (simp add: BigToAddress_def BytesToAddress_def)

lemma length_BigToHash [simp]: "length (BigToHash x) = HashLength"
  by (simp add: BigToHash_def)

lemma BigToAddress_ok: "BigToAddress x \<in> addresses"
  by simp

section \<open>Memory an instruction needs\<close>

text \<open>The ranges of memory, by offset and length, that the size functions provide for.\<close>

fun mem_ranges :: "memorySizeFunc \<Rightarrow> int list \<Rightarrow> (int \<times> int) list" where
  "mem_ranges memorySha3 st = [(st ! 0, st ! 1)]"
| "mem_ranges memoryCallDataCopy st = [(st ! 0, st ! 2)]"
| "mem_ranges memoryReturnDataCopy st = [(st ! 0, st ! 2)]"
| "mem_ranges memoryCodeCopy st = [(st ! 0, st ! 2)]"
| "mem_ranges memoryExtCodeCopy st = [(st ! 1, st ! 3)]"
| "mem_ranges memoryMLoad st = [(st ! 0, 32)]"
| "mem_ranges memoryMStore8 st = [(st ! 0, 1)]"
| "mem_ranges memoryMStore st = [(st ! 0, 32)]"
| "mem_ranges memoryCreate st = [(st ! 1, st ! 2)]"
| "mem_ranges memoryCreate2 st = [(st ! 1, st ! 2)]"
| "mem_ranges memoryCall st = [(st ! 5, st ! 6), (st ! 3, st ! 4)]"
| "mem_ranges memoryDelegateCall st = [(st ! 4, st ! 5), (st ! 2, st ! 3)]"
| "mem_ranges memoryStaticCall st = [(st ! 4, st ! 5), (st ! 2, st ! 3)]"
| "mem_ranges memoryReturn st = [(st ! 0, st ! 1)]"
| "mem_ranges memoryRevert st = [(st ! 0, st ! 1)]"
| "mem_ranges memoryLog st = [(st ! 0, st ! 1)]"

definition mem_ready :: "executionFunc \<Rightarrow> int list \<Rightarrow> Memory \<Rightarrow> bool" where
  "mem_ready e st m \<longleftrightarrow> (\<forall>f. instr_memory e = Some f \<longrightarrow> (\<forall>(off, l) \<in> set (mem_ranges f st). covers m off l))"

lemma calc_covers:
  "calcMemSize64 off l = (sz, False) \<Longrightarrow> unat sz \<le> unat ms \<Longrightarrow> unat ms \<le> store_len m \<Longrightarrow> covers m off l"
  "calcMemSize64WithUint off 32 = (sz, False) \<Longrightarrow> unat sz \<le> unat ms \<Longrightarrow> unat ms \<le> store_len m \<Longrightarrow> covers m off 32"
  "calcMemSize64WithUint off 1 = (sz, False) \<Longrightarrow> unat sz \<le> unat ms \<Longrightarrow> unat ms \<le> store_len m \<Longrightarrow> covers m off 1"
  using calcMemSize64_covers calcMemSize64WithUint_covers [of off 32 sz m] calcMemSize64WithUint_covers [of off 1 sz m]
  by (simp_all add: order_trans)

lemma memory_size_covers:
  assumes "memory_size f st = Inr (sz, False)" "unat sz \<le> store_len m" "(off, l) \<in> set (mem_ranges f st)"
  shows "covers m off l"
  using assms
  by (cases f) (auto simp: need_def split: if_splits elim!: max_size_False intro: calc_covers order_trans)

lemma memory_size_total:
  assumes "instr_memory e = Some f" "fst (instr_stack e) \<le> length st"
  shows "\<exists>r. memory_size f st = Inr r"
  using assms by (cases e) (auto simp: need_def)

section \<open>Gas for memory\<close>

definition mem_paid :: "u64 \<Rightarrow> Memory \<Rightarrow> Memory \<Rightarrow> bool" where
  "mem_paid ms m m1 \<longleftrightarrow> (\<exists>g. m1 = m\<lparr>lastGasCost := g\<rparr>) \<and> unat ms \<le> 0x1FFFFFFFE0 \<and>
    unat (lastGasCost m1) = mem_fee (max (store_len m) (unat ms) div 32)"

lemma mem_gas_ok:
  assumes "mem_ok (fr_mem fr)" "fee_ok (fr_mem fr)" "32 dvd unat ms"
  obtains e where "mem_gas ms fr = (Inl e, fr)"
  | g m1 where "mem_gas ms fr = (Inr g, fr\<lparr>fr_mem := m1\<rparr>)" "mem_paid ms (fr_mem fr) m1"
proof (cases "unat ms > 0x1FFFFFFFE0")
  case True
  then show ?thesis using that(1) memoryGasCost_ok [OF assms] by (simp add: mem_gas_def)
next
  case False
  let ?n = "max (store_len (fr_mem fr)) (unat ms)"
  have "?n \<le> 0x1FFFFFFFE0" using False assms(1) by (simp add: mem_ok_def)
  note u = mem_fee_small [OF this]
  show ?thesis
    using that(2) [of _ "(fr_mem fr)\<lparr>lastGasCost := word_of_nat (mem_fee (?n div 32))\<rparr>"] memoryGasCost_ok [OF assms] False u
    by (auto simp: mem_gas_def mem_paid_def)
qed

lemma mem_paid_refl: "fee_ok m \<Longrightarrow> mem_paid 0 m m"
  unfolding mem_paid_def fee_ok_def by (simp, rule exI [of _ "lastGasCost m"]) simp

lemma mem_paid_Resize:
  assumes "mem_ok m" "mem_paid ms m m1" "32 dvd unat ms"
  shows "mem_ok (if ms > 0 then mem_Resize g ms m1 else m1)" "fee_ok (if ms > 0 then mem_Resize g ms m1 else m1)"
    "unat ms \<le> store_len (if ms > 0 then mem_Resize g ms m1 else m1)"
proof -
  have m1: "mem_ok m1" "store_len m1 = store_len m" using assms(1,2) by (auto simp: mem_paid_def mem_ok_def)
  have le: "unat ms \<le> 0x1FFFFFFFE0" using assms(2) by (simp add: mem_paid_def)
  note r = mem_Resize_ok [OF m1(1) assms(3) le, of g]
  have z: "\<not> ms > 0 \<Longrightarrow> unat ms = 0" by (simp add: word_less_nat_alt)
  show "mem_ok (if ms > 0 then mem_Resize g ms m1 else m1)" using r(1) m1(1) by simp
  show "unat ms \<le> store_len (if ms > 0 then mem_Resize g ms m1 else m1)" using r(2) z by simp
  show "fee_ok (if ms > 0 then mem_Resize g ms m1 else m1)"
    using r(2,3) m1(2) assms(2) z by (simp add: fee_ok_def mem_paid_def)
qed

section \<open>Gas given to a callee\<close>

text \<open>The most gas that a call instruction gives back: the gas reserved for the callee with the stipend.\<close>

definition budget :: "executionFunc \<Rightarrow> int list \<Rightarrow> 's vm \<Rightarrow> nat" where
  "budget e st vm =
    (if e = InstrCall \<or> e = InstrCallCode then unat (callGasTemp vm) + (if st ! 2 \<noteq> 0 then 2300 else 0)
     else if e = InstrDelegateCall \<or> e = InstrStaticCall then unat (callGasTemp vm) else 0)"

lemma add_gas_ok: "add_gas a b = Inr c \<Longrightarrow> unat c = unat a + unat b"
  using SafeAdd_ok [of a b c] by (auto simp: add_gas_def split: prod.splits if_splits)

lemma stack_Back_safe: "n < length (fr_stack fr) \<Longrightarrow> safe (stack_Back n fr k) Q = safe (k (fr_stack fr ! n)) Q"
  by (simp add: stack_Back_def need_def)

lemma binde_Inr: "binde x f = Inr y \<longleftrightarrow> (\<exists>a. x = Inr a \<and> f a = Inr y)"
  by (cases x) simp_all

text \<open>What holds after a gas function: only the gas of memory, the reserved gas and the state have changed.\<close>

definition gas_post :: "executionFunc \<Rightarrow> u64 \<Rightarrow> frame \<Rightarrow> 's vm \<Rightarrow> (vm_error + u64) \<times> frame \<times> 's vm \<Rightarrow> bool" where
  "gas_post e ms fr vm r \<longleftrightarrow> (case r of (cost, fr1, vm1) \<Rightarrow>
     (\<exists>m1. fr1 = fr\<lparr>fr_mem := m1\<rparr> \<and> (\<forall>c. cost = Inr c \<longrightarrow> mem_paid ms (fr_mem fr) m1)) \<and>
     (\<exists>s g. vm1 = vm\<lparr>vm_db := s, callGasTemp := g\<rparr>) \<and>
     (\<forall>c. cost = Inr c \<longrightarrow> budget e (fr_stack fr) vm1 \<le> unat c \<and> (gas_positive e \<longrightarrow> 0 < unat c)))"

lemma vm_same: "\<exists>s g. vm = vm\<lparr>vm_db := s, callGasTemp := g\<rparr>" "\<exists>s g. vm\<lparr>vm_db := x\<rparr> = vm\<lparr>vm_db := s, callGasTemp := g\<rparr>"
  "\<exists>s g. vm\<lparr>callGasTemp := y\<rparr> = vm\<lparr>vm_db := s, callGasTemp := g\<rparr>" "\<exists>s g. vm\<lparr>vm_db := x, callGasTemp := y\<rparr> = vm\<lparr>vm_db := s, callGasTemp := g\<rparr>"
  by (rule exI [of _ "vm_db vm"], rule exI [of _ "callGasTemp vm"], simp)
    (rule exI [of _ x], rule exI [of _ "callGasTemp vm"], simp,
     rule exI [of _ "vm_db vm"], rule exI [of _ y], simp, rule exI [of _ x], rule exI [of _ y], simp)

lemma fr_same: "\<exists>m1. fr = fr\<lparr>fr_mem := m1\<rparr>"
  by (rule exI [of _ "fr_mem fr"]) simp

lemma reserve_gas_post:
  assumes "fr_stack fr \<noteq> []" "mem_paid ms (fr_mem fr) m1"
    "e \<in> {InstrCall, InstrCallCode, InstrDelegateCall, InstrStaticCall}"
    "(e = InstrCall \<or> e = InstrCallCode) \<and> fr_stack fr ! 2 \<noteq> 0 \<longrightarrow> 2300 \<le> unat gas"
  shows "safe (reserve_gas env gas (fr\<lparr>fr_mem := m1\<rparr>) vm) (\<lambda>r. gas_post e ms fr vm r \<and> (\<exists>g. snd (snd r) = vm\<lparr>callGasTemp := g\<rparr>))"
proof -
  have p: "\<not> gas_positive e" using assms(3) by (auto simp: gas_positive_def)
  show ?thesis using assms p
    by (auto simp: reserve_gas_def stack_Back_safe gas_post_def vm_same budget_def dest!: add_gas_ok split: sum.split)
qed

section \<open>Dynamic gas\<close>

definition leads :: "('s \<Rightarrow> machine \<Rightarrow> bool) \<Rightarrow> 't backend \<Rightarrow> bool \<Rightarrow> machine \<Rightarrow> 's \<Rightarrow> bool" where
  "leads R E ro m s \<longleftrightarrow> (\<exists>m'. R s m' \<and> moved E ro m m')"

lemma leadsI: "R s m' \<Longrightarrow> moved E ro m m' \<Longrightarrow> leads R E ro m s"
  by (auto simp: leads_def)

lemma leads_refl: "R s m \<Longrightarrow> leads R E ro m s"
  by (auto simp: leads_def)

lemma leads_bind:
  "leads R E ro m s \<Longrightarrow> (\<And>m'. R s m' \<Longrightarrow> moved E ro m m' \<Longrightarrow> leads R E ro m' s') \<Longrightarrow> leads R E ro m s'"
  unfolding leads_def using moved_trans by blast

lemma leads_trans: "moved E ro m m1 \<Longrightarrow> leads R E ro m1 s \<Longrightarrow> leads R E ro m s"
  unfolding leads_def using moved_trans by blast

text \<open>Gas functions that only look at the stack and the memory.\<close>

lemma pure_gas_post:
  assumes "e \<noteq> InstrCall \<and> e \<noteq> InstrCallCode \<and> e \<noteq> InstrDelegateCall \<and> e \<noteq> InstrStaticCall"
    "mem_paid ms (fr_mem fr) m1" "\<And>c. cost = Inr c \<Longrightarrow> gas_positive e \<Longrightarrow> 0 < unat c"
  shows "gas_post e ms fr vm (cost, fr\<lparr>fr_mem := m1\<rparr>, vm)"
  using assms by (auto simp: gas_post_def vm_same budget_def)

lemma mem_gas_cases:
  assumes "frame_ok fr" "32 dvd unat ms"
    and "\<And>er. mem_gas ms fr = (Inl er, fr) \<Longrightarrow> P"
    and "\<And>g m1. mem_gas ms fr = (Inr g, fr\<lparr>fr_mem := m1\<rparr>) \<Longrightarrow> mem_paid ms (fr_mem fr) m1 \<Longrightarrow> P"
  shows P
  using mem_gas_ok [of fr ms] assms by (auto simp: frame_ok_def)

lemma gas_post_error: "gas_post e ms fr vm (Inl er, fr, vm)"
  using fr_same by (simp add: gas_post_def vm_same)

lemma gas_post_mem:
  assumes "mem_paid ms (fr_mem fr) m1" "\<not> gas_positive e" "\<not> (instr_calls e \<and> e \<noteq> InstrCreate \<and> e \<noteq> InstrCreate2)"
  shows "gas_post e ms fr vm (cost, fr\<lparr>fr_mem := m1\<rparr>, vm)"
  using assms by (auto simp: gas_post_def vm_same budget_def instr_calls_def)

lemma memory_gas_ok:
  assumes "frame_ok fr" "32 dvd unat ms" "\<not> gas_positive e" "\<not> (instr_calls e \<and> e \<noteq> InstrCreate \<and> e \<noteq> InstrCreate2)"
  shows "safe (pureMemoryGascost ms fr vm) (gas_post e ms fr vm)"
    "n < length (fr_stack fr) \<Longrightarrow> safe (memoryCopierGas n ms fr vm) (gas_post e ms fr vm)"
    "1 < length (fr_stack fr) \<Longrightarrow> safe (gasSha3 ms fr vm) (gas_post e ms fr vm)"
    "2 < length (fr_stack fr) \<Longrightarrow> safe (gasCreate2 ms fr vm) (gas_post e ms fr vm)"
proof -
  note d = pureMemoryGascost_def memoryCopierGas_def gasSha3_def gasCreate2_def gas_post_error stack_Back_safe gas_post_mem [OF _ assms(3,4)]
  note c = mem_gas_cases [OF assms(1,2)]
  show "safe (pureMemoryGascost ms fr vm) (gas_post e ms fr vm)" by (rule c) (simp_all add: d)
  show "safe (memoryCopierGas n ms fr vm) (gas_post e ms fr vm)" if "n < length (fr_stack fr)" by (rule c) (use that in \<open>simp_all add: d\<close>)
  show "safe (gasSha3 ms fr vm) (gas_post e ms fr vm)" if "1 < length (fr_stack fr)" by (rule c) (use that in \<open>simp_all add: d\<close>)
  show "safe (gasCreate2 ms fr vm) (gas_post e ms fr vm)" if "2 < length (fr_stack fr)" by (rule c) (use that in \<open>simp_all add: d\<close>)
qed

lemma log_gas_ok:
  assumes "frame_ok fr" "32 dvd unat ms" "1 < length (fr_stack fr)"
  shows "safe (makeGasLog n ms fr vm) (gas_post (InstrLog k) ms fr vm)"
proof (cases "uint_gas (fr_stack fr ! 1)")
  case (Inl er)
  then show ?thesis using assms(3) by (simp add: makeGasLog_def stack_Back_safe gas_post_error)
next
  case (Inr sz)
  show ?thesis
  proof (rule mem_gas_cases [OF assms(1,2)])
    fix er assume "mem_gas ms fr = (Inl er, fr)"
    then show ?thesis using assms(3) Inr by (simp add: makeGasLog_def stack_Back_safe gas_post_error)
  next
    fix g m1 assume g: "mem_gas ms fr = (Inr g, fr\<lparr>fr_mem := m1\<rparr>)" "mem_paid ms (fr_mem fr) m1"
    have "0 < unat c" if "binde (add_gas g 375) (\<lambda>gas. binde (add_gas gas (n * 375)) (\<lambda>gas.
        binde (mul_gas sz 8) (\<lambda>g. add_gas gas g))) = Inr c" for c
      using that by (auto simp: binde_Inr dest!: add_gas_ok)
    then show ?thesis using assms(3) Inr g by (simp add: makeGasLog_def stack_Back_safe pure_gas_post)
  qed
qed

lemma exp_gas_ok:
  assumes "fee_ok (fr_mem fr)" "1 < length (fr_stack fr)"
  shows "safe (gasExpFrontier fr vm) (gas_post (Arith InstrExp) 0 fr vm)" "safe (gasExpEIP158 fr vm) (gas_post (Arith InstrExp) 0 fr vm)"
proof -
  have "gas_post (Arith InstrExp) 0 fr vm (add_gas x 10, fr, vm)" for x
    using pure_gas_post [of "Arith InstrExp" 0 fr "fr_mem fr" "add_gas x 10" vm] mem_paid_refl [OF assms(1)] add_gas_ok [of x 10]
    by simp
  then show "safe (gasExpFrontier fr vm) (gas_post (Arith InstrExp) 0 fr vm)" "safe (gasExpEIP158 fr vm) (gas_post (Arith InstrExp) 0 fr vm)"
    using assms(2) by (simp_all add: gasExpFrontier_def gasExpEIP158_def gasExp_def stack_Back_safe Let_def)
qed

lemma gas_post_state:
  assumes "fee_ok (fr_mem fr)" "gas_positive e \<longrightarrow> 0 < unat c" "e = InstrSstore \<or> e = InstrSuicide"
  shows "gas_post e 0 fr vm (Inr c, fr, vm\<lparr>vm_db := s\<rparr>)"
  using assms fr_same mem_paid_refl [OF assms(1)]
  by (auto simp: gas_post_def vm_same budget_def intro!: exI [of _ "fr_mem fr"])

end
