(* ===== verification/EvmGasSafe.thy ===== *)
theory EvmGasSafe
  imports EvmInvariant
begin

text \<open>
  The gas functions (src/core/vm/gas_table.go) keep the invariant: they change only the cost of memory, the gas reserved
  for a call and, where the instruction may write, the refund counter of the state.
\<close>

context vm_state
begin

lemma leads_here: "R s m \<Longrightarrow> leads R E ro m s"
  by (rule leads_refl)

lemma leads_effect: "R s (m\<lparr>m_cur := sp\<rparr>) \<Longrightarrow> effect E ro (m_cur m) sp \<Longrightarrow> leads R E ro m s"
  by (rule leadsI [OF _ moved_effect])

lemma leads_AddRefund: "R s m \<Longrightarrow> \<not> ro \<Longrightarrow> leads R E ro m (db_AddRefund db g s)"
  by (rule leads_effect [OF AddRefund effect.add_refund])

lemma leads_SubRefund:
  assumes "R s m" "\<not> ro"
  shows "safe (refund_panic (db_SubRefund db g s)) (leads R E ro m)"
proof (cases "g \<le> sp_refund (m_cur m)")
  case True
  have e: "spec_exec E (OpSubRefund g) m = Some (in_machine E (OpSubRefund g) m)" using True by (simp add: doing_def)
  have "rel_option R (db_SubRefund db g s) (Some (in_machine E (OpSubRefund g) m))" unfolding e [symmetric] by (rule SubRefund [OF assms(1)])
  then obtain s1 where s1: "db_SubRefund db g s = Some s1" "R s1 (in_machine E (OpSubRefund g) m)"
    by (auto simp: option_rel_Some2)
  then show ?thesis using leads_effect [OF s1(2) effect.sub_refund [OF assms(2) True]] by (simp add: refund_panic_def)
next
  case False
  then have "db_SubRefund db g s = None" using SubRefund [OF assms(1), of g] by (simp add: not_le)
  then show ?thesis by (simp add: refund_panic_def)
qed

lemma leads_read: "R s m \<Longrightarrow> gives R m x r \<Longrightarrow> leads R E ro m (snd r)"
  by (auto simp: gives_def intro: leads_refl)

lemma net_sstore_ok:
  assumes "R s m" "a \<in> addresses" "\<not> ro"
  shows "safe (net_sstore db k a key cur val s)
    (\<lambda>(g, s'). leads R E ro m s' \<and> g \<in> {sc_noop k, sc_init k, sc_clean k, sc_dirty k})"
proof (cases "db_GetCommittedState db a key s")
  case (Pair orig s1)
  have s1: "R s1 m" using GetCommittedState [OF assms(1,2), of key] Pair by (simp add: gives_def)
  have add: "leads R E ro m' (db_AddRefund db g s)" if "R s m'" for s m' g using leads_AddRefund [OF that assms(3)] .
  have add2: "leads R E ro m (db_AddRefund db g s)" if "leads R E ro m s" for s g by (rule leads_bind [OF that add])
  show ?thesis using Pair leads_here [OF s1] leads_here [OF assms(1)] add [OF s1] safe_mono [OF leads_SubRefund [OF s1 assms(3)]]
    by (auto simp: net_sstore_def Let_def add2 split: if_splits)
qed

lemma sstore_gas_ok:
  assumes "evm_db env = db" "R (vm_db vm) m" "frame_ok fr" "1 < length (fr_stack fr)" "\<not> ro"
  shows "safe (gasSStore env fr vm) (\<lambda>r. gas_post InstrSstore 0 fr vm r \<and> leads R E ro m (vm_db (snd (snd r))))"
    "safe (gasSStoreEIP2200 env fr vm) (\<lambda>r. gas_post InstrSstore 0 fr vm r \<and> leads R E ro m (vm_db (snd (snd r))))"
proof -
  let ?a = "c_self (fr_contract fr)" and ?k = "BigToHash (fr_stack fr ! 0)"
  obtain cur s1 where g: "db_GetState db ?a ?k (vm_db vm) = (cur, s1)" by fastforce
  have a: "?a \<in> addresses" and f: "fee_ok (fr_mem fr)" using assms(3) by (simp_all add: frame_ok_def contract_ok_def)
  have s1: "R s1 m" using GetState [OF assms(2) a, of ?k] g by (simp add: gives_def)
  have l: "fr_stack fr \<noteq> []" "Suc 0 < length (fr_stack fr)" using assms(4) by auto
  let ?Q = "\<lambda>r. gas_post InstrSstore 0 fr vm r \<and> leads R E ro m (vm_db (snd (snd r)))"
  have net: "safe (bindp (net_sstore db k ?a ?k cur w s1) (\<lambda>(gas, s2). Inr (Inr gas, fr, vm\<lparr>vm_db := s2\<rparr>))) ?Q"
    if k: "k = costs1283 \<or> k = costs2200" for k w
    unfolding safe_bindp
    by (rule safe_mono [OF net_sstore_ok [OF s1 a assms(5), of k ?k cur w]])
      (use k in \<open>auto simp: costs1283_def costs2200_def gas_post_state [OF f]\<close>)
  note d = assms(1) stack_Back_safe l g gas_post_state [OF f] leads_here [OF s1] leads_AddRefund [OF s1 assms(5)]
  show "safe (gasSStore env fr vm) ?Q" using net [of costs1283] by (simp add: gasSStore_def d)
  show "safe (gasSStoreEIP2200 env fr vm) ?Q"
    using net [of costs2200] by (simp add: gasSStoreEIP2200_def d gas_post_error leads_here [OF assms(2)])
qed

end

lemma gas_post_vm: "gas_post e ms fr (vm\<lparr>vm_db := s\<rparr>) r \<Longrightarrow> gas_post e ms fr vm r"
  by (auto simp: gas_post_def)

lemma reserve_gas_reads:
  assumes "fr_stack fr \<noteq> []" "mem_paid ms (fr_mem fr) m1"
    "e \<in> {InstrCall, InstrCallCode, InstrDelegateCall, InstrStaticCall}"
    "(e = InstrCall \<or> e = InstrCallCode) \<and> fr_stack fr ! 2 \<noteq> 0 \<longrightarrow> 2300 \<le> unat gas" "P s1"
  shows "safe (reserve_gas env gas (fr\<lparr>fr_mem := m1\<rparr>) (vm\<lparr>vm_db := s1\<rparr>)) (\<lambda>r. gas_post e ms fr vm r \<and> P (vm_db (snd (snd r))))"
  by (rule safe_mono [OF reserve_gas_post [OF assms(1-4), of env "vm\<lparr>vm_db := s1\<rparr>"]]) (use assms(5) gas_post_vm in auto)

lemma gas_post_error_state: "gas_post e ms fr vm (Inl er, fr\<lparr>fr_mem := m1\<rparr>, vm\<lparr>vm_db := s\<rparr>)"
  by (auto simp: gas_post_def vm_same)

lemma gas_post_error_state': "gas_post e ms fr vm (Inl er, fr, vm\<lparr>vm_db := s\<rparr>)"
  using fr_same by (simp add: gas_post_def vm_same)

lemma gas_post_error_mem: "gas_post e ms fr vm (Inl er, fr\<lparr>fr_mem := m1\<rparr>, vm)"
  using gas_post_error_state [of e ms fr vm er m1 "vm_db vm"] by simp

lemma vm_db_id: "vm\<lparr>vm_db := vm_db vm\<rparr> = vm"
  by simp

lemma instr_gas_Arith: "instr_gas (Arith a) = (if a = InstrExp then [Some GasExpFrontier, Some GasExpEIP158] else [None])"
  by (cases a) simp_all

lemma gas_instr:
  assumes "Some g \<in> set (instr_gas e)"
  shows "g \<in> {PureMemoryGascost, GasSha3, GasCreate2} \<or> (\<exists>n. g = MemoryCopierGas n) \<Longrightarrow>
      \<not> gas_positive e \<and> \<not> (instr_calls e \<and> e \<noteq> InstrCreate \<and> e \<noteq> InstrCreate2)"
    "g = MemoryCopierGas n \<Longrightarrow> n < fst (instr_stack e)" "g = GasSha3 \<Longrightarrow> 1 < fst (instr_stack e)"
    "g = GasCreate2 \<Longrightarrow> 2 < fst (instr_stack e)" "g = MakeGasLog k \<Longrightarrow> \<exists>n. e = InstrLog n"
    "g = GasSStore \<or> g = GasSStoreEIP2200 \<Longrightarrow> e = InstrSstore" "g = GasExpFrontier \<or> g = GasExpEIP158 \<Longrightarrow> e = Arith InstrExp"
    "g = GasCall \<Longrightarrow> e = InstrCall" "g = GasCallCode \<Longrightarrow> e = InstrCallCode" "g = GasDelegateCall \<Longrightarrow> e = InstrDelegateCall"
    "g = GasStaticCall \<Longrightarrow> e = InstrStaticCall" "g = GasSelfdestruct \<Longrightarrow> e = InstrSuicide"
  using assms by (cases e; auto simp: instr_gas_Arith gas_positive_def instr_calls_def split: if_splits)+

lemma log_keeps: "makeGasLog n ms fr vm = Inr r \<Longrightarrow> snd (snd r) = vm"
  by (cases "uint_gas (fr_stack fr ! 1)") (auto simp: makeGasLog_def stack_Back_def need_def split: prod.splits if_splits)

context vm_state
begin

lemma exist_reads:
  assumes "R s m" "a \<in> addresses"
  shows "R (snd (db_Exist db a s)) m" "R (snd (db_Empty db a s)) m" "R (snd (db_GetBalance db a s)) m" "R (snd (db_HasSuicided db a s)) m"
  using Exist [OF assms] Empty [OF assms] GetBalance [OF assms] HasSuicided [OF assms] by (simp_all add: gives_def)

lemma gasCall_ok:
  assumes "evm_db env = db" "R (vm_db vm) m" "frame_ok fr" "2 < length (fr_stack fr)" "32 dvd unat ms"
  shows "safe (gasCall env ms fr vm) (\<lambda>r. gas_post InstrCall ms fr vm r \<and> leads R E ro m (vm_db (snd (snd r))))"
proof -
  let ?a = "BigToAddress (fr_stack fr ! 1)" and ?tv = "fr_stack fr ! 2 \<noteq> 0"
  let ?new = "if IsEIP158 (chainRules env) then if ?tv then db_Empty (evm_db env) ?a (vm_db vm) else (False, vm_db vm)
    else (case db_Exist (evm_db env) ?a (vm_db vm) of (ex, s) \<Rightarrow> (\<not> ex, s))"
  obtain new s1 where n: "?new = (new, s1)" by fastforce
  have s1: "R s1 m" using n assms(1,2) exist_reads [OF assms(2) BigToAddress_ok, of "fr_stack fr ! 1"] by (auto split: if_splits prod.splits)
  note l1 = leads_here [OF s1]
  have l: "fr_stack fr \<noteq> []" "1 < length (fr_stack fr)" using assms(4) by auto
  let ?gas = "(if new then CallNewAccountGas else 0) + (if ?tv then CallValueTransferGas else 0) :: u64"
  have g: "2300 \<le> unat g" if "add_gas ?gas mg = Inr g" "?tv" for mg g
    using add_gas_ok [OF that(1)] that(2) by (cases new) simp_all
  let ?Q = "\<lambda>r. gas_post InstrCall ms fr vm r \<and> leads R E ro m (vm_db (snd (snd r)))"
  have "safe (case mem_gas ms fr of (Inl e, fr1) \<Rightarrow> Inr (Inl e, fr1, vm\<lparr>vm_db := s1\<rparr>)
      | (Inr memoryGas, fr1) \<Rightarrow> (case add_gas ?gas memoryGas of Inl e \<Rightarrow> Inr (Inl e, fr1, vm\<lparr>vm_db := s1\<rparr>)
          | Inr gas1 \<Rightarrow> reserve_gas env gas1 fr1 (vm\<lparr>vm_db := s1\<rparr>))) ?Q"
  proof (rule mem_gas_cases [OF assms(3,5)])
    fix er assume "mem_gas ms fr = (Inl er, fr)"
    then show ?thesis using l1 by (simp add: gas_post_error_state')
  next
    fix mg m1 assume m: "mem_gas ms fr = (Inr mg, fr\<lparr>fr_mem := m1\<rparr>)" "mem_paid ms (fr_mem fr) m1"
    show ?thesis
    proof (cases "add_gas ?gas mg")
      case (Inr g1)
      then have "safe (reserve_gas env g1 (fr\<lparr>fr_mem := m1\<rparr>) (vm\<lparr>vm_db := s1\<rparr>)) ?Q"
        by (intro reserve_gas_reads [OF l(1) m(2)]) (use g [OF Inr] l1 in auto)
      then show ?thesis using m(1) Inr by (simp only: prod.case sum.case)
    qed (use m(1) l1 in \<open>simp add: gas_post_error_state\<close>)
  qed
  then show ?thesis using assms(4) l(2) n by (simp only: gasCall_def stack_Back_safe Let_def prod.case)
qed

lemma call_gas_ok:
  assumes "evm_db env = db" "R (vm_db vm) m" "frame_ok fr" "32 dvd unat ms"
  shows "2 < length (fr_stack fr) \<Longrightarrow> safe (gasCallCode env ms fr vm) (\<lambda>r. gas_post InstrCallCode ms fr vm r \<and> leads R E ro m (vm_db (snd (snd r))))"
    "0 < length (fr_stack fr) \<Longrightarrow> safe (gasDelegateCall env ms fr vm) (\<lambda>r. gas_post InstrDelegateCall ms fr vm r \<and> leads R E ro m (vm_db (snd (snd r))))"
    "0 < length (fr_stack fr) \<Longrightarrow> safe (gasStaticCall env ms fr vm) (\<lambda>r. gas_post InstrStaticCall ms fr vm r \<and> leads R E ro m (vm_db (snd (snd r))))"
proof -
  note l1 = leads_here [OF assms(2)]
  let ?Q = "\<lambda>e r. gas_post e ms fr vm r \<and> leads R E ro m (vm_db (snd (snd r)))"
  have r: "safe (reserve_gas env g (fr\<lparr>fr_mem := m1\<rparr>) vm) (?Q e)"
    if "fr_stack fr \<noteq> []" "mem_paid ms (fr_mem fr) m1" "e \<in> {InstrCall, InstrCallCode, InstrDelegateCall, InstrStaticCall}"
      "(e = InstrCall \<or> e = InstrCallCode) \<and> fr_stack fr ! 2 \<noteq> 0 \<longrightarrow> 2300 \<le> unat g" for e g m1
    using reserve_gas_reads [OF that, of "leads R E ro m" "vm_db vm" env vm] l1 by simp
  show "safe (gasDelegateCall env ms fr vm) (?Q InstrDelegateCall)" if "0 < length (fr_stack fr)"
    by (rule mem_gas_cases [OF assms(3,4)]) (use that l1 in \<open>simp_all add: gasDelegateCall_def gas_post_error r\<close>)
  show "safe (gasStaticCall env ms fr vm) (?Q InstrStaticCall)" if "0 < length (fr_stack fr)"
    by (rule mem_gas_cases [OF assms(3,4)]) (use that l1 in \<open>simp_all add: gasStaticCall_def gas_post_error r\<close>)
  assume l: "2 < length (fr_stack fr)"
  then have ne: "fr_stack fr \<noteq> []" by auto
  show "safe (gasCallCode env ms fr vm) (?Q InstrCallCode)"
  proof (rule mem_gas_cases [OF assms(3,4)])
    fix er assume "mem_gas ms fr = (Inl er, fr)"
    then show ?thesis using l1 by (simp add: gasCallCode_def gas_post_error)
  next
    fix mg m1 assume m: "mem_gas ms fr = (Inr mg, fr\<lparr>fr_mem := m1\<rparr>)" "mem_paid ms (fr_mem fr) m1"
    let ?gas = "(if fr_stack fr ! 2 \<noteq> 0 then CallValueTransferGas else 0) :: u64"
    show ?thesis
    proof (cases "add_gas ?gas mg")
      case (Inl er)
      then show ?thesis using m(1) l l1 by (simp add: gasCallCode_def stack_Back_safe gas_post_error_mem)
    next
      case (Inr g)
      have "safe (reserve_gas env g (fr\<lparr>fr_mem := m1\<rparr>) vm) (?Q InstrCallCode)"
        by (rule r [OF ne m(2)]) (use add_gas_ok [OF Inr] in \<open>simp_all split: if_splits\<close>)
      then show ?thesis using m(1) l Inr by (simp add: gasCallCode_def stack_Back_safe)
    qed
  qed
qed

lemma gasSelfdestruct_ok:
  assumes "evm_db env = db" "R (vm_db vm) m" "frame_ok fr" "0 < length (fr_stack fr)" "\<not> ro"
  shows "safe (gasSelfdestruct env fr vm) (\<lambda>r. gas_post InstrSuicide 0 fr vm r \<and> leads R E ro m (vm_db (snd (snd r))))"
proof -
  have a: "c_self (fr_contract fr) \<in> addresses" and f: "fee_ok (fr_mem fr)"
    using assms(3) by (simp_all add: frame_ok_def contract_ok_def)
  have p: "gas_post InstrSuicide 0 fr vm (Inr c, fr, vm\<lparr>vm_db := s\<rparr>)" for c s
    by (rule gas_post_state [OF f]) (simp_all add: gas_positive_def)
  have x: "R s m \<Longrightarrow> leads R E ro m (if fst (db_HasSuicided db (c_self (fr_contract fr)) s) then snd (db_HasSuicided db (c_self (fr_contract fr)) s)
      else db_AddRefund db g (snd (db_HasSuicided db (c_self (fr_contract fr)) s)))" for s g
    using exist_reads(4) [OF _ a] leads_AddRefund [OF _ assms(5)] leads_here by simp
  note er = exist_reads [OF assms(2) BigToAddress_ok, of "fr_stack fr ! 0"]
  let ?a = "BigToAddress (fr_stack fr ! 0)" and ?self = "c_self (fr_contract fr)"
  let ?pay = "if IsEIP150 (chainRules env) then
      if IsEIP158 (chainRules env) then
        (case db_Empty (evm_db env) ?a (vm_db vm) of
           (False, s) \<Rightarrow> (SelfdestructGasEIP150, s)
         | (True, s) \<Rightarrow>
             (case db_GetBalance (evm_db env) ?self s of (b, s') \<Rightarrow>
                (SelfdestructGasEIP150 + (if b \<noteq> 0 then CreateBySelfdestructGas else 0), s')))
      else
        (case db_Exist (evm_db env) ?a (vm_db vm) of (ex, s) \<Rightarrow>
           (SelfdestructGasEIP150 + (if \<not> ex then CreateBySelfdestructGas else 0), s))
    else (0, vm_db vm)"
  obtain gas s1 where n: "?pay = (gas, s1)" by fastforce
  have "R s1 m" using n assms(1,2) er exist_reads(3) [OF er(2) a] by (auto split: if_splits prod.splits bool.splits)
  then have l: "leads R E ro m (case db_HasSuicided (evm_db env) ?self s1 of (dead, s2) \<Rightarrow>
      if dead then s2 else db_AddRefund (evm_db env) SelfdestructRefundGas s2)"
    using x [of s1 SelfdestructRefundGas] assms(1) by (simp add: case_prod_beta split: if_splits)
  have ne: "0 < length (fr_stack fr)" using assms(4) .
  show ?thesis using l p n unfolding gasSelfdestruct_def stack_Back_safe [OF ne] Let_def
    by (simp only: prod.case) (simp add: case_prod_beta)
qed

lemma dynamic_gas_ok:
  assumes "evm_db env = db" "R (vm_db vm) m" "frame_ok fr" "fst (instr_stack e) \<le> length (fr_stack fr)"
    "Some g \<in> set (instr_gas e)" "32 dvd unat ms" "instr_memory e = None \<longrightarrow> ms = 0" "instr_writes e \<longrightarrow> \<not> ro"
  shows "safe (dynamic_gas g env ms fr vm) (\<lambda>r. gas_post e ms fr vm r \<and> leads R E ro m (vm_db (snd (snd r))))"
proof -
  let ?Q = "\<lambda>r. gas_post e ms fr vm r \<and> leads R E ro m (vm_db (snd (snd r)))"
  note l = leads_here [OF assms(2)]
  have f: "fee_ok (fr_mem fr)" using assms(3) by (simp add: frame_ok_def)
  have keeps: "snd (snd r) = vm" if "pureMemoryGascost ms fr vm = Inr r \<or> (\<exists>n. memoryCopierGas n ms fr vm = Inr r) \<or> gasSha3 ms fr vm = Inr r
      \<or> gasCreate2 ms fr vm = Inr r \<or> gasExpFrontier fr vm = Inr r \<or> gasExpEIP158 fr vm = Inr r" for r
    using that by (auto simp: pureMemoryGascost_def memoryCopierGas_def gasSha3_def gasCreate2_def gasExpFrontier_def
        gasExpEIP158_def gasExp_def stack_Back_def need_def Let_def split: prod.splits sum.splits if_splits)
  have add: "safe x ?Q" if "safe x (gas_post e ms fr vm)" "\<And>r. x = Inr r \<Longrightarrow> snd (snd r) = vm" for x
    using that l by (cases x) auto
  note mem = memory_gas_ok [OF assms(3,6), of e] and gi = gas_instr [OF assms(5)]
  show ?thesis
  proof (cases g)
    case PureMemoryGascost
    then show ?thesis using gi(1) mem(1) by (auto intro!: add keeps)
  next
    case (MemoryCopierGas n)
    then show ?thesis using gi(1) gi(2) [of n] mem(2) [of n] assms(4) by (auto intro!: add keeps)
  next
    case GasSStore
    then show ?thesis using assms(4,7,8) gi(6) sstore_gas_ok(1) [OF assms(1-3), of ro] by (auto simp: instr_writes_def)
  next
    case GasSStoreEIP2200
    then show ?thesis using assms(4,7,8) gi(6) sstore_gas_ok(2) [OF assms(1-3), of ro] by (auto simp: instr_writes_def)
  next
    case (MakeGasLog n)
    then obtain k where e: "e = InstrLog k" using gi(5) by blast
    then have "safe (makeGasLog n ms fr vm) (gas_post e ms fr vm)" using log_gas_ok [OF assms(3,6)] assms(4) by simp
    from add [OF this log_keeps] show ?thesis by (simp add: MakeGasLog)
  next
    case GasSha3
    then show ?thesis using gi(1) gi(3) mem(3) assms(4) by (auto intro!: add keeps)
  next
    case GasCreate2
    then show ?thesis using gi(1) gi(4) mem(4) assms(4) by (auto intro!: add keeps)
  next
    case GasExpFrontier
    then have "e = Arith InstrExp" using gi(7) by blast
    then have "safe (gasExpFrontier fr vm) (gas_post e ms fr vm)" using exp_gas_ok(1) [OF f] assms(4,7) by simp
    then show ?thesis using GasExpFrontier add keeps by auto
  next
    case GasExpEIP158
    then have "e = Arith InstrExp" using gi(7) by blast
    then have "safe (gasExpEIP158 fr vm) (gas_post e ms fr vm)" using exp_gas_ok(2) [OF f] assms(4,7) by simp
    then show ?thesis using GasExpEIP158 add keeps by auto
  next
    case GasCall
    then show ?thesis using assms(4) gi(8) gasCall_ok [OF assms(1-3) _ assms(6), of ro] by simp
  next
    case GasCallCode
    then show ?thesis using assms(4) gi(9) call_gas_ok(1) [OF assms(1-3,6), of ro] by simp
  next
    case GasDelegateCall
    then have e: "e = InstrDelegateCall" "0 < length (fr_stack fr)" using gi(10) assms(4) by auto
    show ?thesis using call_gas_ok(2) [OF assms(1-3,6) e(2), of ro] GasDelegateCall e(1) by simp
  next
    case GasStaticCall
    then have e: "e = InstrStaticCall" "0 < length (fr_stack fr)" using gi(11) assms(4) by auto
    show ?thesis using call_gas_ok(3) [OF assms(1-3,6) e(2), of ro] GasStaticCall e(1) by simp
  next
    case GasSelfdestruct
    then have e: "e = InstrSuicide" "0 < length (fr_stack fr)" using gi(12) assms(4) by auto
    show ?thesis using gasSelfdestruct_ok [OF assms(1-3) e(2), of ro] assms(7,8) GasSelfdestruct e(1) by (simp add: instr_writes_def)
  qed
qed

end

end
