(* ===== verification/EvmWords.thy ===== *)
theory EvmWords
  imports EvmRun
begin

text \<open>
  The arithmetic instructions (src/core/vm/instructions.go, eips.go) as functions on 256-bit words, and that the
  code, which works on big integers, computes them.
\<close>

section \<open>Arithmetic on words\<close>

text \<open>The arithmetic instructions as functions on 256-bit words, the top of the stack first.\<close>

fun word_op :: "arith_instr \<Rightarrow> 256 word list \<Rightarrow> 256 word" where
  "word_op InstrAdd ws = (ws ! 0) + (ws ! 1)"
| "word_op InstrSub ws = (ws ! 0) - (ws ! 1)"
| "word_op InstrMul ws = (ws ! 0) * (ws ! 1)"
| "word_op InstrDiv ws = (if (ws ! 1) = 0 then 0 else (ws ! 0) div (ws ! 1))"
| "word_op InstrSdiv ws = (if (ws ! 1) = 0 then 0 else word_of_int (sint (ws ! 0) sdiv sint (ws ! 1)))"
| "word_op InstrMod ws = (if (ws ! 1) = 0 then 0 else (ws ! 0) mod (ws ! 1))"
| "word_op InstrSmod ws = (if (ws ! 1) = 0 then 0 else word_of_int (sint (ws ! 0) smod sint (ws ! 1)))"
| "word_op InstrExp ws = (ws ! 0) ^ unat (ws ! 1)"
| "word_op InstrSignExtend ws = (if (ws ! 0) < 31 then word_of_int (signed_take_bit (8 * unat (ws ! 0) + 7) (uint (ws ! 1))) else (ws ! 1))"
| "word_op InstrLt ws = of_bool ((ws ! 0) < (ws ! 1))"
| "word_op InstrGt ws = of_bool ((ws ! 0) > (ws ! 1))"
| "word_op InstrSlt ws = of_bool (sint (ws ! 0) < sint (ws ! 1))"
| "word_op InstrSgt ws = of_bool (sint (ws ! 0) > sint (ws ! 1))"
| "word_op InstrEq ws = of_bool ((ws ! 0) = (ws ! 1))"
| "word_op InstrIszero ws = of_bool ((ws ! 0) = 0)"
| "word_op InstrAnd ws = (ws ! 0) AND (ws ! 1)"
| "word_op InstrOr ws = (ws ! 0) OR (ws ! 1)"
| "word_op InstrXor ws = (ws ! 0) XOR (ws ! 1)"
| "word_op InstrNot ws = NOT (ws ! 0)"
| "word_op InstrByte ws = (if (ws ! 0) < 32 then drop_bit (8 * (31 - unat (ws ! 0))) (ws ! 1) AND 255 else 0)"
| "word_op InstrAddmod ws = (if (ws ! 2) = 0 then 0 else word_of_int ((uint (ws ! 0) + uint (ws ! 1)) mod uint (ws ! 2)))"
| "word_op InstrMulmod ws = (if (ws ! 2) = 0 then 0 else word_of_int ((uint (ws ! 0) * uint (ws ! 1)) mod uint (ws ! 2)))"
| "word_op InstrSHL ws = push_bit (unat (ws ! 0)) (ws ! 1)"
| "word_op InstrSHR ws = drop_bit (unat (ws ! 0)) (ws ! 1)"
| "word_op InstrSAR ws = word_of_int (drop_bit (unat (ws ! 0)) (sint (ws ! 1)))"

lemma bool_int_word: "bool_int b = uint (of_bool b :: 256 word)"
  by (simp add: bool_int_def)

lemmas arith_word_lemmas = ar_Add_word ar_Sub_word ar_Mul_word ar_Div_word ar_Mod_word ar_Sdiv_word ar_Smod_word ar_Exp_word
  ar_cmp_word ar_scmp_word ar_bits_word ar_mod3_word ar_shift_word ar_Byte_word ar_SignExtend_word bool_int_word
  ar_And_def ar_Or_def ar_Xor_def

lemma length2: "length ws = 2 \<Longrightarrow> \<exists>a b. ws = [a, b]" "length ws = 3 \<Longrightarrow> \<exists>a b c. ws = [a, b, c]"
  "length ws = 1 \<Longrightarrow> \<exists>a. ws = [a]"
  by (auto simp: length_Suc_conv numeral_2_eq_2 numeral_3_eq_3)

lemma arith_word:
  assumes "length ws = arith_arity i" "fr_stack fr = map uint ws @ st"
  shows "arith i env rn fr vm = finish (fr\<lparr>fr_stack := uint (word_op i ws) # st\<rparr>) vm"
proof -
  consider a b where "arith_arity i = 2" "ws = [a, b]" | a b c where "arith_arity i = 3" "ws = [a, b, c]" | a where "arith_arity i = 1" "ws = [a]"
    using assms(1) length2 [of ws] by (cases i) auto
  then show ?thesis
  proof cases
    case 1
    then show ?thesis using assms(2) by (cases i) (simp_all add: binop_def arith_word_lemmas)
  next
    case 2
    then show ?thesis using assms(2) by (cases i) (simp_all add: ternop_def arith_word_lemmas)
  next
    case 3
    then show ?thesis using assms(2) by (cases i) (simp_all add: unop_def arith_word_lemmas)
  qed
qed

end
