(* ===== verification/EvmInstrSafe.thy ===== *)
theory EvmInstrSafe
  imports EvmGasSafe EvmWords
begin

text \<open>
  The instructions that do not call (src/core/vm/instructions.go) keep the invariant of a frame: given the stack and the
  memory the interpreter has checked, they do not panic, leave words on the stack and change the state by effects only.
\<close>

section \<open>Instructions keep the invariant\<close>

definition instr_pre :: "executionFunc \<Rightarrow> frame \<Rightarrow> 's vm \<Rightarrow> bool" where
  "instr_pre e fr vm \<longleftrightarrow> frame_ok fr \<and> fst (instr_stack e) \<le> length (fr_stack fr) \<and>
    length (fr_stack fr) + snd (instr_stack e) \<le> 1024 + fst (instr_stack e) \<and> mem_ready e (fr_stack fr) (fr_mem fr) \<and>
    unat (Gas (fr_contract fr)) + budget e (fr_stack fr) vm < 2 ^ 62 \<and> slice_ok (returnData vm) \<and>
    (\<forall>n k. e = InstrPush n k \<longrightarrow> unat (fr_pc fr) < 2 ^ 61 \<and> k \<le> 32) \<and> (\<forall>n. e = InstrDup n \<longrightarrow> 1 \<le> n)"

definition instr_post :: "executionFunc \<Rightarrow> frame \<Rightarrow> 's vm \<Rightarrow> mem_slice \<times> vm_error option \<times> frame \<times> 's vm \<Rightarrow> bool" where
  "instr_post e fr vm r \<longleftrightarrow> (case r of (res, err, fr1, vm1) \<Rightarrow>
     slice_ok res \<and> (err = None \<longrightarrow> frame_ok fr1) \<and>
     (\<exists>g. fr_contract fr1 = (fr_contract fr)\<lparr>Gas := g\<rparr> \<and> unat g \<le> unat (Gas (fr_contract fr)) + budget e (fr_stack fr) vm) \<and>
     vm_depth vm1 = vm_depth vm \<and> readOnly vm1 = readOnly vm \<and> (\<not> instr_calls e \<longrightarrow> returnData vm1 = returnData vm))"

lemma contract_same: "\<exists>g. c = c\<lparr>Gas := g\<rparr> \<and> unat g \<le> unat (Gas c) + n"
  by (rule exI [of _ "Gas c"]) simp

lemma result_post:
  assumes "slice_ok res" "fr_contract fr1 = fr_contract fr" "err = None \<longrightarrow> frame_ok fr1"
  shows "instr_post e fr vm (res, err, fr1, vm)" "instr_post e fr vm (res, err, fr1, vm\<lparr>vm_db := s\<rparr>)"
  using assms contract_same by (auto simp: instr_post_def)

lemma finish_post:
  assumes "fr_contract fr1 = fr_contract fr" "frame_ok fr1"
  shows "safe (finish fr1 vm) (instr_post e fr vm)" "safe (finish fr1 (vm\<lparr>vm_db := s\<rparr>)) (instr_post e fr vm)"
  using result_post [of "Bytes []" fr1 fr None e vm] assms by (simp_all add: finish_def)

lemma frame_ok_stack:
  assumes "frame_ok fr"
  shows "list_all is_word st \<Longrightarrow> length st \<le> 1024 \<Longrightarrow> frame_ok (fr\<lparr>fr_stack := st\<rparr>)"
    "frame_ok (fr\<lparr>fr_pc := pc\<rparr>) = frame_ok fr"
    "mem_ok m \<Longrightarrow> fee_ok m \<Longrightarrow> frame_ok (fr\<lparr>fr_mem := m\<rparr>)"
  using assms by (simp_all add: frame_ok_def)

lemma frame_ok_update:
  assumes "frame_ok fr" "list_all is_word st" "length st \<le> 1024"
  shows "frame_ok (fr\<lparr>fr_stack := st\<rparr>)" "frame_ok (fr\<lparr>fr_pc := pc, fr_stack := st\<rparr>)" "frame_ok (fr\<lparr>fr_stack := st, fr_pc := pc\<rparr>)"
    "mem_ok m \<Longrightarrow> fee_ok m \<Longrightarrow> frame_ok (fr\<lparr>fr_mem := m, fr_stack := st\<rparr>)"
  using assms by (simp_all add: frame_ok_def)

section \<open>Values that are words\<close>

lemma is_word_SetBytes: "length b \<le> 32 \<Longrightarrow> is_word (big_SetBytes b)"
proof -
  assume "length b \<le> 32"
  then have "(256 :: nat) ^ length b \<le> 256 ^ 32" by (intro power_increasing) simp_all
  then have "be_nat b < 256 ^ 32" using be_nat_lt [of b] by linarith
  then have "int (be_nat b) < int (256 ^ 32)" by (simp only: of_nat_less_iff)
  then show ?thesis by (simp add: is_word_def big_SetBytes_def)
qed

lemma is_word_u64 [simp]: "is_word (uint (v :: u64))"
  using uint_lt2p [of v] by (simp add: is_word_def)

lemma is_word_nat: "n < 2 ^ 61 \<Longrightarrow> is_word (int n)"
  by (simp add: is_word_def)

lemma is_word_0 [simp]: "is_word 0" "is_word 1"
  by (simp_all add: is_word_def)

lemma word_uint: "is_word x \<Longrightarrow> \<exists>w :: 256 word. x = uint w"
  by (rule exI [of _ "w256 x"]) (simp add: uint_w256 U256_id)

lemma words_uint: "list_all is_word xs \<Longrightarrow> \<exists>ws :: 256 word list. xs = map uint ws"
proof (induction xs)
  case (Cons x xs)
  then obtain ws where "xs = map uint (ws :: 256 word list)" by auto
  moreover obtain w where "x = uint (w :: 256 word)" using word_uint [of x] Cons.prems by auto
  ultimately have "x # xs = map uint (w # ws)" by simp
  then show ?case by (rule exI [where x = "w # ws"])
qed simp

section \<open>Arithmetic and stack instructions\<close>

lemma arith_ok:
  assumes "instr_pre (Arith i) fr vm"
  shows "safe (arith i env rn fr vm) (instr_post (Arith i) fr vm)"
proof -
  have f: "frame_ok fr" "arith_arity i \<le> length (fr_stack fr)" "length (fr_stack fr) + 1 \<le> 1024 + arith_arity i"
    using assms by (simp_all add: instr_pre_def)
  have w: "list_all is_word (fr_stack fr)" using f(1) by (simp add: frame_ok_def)
  let ?n = "arith_arity i"
  obtain ws where ws: "take ?n (fr_stack fr) = map uint (ws :: 256 word list)"
    using words_uint [of "take ?n (fr_stack fr)"] w by (metis append_take_drop_id list_all_append)
  have l: "length ws = ?n" using ws f(2) by (metis length_map length_take min_absorb2)
  have st: "fr_stack fr = map uint ws @ drop ?n (fr_stack fr)" using ws by (metis append_take_drop_id)
  have d: "list_all is_word (drop ?n (fr_stack fr))" using w by (metis append_take_drop_id list_all_append)
  show ?thesis unfolding arith_word [OF l st]
    by (rule finish_post) (use f d in \<open>auto intro!: frame_ok_stack\<close>)
qed

lemma stack_split:
  assumes "instr_pre e fr vm" "fst (instr_stack e) = n"
  obtains xs st where "fr_stack fr = xs @ st" "length xs = n" "list_all is_word xs" "list_all is_word st" "length st + snd (instr_stack e) \<le> 1024"
proof (rule that)
  show "fr_stack fr = take n (fr_stack fr) @ drop n (fr_stack fr)" by simp
  have "list_all is_word (fr_stack fr)" using assms by (simp add: instr_pre_def frame_ok_def)
  then show "list_all is_word (take n (fr_stack fr))" "list_all is_word (drop n (fr_stack fr))"
    by (metis append_take_drop_id list_all_append)+
qed (use assms in \<open>auto simp: instr_pre_def\<close>)

lemma list_lengths:
  "length xs = 1 \<Longrightarrow> \<exists>a. xs = [a]" "length xs = 2 \<Longrightarrow> \<exists>a b. xs = [a, b]" "length xs = 3 \<Longrightarrow> \<exists>a b c. xs = [a, b, c]"
  "length xs = 4 \<Longrightarrow> \<exists>a b c d. xs = [a, b, c, d]" "length xs = 6 \<Longrightarrow> \<exists>a b c d e f. xs = [a, b, c, d, e, f]"
  "length xs = 7 \<Longrightarrow> \<exists>a b c d e f g. xs = [a, b, c, d, e, f, g]"
  by (auto simp: eval_nat_numeral length_Suc_conv)

lemma stack1:
  assumes "instr_pre e fr vm" "fst (instr_stack e) = 1"
  obtains a st where "fr_stack fr = a # st" "is_word a" "list_all is_word st" "length st + snd (instr_stack e) \<le> 1024"
  by (rule stack_split [OF assms], drule list_lengths(1), elim exE, rule that) auto

lemma stack2:
  assumes "instr_pre e fr vm" "fst (instr_stack e) = 2"
  obtains a b st where "fr_stack fr = a # b # st" "is_word a" "is_word b" "list_all is_word st" "length st + snd (instr_stack e) \<le> 1024"
  by (rule stack_split [OF assms], drule list_lengths(2), elim exE, rule that) auto

lemma stack3:
  assumes "instr_pre e fr vm" "fst (instr_stack e) = 3"
  obtains a b c st where "fr_stack fr = a # b # c # st" "is_word a" "is_word b" "is_word c" "list_all is_word st" "length st + snd (instr_stack e) \<le> 1024"
  by (rule stack_split [OF assms], drule list_lengths(3), elim exE, rule that) auto

lemma stack4:
  assumes "instr_pre e fr vm" "fst (instr_stack e) = 4"
  obtains a b c d st where "fr_stack fr = a # b # c # d # st" "is_word a" "is_word b" "is_word c" "is_word d"
    "list_all is_word st" "length st + snd (instr_stack e) \<le> 1024"
  by (rule stack_split [OF assms], drule list_lengths(4), elim exE, rule that) auto

lemma stack6:
  assumes "instr_pre e fr vm" "fst (instr_stack e) = 6"
  obtains a b c d f g st where "fr_stack fr = a # b # c # d # f # g # st" "is_word c" "is_word d" "is_word f" "is_word g"
    "list_all is_word st" "length st + snd (instr_stack e) \<le> 1024"
  by (rule stack_split [OF assms], drule list_lengths(5), elim exE, rule that) auto

lemma stack7:
  assumes "instr_pre e fr vm" "fst (instr_stack e) = 7"
  obtains a b c d f g h st where "fr_stack fr = a # b # c # d # f # g # h # st" "is_word c" "is_word d" "is_word f" "is_word g" "is_word h"
    "list_all is_word st" "length st + snd (instr_stack e) \<le> 1024"
  by (rule stack_split [OF assms], drule list_lengths(6), elim exE, rule that) auto

lemma pre_frame: "instr_pre e fr vm \<Longrightarrow> frame_ok fr"
  by (simp add: instr_pre_def)

lemma pop_ok:
  assumes "instr_pre InstrPop fr vm"
  shows "safe (opPop env rn fr vm) (instr_post InstrPop fr vm)"
  by (rule stack1 [OF assms]) (auto simp: opPop_def intro!: finish_post frame_ok_stack pre_frame [OF assms])

lemma nth_word: "list_all is_word st \<Longrightarrow> n < length st \<Longrightarrow> is_word (st ! n)"
  by (simp add: list_all_length)

lemma dup_ok: "instr_pre (InstrDup n) fr vm \<Longrightarrow> safe (makeDup n env rn fr vm) (instr_post (InstrDup n) fr vm)"
  by (auto simp: makeDup_def push_def instr_pre_def frame_ok_def [of fr] intro!: finish_post frame_ok_stack nth_word)

lemma list_all_update: "list_all P xs \<Longrightarrow> P x \<Longrightarrow> list_all P (xs[i := x])"
  by (auto simp: list_all_iff dest!: set_update_subset_insert [THEN subsetD])

lemma swap_ok: "instr_pre (InstrSwap n) fr vm \<Longrightarrow> safe (makeSwap n env rn fr vm) (instr_post (InstrSwap n) fr vm)"
proof -
  assume a: "instr_pre (InstrSwap n) fr vm"
  then have "list_all is_word (fr_stack fr)" "n < length (fr_stack fr)" "length (fr_stack fr) \<le> 1024" "frame_ok fr"
    by (auto simp: instr_pre_def frame_ok_def)
  moreover from this have "is_word (fr_stack fr ! n)" "is_word (fr_stack fr ! 0)" by (auto intro!: nth_word)
  ultimately show ?thesis
    by (auto simp: makeSwap_def Let_def intro!: finish_post frame_ok_stack list_all_update)
qed

section \<open>Data and memory\<close>

lemma ready:
  assumes "instr_pre e fr vm" "instr_memory e \<noteq> None" "(off, l) \<in> set (mem_ranges (the (instr_memory e)) (fr_stack fr))"
  shows "covers (fr_mem fr) off l"
  using assms by (auto simp: instr_pre_def mem_ready_def)

lemma unat_big_nat: "0 \<le> x \<Longrightarrow> x < 2 ^ 64 \<Longrightarrow> unat (big_Uint64 x) = nat x"
  using unat_big_small by (metis nat_int)

lemma getDataBig_ok:
  assumes "length data < 2 ^ 61" "0 \<le> start" "0 \<le> sz"
  obtains d where "getDataBig data start sz = Inr d" "sz < 2 ^ 63 \<Longrightarrow> length d = nat sz"
proof -
  let ?n = "int (length data)"
  define s where "s = BigMin start ?n"
  define e where "e = BigMin (s + sz) ?n"
  have n: "?n < 2 ^ 61" using assms(1) by simp
  have s: "0 \<le> s" "s \<le> ?n" using assms(2) by (auto simp: s_def BigMin_def)
  have e: "s \<le> e" "e \<le> ?n" "e - s \<le> sz" using s assms(3) by (auto simp: e_def BigMin_def)
  have us: "unat (big_Uint64 s) = nat s" "unat (big_Uint64 e) = nat e" using s e n by (auto intro!: unat_big_nat)
  let ?d = "take (nat e - nat s) (drop (nat s) data)"
  have sub: "subslice data (nat s) (nat e) = Inr ?d" using s e by (auto simp: subslice_def)
  have len: "length ?d = nat e - nat s" using e s by simp
  have d: "nat e - nat s \<le> nat sz" using e s(1) nat_mono [OF e(3)] by (simp add: nat_diff_distrib)
  have z: "sz < 2 ^ 63 \<Longrightarrow> sint (big_Uint64 sz) = sz"
    using assms(3) by (simp add: big_Uint64_def sint_uint unsigned_of_int take_bit_int_eq_self signed_take_bit_int_eq_self)
  show thesis
  proof (rule that)
    show "getDataBig data start sz = Inr (RightPadBytes ?d (sint (big_Uint64 sz)))"
      by (simp add: getDataBig_def Let_def us sub flip: s_def e_def)
    show "length (RightPadBytes ?d (sint (big_Uint64 sz))) = nat sz" if "sz < 2 ^ 63"
      using z [OF that] len d assms(3) by (simp add: RightPadBytes_def flip: nat_le_iff)
  qed
qed

lemma set_mem_post:
  assumes "frame_ok fr" "covers (fr_mem fr) off l" "list_all is_word st" "length st \<le> 1024"
  shows "safe (set_mem (mem_Set (big_Uint64 off) (big_Uint64 l) d (fr_mem fr)) st fr vm) (instr_post e fr vm)"
    "safe (set_mem (mem_Set (big_Uint64 off) (big_Uint64 l) d (fr_mem fr)) st fr (vm\<lparr>vm_db := s\<rparr>)) (instr_post e fr vm)"
proof -
  have m: "mem_ok (fr_mem fr)" "fee_ok (fr_mem fr)" using assms(1) by (simp_all add: frame_ok_def)
  obtain m1 where "mem_Set (big_Uint64 off) (big_Uint64 l) d (fr_mem fr) = Inr m1" "mem_ok m1" "fee_ok m1"
    using mem_Set_ok [OF m(1) assms(2), of d] m(2) by (metis fee_ok_def)
  then show "safe (set_mem (mem_Set (big_Uint64 off) (big_Uint64 l) d (fr_mem fr)) st fr vm) (instr_post e fr vm)"
    "safe (set_mem (mem_Set (big_Uint64 off) (big_Uint64 l) d (fr_mem fr)) st fr (vm\<lparr>vm_db := s\<rparr>)) (instr_post e fr vm)"
    using assms(1,3,4) by (auto simp: set_mem_def frame_ok_def intro!: finish_post)
qed

lemma pre_contract: "instr_pre e fr vm \<Longrightarrow> contract_ok (fr_contract fr)"
  by (simp add: instr_pre_def frame_ok_def)

lemma is_word_ge: "is_word x \<Longrightarrow> 0 \<le> x"
  by (simp add: is_word_def)

lemma copy_post:
  assumes "instr_pre e fr vm" "covers (fr_mem fr) a c" "length data < 2 ^ 61" "is_word b" "is_word c" "list_all is_word st" "length st \<le> 1024"
  shows "safe (bindp (getDataBig data b c) (\<lambda>d. set_mem (mem_Set (big_Uint64 a) (big_Uint64 c) d (fr_mem fr)) st fr vm)) (instr_post e fr vm)"
    "safe (bindp (getDataBig data b c) (\<lambda>d. set_mem (mem_Set (big_Uint64 a) (big_Uint64 c) d (fr_mem fr)) st fr (vm\<lparr>vm_db := s\<rparr>))) (instr_post e fr vm)"
proof -
  obtain d where "getDataBig data b c = Inr d" using getDataBig_ok [OF assms(3)] assms(4,5) is_word_ge by metis
  then show "safe (bindp (getDataBig data b c) (\<lambda>d. set_mem (mem_Set (big_Uint64 a) (big_Uint64 c) d (fr_mem fr)) st fr vm)) (instr_post e fr vm)"
    "safe (bindp (getDataBig data b c) (\<lambda>d. set_mem (mem_Set (big_Uint64 a) (big_Uint64 c) d (fr_mem fr)) st fr (vm\<lparr>vm_db := s\<rparr>))) (instr_post e fr vm)"
    using set_mem_post [OF pre_frame [OF assms(1)] assms(2,6,7)] by simp_all
qed

lemma CallDataCopy_ok:
  assumes "instr_pre InstrCallDataCopy fr vm"
  shows "safe (opCallDataCopy env rn fr vm) (instr_post InstrCallDataCopy fr vm)"
proof (rule stack3 [OF assms])
  fix a b c st
  assume s: "fr_stack fr = a # b # c # st" "is_word a" "is_word b" "is_word c" "list_all is_word st" "length st + snd (instr_stack InstrCallDataCopy) \<le> 1024"
  have c: "covers (fr_mem fr) a c" by (rule ready [OF assms]) (simp_all add: s(1))
  show ?thesis using copy_post(1) [OF assms c _ s(3-5), of "c_Input (fr_contract fr)"] s(1,6) pre_contract [OF assms]
    by (simp add: opCallDataCopy_def contract_ok_def)
qed simp

lemma CodeCopy_ok:
  assumes "instr_pre InstrCodeCopy fr vm"
  shows "safe (opCodeCopy env rn fr vm) (instr_post InstrCodeCopy fr vm)"
proof (rule stack3 [OF assms])
  fix a b c st
  assume s: "fr_stack fr = a # b # c # st" "is_word a" "is_word b" "is_word c" "list_all is_word st" "length st + snd (instr_stack InstrCodeCopy) \<le> 1024"
  have c: "covers (fr_mem fr) a c" by (rule ready [OF assms]) (simp_all add: s(1))
  show ?thesis using copy_post(1) [OF assms c _ s(3-5), of "Code (fr_contract fr)"] s(1,6) pre_contract [OF assms]
    by (simp add: opCodeCopy_def contract_ok_def)
qed simp

lemma ReturnDataCopy_ok:
  assumes "instr_pre InstrReturnDataCopy fr vm"
  shows "safe (opReturnDataCopy env rn fr vm) (instr_post InstrReturnDataCopy fr vm)"
proof (rule stack3 [OF assms])
  fix a b c st
  assume s: "fr_stack fr = a # b # c # st" "is_word a" "is_word b" "is_word c" "list_all is_word st" "length st + snd (instr_stack InstrReturnDataCopy) \<le> 1024"
  have c: "covers (fr_mem fr) a c" by (rule ready [OF assms]) (simp_all add: s(1))
  let ?d = "deref (fr_mem fr) (returnData vm)"
  have l: "length ?d < 2 ^ 61" using assms deref_length by (simp add: instr_pre_def)
  show ?thesis
  proof (cases "\<not> big_IsUint64 (b + c) \<or> word_of_nat (length ?d) < big_Uint64 (b + c)")
    case True
    then show ?thesis by (simp add: opReturnDataCopy_def s(1) Let_def result_post)
  next
    case False
    have bc: "0 \<le> b" "0 \<le> c" "b + c < 2 ^ 64" using s(3,4) False by (simp_all add: is_word_def big_IsUint64_iff)
    have ul: "unat (word_of_nat (length ?d) :: u64) = length ?d" using l by (simp add: unat_of_nat)
    have u: "unat (big_Uint64 b) = nat b" "unat (big_Uint64 (b + c)) = nat (b + c)" using bc by (auto intro!: unat_big_nat)
    then have "nat b \<le> nat (b + c)" "nat (b + c) \<le> length ?d" using False bc ul by (auto simp: word_less_nat_alt)
    then have "\<exists>d. subslice ?d (unat (big_Uint64 b)) (unat (big_Uint64 (b + c))) = Inr d" using u by (simp add: subslice_def)
    then show ?thesis using False set_mem_post(1) [OF pre_frame [OF assms] c s(5)] s(1,6) by (auto simp: opReturnDataCopy_def Let_def)
  qed
qed simp

section \<open>Memory words, control and halting\<close>

lemma covers_ptr:
  assumes "frame_ok fr" "covers (fr_mem fr) off l"
  obtains sl where "mem_GetPtr (big_Int64 off) (big_Int64 l) (fr_mem fr) = Inr sl" "slice_ok sl" "length (deref (fr_mem fr) sl) \<le> nat l"
proof -
  have m: "mem_ok (fr_mem fr)" using assms(1) by (simp add: frame_ok_def)
  let ?sl = "if l = 0 then Bytes [] else Alias (length (arrays (fr_mem fr)) - 1) (nat off) (nat l)"
  have "slice_ok ?sl"
  proof (cases "l = 0")
    case False
    note c = covers_small [OF m assms(2) False]
    have "store_len (fr_mem fr) \<le> 0x1FFFFFFFE0" using m by (simp add: mem_ok_def)
    then have "nat l < 2 ^ 61" using c by simp
    then show ?thesis by simp
  qed simp
  then show thesis using that [of ?sl] mem_GetPtr_ok [OF m assms(2)] by (simp add: deref_def)
qed

lemma Int64_32 [simp]: "big_Int64 32 = 32"
  by (simp add: big_Int64_def big_Uint64_def)

lemma Mload_ok:
  assumes "instr_pre InstrMload fr vm"
  shows "safe (opMload env rn fr vm) (instr_post InstrMload fr vm)"
proof (rule stack1 [OF assms])
  fix a st
  assume s: "fr_stack fr = a # st" "is_word a" "list_all is_word st" "length st + snd (instr_stack InstrMload) \<le> 1024"
  have c: "covers (fr_mem fr) a 32" by (rule ready [OF assms]) (simp_all add: s(1))
  obtain sl where sl: "mem_GetPtr (big_Int64 a) 32 (fr_mem fr) = Inr sl" "length (deref (fr_mem fr) sl) \<le> 32"
    using covers_ptr [OF pre_frame [OF assms] c] by auto
  show ?thesis
    using s(4) by (auto simp: opMload_def s(1) sl(1) intro!: finish_post frame_ok_stack is_word_SetBytes sl(2) pre_frame [OF assms] s(3))
qed simp

lemma Mstore_ok:
  assumes "instr_pre InstrMstore fr vm"
  shows "safe (opMstore env rn fr vm) (instr_post InstrMstore fr vm)"
proof (rule stack2 [OF assms])
  fix a b st
  assume s: "fr_stack fr = a # b # st" "is_word a" "is_word b" "list_all is_word st" "length st + snd (instr_stack InstrMstore) \<le> 1024"
  have c: "covers (fr_mem fr) a 32" by (rule ready [OF assms]) (simp_all add: s(1))
  have m: "mem_ok (fr_mem fr)" "fee_ok (fr_mem fr)" using pre_frame [OF assms] by (simp_all add: frame_ok_def)
  obtain m1 where m1: "mem_Set32 (big_Uint64 a) b (fr_mem fr) = Inr m1" "mem_ok m1" "fee_ok m1"
    using mem_Set32_ok [OF m(1) c, of b] m(2) by (metis fee_ok_def)
  show ?thesis using pre_frame [OF assms] s(4,5) m1(2,3)
    by (auto simp: opMstore_def set_mem_def s(1) m1(1) frame_ok_def intro!: finish_post)
qed simp

lemma Mstore8_ok:
  assumes "instr_pre InstrMstore8 fr vm"
  shows "safe (opMstore8 env rn fr vm) (instr_post InstrMstore8 fr vm)"
proof (rule stack2 [OF assms])
  fix a b st
  assume s: "fr_stack fr = a # b # st" "is_word a" "is_word b" "list_all is_word st" "length st + snd (instr_stack InstrMstore8) \<le> 1024"
  have c: "covers (fr_mem fr) a 1" by (rule ready [OF assms]) (simp_all add: s(1))
  have m: "mem_ok (fr_mem fr)" "fee_ok (fr_mem fr)" using pre_frame [OF assms] by (simp_all add: frame_ok_def)
  obtain m1 where m1: "mem_Set8 (big_Int64 a) (word_of_int (big_Int64 b AND 0xff)) (fr_mem fr) = Inr m1" "mem_ok m1" "fee_ok m1"
    using mem_Set8_ok [OF m(1) c, of "word_of_int (big_Int64 b AND 0xff)"] m(2) by (metis fee_ok_def)
  show ?thesis using pre_frame [OF assms] s(4,5) m1(2,3)
    by (auto simp: opMstore8_def set_mem_def s(1) m1(1) frame_ok_def intro!: finish_post)
qed simp

lemma Return_ok:
  assumes "instr_pre InstrReturn fr vm"
  shows "safe (opReturn env rn fr vm) (instr_post InstrReturn fr vm)"
proof (rule stack2 [OF assms])
  fix a b st
  assume s: "fr_stack fr = a # b # st" "is_word a" "is_word b" "list_all is_word st" "length st + snd (instr_stack InstrReturn) \<le> 1024"
  have c: "covers (fr_mem fr) a b" by (rule ready [OF assms]) (simp_all add: s(1))
  show ?thesis using s(5)
    by (rule_tac covers_ptr [OF pre_frame [OF assms] c]) (auto simp: opReturn_def s(1) intro!: result_post frame_ok_stack pre_frame [OF assms] s(4))
qed simp

lemma Revert_ok:
  assumes "instr_pre InstrRevert fr vm"
  shows "safe (opRevert env rn fr vm) (instr_post InstrRevert fr vm)"
proof (rule stack2 [OF assms])
  fix a b st
  assume s: "fr_stack fr = a # b # st" "is_word a" "is_word b" "list_all is_word st" "length st + snd (instr_stack InstrRevert) \<le> 1024"
  have c: "covers (fr_mem fr) a b" by (rule ready [OF assms]) (simp_all add: s(1))
  show ?thesis using s(5)
    by (rule_tac covers_ptr [OF pre_frame [OF assms] c]) (auto simp: opRevert_def s(1) intro!: result_post frame_ok_stack pre_frame [OF assms] s(4))
qed simp

lemma plain_ok:
  assumes "instr_pre e fr vm"
  shows "safe (opStop env rn fr vm) (instr_post e fr vm)" "safe (opJumpdest env rn fr vm) (instr_post e fr vm)"
  using pre_frame [OF assms] by (auto simp: opStop_def opJumpdest_def intro!: finish_post)

lemma jump_to_ok:
  assumes "instr_pre e fr vm" "is_word pos" "list_all is_word st" "length st \<le> 1024"
  shows "safe (jump_to pos st fr vm) (instr_post e fr vm)"
proof -
  have "length (Code (fr_contract fr)) < 2 ^ 62" using pre_contract [OF assms(1)] by (simp add: contract_ok_def)
  note v = validJumpdest_ok [OF this is_word_ge [OF assms(2)]]
  show ?thesis unfolding jump_to_def v
    using pre_frame [OF assms(1)] assms(3,4) by (auto split: bool.split intro!: finish_post result_post frame_ok_update)
qed

lemma Jump_ok:
  assumes "instr_pre InstrJump fr vm"
  shows "safe (opJump env rn fr vm) (instr_post InstrJump fr vm)"
  by (rule stack1 [OF assms]) (simp_all add: opJump_def jump_to_ok [OF assms])

lemma Jumpi_ok:
  assumes "instr_pre InstrJumpi fr vm"
  shows "safe (opJumpi env rn fr vm) (instr_post InstrJumpi fr vm)"
  by (rule stack2 [OF assms]) (auto simp: opJumpi_def jump_to_ok [OF assms] intro!: finish_post frame_ok_update pre_frame [OF assms])

lemma uint_byte_word [simp]: "is_word (uint (b :: byte))"
  using uint_lt2p [of b] by (simp add: is_word_def)

lemma Push1_ok:
  assumes "instr_pre InstrPush1 fr vm"
  shows "safe (opPush1 env rn fr vm) (instr_post InstrPush1 fr vm)"
  using pre_frame [OF assms] assms
  by (auto simp: opPush1_def Let_def instr_pre_def intro!: finish_post frame_ok_update) (auto simp: frame_ok_def)

lemma sint_pc: "unat (pc :: u64) < 2 ^ 61 \<Longrightarrow> sint (pc + 1) = int (unat pc) + 1"
proof -
  assume a: "unat pc < 2 ^ 61"
  then have "unat (pc + 1) = unat pc + 1" by (simp add: unat_word_ariths)
  then have "uint (pc + 1) = int (unat pc) + 1" by (metis of_nat_1 of_nat_add of_nat_unat)
  moreover have "uint pc < 2 ^ 61" by (metis a of_nat_less_iff of_nat_numeral of_nat_power of_nat_unat)
  ultimately show ?thesis using uint_ge_0 [of pc] by (simp add: sint_uint signed_take_bit_int_eq_self)
qed

lemma Push_ok:
  assumes "instr_pre (InstrPush sz k) fr vm"
  shows "safe (makePush sz k env rn fr vm) (instr_post (InstrPush sz k) fr vm)"
proof -
  let ?code = "Code (fr_contract fr)"
  let ?n = "int (length ?code)"
  have pc: "unat (fr_pc fr) < 2 ^ 61" "k \<le> 32" using assms by (simp_all add: instr_pre_def)
  have len: "length (fr_stack fr) + 1 \<le> 1024" "list_all is_word (fr_stack fr)" using assms by (simp_all add: instr_pre_def frame_ok_def)
  define a where "a = (if sint (fr_pc fr + 1) < ?n then sint (fr_pc fr + 1) else ?n)"
  define b where "b = (if a + int k < ?n then a + int k else ?n)"
  have a: "0 \<le> a" "a \<le> ?n" using sint_pc [OF pc(1)] by (simp_all add: a_def)
  have b: "a \<le> b" "b \<le> ?n" "b \<le> a + int k" using a by (simp_all add: b_def)
  let ?d = "take (nat b - nat a) (drop (nat a) ?code)"
  have sub: "subslice ?code (nat a) (nat b) = Inr ?d" using a b by (auto simp: subslice_def)
  have "nat b - nat a \<le> k" using a b by linarith
  then have "length ?d \<le> k" by simp
  then have "length (RightPadBytes ?d (int k)) \<le> 32" using pc(2) by (auto simp: RightPadBytes_def)
  then have w: "is_word (big_SetBytes (RightPadBytes ?d (int k)))" by (rule is_word_SetBytes)
  have e: "makePush sz k env rn fr vm =
      finish (fr\<lparr>fr_pc := fr_pc fr + sz, fr_stack := big_SetBytes (RightPadBytes ?d (int k)) # fr_stack fr\<rparr>) vm"
    using a(1) sub unfolding makePush_def Let_def a_def [symmetric] b_def [symmetric] by simp
  show ?thesis unfolding e using w len by (intro finish_post frame_ok_update pre_frame [OF assms]) simp_all
qed

section \<open>Instructions without access to the state\<close>

lemma bindp_Inr: "bindp x f = Inr y \<longleftrightarrow> (\<exists>a. x = Inr a \<and> f a = Inr y)"
  by (cases x) simp_all

definition pure_instr :: "executionFunc \<Rightarrow> bool" where
  "pure_instr e \<longleftrightarrow> (\<exists>a. e = Arith a) \<or> (\<exists>n k. e = InstrPush n k) \<or> (\<exists>n. e = InstrDup n) \<or> (\<exists>n. e = InstrSwap n) \<or>
    e \<in> {InstrReturnDataCopy, InstrRevert, InstrStop, InstrCallDataCopy, InstrCodeCopy, InstrPop, InstrMload, InstrMstore,
      InstrMstore8, InstrJump, InstrJumpi, InstrJumpdest, InstrPush1, InstrReturn}"

lemma pure_ok:
  assumes "pure_instr e" "instr_pre e fr vm"
  shows "safe (execute e env rn fr vm) (instr_post e fr vm)"
  using assms unfolding pure_instr_def
  by (elim disjE exE insertE emptyE; simp only: execute.simps)
    (simp_all add: arith_ok Push_ok dup_ok swap_ok ReturnDataCopy_ok Revert_ok plain_ok CallDataCopy_ok CodeCopy_ok
      pop_ok Mload_ok Mstore_ok Mstore8_ok Jump_ok Jumpi_ok Push1_ok Return_ok)

lemmas instr_result_splits = list.splits prod.splits if_splits sum.splits option.splits bool.splits

lemma arith_keeps: "arith a env rn fr vm = Inr r \<Longrightarrow> snd (snd (snd r)) = vm"
  by (cases a) (auto simp: unop_def binop_def ternop_def finish_def split: list.splits)

lemma pure_keeps:
  assumes "pure_instr e" "execute e env rn fr vm = Inr r"
  shows "snd (snd (snd r)) = vm"
proof -
  note d = opReturnDataCopy_def opRevert_def opStop_def opCallDataCopy_def opCodeCopy_def opPop_def opMload_def opMstore_def
    opMstore8_def opJump_def opJumpi_def jump_to_def opJumpdest_def opPush1_def opReturn_def makePush_def makeDup_def makeSwap_def
    set_mem_def push_def finish_def bindp_Inr Let_def
  show ?thesis using assms unfolding pure_instr_def
    by (elim disjE exE insertE emptyE; simp) (auto simp: d arith_keeps split: list.splits if_splits option.splits bool.splits)
qed

section \<open>Instructions that read the environment\<close>

definition state_post ::
  "('s \<Rightarrow> machine \<Rightarrow> bool) \<Rightarrow> 't backend \<Rightarrow> bool \<Rightarrow> machine \<Rightarrow> executionFunc \<Rightarrow> frame \<Rightarrow> 's vm \<Rightarrow> mem_slice \<times> vm_error option \<times> frame \<times> 's vm \<Rightarrow> bool" where
  "state_post R E ro m e fr vm r \<longleftrightarrow> instr_post e fr vm r \<and> leads R E ro m (vm_db (snd (snd (snd r))))"

lemma is_word_length: "length b < 2 ^ 61 \<Longrightarrow> is_word (int (length b))"
  by (rule is_word_nat)

lemma address_word: "a \<in> addresses \<Longrightarrow> is_word (big_SetBytes a)" "length h = HashLength \<Longrightarrow> is_word (big_SetBytes h)"
  by (auto intro!: is_word_SetBytes simp: AddressLength_def HashLength_def)

context vm_state
begin

lemma finish_state:
  assumes "fr_contract fr1 = fr_contract fr" "frame_ok fr1" "leads R E ro m s"
  shows "safe (finish fr1 (vm\<lparr>vm_db := s\<rparr>)) (state_post R E ro m e fr vm)"
  using finish_post(2) [OF assms(1,2), where vm = vm and s = s and e = e] assms(3) by (simp add: finish_def state_post_def)

lemma finish_same:
  assumes "fr_contract fr1 = fr_contract fr" "frame_ok fr1" "R (vm_db vm) m"
  shows "safe (finish fr1 vm) (state_post R E ro m e fr vm)"
  using finish_state [OF assms(1,2) leads_here [OF assms(3)], where vm = vm and ro = ro and e = e] by simp

lemma pure_state:
  assumes "pure_instr e" "instr_pre e fr vm" "R (vm_db vm) m"
  shows "safe (execute e env rn fr vm) (state_post R E ro m e fr vm)"
  using pure_ok [OF assms(1,2), of env rn] pure_keeps [OF assms(1), of env rn fr vm] leads_here [OF assms(3)]
  by (cases "execute e env rn fr vm") (auto simp: state_post_def)

lemma push_state:
  assumes "instr_pre (Environ i) fr vm" "environ_arity i = 0" "is_word x" "R s m"
  shows "safe (push x fr (vm\<lparr>vm_db := s\<rparr>)) (state_post R E ro m (Environ i) fr vm)"
  unfolding push_def
  by (rule finish_state) (use assms leads_here in \<open>auto simp: instr_pre_def frame_ok_def\<close>)

lemma push_same:
  assumes "instr_pre (Environ i) fr vm" "environ_arity i = 0" "is_word x" "R (vm_db vm) m"
  shows "safe (push x fr vm) (state_post R E ro m (Environ i) fr vm)"
  using push_state [OF assms(1-3,4)] by simp

lemma environ0_ok:
  assumes "env_ok E env" "evm_db env = db" "R (vm_db vm) m" "spec_ok (m_cur m)" "instr_pre (Environ i) fr vm" "environ_arity i = 0"
  shows "safe (environ i env rn fr vm) (state_post R E ro m (Environ i) fr vm)"
proof -
  have c: "contract_ok (fr_contract fr)" and d: "slice_ok (returnData vm)" and mo: "mem_ok (fr_mem fr)"
    using assms(5) by (simp_all add: instr_pre_def frame_ok_def)
  define Q where "Q = state_post R E ro m (Environ i) fr vm"
  note p = push_same [OF assms(5,6) _ assms(3), where ro = ro, folded Q_def]
  have self: "c_self (fr_contract fr) \<in> addresses" using c by (simp add: contract_ok_def)
  note b = GetBalance [OF assms(3) self]
  have sb: "safe (opSelfBalance env rn fr vm) Q"
    using b push_state [OF assms(5,6), of "sp_balance (m_cur m) (c_self (fr_contract fr))", where ro = ro] balance_ok [OF assms(4)] assms(2)
    by (auto simp: opSelfBalance_def gives_def is_word_def case_prod_beta Q_def)
  have ms: "is_word (int (store_len (fr_mem fr)))" using mo by (simp add: mem_ok_def is_word_def)
  have w: "is_word (big_SetBytes (c_self (fr_contract fr)))" "is_word (big_SetBytes (CallerAddress (fr_contract fr)))"
    "is_word (c_value (fr_contract fr))" "is_word (int (length (c_Input (fr_contract fr))))" "is_word (int (length (Code (fr_contract fr))))"
    "is_word (big_SetBytes (ctx_Origin (evm_ctx env)))" "is_word (big_SetBytes (ctx_Coinbase (evm_ctx env)))" "is_word (ctx_GasPrice (evm_ctx env))"
    "is_word (int (length (deref (fr_mem fr) (returnData vm))))"
    using c assms(1) deref_length [OF d] by (auto simp: contract_ok_def env_ok_def intro!: address_word(1) is_word_length)
  obtain ci where ci: "evm_ChainID env = Some ci" "is_word ci" using assms(1) by (auto simp: env_ok_def)
  show ?thesis using assms(6) sb unfolding Q_def [symmetric]
    by (cases i) (simp_all add: environ_arity_def opAddress_def opOrigin_def opCaller_def opCallValue_def opCallDataSize_def
        opReturnDataSize_def opCodeSize_def opGasprice_def opCoinbase_def opTimestamp_def opNumber_def opDifficulty_def
        opGasLimit_def opChainID_def ci opPc_def opMsize_def opGas_def p w ms)
qed

end

lemma code_ok: "spec_ok sp \<Longrightarrow> length (nil_slice (sp_code sp a)) < 2 ^ 61"
  by (auto simp: sp_code_def spec_ok_def accts_ok_def acct_ok_def sp_get_def nil_slice_def split: option.splits if_splits)

lemma state_ok: "spec_ok sp \<Longrightarrow> length (sp_state sp a k) = HashLength"
  by (auto simp: sp_state_def spec_ok_def accts_ok_def acct_ok_def sp_get_def zero_hash_def split: option.splits if_splits)

lemma safe_state:
  assumes "safe x (instr_post e fr vm)" "\<And>r. x = Inr r \<Longrightarrow> leads R E ro m (vm_db (snd (snd (snd r))))"
  shows "safe x (state_post R E ro m e fr vm)"
  using assms by (cases x) (simp_all add: state_post_def)

context vm_state
begin

lemma environ1_ok:
  assumes "env_ok E env" "evm_db env = db" "R (vm_db vm) m" "spec_ok (m_cur m)" "instr_pre (Environ i) fr vm" "environ_arity i = 1"
  shows "safe (environ i env rn fr vm) (state_post R E ro m (Environ i) fr vm)"
proof (rule stack1 [OF assms(5)])
  fix x st
  assume s: "fr_stack fr = x # st" "is_word x" "list_all is_word st" "length st + snd (instr_stack (Environ i)) \<le> 1024"
  define Q where "Q = state_post R E ro m (Environ i) fr vm"
  let ?a = "BigToAddress x"
  have fo: "frame_ok (fr\<lparr>fr_stack := v # st\<rparr>)" if "is_word v" for v using pre_frame [OF assms(5)] s(3,4) that by (auto simp: frame_ok_def)
  have f: "safe (finish (fr\<lparr>fr_stack := v # st\<rparr>) (vm\<lparr>vm_db := s1\<rparr>)) Q" if "is_word v" "R s1 m" for v s1
    unfolding Q_def by (rule finish_state [OF _ fo [OF that(1)] leads_here [OF that(2)]]) simp
  have f0: "safe (finish (fr\<lparr>fr_stack := v # st\<rparr>) vm) Q" if "is_word v" for v using f [OF that assms(3)] by simp
  have c: "contract_ok (fr_contract fr)" using pre_contract [OF assms(5)] .
  obtain d where d: "getDataBig (c_Input (fr_contract fr)) x 32 = Inr d" "length d = nat 32"
    using getDataBig_ok [of "c_Input (fr_contract fr)" x 32] c is_word_ge [OF s(2)] by (auto simp: contract_ok_def)
  have bal: "gives R m (sp_balance (m_cur m) ?a) (db_GetBalance db ?a (vm_db vm))" by (rule GetBalance [OF assms(3)]) simp
  have sz: "R (snd (db_GetCodeSize db ?a (vm_db vm))) m" by (rule GetCodeSize [OF assms(3)]) simp
  have em: "R (snd (db_Empty db ?a (vm_db vm))) m" using Empty [OF assms(3), of ?a] by (simp add: gives_def)
  have ch: "gives R m (sp_codehash (m_cur m) ?a) (db_GetCodeHash db ?a (snd (db_Empty db ?a (vm_db vm))))" by (rule GetCodeHash [OF em]) simp
  have wh: "is_word (big_SetBytes (sp_codehash (m_cur m) ?a))"
    by (rule address_word(2)) (simp add: sp_codehash_def zero_hash_def split: option.split)
  have wb: "is_word (big_SetBytes (ctx_GetHash (evm_ctx env) n))" for n using assms(1) by (intro address_word(2)) (simp add: env_ok_def)
  have ww: "is_word (sp_balance (m_cur m) ?a)" using balance_ok [OF assms(4)] by (simp add: is_word_def)
  have wd: "is_word (big_SetBytes d)" using d(2) by (intro is_word_SetBytes) simp
  have "safe (opExtCodeHash env rn fr vm) Q"
    using f [OF _ em] f [OF wh] ch assms(2) s(1)
    by (cases "fst (db_Empty db ?a (vm_db vm))") (auto simp: opExtCodeHash_def gives_def case_prod_beta)
  moreover have "safe (opBalance env rn fr vm) Q" using bal f [OF ww] assms(2) s(1) by (auto simp: opBalance_def gives_def case_prod_beta)
  moreover have "safe (opExtCodeSize env rn fr vm) Q" using f [OF _ sz] assms(2) s(1) by (auto simp: opExtCodeSize_def case_prod_beta)
  moreover have "safe (opBlockhash env rn fr vm) Q" using f0 wb s(1) by (auto simp: opBlockhash_def Let_def)
  moreover have "safe (opCallDataLoad env rn fr vm) Q" using f0 [OF wd] d(1) s(1) by (auto simp: opCallDataLoad_def)
  ultimately show ?thesis using assms(6) unfolding Q_def [symmetric] by (cases i) (simp_all add: environ_arity_def)
qed (simp add: assms(6))

lemma ExtCodeCopy_ok:
  assumes "evm_db env = db" "R (vm_db vm) m" "spec_ok (m_cur m)" "instr_pre InstrExtCodeCopy fr vm"
  shows "safe (opExtCodeCopy env rn fr vm) (state_post R E ro m InstrExtCodeCopy fr vm)"
proof (rule stack4 [OF assms(4)])
  fix x a b c st
  assume s: "fr_stack fr = x # a # b # c # st" "is_word x" "is_word a" "is_word b" "is_word c" "list_all is_word st"
    "length st + snd (instr_stack InstrExtCodeCopy) \<le> 1024"
  have cv: "covers (fr_mem fr) a c" by (rule ready [OF assms(4)]) (simp_all add: s(1))
  obtain code s1 where g: "db_GetCode db (BigToAddress x) (vm_db vm) = (code, s1)" by fastforce
  have g1: "code = sp_code (m_cur m) (BigToAddress x)" "R s1 m" using GetCode [OF assms(2), of "BigToAddress x"] g by (simp_all add: gives_def)
  have l: "length (nil_slice code) < 2 ^ 61" using g1(1) code_ok [OF assms(3)] by simp
  note p = copy_post(2) [OF assms(4) cv l s(4-6), where s = s1]
  have e: "opExtCodeCopy env rn fr vm =
      bindp (getDataBig (nil_slice code) b c) (\<lambda>d. set_mem (mem_Set (big_Uint64 a) (big_Uint64 c) d (fr_mem fr)) st fr (vm\<lparr>vm_db := s1\<rparr>))"
    using s(1) g assms(1) by (simp add: opExtCodeCopy_def)
  have "vm_db (snd (snd (snd r))) = s1" if "opExtCodeCopy env rn fr vm = Inr r" for r
    using that by (auto simp: e set_mem_def finish_def bindp_Inr)
  moreover have "safe (opExtCodeCopy env rn fr vm) (instr_post InstrExtCodeCopy fr vm)" unfolding e by (rule p) (use s(7) in simp)
  ultimately show ?thesis using leads_here [OF g1(2)] by (intro safe_state) auto
qed simp

lemma Sha3_ok:
  assumes "env_ok E env" "evm_db env = db" "R (vm_db vm) m" "instr_pre InstrSha3 fr vm"
  shows "safe (opSha3 env rn fr vm) (state_post R E ro m InstrSha3 fr vm)"
proof (rule stack2 [OF assms(4)])
  fix a b st
  assume s: "fr_stack fr = a # b # st" "is_word a" "is_word b" "list_all is_word st" "length st + snd (instr_stack InstrSha3) \<le> 1024"
  have c: "covers (fr_mem fr) a b" by (rule ready [OF assms(4)]) (simp_all add: s(1))
  obtain sl where sl: "mem_GetPtr (big_Int64 a) (big_Int64 b) (fr_mem fr) = Inr sl" by (rule covers_ptr [OF pre_frame [OF assms(4)] c])
  let ?d = "deref (fr_mem fr) sl"
  let ?h = "BytesToHash (evm_keccak env ?d)"
  have w: "is_word (big_SetBytes ?h)" by (rule address_word(2)) simp
  have f: "frame_ok (fr\<lparr>fr_stack := big_SetBytes ?h # st\<rparr>)" using pre_frame [OF assms(4)] s(4,5) w by (auto simp: frame_ok_def)
  have p: "leads R E ro m (db_AddPreimage db ?h ?d (vm_db vm))" by (rule leads_effect [OF AddPreimage [OF assms(3)] effect.preimage])
  show ?thesis
    using finish_state [OF _ f p, where vm = vm and e = InstrSha3] finish_same [OF _ f assms(3), where ro = ro and e = InstrSha3] assms(2)
    by (simp add: opSha3_def s(1) sl Let_def)
qed simp

lemma Sload_ok:
  assumes "evm_db env = db" "R (vm_db vm) m" "spec_ok (m_cur m)" "instr_pre InstrSload fr vm"
  shows "safe (opSload env rn fr vm) (state_post R E ro m InstrSload fr vm)"
proof (rule stack1 [OF assms(4)])
  fix k st
  assume s: "fr_stack fr = k # st" "is_word k" "list_all is_word st" "length st + snd (instr_stack InstrSload) \<le> 1024"
  let ?a = "c_self (fr_contract fr)"
  have a: "?a \<in> addresses" using pre_contract [OF assms(4)] by (simp add: contract_ok_def)
  note g = GetState [OF assms(2) a, of "BigToHash k"]
  have w: "is_word (big_SetBytes (sp_state (m_cur m) ?a (BigToHash k)))" by (rule address_word(2)) (rule state_ok [OF assms(3)])
  have f: "frame_ok (fr\<lparr>fr_stack := big_SetBytes (sp_state (m_cur m) ?a (BigToHash k)) # st\<rparr>)"
    using pre_frame [OF assms(4)] s(3,4) w by (auto simp: frame_ok_def)
  show ?thesis using g finish_state [OF _ f leads_here, where vm = vm and e = InstrSload and m = m and ro = ro] assms(1)
    by (auto simp: opSload_def s(1) gives_def case_prod_beta)
qed simp

lemma Sstore_ok:
  assumes "evm_db env = db" "R (vm_db vm) m" "\<not> ro" "instr_pre InstrSstore fr vm"
  shows "safe (opSstore env rn fr vm) (state_post R E ro m InstrSstore fr vm)"
proof (rule stack2 [OF assms(4)])
  fix k v st
  assume s: "fr_stack fr = k # v # st" "is_word k" "is_word v" "list_all is_word st" "length st + snd (instr_stack InstrSstore) \<le> 1024"
  let ?a = "c_self (fr_contract fr)"
  have a: "?a \<in> addresses" using pre_contract [OF assms(4)] by (simp add: contract_ok_def)
  have f: "frame_ok (fr\<lparr>fr_stack := st\<rparr>)" using pre_frame [OF assms(4)] s(4,5) by (auto simp: frame_ok_def)
  have l: "leads R E ro m (db_SetState db ?a (BigToHash k) (BigToHash v) (vm_db vm))"
    by (rule leads_effect [OF SetState [OF assms(2) a] effect.storage [OF assms(3) a]]) simp
  show ?thesis using finish_state [OF _ f l, where vm = vm and e = InstrSstore] assms(1) by (simp add: opSstore_def s(1))
qed simp

lemma Log_ok:
  assumes "evm_db env = db" "R (vm_db vm) m" "\<not> ro" "instr_pre (InstrLog n) fr vm"
  shows "safe (makeLog n env rn fr vm) (state_post R E ro m (InstrLog n) fr vm)"
proof -
  have l: "n + 2 \<le> length (fr_stack fr)" "list_all is_word (fr_stack fr)" "length (fr_stack fr) \<le> 1024"
    using assms(4) by (auto simp: instr_pre_def frame_ok_def)
  then obtain a b st where s: "fr_stack fr = a # b # st" "n \<le> length st"
    by (cases "fr_stack fr" rule: remdups_adj.cases) auto
  have st: "list_all is_word (drop n st)" "length (drop n st) \<le> 1024" using l s by (auto simp: list_all_iff dest: in_set_dropD)
  have c: "covers (fr_mem fr) a b" by (rule ready [OF assms(4)]) (simp_all add: s(1))
  have mo: "mem_ok (fr_mem fr)" using pre_frame [OF assms(4)] by (simp add: frame_ok_def)
  have f: "frame_ok (fr\<lparr>fr_stack := drop n st\<rparr>)" using pre_frame [OF assms(4)] st by (auto simp: frame_ok_def)
  have ld: "leads R E ro m (db_AddLog db lg (vm_db vm))" for lg by (rule leads_effect [OF AddLog [OF assms(2)] effect.log [OF assms(3)]])
  show ?thesis using finish_state [OF _ f ld, where vm = vm and e = "InstrLog n"] assms(1) s(2)
    by (simp add: makeLog_def s(1) mem_GetCopy_ok [OF mo c])
qed

lemma Suicide_ok:
  assumes "evm_db env = db" "R (vm_db vm) m" "\<not> ro" "instr_pre InstrSuicide fr vm"
  shows "safe (opSuicide env rn fr vm) (state_post R E ro m InstrSuicide fr vm)"
proof (rule stack1 [OF assms(4)])
  fix x st
  assume s: "fr_stack fr = x # st" "is_word x" "list_all is_word st" "length st + snd (instr_stack InstrSuicide) \<le> 1024"
  let ?a = "c_self (fr_contract fr)" and ?b = "BigToAddress x"
  have a: "?a \<in> addresses" using pre_contract [OF assms(4)] by (simp add: contract_ok_def)
  have f: "frame_ok (fr\<lparr>fr_stack := st\<rparr>)" using pre_frame [OF assms(4)] s(3,4) by (auto simp: frame_ok_def)
  obtain s1 where g: "db_GetBalance db ?a (vm_db vm) = (sp_balance (m_cur m) ?a, s1)" "R s1 m"
    using GetBalance [OF assms(2) a] by (cases "db_GetBalance db ?a (vm_db vm)") (simp add: gives_def)
  have r: "R (snd (db_Suicide db ?a (db_AddBalance db ?b (sp_balance (m_cur m) ?a) s1)))
      (in_machine E (OpSuicide ?a) (in_machine E (OpAddBalance ?b (sp_balance (m_cur m) ?a)) m))"
    by (rule Suicide [OF AddBalance [OF g(2) BigToAddress_ok] a])
  have l: "leads R E ro m (snd (db_Suicide db ?a (db_AddBalance db ?b (sp_balance (m_cur m) ?a) s1)))"
    by (rule leads_effect [OF _ effect.suicide [OF assms(3) a BigToAddress_ok]]) (use r in simp)
  show ?thesis using finish_state [OF _ f l, where vm = vm and e = InstrSuicide] assms(1) g(1) by (simp add: opSuicide_def s(1))
qed simp

end

end
