(* ===== verification/EvmNativeSafe.thy ===== *)
theory EvmNativeSafe
  imports EvmInstrSafe
begin

text \<open>
  The precompiled contracts (src/core/vm/contracts.go) do not panic on any input, return results of bounded length and
  use no more gas than they get. For modular exponentiation the gas price bounds the lengths it works with.
\<close>

section \<open>Precompiled contracts\<close>

lemma sint_small: "unat (w :: u64) < 2 ^ 63 \<Longrightarrow> sint w = int (unat w)"
proof -
  assume "unat w < 2 ^ 63"
  then have "uint w < 2 ^ 63" by (metis of_nat_less_iff of_nat_numeral of_nat_power of_nat_unat)
  moreover have "- (2 ^ 63) \<le> uint w" by (rule order_trans [OF _ uint_ge_0]) simp
  ultimately show ?thesis by (simp add: sint_uint signed_take_bit_int_eq_self)
qed

lemma RightPad_length: "length d \<le> n \<Longrightarrow> length (RightPadBytes d (int n)) = n"
  by (simp add: RightPadBytes_def)

lemma getData_ok:
  assumes "length data < 2 ^ 61" "unat sz < 2 ^ 64 - 2 ^ 61"
  shows "\<exists>d. getData data start sz = Inr d \<and> (unat sz < 2 ^ 63 \<longrightarrow> length d = unat sz)"
proof -
  let ?n = "word_of_nat (length data) :: u64"
  have n: "unat ?n = length data" using assms(1) by (simp add: unat_of_nat)
  define s where "s = (if start > ?n then ?n else start)"
  define e where "e = (if s + sz > ?n then ?n else s + sz)"
  have s: "unat s \<le> length data" using n by (auto simp: s_def word_less_nat_alt)
  have "unat s + unat sz < 2 ^ 64" using s assms by linarith
  then have p: "unat (s + sz) = unat s + unat sz" by (simp add: unat_word_ariths)
  have e: "unat s \<le> unat e" "unat e \<le> length data" "unat e - unat s \<le> unat sz" using s p n by (auto simp: e_def word_less_nat_alt)
  let ?d = "take (unat e - unat s) (drop (unat s) data)"
  have sub: "subslice data (unat s) (unat e) = Inr ?d" using e by (simp add: subslice_def)
  have z: "unat sz < 2 ^ 63 \<Longrightarrow> sint sz = int (unat sz)" by (rule sint_small)
  have "getData data start sz = Inr (RightPadBytes ?d (sint sz))"
    unfolding getData_def Let_def s_def [symmetric] e_def [symmetric] by (simp add: sub)
  moreover have "length (RightPadBytes ?d (sint sz)) = unat sz" if "unat sz < 2 ^ 63"
    unfolding z [OF that] by (rule RightPad_length) (use e in simp)
  ultimately show ?thesis by blast
qed

lemma modexp_cost:
  assumes "0 \<le> x" "0 \<le> (adj :: int)"
    and f: "f = (if x \<le> 64 then x * x else if x \<le> 1024 then x * x div 4 + (96 * x - 3072) else x * x div 16 + (480 * x - 199680))"
    and g: "f * BigMax adj 1 div 20 < 2 ^ 62"
  shows "x < 2 ^ 37" "x = 0 \<or> adj < 20 * 2 ^ 62"
proof -
  have f1: "1 \<le> f" if "1 \<le> x"
  proof -
    have "0 \<le> x * x div 4" "0 \<le> x * x div 16" using assms(1) by (simp_all add: pos_imp_zdiv_nonneg_iff)
    then show ?thesis using that mult_mono [of 1 x 1 x] by (auto simp: f)
  qed
  have m: "1 \<le> BigMax adj 1" "adj \<le> BigMax adj 1" by (simp_all add: BigMax_def)
  show "x < 2 ^ 37"
  proof (rule ccontr)
    assume "\<not> x < 2 ^ 37"
    then have x: "2 ^ 37 \<le> x" by simp
    have "(2 :: int) ^ 37 * 2 ^ 37 \<le> x * x" using x by (intro mult_mono) simp_all
    then have "2 ^ 37 * 2 ^ 37 div 16 \<le> x * x div 16" by (intro zdiv_mono1) simp_all
    then have "2 ^ 70 \<le> f" using x by (simp add: f)
    then have "2 ^ 70 * 1 \<le> f * BigMax adj 1" using m by (intro mult_mono) simp_all
    then have "2 ^ 70 div 20 \<le> f * BigMax adj 1 div 20" by (intro zdiv_mono1) simp_all
    then show False using g by simp
  qed
  show "x = 0 \<or> adj < 20 * 2 ^ 62"
  proof (cases "x = 0")
    case False
    then have "1 * adj \<le> f * BigMax adj 1" using f1 m assms(1,2) by (intro mult_mono) simp_all
    then have "adj div 20 \<le> f * BigMax adj 1 div 20" by (intro zdiv_mono1) simp_all
    then have "adj div 20 < 2 ^ 62" using g by linarith
    then show ?thesis by linarith
  qed simp
qed

definition call_post :: "Contract \<Rightarrow> ret_slice \<times> vm_error option \<times> Contract \<Rightarrow> bool" where
  "call_post c r \<longleftrightarrow> (case r of (ret, err, c1) \<Rightarrow> (\<exists>g. c1 = c\<lparr>Gas := g\<rparr> \<and> unat g \<le> unat (Gas c)) \<and> (\<forall>b. ret = Fresh b \<longrightarrow> length b < 2 ^ 61))"

lemma length_modexp: "length input < 2 ^ 61 \<Longrightarrow> length (modexp_input input) < 2 ^ 61"
  by (cases "96 < length input") (simp_all add: modexp_input_def)

lemma modexp_head:
  assumes "length input < 2 ^ 61"
  obtains b e m where "getData input 0 32 = Inr b" "getData input 32 32 = Inr e" "getData input 64 32 = Inr m"
    "length b = 32" "length e = 32" "length m = 32"
  using getData_ok [OF assms, of 32 0] getData_ok [OF assms, of 32 32] getData_ok [OF assms, of 32 64] that by auto

lemma modexp_gas:
  assumes "length input < 2 ^ 61" "getData input 0 32 = Inr b" "getData input 32 32 = Inr e" "getData input 64 32 = Inr m"
  obtains g where "bigModExp_RequiredGas input = Inr g"
    "unat g < 2 ^ 62 \<Longrightarrow> big_SetBytes b < 2 ^ 37 \<and> big_SetBytes m < 2 ^ 37 \<and>
      (big_SetBytes b = 0 \<and> big_SetBytes m = 0 \<or> big_SetBytes e < 11 * 2 ^ 60)"
proof -
  let ?b = "big_SetBytes b" and ?e = "big_SetBytes e" and ?m = "big_SetBytes m" and ?i = "modexp_input input"
  have nn: "0 \<le> ?b" "0 \<le> ?e" "0 \<le> ?m" by (simp_all add: big_SetBytes_def)
  note li = length_modexp [OF assms(1)]
  have "\<exists>h \<ge> 0. (if int (length ?i) \<le> ?b then Inr 0
         else if ?e > 32 then bindp (getData ?i (big_Uint64 ?b) 32) (\<lambda>d. Inr (big_SetBytes d))
         else bindp (getData ?i (big_Uint64 ?b) (big_Uint64 ?e)) (\<lambda>d. Inr (big_SetBytes d))) = (Inr h :: panic + int)"
  proof -
    have "unat (big_Uint64 ?e) \<le> 32" if "\<not> ?e > 32" using unat_big_nat [of ?e] nn(2) that by simp
    then show ?thesis using getData_ok [OF li, of 32 "big_Uint64 ?b"] getData_ok [OF li, of "big_Uint64 ?e" "big_Uint64 ?b"]
      by (auto simp: big_SetBytes_def)
  qed
  then obtain h where h: "0 \<le> h" "(if int (length ?i) \<le> ?b then Inr 0
         else if ?e > 32 then bindp (getData ?i (big_Uint64 ?b) 32) (\<lambda>d. Inr (big_SetBytes d))
         else bindp (getData ?i (big_Uint64 ?b) (big_Uint64 ?e)) (\<lambda>d. Inr (big_SetBytes d))) = (Inr h :: panic + int)" by blast
  define adj where "adj = (if ?e > 32 then 8 * (?e - 32) else 0) + (if bitlen (nat h) > 0 then int (bitlen (nat h)) - 1 else 0)"
  define x where "x = BigMax ?m ?b"
  define f where "f = (if x \<le> 64 then x * x else if x \<le> 1024 then x * x div 4 + (96 * x - 3072) else x * x div 16 + (480 * x - 199680))"
  define gas where "gas = f * BigMax adj 1 div 20"
  have r: "bigModExp_RequiredGas input = Inr (if bitlen (nat gas) > 64 then MaxUint64 else big_Uint64 gas)"
    unfolding bigModExp_RequiredGas_def assms(2-4) bindp_simps Let_def h(2) x_def [symmetric] adj_def [symmetric] f_def [symmetric]
    by (simp add: gas_def)
  show thesis
  proof (rule that [OF r])
    assume small: "unat (if bitlen (nat gas) > 64 then MaxUint64 else big_Uint64 gas) < 2 ^ 62"
    have x0: "0 \<le> x" and adj0: "0 \<le> adj" and mb: "?m \<le> x" "?b \<le> x" "8 * (?e - 32) \<le> adj" "?m = 0 \<and> ?b = 0 \<or> x \<noteq> 0"
      using nn by (auto simp: x_def BigMax_def adj_def)
    have "\<not> bitlen (nat gas) > 64" using small by (auto split: if_splits)
    then have "nat gas < 2 ^ 64" using bitlen_le [of "nat gas" 64] by simp
    then have "gas < 2 ^ 62" using small unat_big_nat [of gas] \<open>\<not> bitlen (nat gas) > 64\<close> by (cases "0 \<le> gas") auto
    from modexp_cost [OF x0 adj0 f_def this [unfolded gas_def]]
    show "?b < 2 ^ 37 \<and> ?m < 2 ^ 37 \<and> (?b = 0 \<and> ?m = 0 \<or> ?e < 11 * 2 ^ 60)" using mb by auto
  qed
qed

lemma modexp_run:
  assumes "length input < 2 ^ 61" "bigModExp_RequiredGas input = Inr g" "unat g < 2 ^ 62"
  shows "\<exists>d. bigModExp_Run input = Inr d \<and> length d < 2 ^ 61"
proof (rule modexp_head [OF assms(1)])
  fix b e m
  assume h: "getData input 0 32 = Inr b" "getData input 32 32 = Inr e" "getData input 64 32 = Inr m" "length b = 32" "length e = 32" "length m = 32"
  let ?b = "big_SetBytes b" and ?e = "big_SetBytes e" and ?m = "big_SetBytes m" and ?i = "modexp_input input"
  have bd: "?b < 2 ^ 37" "?m < 2 ^ 37" "?b = 0 \<and> ?m = 0 \<or> ?e < 11 * 2 ^ 60"
    by (rule modexp_gas [OF assms(1) h(1-3)], use assms(2,3) in simp)+
  have nn: "0 \<le> ?b" "0 \<le> ?e" "0 \<le> ?m" by (simp_all add: big_SetBytes_def)
  note li = length_modexp [OF assms(1)]
  have ub: "unat (big_Uint64 ?b) < 2 ^ 37" "unat (big_Uint64 ?m) < 2 ^ 37" using nn bd unat_big_nat [of ?b] unat_big_nat [of ?m] by auto
  show ?thesis
  proof (cases "big_Uint64 ?b = 0 \<and> big_Uint64 ?m = 0")
    case True
    then show ?thesis by (simp add: bigModExp_Run_def h(1-3) Let_def)
  next
    case False
    have "?b \<noteq> 0 \<or> ?m \<noteq> 0" using False by (auto simp: big_Uint64_def)
    then have "?e < 11 * 2 ^ 60" using bd(3) by blast
    then have ue: "unat (big_Uint64 ?e) < 2 ^ 64 - 2 ^ 61" using nn(2) unat_big_nat [of ?e] by auto
    obtain bs where bs: "getData ?i 0 (big_Uint64 ?b) = Inr bs" using getData_ok [OF li, of "big_Uint64 ?b" 0] ub(1) by auto
    obtain es where es: "getData ?i (big_Uint64 ?b) (big_Uint64 ?e) = Inr es" using getData_ok [OF li ue, of "big_Uint64 ?b"] by auto
    obtain ms where ms: "getData ?i (big_Uint64 ?b + big_Uint64 ?e) (big_Uint64 ?m) = Inr ms" "length ms = unat (big_Uint64 ?m)"
      using getData_ok [OF li, of "big_Uint64 ?m" "big_Uint64 ?b + big_Uint64 ?e"] ub(2) by auto
    have sm: "sint (big_Uint64 ?m) = int (unat (big_Uint64 ?m))" by (rule sint_small) (use ub(2) in simp)
    have pad: "length (LeftPadBytes x (sint (big_Uint64 ?m))) < 2 ^ 61" if "length x < 2 ^ 61" for x
      unfolding sm using that ub(2) by (auto simp: LeftPadBytes_def simp del: of_nat_unat)
    have "length (big_Bytes (y mod big_SetBytes ms)) < 2 ^ 61" if "big_SetBytes ms \<noteq> 0" for y
    proof -
      have p: "0 < big_SetBytes ms" using that by (simp add: big_SetBytes_def)
      then have "nat \<bar>y mod big_SetBytes ms\<bar> < nat (big_SetBytes ms)" by (simp add: pos_mod_bound)
      also have "nat (big_SetBytes ms) < 256 ^ length ms" using be_nat_lt [of ms] by (simp add: big_SetBytes_def)
      finally have "length (big_Bytes (y mod big_SetBytes ms)) \<le> length ms" by (simp add: big_Bytes_def length_nat_be)
      then show ?thesis using ms(2) ub(2) by simp
    qed
    then show ?thesis using pad False by (simp add: bigModExp_Run_def h(1-3) Let_def bs es ms(1))
  qed
qed

lemma LeftPad_length: "length x < 2 ^ 61 \<Longrightarrow> length (LeftPadBytes x 32) < 2 ^ 61"
  by (simp add: LeftPadBytes_def)

lemma PutUint64_length: "length (concat (map LittleEndian_PutUint64 ws)) = 8 * length ws"
  by (induction ws) (simp_all add: LittleEndian_PutUint64_def)

lemma native_results:
  assumes "natives_ok nf" "\<And>b. length (keccak b) = HashLength"
  shows "length (ecrecover_Run nf keccak input) < 2 ^ 61" "length (sha256hash_Run nf input) < 2 ^ 61" "length (ripemd160hash_Run nf input) < 2 ^ 61"
    "blake2F_Run nf input = Inr b \<Longrightarrow> length b < 2 ^ 61" "runBn256Pairing nf input = Inr b \<Longrightarrow> length b < 2 ^ 61"
  using assms LeftPad_length
  by (auto simp: natives_ok_def ecrecover_Run_def sha256hash_Run_def ripemd160hash_Run_def blake2F_Run_def runBn256Pairing_def Let_def
      HashLength_def PutUint64_length true32Byte_def false32Byte_def split: option.split if_splits sum.splits)

lemma bn256_results:
  assumes "natives_ok nf" "length input < 2 ^ 61"
  shows "safe (runBn256Add nf input) (\<lambda>r. \<forall>b. r = Inr b \<longrightarrow> length b < 2 ^ 61)"
    "safe (runBn256ScalarMul nf input) (\<lambda>r. \<forall>b. r = Inr b \<longrightarrow> length b < 2 ^ 61)"
proof -
  obtain a b c where "getData input 0 64 = Inr a" "getData input 64 64 = Inr b" "getData input 64 32 = Inr c"
    using getData_ok [OF assms(2), of 64 0] getData_ok [OF assms(2), of 64 64] getData_ok [OF assms(2), of 32 64] by auto
  then show "safe (runBn256Add nf input) (\<lambda>r. \<forall>b. r = Inr b \<longrightarrow> length b < 2 ^ 61)"
    "safe (runBn256ScalarMul nf input) (\<lambda>r. \<forall>b. r = Inr b \<longrightarrow> length b < 2 ^ 61)"
    using assms(1) by (auto simp: runBn256Add_def runBn256ScalarMul_def natives_ok_def split: sum.splits)
qed

lemma wrap_result_ok: "(\<forall>b. r = Inr b \<longrightarrow> length b < 2 ^ 61) \<Longrightarrow> \<forall>b. fst (wrap_result r) = Fresh b \<longrightarrow> length b < 2 ^ 61"
  by (auto simp: wrap_result_def split: sum.splits)

lemma precompile_ok:
  assumes "natives_ok nf" "\<And>b. length (keccak b) = HashLength" "length input < 2 ^ 61"
    and "p = bigModExp \<Longrightarrow> bigModExp_RequiredGas input = Inr g \<and> unat g < 2 ^ 62"
  shows "safe (precompile_Run nf keccak p input) (\<lambda>(ret, err). \<forall>b. ret = Fresh b \<longrightarrow> length b < 2 ^ 61)"
proof -
  note n = native_results [OF assms(1,2)]
  note w = wrap_result_ok
  show ?thesis
  proof (cases "p = bigModExp")
    case True
    then show ?thesis using assms(4) modexp_run [OF assms(3)] by auto
  next
    case False
    have bn: "safe (runBn256Add nf input) (\<lambda>r. \<forall>b. fst (wrap_result r) = Fresh b \<longrightarrow> length b < 2 ^ 61)"
      "safe (runBn256ScalarMul nf input) (\<lambda>r. \<forall>b. fst (wrap_result r) = Fresh b \<longrightarrow> length b < 2 ^ 61)"
      by (rule safe_mono [OF bn256_results(1) [OF assms(1,3)] w], assumption, rule safe_mono [OF bn256_results(2) [OF assms(1,3)] w], assumption)
    have o: "\<forall>b. fst (wrap_result (blake2F_Run nf input)) = Fresh b \<longrightarrow> length b < 2 ^ 61"
      "\<forall>b. fst (wrap_result (runBn256Pairing nf input)) = Fresh b \<longrightarrow> length b < 2 ^ 61"
      by (rule w, use n(4) in blast, rule w, use n(5) in blast)
    show ?thesis using False n(1-3) bn o by (cases p) (simp_all add: dataCopy_Run_def case_prod_beta)
  qed
qed

lemma RunPrecompiledContract_ok:
  assumes "natives_ok nf" "\<And>b. length (keccak b) = HashLength" "length input < 2 ^ 61" "unat (Gas c) < 2 ^ 62"
  shows "safe (RunPrecompiledContract nf keccak p input c) (call_post c)"
proof -
  have "\<exists>g. bigModExp_RequiredGas input = Inr g"
    by (rule modexp_head [OF assms(3)], rule modexp_gas [OF assms(3)]) auto
  then obtain g where g: "RequiredGas p input = Inr g" by (cases p) auto
  show ?thesis
  proof (cases "Gas c < g")
    case True
    have "call_post c (Fresh [], Some ErrOutOfGas, c)" using contract_same [of c 0] by (auto simp: call_post_def)
    then show ?thesis using True g by (simp add: RunPrecompiledContract_def UseGas_def)
  next
    case False
    then have "unat g < 2 ^ 62" using assms(4) by (simp add: word_less_nat_alt)
    then have s: "safe (precompile_Run nf keccak p input) (\<lambda>(ret, err). \<forall>b. ret = Fresh b \<longrightarrow> length b < 2 ^ 61)"
      by (intro precompile_ok [OF assms(1-3)]) (use g in auto)
    have le: "unat (Gas c - g) \<le> unat (Gas c)" using False by (simp add: unat_sub not_less)
    show ?thesis using False g safe_mono [OF s, of "\<lambda>(ret, err). call_post c (ret, err, c\<lparr>Gas := Gas c - g\<rparr>)"] le
      by (auto simp: RunPrecompiledContract_def UseGas_def call_post_def case_prod_beta)
  qed
qed

end
