(* ===== verification/EvmCallSafe.thy ===== *)
theory EvmCallSafe
  imports EvmNativeSafe
begin

text \<open>
  Calls and contract creation (src/core/vm/evm.go) over an interpreter that keeps its contract (\<open>runner_ok\<close>): they
  return, give back at most the gas they got, and after an error the state shows what it showed before.
\<close>

section \<open>Calls\<close>

text \<open>
  What calls rely on: the interpreter, given enough fuel for the nesting, returns, gives back at most the gas it got, and
  changes the state by effects only.
\<close>

definition static :: "'s EVM \<Rightarrow> 's vm \<Rightarrow> bool \<Rightarrow> bool" where
  "static env vm ro \<longleftrightarrow> (readOnly vm \<or> ro) \<and> IsByzantium (chainRules env)"

definition run_post ::
  "('s \<Rightarrow> machine \<Rightarrow> bool) \<Rightarrow> 't backend \<Rightarrow> bool \<Rightarrow> Contract \<Rightarrow> machine \<Rightarrow> 's vm \<Rightarrow> bytes \<times> vm_error option \<times> Contract \<times> 's vm \<Rightarrow> bool" where
  "run_post R E ro c m vm r \<longleftrightarrow> (case r of (ret, err, c1, vm1) \<Rightarrow>
     length ret < 2 ^ 61 \<and> unat (Gas c1) \<le> unat (Gas c) \<and> vm_depth vm1 = vm_depth vm \<and> readOnly vm1 = readOnly vm \<and>
     leads R E ro m (vm_db vm1))"

definition runner_ok :: "('s \<Rightarrow> machine \<Rightarrow> bool) \<Rightarrow> 't backend \<Rightarrow> 's EVM \<Rightarrow> nat \<Rightarrow> 's runner \<Rightarrow> bool" where
  "runner_ok R E env n rn \<longleftrightarrow> (\<forall>c input ro vm m. contract_ok c \<longrightarrow> length input < 2 ^ 61 \<longrightarrow> R (vm_db vm) m \<longrightarrow> spec_ok (m_cur m) \<longrightarrow>
     0 \<le> vm_depth vm \<longrightarrow> vm_depth vm \<le> 1024 \<longrightarrow> 1025 \<le> vm_depth vm + int n \<longrightarrow>
     safe (rn c input ro vm) (run_post R E (static env vm ro) c m vm))"

lemma runner_okD:
  "runner_ok R E env n rn \<Longrightarrow> contract_ok c \<Longrightarrow> length input < 2 ^ 61 \<Longrightarrow> R (vm_db vm) m \<Longrightarrow> spec_ok (m_cur m) \<Longrightarrow>
   0 \<le> vm_depth vm \<Longrightarrow> vm_depth vm \<le> 1024 \<Longrightarrow> 1025 \<le> vm_depth vm + int n \<Longrightarrow>
   safe (rn c input ro vm) (run_post R E (static env vm ro) c m vm)"
  by (simp add: runner_ok_def)

text \<open>The result of a call: on an error the state shows what it showed before.\<close>

definition call_result_ok ::
  "('s \<Rightarrow> machine \<Rightarrow> bool) \<Rightarrow> 't backend \<Rightarrow> bool \<Rightarrow> u64 \<Rightarrow> machine \<Rightarrow> 's vm \<Rightarrow> ret_slice \<times> u64 \<times> vm_error option \<times> 's vm \<Rightarrow> bool" where
  "call_result_ok R E ro gas m vm r \<longleftrightarrow> (case r of (ret, g, err, vm1) \<Rightarrow>
     (\<forall>b. ret = Fresh b \<longrightarrow> length b < 2 ^ 61) \<and> unat g \<le> unat gas \<and> vm_depth vm1 = vm_depth vm \<and> readOnly vm1 = readOnly vm \<and>
     leads R E ro m (vm_db vm1) \<and> (err \<noteq> None \<longrightarrow> (\<exists>m1. R (vm_db vm1) m1 \<and> m_cur m1 = m_cur m)))"

abbreviation snap :: "machine \<Rightarrow> machine" where
  "snap m \<equiv> m\<lparr>m_saved := m_saved m @ [(m_next m, m_cur m)], m_next := m_next m + 1\<rparr>"

lemma revert_machine:
  assumes "\<forall>(i, _) \<in> set (m_saved m). i < m_next m" "moved E ro (snap m) m1"
  shows "\<exists>m2. spec_exec E (OpRevert (m_next m)) m1 = Some m2 \<and> m_cur m2 = m_cur m \<and> moved E ro2 m m2"
proof -
  obtain xs where xs: "m_saved m1 = m_saved m @ [(m_next m, m_cur m)] @ xs" and n: "m_next m + 1 \<le> m_next m1"
    using assms(2) by (auto simp: moved_def)
  have none: "map_of (m_saved m) (m_next m) = None" using assms(1) by (auto simp: map_of_eq_None_iff)
  have t: "takeWhile (\<lambda>(j, _). j < m_next m) (m_saved m1) = m_saved m"
    unfolding xs using assms(1) by (subst takeWhile_append2) auto
  have m: "map_of (m_saved m1) (m_next m) = Some (m_cur m)" using none by (simp add: xs map_add_Some_iff map_add_def)
  show ?thesis using t m n by (simp add: moved_def)
qed

context vm_state
begin

lemma revert_ok:
  assumes "R s0 m" "R s m1" "moved E ro (snap m) m1"
  obtains s1 m2 where "db_RevertToSnapshot db (m_next m) s = Some s1" "R s1 m2" "m_cur m2 = m_cur m" "moved E ro2 m m2"
proof -
  obtain m2 where m2: "spec_exec E (OpRevert (m_next m)) m1 = Some m2" "m_cur m2 = m_cur m" "moved E ro2 m m2"
    using revert_machine [OF saved [OF assms(1)] assms(3)] by blast
  have "rel_option R (db_RevertToSnapshot db (m_next m) s) (Some m2)" using RevertToSnapshot [OF assms(2), of "m_next m"] m2(1) by simp
  then show thesis using that m2(2,3) by (auto simp: option_rel_Some2)
qed

lemma load_code_ok:
  assumes "evm_db env = db" "R (vm_db vm) m" "a \<in> addresses" "spec_ok (m_cur m)" "contract_ok c"
  obtains c1 s where "load_code env a c vm = (c1, vm\<lparr>vm_db := s\<rparr>)" "R s m" "contract_ok c1" "Gas c1 = Gas c"
proof -
  obtain h s1 where h: "db_GetCodeHash db a (vm_db vm) = (h, s1)" by fastforce
  have s1: "R s1 m" using GetCodeHash [OF assms(2,3)] h by (simp add: gives_def)
  obtain code s2 where g: "db_GetCode db a s1 = (code, s2)" by fastforce
  have s2: "R s2 m" "code = sp_code (m_cur m) a" using GetCode [OF s1 assms(3)] g by (simp_all add: gives_def)
  show thesis
    by (rule that [of "SetCallCode (Some a) h (nil_slice code) c" s2])
      (use assms(1,5) h g s2 code_ok [OF assms(4), of a] in \<open>simp_all add: load_code_def SetCallCode_def contract_ok_def\<close>)
qed

lemma run_ok:
  assumes "env_ok E env" "runner_ok R E env n rn" "contract_ok c" "length input < 2 ^ 61" "R (vm_db vm) m" "spec_ok (m_cur m)"
    "0 \<le> vm_depth vm" "vm_depth vm \<le> 1024" "1025 \<le> vm_depth vm + int n"
  shows "safe (run env rn c input ro vm) (\<lambda>(ret, err, c1, vm1). (\<forall>b. ret = Fresh b \<longrightarrow> length b < 2 ^ 61) \<and> unat (Gas c1) \<le> unat (Gas c) \<and>
    vm_depth vm1 = vm_depth vm \<and> readOnly vm1 = readOnly vm \<and> leads R E (static env vm ro) m (vm_db vm1))"
proof (cases "Option.bind (CodeAddr c) (precompiles (chainRules env))")
  case None
  show ?thesis using None safe_mono [OF runner_okD [OF assms(2-9), of ro]] by (auto simp: run_def run_post_def case_prod_beta)
next
  case (Some p)
  have "safe (RunPrecompiledContract (evm_natives env) (evm_keccak env) p input c) (call_post c)"
    by (rule RunPrecompiledContract_ok) (use assms(1,3,4) in \<open>simp_all add: env_ok_def contract_ok_def\<close>)
  then show ?thesis using Some leads_here [OF assms(5)] by (auto simp: run_def call_post_def case_prod_beta elim!: safe_mono)
qed

lemma call_tail:
  assumes "env_ok E env" "evm_db env = db" "runner_ok R E env n rn" "contract_ok c" "length input < 2 ^ 61"
    "R s0 m" "spec_ok (m_cur m)" "R s m1" "moved E (static env vm ro) (snap m) m1"
    "0 \<le> vm_depth vm" "vm_depth vm \<le> 1024" "1025 \<le> vm_depth vm + int n"
  shows "safe (bindp (run env rn c input ro (vm\<lparr>vm_db := s\<rparr>)) (revert_on_error env (m_next m)))
    (call_result_ok R E (static env vm ro) (Gas c) m vm)"
proof -
  let ?ro = "static env vm ro" and ?vm = "vm\<lparr>vm_db := s\<rparr>"
  have sok: "spec_ok (m_cur m1)" using moved_ok [OF assms(9)] assms(7) by simp
  have st: "static env ?vm ro = ?ro" by (simp add: static_def)
  have mv: "moved E ?ro m m1" by (rule moved_trans [OF moved_snapshot assms(9)])
  have fin: "safe (revert_on_error env (m_next m) (ret, err, c1, vm1)) (call_result_ok R E ?ro (Gas c) m vm)"
    if r: "\<forall>b. ret = Fresh b \<longrightarrow> length b < 2 ^ 61" "unat (Gas c1) \<le> unat (Gas c)" "vm_depth vm1 = vm_depth vm" "readOnly vm1 = readOnly vm"
      "leads R E ?ro m1 (vm_db vm1)" for ret err c1 vm1
  proof (cases err)
    case None
    then show ?thesis using r leads_trans [OF mv r(5)] by (simp add: revert_on_error_def call_result_ok_def)
  next
    case (Some er)
    obtain m2 where m2: "R (vm_db vm1) m2" "moved E ?ro m1 m2" using r(5) by (auto simp: leads_def)
    obtain s3 m3 where s3: "db_RevertToSnapshot db (m_next m) (vm_db vm1) = Some s3" "R s3 m3" "m_cur m3 = m_cur m" "moved E ?ro m m3"
      using revert_ok [OF assms(6) m2(1) moved_trans [OF assms(9) m2(2)]] by blast
    have "unat (Gas (if er \<noteq> ErrExecutionReverted then snd (UseGas (Gas c1) c1) else c1)) \<le> unat (Gas c)"
      using r(2) by (simp add: UseGas_def)
    then show ?thesis using Some s3 r assms(2) leadsI [of R, OF s3(2,4)]
      by (auto simp: revert_on_error_def call_result_ok_def Let_def)
  qed
  show ?thesis unfolding safe_bindp
    by (rule safe_mono [OF run_ok [OF assms(1,3,4,5), where vm = ?vm and ro = ro and m = m1]])
      (use assms(8,10-12) sok fin st in auto)
qed

end

lemma NewContract_ok:
  "ref_Address caller \<in> addresses \<Longrightarrow> a \<in> addresses \<Longrightarrow> is_word val \<Longrightarrow> unat gas < 2 ^ 62 \<Longrightarrow> contract_ok (NewContract caller a val gas)"
  "Gas (NewContract caller a val gas) = gas"
  by (simp_all add: NewContract_def contract_ok_def)

lemma CreateAccount_balance: "spec_ok sp \<Longrightarrow> sp_balance (doing E (OpCreateAccount a) sp) b = sp_balance sp b"
  by (simp add: doing_CreateAccount sp_balance_put fresh_acct_def)

context vm_state
begin

lemma early_result:
  assumes "R s m" "vm1 = vm\<lparr>vm_db := s\<rparr>"
  shows "call_result_ok R E ro gas m vm (Fresh [], gas, err, vm1)"
  using assms leads_here [OF assms(1)] by (auto simp: call_result_ok_def)

lemma early_same: "R (vm_db vm) m \<Longrightarrow> call_result_ok R E ro gas m vm (Fresh [], gas, err, vm)"
  using early_result [of "vm_db vm" m vm vm] by simp

lemma CanTransfer_ok:
  assumes "R s m" "a \<in> addresses"
  obtains s1 where "CanTransfer db a x s = (x \<le> sp_balance (m_cur m) a, s1)" "R s1 m"
  using GetBalance [OF assms] by (cases "db_GetBalance db a s") (auto simp: CanTransfer_def gives_def)

lemma Snapshot_pair:
  assumes "R s m"
  obtains s1 where "db_Snapshot db s = (m_next m, s1)" "R s1 (snap m)"
  using Snapshot [OF assms] by (cases "db_Snapshot db s") auto

lemma Transfer_moved:
  assumes "R s m" "a \<in> addresses" "b \<in> addresses" "0 \<le> x" "x \<le> sp_balance (m_cur m) a" "x = 0 \<or> \<not> ro"
  shows "\<exists>m1. R (Transfer db a b x s) m1 \<and> moved E ro m m1"
proof -
  let ?m = "in_machine E (OpAddBalance b x) (in_machine E (OpSubBalance a x) m)"
  have "R (Transfer db a b x s) ?m" unfolding Transfer_def by (rule AddBalance [OF SubBalance [OF assms(1,2)] assms(3)])
  moreover have "moved E ro m ?m" using moved_effect [OF effect.transfer [OF assms(2-6)]] by simp
  ultimately show ?thesis by blast
qed

lemma CreateMissing_moved:
  assumes "R s m" "a \<in> addresses" "sp_get a (m_cur m) = None"
  shows "\<exists>m1. R (db_CreateAccount db a s) m1 \<and> moved E ro m m1"
  using CreateAccount [OF assms(1,2)] moved_effect [OF effect.create_missing [OF assms(2,3)]] by blast

lemma CallCode_ok:
  assumes "env_ok E env" "evm_db env = db" "runner_ok R E env n rn" "R (vm_db vm) m" "spec_ok (m_cur m)"
    "ref_Address caller \<in> addresses" "a \<in> addresses" "is_word val" "length input < 2 ^ 61" "unat gas < 2 ^ 62"
    "0 \<le> vm_depth vm" "1025 \<le> vm_depth vm + int n"
  shows "safe (CallCode env rn caller a input gas val vm) (call_result_ok R E (static env vm False) gas m vm)"
proof -
  obtain s1 where s1: "CanTransfer db (ref_Address caller) val (vm_db vm) = (val \<le> sp_balance (m_cur m) (ref_Address caller), s1)" "R s1 m"
    by (rule CanTransfer_ok [OF assms(4,6)])
  obtain s2 where s2: "db_Snapshot db s1 = (m_next m, s2)" "R s2 (snap m)" by (rule Snapshot_pair [OF s1(2)])
  have sok: "spec_ok (m_cur (snap m))" using assms(5) by simp
  obtain c s3 where c: "load_code env a (NewContract caller (ref_Address caller) val gas) (vm\<lparr>vm_db := s2\<rparr>) = (c, vm\<lparr>vm_db := s3\<rparr>)"
      "R s3 (snap m)" "contract_ok c" "Gas c = gas"
    using load_code_ok [OF assms(2) _ assms(7) sok NewContract_ok(1) [OF assms(6,6,8,10)], of "vm\<lparr>vm_db := s2\<rparr>"] s2(2)
    by (auto simp: NewContract_ok)
  have t: "safe (bindp (run env rn c input False (vm\<lparr>vm_db := s3\<rparr>)) (revert_on_error env (m_next m)))
      (call_result_ok R E (static env vm False) gas m vm)" if "vm_depth vm \<le> 1024"
    using call_tail [OF assms(1-3) c(3) assms(9,4,5) c(2) moved_refl, of vm False] assms(11,12) that c(4) by simp
  show ?thesis using t s1(1) s2(1) c(1) assms(2) early_same [OF assms(4)] early_result [OF s1(2)]
    by (simp add: CallCode_def)
qed

lemma DelegateCall_ok:
  assumes "env_ok E env" "evm_db env = db" "runner_ok R E env n rn" "R (vm_db vm) m" "spec_ok (m_cur m)"
    "contract_ok parent" "a \<in> addresses" "length input < 2 ^ 61" "unat gas < 2 ^ 62"
    "0 \<le> vm_depth vm" "1025 \<le> vm_depth vm + int n"
  shows "safe (DelegateCall env rn (ContractRef parent) a input gas vm) (call_result_ok R E (static env vm False) gas m vm)"
proof -
  obtain s2 where s2: "db_Snapshot db (vm_db vm) = (m_next m, s2)" "R s2 (snap m)" by (rule Snapshot_pair [OF assms(4)])
  have sok: "spec_ok (m_cur (snap m))" using assms(5) by simp
  let ?c = "(NewContract (ContractRef parent) (c_self parent) 0 gas)\<lparr>CallerAddress := CallerAddress parent, c_value := c_value parent\<rparr>"
  have c0: "contract_ok ?c" using assms(6,9) by (simp add: contract_ok_def NewContract_def)
  obtain c s3 where c: "load_code env a ?c (vm\<lparr>vm_db := s2\<rparr>) = (c, vm\<lparr>vm_db := s3\<rparr>)" "R s3 (snap m)" "contract_ok c" "Gas c = gas"
    using load_code_ok [OF assms(2) _ assms(7) sok c0, of "vm\<lparr>vm_db := s2\<rparr>"] s2(2) by (auto simp: NewContract_ok)
  have t: "safe (bindp (run env rn c input False (vm\<lparr>vm_db := s3\<rparr>)) (revert_on_error env (m_next m)))
      (call_result_ok R E (static env vm False) gas m vm)" if "vm_depth vm \<le> 1024"
    using call_tail [OF assms(1-3) c(3) assms(8,4,5) c(2) moved_refl, of vm False] assms(10,11) that c(4) by simp
  show ?thesis using t s2(1) c(1) assms(2) early_same [OF assms(4)]
    by (simp add: DelegateCall_def AsDelegate_def)
qed

lemma StaticCall_ok:
  assumes "env_ok E env" "evm_db env = db" "runner_ok R E env n rn" "R (vm_db vm) m" "spec_ok (m_cur m)"
    "ref_Address caller \<in> addresses" "a \<in> addresses" "length input < 2 ^ 61" "unat gas < 2 ^ 62"
    "0 \<le> vm_depth vm" "1025 \<le> vm_depth vm + int n"
  shows "safe (StaticCall env rn caller a input gas vm) (call_result_ok R E (static env vm True) gas m vm)"
proof -
  obtain s2 where s2: "db_Snapshot db (vm_db vm) = (m_next m, s2)" "R s2 (snap m)" by (rule Snapshot_pair [OF assms(4)])
  have sok: "spec_ok (m_cur (snap m))" using assms(5) by simp
  obtain c s3 where c: "load_code env a (NewContract caller a 0 gas) (vm\<lparr>vm_db := s2\<rparr>) = (c, vm\<lparr>vm_db := s3\<rparr>)" "R s3 (snap m)"
      "contract_ok c" "Gas c = gas"
    using load_code_ok [OF assms(2) _ assms(7) sok NewContract_ok(1) [OF assms(6,7) is_word_0(1) assms(9)], of "vm\<lparr>vm_db := s2\<rparr>"] s2(2)
    by (auto simp: NewContract_ok)
  note ab = AddBalance [OF c(2) assms(7), of 0]
  have mv: "moved E (static env vm True) (snap m) (in_machine E (OpAddBalance a 0) (snap m))"
    by (rule moved_effect [OF effect.touch [OF assms(7)]])
  have t: "safe (bindp (run env rn c input True (vm\<lparr>vm_db := db_AddBalance db a 0 s3\<rparr>)) (revert_on_error env (m_next m)))
      (call_result_ok R E (static env vm True) gas m vm)" if "vm_depth vm \<le> 1024"
    using call_tail [OF assms(1-3) c(3) assms(8,4,5) ab mv] assms(10,11) that c(4) by simp
  show ?thesis using t s2(1) c(1) assms(2) early_same [OF assms(4)]
    by (simp add: StaticCall_def)
qed

lemma Call_ok:
  assumes "env_ok E env" "evm_db env = db" "runner_ok R E env n rn" "R (vm_db vm) m" "spec_ok (m_cur m)"
    "ref_Address caller \<in> addresses" "a \<in> addresses" "is_word val" "length input < 2 ^ 61" "unat gas < 2 ^ 62"
    "0 \<le> vm_depth vm" "1025 \<le> vm_depth vm + int n" "static env vm False \<longrightarrow> val = 0"
  shows "safe (Call env rn caller a input gas val vm) (call_result_ok R E (static env vm False) gas m vm)"
proof -
  let ?ro = "static env vm False" and ?self = "ref_Address caller"
  obtain s1 where s1: "CanTransfer db ?self val (vm_db vm) = (val \<le> sp_balance (m_cur m) ?self, s1)" "R s1 m"
    by (rule CanTransfer_ok [OF assms(4,6)])
  obtain s2 where s2: "db_Snapshot db s1 = (m_next m, s2)" "R s2 (snap m)" by (rule Snapshot_pair [OF s1(2)])
  obtain s3 where s3: "db_Exist db a s2 = (sp_get a (m_cur m) \<noteq> None, s3)" "R s3 (snap m)"
    using Exist [OF s2(2) assms(7)] by (cases "db_Exist db a s2") (auto simp: gives_def)
  let ?s4 = "if sp_get a (m_cur m) \<noteq> None then s3 else db_CreateAccount db a s3"
  have "\<exists>m4. R ?s4 m4 \<and> moved E ?ro (snap m) m4 \<and> sp_balance (m_cur m4) ?self = sp_balance (m_cur m) ?self"
  proof (cases "sp_get a (m_cur m) = None")
    case True
    then have "moved E ?ro (snap m) (in_machine E (OpCreateAccount a) (snap m))"
      by (intro moved_effect effect.create_missing) (use assms(7) in simp_all)
    then show ?thesis using True CreateAccount [OF s3(2) assms(7)] CreateAccount_balance [OF assms(5), of E a ?self] by fastforce
  next
    case False
    then show ?thesis using s3(2) moved_refl by fastforce
  qed
  then obtain m4 where m4: "R ?s4 m4" "moved E ?ro (snap m) m4" "sp_balance (m_cur m4) ?self = sp_balance (m_cur m) ?self" by blast
  have t: "safe (case load_code env a (NewContract caller a val gas) (vm\<lparr>vm_db := Transfer db ?self a val ?s4\<rparr>) of
        (contract, vm1) \<Rightarrow> bindp (run env rn contract input False vm1) (revert_on_error env (m_next m)))
      (call_result_ok R E ?ro gas m vm)" if le: "val \<le> sp_balance (m_cur m) ?self" and d: "vm_depth vm \<le> 1024"
  proof -
    obtain m5 where m5: "R (Transfer db ?self a val ?s4) m5" "moved E ?ro m4 m5"
      using Transfer_moved [OF m4(1) assms(6,7), of val ?ro] le m4(3) assms(8,13) is_word_ge by auto
    have mv: "moved E ?ro (snap m) m5" by (rule moved_trans [OF m4(2) m5(2)])
    have sok: "spec_ok (m_cur m5)" using moved_ok [OF mv] assms(5) by simp
    obtain c s6 where c: "load_code env a (NewContract caller a val gas) (vm\<lparr>vm_db := Transfer db ?self a val ?s4\<rparr>) = (c, vm\<lparr>vm_db := s6\<rparr>)"
        "R s6 m5" "contract_ok c" "Gas c = gas"
      using load_code_ok [OF assms(2) _ assms(7) sok NewContract_ok(1) [OF assms(6,7,8,10)], of "vm\<lparr>vm_db := Transfer db ?self a val ?s4\<rparr>"] m5(1)
      by (auto simp: NewContract_ok)
    show ?thesis using call_tail [OF assms(1-3) c(3) assms(9,4,5) c(2) mv] assms(11,12) d c(1,4) by simp
  qed
  have s3r: "call_result_ok R E ?ro gas m vm (Fresh [], gas, None, vm\<lparr>vm_db := s3\<rparr>)"
    using leads_trans [OF moved_snapshot leads_here [OF s3(2)], of ?ro] by (simp add: call_result_ok_def)
  show ?thesis using t s1(1) s2(1) s3(1) assms(2) early_same [OF assms(4)] early_result [OF s1(2)] s3r
    by (auto simp: Call_def Let_def)
qed

end

section \<open>Creation\<close>

definition create_result_ok ::
  "('s \<Rightarrow> machine \<Rightarrow> bool) \<Rightarrow> 't backend \<Rightarrow> 's EVM \<Rightarrow> address \<Rightarrow> u64 \<Rightarrow> machine \<Rightarrow> 's vm \<Rightarrow> bytes \<times> address \<times> u64 \<times> vm_error option \<times> 's vm \<Rightarrow> bool" where
  "create_result_ok R E env self gas m vm r \<longleftrightarrow> (case r of (ret, a, g, err, vm1) \<Rightarrow>
     length ret < 2 ^ 61 \<and> a \<in> addresses \<and> unat g \<le> unat gas \<and> vm_depth vm1 = vm_depth vm \<and> readOnly vm1 = readOnly vm \<and>
     leads R E False m (vm_db vm1) \<and>
     (err \<noteq> None \<and> (IsHomestead (chainRules env) \<or> err \<noteq> Some ErrCodeStoreOutOfGas) \<longrightarrow>
       (\<exists>m1. R (vm_db vm1) m1 \<and> m_cur m1 \<in> {m_cur m, doing E (OpSetNonce self (sp_nonce (m_cur m) self + 1)) (m_cur m)})))"

lemma safe_if: "(b \<Longrightarrow> safe x Q) \<Longrightarrow> safe y Q \<Longrightarrow> safe (if b then x else y) Q"
  by simp

context vm_state
begin

lemma store_code_ok:
  assumes "evm_db env = db" "R s0 m" "leads R E False m1 (vm_db vm)" "moved E False (snap m) m1" "length ret < 2 ^ 61" "a \<in> addresses"
  shows "safe (store_code env (m_next m) a (ret, err, c, vm)) (\<lambda>(ret1, b, g, er, vm1). length ret1 < 2 ^ 61 \<and> b = a \<and> unat g \<le> unat (Gas c) \<and>
    vm_depth vm1 = vm_depth vm \<and> readOnly vm1 = readOnly vm \<and> leads R E False m (vm_db vm1) \<and>
    (er \<noteq> None \<and> (IsHomestead (chainRules env) \<or> er \<noteq> Some ErrCodeStoreOutOfGas) \<longrightarrow> (\<exists>m3. R (vm_db vm1) m3 \<and> m_cur m3 = m_cur m)))"
proof -
  let ?max = "IsEIP158 (chainRules env) \<and> length ret > MaxCodeSize"
  obtain m2 where m2: "R (vm_db vm) m2" "moved E False (snap m) m2" using assms(3) moved_trans [OF assms(4)] by (auto simp: leads_def)
  obtain s3 m3 where s3: "db_RevertToSnapshot db (m_next m) (vm_db vm) = Some s3" "R s3 m3" "m_cur m3 = m_cur m" "moved E False m m3"
    using revert_ok [OF assms(2) m2] by blast
  note l3 = leadsI [of R, OF s3(2,4)]
  have l: "leads R E False m (vm_db vm)" by (rule leadsI [of R, OF m2(1) moved_trans [OF moved_snapshot m2(2)]])
  have code: "leads R E False m (db_SetCode db a ret (vm_db vm))"
    by (rule leads_bind [OF l], rule leads_effect [OF SetCode effect.code]) (use assms(5,6) in simp_all)
  let ?g = "word_of_nat (length ret) * CreateDataGas :: u64"
  have le: "\<not> Gas c < ?g \<Longrightarrow> unat (Gas c - ?g) \<le> unat (Gas c)" by (simp add: unat_sub not_less)
  consider (exceeded) ?max | (failed) "\<not> ?max" "err \<noteq> None" | (gas) "\<not> ?max" "err = None" "Gas c < ?g" | (ok) "\<not> ?max" "err = None" "\<not> Gas c < ?g"
    by blast
  then show ?thesis
  proof cases
    case exceeded
    then show ?thesis using s3 l3 assms(1,5) by (auto simp: store_code_def Let_def UseGas_def)
  next
    case failed
    then show ?thesis using s3 l3 l assms(1,5) by (auto simp: store_code_def Let_def UseGas_def)
  next
    case gas
    then show ?thesis using s3 l3 l assms(1,5) by (auto simp: store_code_def Let_def UseGas_def)
  next
    case ok
    then show ?thesis using code le assms(1,5) by (auto simp: store_code_def Let_def UseGas_def)
  qed
qed

lemma new_account_moved:
  assumes "R s m" "a \<in> addresses" "spec_ok (m_cur m)" "sp_nonce (m_cur m) a = 0"
    "sp_codehash (m_cur m) a = zero_hash \<or> sp_codehash (m_cur m) a = BytesToHash (Keccak256 E [])"
  obtains m1 where "R (if e then db_SetNonce db a 1 (db_CreateAccount db a s) else db_CreateAccount db a s) m1" "moved E False m m1"
    "\<And>b. sp_balance (m_cur m1) b = sp_balance (m_cur m) b"
proof -
  let ?m = "in_machine E (OpCreateAccount a) m"
  let ?n = "in_machine E (OpSetNonce a 1) ?m"
  have r: "R (db_CreateAccount db a s) ?m" "moved E False m ?m"
    using CreateAccount [OF assms(1,2)] moved_effect [OF effect.new_contract [where ro = False, OF _ assms(2,4,5)]] by simp_all
  have b: "sp_balance (m_cur ?m) b = sp_balance (m_cur m) b" for b using CreateAccount_balance [OF assms(3)] by simp
  have ok: "spec_ok (m_cur ?m)" using moved_ok [OF r(2) assms(3)] .
  have z: "sp_nonce (m_cur ?m) a = 0" by (simp add: doing_CreateAccount [OF assms(3)] sp_nonce_def sp_get_put fresh_acct_def)
  have "effect E False (m_cur ?m) (doing E (OpSetNonce a (sp_nonce (m_cur ?m) a + 1)) (m_cur ?m))"
    by (rule effect.nonce) (simp_all add: assms(2) [simplified])
  then have n: "R (db_SetNonce db a 1 (db_CreateAccount db a s)) ?n" "moved E False ?m ?n"
    using SetNonce [OF r(1) assms(2), of 1] moved_effect [of E False ?m "doing E (OpSetNonce a 1) (m_cur ?m)"] z by simp_all
  have "sp_balance (m_cur ?n) b = sp_balance (m_cur ?m) b" for b
    using sp_acct_ok [OF ok, of E a] by (simp add: doing_update sp_balance_put)
  then have nb: "sp_balance (m_cur ?n) b = sp_balance (m_cur m) b" for b using b by simp
  show thesis
  proof (cases e)
    case True
    then show ?thesis using that [of ?n] n moved_trans [OF r(2) n(2)] nb by simp
  next
    case False
    then show ?thesis using that [of ?m] r b by simp
  qed
qed

lemma create_early:
  assumes "R s m1" "m_cur m1 \<in> {m_cur m, doing E (OpSetNonce self (sp_nonce (m_cur m) self + 1)) (m_cur m)}" "leads R E False m s"
    "a \<in> addresses" "unat g \<le> unat gas"
  shows "create_result_ok R E env self gas m vm ([], a, g, err, vm\<lparr>vm_db := s\<rparr>)"
  using assms by (auto simp: create_result_ok_def)

lemma zero_address_ok: "zero_address \<in> addresses"
  by (simp add: zero_address_def)

lemma nonce_step:
  assumes "R s m" "a \<in> addresses" "spec_ok (m_cur m)"
  obtains m1 where "R (db_SetNonce db a (sp_nonce (m_cur m) a + 1) s) m1" "moved E False m m1"
    "m_cur m1 = doing E (OpSetNonce a (sp_nonce (m_cur m) a + 1)) (m_cur m)" "\<And>b. sp_balance (m_cur m1) b = sp_balance (m_cur m) b"
proof -
  let ?m = "in_machine E (OpSetNonce a (sp_nonce (m_cur m) a + 1)) m"
  have "moved E False m ?m" by (rule moved_effect [OF effect.nonce [where ro = False, OF _ assms(2)]]) simp
  moreover have "sp_balance (m_cur ?m) b = sp_balance (m_cur m) b" for b
    using sp_acct_ok [OF assms(3), of E a] by (simp add: doing_update sp_balance_put)
  ultimately show thesis using that [of ?m] SetNonce [OF assms(1,2)] by simp
qed

lemma read_pair:
  assumes "gives R m x r"
  obtains s where "r = (x, s)" "R s m"
  using assms by (cases r) (simp add: gives_def)

lemma init_code_ok:
  assumes "env_ok E env" "evm_db env = db" "runner_ok R E env n rn" "R s0 m" "spec_ok (m_cur m)" "R s m1" "moved E False (snap m) m1"
    "contract_ok c" "0 \<le> vm_depth vm" "vm_depth vm \<le> 1024" "1025 \<le> vm_depth vm + int n" "\<not> static env vm False" "a \<in> addresses"
  shows "safe (bindp (run env rn c [] False (vm\<lparr>vm_db := s\<rparr>)) (\<lambda>(ret, err, c1, vm2).
      store_code env (m_next m) a ((case ret of Fresh b \<Rightarrow> b | InputSlice \<Rightarrow> []), err, c1, vm2)))
    (\<lambda>(ret1, b, g, er, vm1). length ret1 < 2 ^ 61 \<and> b = a \<and> unat g \<le> unat (Gas c) \<and>
    vm_depth vm1 = vm_depth vm \<and> readOnly vm1 = readOnly vm \<and> leads R E False m (vm_db vm1) \<and>
    (er \<noteq> None \<and> (IsHomestead (chainRules env) \<or> er \<noteq> Some ErrCodeStoreOutOfGas) \<longrightarrow> (\<exists>m3. R (vm_db vm1) m3 \<and> m_cur m3 = m_cur m)))"
proof -
  let ?vm = "vm\<lparr>vm_db := s\<rparr>"
  have st: "static env ?vm False = False" using assms(12) by (simp add: static_def)
  have sok: "spec_ok (m_cur m1)" using moved_ok [OF assms(7)] assms(5) by simp
  have r: "safe (run env rn c [] False ?vm) (\<lambda>(ret, err, c1, vm1). (\<forall>b. ret = Fresh b \<longrightarrow> length b < 2 ^ 61) \<and> unat (Gas c1) \<le> unat (Gas c) \<and>
      vm_depth vm1 = vm_depth vm \<and> readOnly vm1 = readOnly vm \<and> leads R E False m1 (vm_db vm1))"
    using run_ok [OF assms(1,3,8), of "[]" ?vm m1 False] assms(6,9-11) sok st by simp
  show ?thesis unfolding safe_bindp
  proof (rule safe_mono [OF r], clarify)
    fix ret err and c1 :: Contract and vm2 :: "'s vm"
    assume a: "\<forall>b. ret = Fresh b \<longrightarrow> length b < 2 ^ 61" "unat (Gas c1) \<le> unat (Gas c)" "vm_depth vm2 = vm_depth vm"
      "readOnly vm2 = readOnly vm" "leads R E False m1 (vm_db vm2)"
    have l: "length (case ret of Fresh b \<Rightarrow> b | InputSlice \<Rightarrow> []) < 2 ^ 61" using a(1) by (cases ret) simp_all
    show "safe (store_code env (m_next m) a ((case ret of Fresh b \<Rightarrow> b | InputSlice \<Rightarrow> []), err, c1, vm2))
      (\<lambda>(ret1, b, g, er, vm1). length ret1 < 2 ^ 61 \<and> b = a \<and> unat g \<le> unat (Gas c) \<and>
      vm_depth vm1 = vm_depth vm \<and> readOnly vm1 = readOnly vm \<and> leads R E False m (vm_db vm1) \<and>
      (er \<noteq> None \<and> (IsHomestead (chainRules env) \<or> er \<noteq> Some ErrCodeStoreOutOfGas) \<longrightarrow> (\<exists>m3. R (vm_db vm1) m3 \<and> m_cur m3 = m_cur m)))"
      by (rule safe_mono [OF store_code_ok [OF assms(2,4) a(5) assms(7) l assms(13)]]) (use a(2-4) in auto)
  qed
qed

lemma create_ok:
  assumes "env_ok E env" "evm_db env = db" "runner_ok R E env n rn" "R (vm_db vm) m" "spec_ok (m_cur m)"
    "ref_Address caller \<in> addresses" "a \<in> addresses" "is_word val" "length code < 2 ^ 61" "unat gas < 2 ^ 62"
    "0 \<le> vm_depth vm" "1025 \<le> vm_depth vm + int n" "\<not> static env vm False"
  shows "safe (create env rn caller code h gas val a vm) (create_result_ok R E env (ref_Address caller) gas m vm)"
proof -
  let ?self = "ref_Address caller" and ?Q = "create_result_ok R E env (ref_Address caller) gas m vm"
  obtain s1 where s1: "CanTransfer db ?self val (vm_db vm) = (val \<le> sp_balance (m_cur m) ?self, s1)" "R s1 m"
    by (rule CanTransfer_ok [OF assms(4,6)])
  obtain s2 where s2: "db_GetNonce db ?self s1 = (sp_nonce (m_cur m) ?self, s2)" "R s2 m" by (rule read_pair [OF GetNonce [OF s1(2) assms(6)]])
  obtain m3 where m3: "R (db_SetNonce db ?self (sp_nonce (m_cur m) ?self + 1) s2) m3" "moved E False m m3"
      "m_cur m3 = doing E (OpSetNonce ?self (sp_nonce (m_cur m) ?self + 1)) (m_cur m)" "\<And>b. sp_balance (m_cur m3) b = sp_balance (m_cur m) b"
    by (rule nonce_step [OF s2(2) assms(6,5)]) blast
  have ok3: "spec_ok (m_cur m3)" by (rule moved_ok [OF m3(2) assms(5)])
  let ?s3 = "db_SetNonce db ?self (sp_nonce (m_cur m) ?self + 1) s2"
  obtain s4 where s4: "db_GetCodeHash db a ?s3 = (sp_codehash (m_cur m3) a, s4)" "R s4 m3" by (rule read_pair [OF GetCodeHash [OF m3(1) assms(7)]])
  obtain s5 where s5: "db_GetNonce db a s4 = (sp_nonce (m_cur m3) a, s5)" "R s5 m3" by (rule read_pair [OF GetNonce [OF s4(2) assms(7)]])
  obtain s6 where s6: "db_Snapshot db s5 = (m_next m3, s6)" "R s6 (snap m3)" by (rule Snapshot_pair [OF s5(2)])
  note l3 = leadsI [of R, OF s5(2) m3(2)]
  have kec: "evm_keccak env [] = Keccak256 E []" using assms(1) by (simp add: env_ok_def)
  have e1: "?Q ([], zero_address, gas, Some ErrDepth, vm)"
    using create_early [OF assms(4) _ leads_here [OF assms(4)] zero_address_ok order_refl, where vm = vm] by simp
  have e2: "?Q ([], zero_address, gas, Some ErrInsufficientBalance, vm\<lparr>vm_db := s1\<rparr>)"
    by (rule create_early [OF s1(2) _ leads_here [OF s1(2)] zero_address_ok order_refl]) simp
  have e3: "?Q ([], zero_address, 0, Some ErrContractAddressCollision, vm\<lparr>vm_db := s5\<rparr>)"
    by (rule create_early [OF s5(2) _ l3 zero_address_ok]) (simp_all add: m3(3))
  show ?thesis
  proof (cases "vm_depth vm > 1024 \<or> \<not> val \<le> sp_balance (m_cur m) ?self \<or> sp_nonce (m_cur m3) a \<noteq> 0 \<or>
      (sp_codehash (m_cur m3) a \<noteq> zero_hash \<and> sp_codehash (m_cur m3) a \<noteq> BytesToHash (evm_keccak env []))")
    case True
    then show ?thesis using e1 e2 e3 s1(1) s2(1) s4(1) s5(1) assms(2) by (auto simp: create_def)
  next
    case False
    then have c: "vm_depth vm \<le> 1024" "val \<le> sp_balance (m_cur m) ?self" "sp_nonce (m_cur m3) a = 0"
        "sp_codehash (m_cur m3) a = zero_hash \<or> sp_codehash (m_cur m3) a = BytesToHash (evm_keccak env [])" by auto
    let ?s8 = "if IsEIP158 (chainRules env) then db_SetNonce db a 1 (db_CreateAccount db a s6) else db_CreateAccount db a s6"
    obtain m8 where m8: "R ?s8 m8" "moved E False (snap m3) m8" "\<And>b. sp_balance (m_cur m8) b = sp_balance (m_cur m3) b"
      by (rule new_account_moved [OF s6(2) assms(7), of "IsEIP158 (chainRules env)"]) (use ok3 c kec in simp_all)
    obtain m9 where m9: "R (Transfer db ?self a val ?s8) m9" "moved E False m8 m9"
      using Transfer_moved [OF m8(1) assms(6,7), of val False] c(2) m8(3) m3(4) is_word_ge [OF assms(8)] by auto
    have mv: "moved E False (snap m3) m9" by (rule moved_trans [OF m8(2) m9(2)])
    let ?c = "SetCallCode (Some a) h code (NewContract caller a val gas)"
    have cok: "contract_ok ?c" "Gas ?c = gas" using NewContract_ok(1) [OF assms(6,7,8,10)] assms(9) by (simp_all add: contract_ok_def SetCallCode_def NewContract_def)
    let ?r = "bindp (run env rn ?c [] False (vm\<lparr>vm_db := Transfer db ?self a val ?s8\<rparr>)) (\<lambda>(ret, err, c1, vm2).
      store_code env (m_next m3) a ((case ret of Fresh b \<Rightarrow> b | InputSlice \<Rightarrow> []), err, c1, vm2))"
    have sr: "safe ?r ?Q"
      by (rule safe_mono [OF init_code_ok [OF assms(1-3) s5(2) ok3 m9(1) mv cok(1) assms(11) c(1) assms(12,13,7)]])
        (use cok(2) assms(7) m3(3) leads_trans [OF m3(2)] in \<open>auto simp: create_result_ok_def\<close>)
    have nr: "?Q ([], a, gas, None, vm\<lparr>vm_db := Transfer db ?self a val ?s8\<rparr>)"
      using leadsI [of R, OF m9(1) moved_trans [OF m3(2) moved_trans [OF moved_snapshot mv]]] assms(7) by (simp add: create_result_ok_def)
    have eq: "create env rn caller code h gas val a vm =
        (if NoRecursion (vmConfig env) \<and> vm_depth vm > 0 then Inr ([], a, gas, None, vm\<lparr>vm_db := Transfer db ?self a val ?s8\<rparr>) else ?r)"
      using False s1(1) s2(1) s4(1) s5(1) s6(1) assms(2) unfolding create_def Let_def by (simp only: prod.case if_False de_Morgan_disj not_not) simp
    show ?thesis unfolding eq by (rule safe_if [OF _ sr]) (unfold safe_simps, rule nr)
  qed
qed

end

end
