(* ===== verification/EvmExecSafe.thy ===== *)
theory EvmExecSafe
  imports EvmCallSafe
begin

text \<open>
  The call instructions, and that every instruction keeps the invariant (\<open>execute_ok\<close>).
\<close>

section \<open>Call instructions\<close>

lemma gas_add:
  assumes "unat (g :: u64) + unat h < 2 ^ 62"
  shows "unat (g + h) = unat g + unat h"
  using assms by (simp add: unat_word_ariths)

lemma covers_copy:
  assumes "frame_ok fr" "covers (fr_mem fr) off l"
  obtains b where "mem_GetCopy (big_Int64 off) (big_Int64 l) (fr_mem fr) = Inr b" "length b < 2 ^ 61"
proof -
  have m: "mem_ok (fr_mem fr)" using assms(1) by (simp add: frame_ok_def)
  have "nat l < 2 ^ 61"
  proof (cases "l = 0")
    case False
    note c = covers_small [OF m assms(2) False]
    have "store_len (fr_mem fr) \<le> 0x1FFFFFFFE0" using m by (simp add: mem_ok_def)
    then show ?thesis using c by simp
  qed simp
  then have "length (if l = 0 then [] else take (nat l) (drop (nat off) (last (arrays (fr_mem fr))))) < 2 ^ 61" by (simp add: min.strict_coboundedI2)
  then show thesis by (rule that [OF mem_GetCopy_ok [OF m assms(2)]])
qed

lemma contract_gas:
  assumes "frame_ok fr" "unat g < 2 ^ 62" "list_all is_word st" "length st \<le> 1024" "mem_ok m1" "fee_ok m1"
  shows "frame_ok (fr\<lparr>fr_stack := st, fr_mem := m1, fr_contract := (fr_contract fr)\<lparr>Gas := g\<rparr>\<rparr>)"
    "frame_ok (fr\<lparr>fr_stack := st, fr_contract := (fr_contract fr)\<lparr>Gas := g\<rparr>\<rparr>)"
  using assms by (simp_all add: frame_ok_def contract_ok_def)

context vm_state
begin

lemma end_call_ok:
  assumes "instr_pre e fr vm" "covers (fr_mem fr) off l" "slice_ok args" "list_all is_word st" "length st + 1 \<le> 1024"
    "call_result_ok R E ro gas m vm r" "unat gas \<le> budget e (fr_stack fr) vm" "instr_calls e"
  shows "safe (end_call args off l st fr r) (state_post R E ro m e fr vm)"
proof -
  obtain ret g err vm1 where r: "r = (ret, g, err, vm1)" by (cases r) auto
  have p: "\<forall>b. ret = Fresh b \<longrightarrow> length b < 2 ^ 61" "unat g \<le> unat gas" "vm_depth vm1 = vm_depth vm" "readOnly vm1 = readOnly vm"
    "leads R E ro m (vm_db vm1)" using assms(6) by (simp_all add: r call_result_ok_def)
  let ?ret = "case ret of Fresh b \<Rightarrow> Bytes b | InputSlice \<Rightarrow> args"
  have s: "slice_ok ?ret" using p(1) assms(3) by (cases ret) auto
  note f = pre_frame [OF assms(1)]
  have m: "mem_ok (fr_mem fr)" "fee_ok (fr_mem fr)" using f by (simp_all add: frame_ok_def)
  obtain m1 where m1: "(if err = None \<or> err = Some ErrExecutionReverted
       then mem_Set (big_Uint64 off) (big_Uint64 l) (deref (fr_mem fr) ?ret) (fr_mem fr) else Inr (fr_mem fr)) = Inr m1" "mem_ok m1" "fee_ok m1"
    using mem_Set_ok [OF m(1) assms(2), of "deref (fr_mem fr) ?ret"] m by (metis fee_ok_def)
  have "unat (Gas (fr_contract fr)) + unat g < 2 ^ 62" using assms(1,7) p(2) by (simp add: instr_pre_def)
  note ga = gas_add [OF this]
  let ?g = "Gas (fr_contract fr) + g"
  let ?fr = "fr\<lparr>fr_stack := (if err \<noteq> None then 0 else 1) # st, fr_mem := m1, fr_contract := (fr_contract fr)\<lparr>Gas := ?g\<rparr>\<rparr>"
  have g: "unat ?g \<le> unat (Gas (fr_contract fr)) + budget e (fr_stack fr) vm" "unat ?g < 2 ^ 62"
    using ga p(2) assms(1,7) by (simp_all add: instr_pre_def)
  have fo: "frame_ok ?fr" by (rule contract_gas [OF f]) (use g m1 assms(4,5) in auto)
  have "end_call args off l st fr r = Inr (?ret, None, ?fr, vm1)" using m1(1) by (simp add: end_call_def r Let_def del: if_True)
  then show ?thesis using s fo g(1) p(3-5) assms(8) by (auto simp: state_post_def instr_post_def)
qed

lemma call_end:
  assumes "safe x (call_result_ok R E ro gas m vm)" "instr_pre e fr vm" "covers (fr_mem fr) off l" "slice_ok args" "list_all is_word st"
    "length st + 1 \<le> 1024" "unat gas \<le> budget e (fr_stack fr) vm" "instr_calls e"
  shows "safe (bindp x (end_call args off l st fr)) (state_post R E ro m e fr vm)"
  unfolding safe_bindp by (rule safe_mono [OF assms(1)]) (rule end_call_ok [OF assms(2-6) _ assms(7,8)])

lemma call_gas:
  assumes "instr_pre e fr vm" "e = InstrCall \<or> e = InstrCallCode" "fr_stack fr ! 2 = c"
  shows "unat (callGasTemp vm + (if c \<noteq> 0 then CallStipend else 0)) \<le> budget e (fr_stack fr) vm"
    "unat (callGasTemp vm + (if c \<noteq> 0 then CallStipend else 0)) < 2 ^ 62"
proof -
  have bud: "budget e (fr_stack fr) vm = unat (callGasTemp vm) + (if c \<noteq> 0 then 2300 else 0)" using assms(2,3) by (simp add: budget_def)
  then have "unat (callGasTemp vm) + unat (if c \<noteq> 0 then CallStipend else 0 :: u64) < 2 ^ 62" using assms(1) by (auto simp: instr_pre_def)
  from gas_add [OF this] show "unat (callGasTemp vm + (if c \<noteq> 0 then CallStipend else 0)) \<le> budget e (fr_stack fr) vm"
    "unat (callGasTemp vm + (if c \<noteq> 0 then CallStipend else 0)) < 2 ^ 62"
    using assms(1) bud by (auto simp: instr_pre_def)
qed

lemma opCall_ok:
  assumes "env_ok E env" "evm_db env = db" "runner_ok R E env n rn" "R (vm_db vm) m" "spec_ok (m_cur m)" "instr_pre InstrCall fr vm"
    "0 \<le> vm_depth vm" "1025 \<le> vm_depth vm + int n" "static env vm False \<longrightarrow> fr_stack fr ! 2 = 0"
  shows "safe (opCall env rn fr vm) (state_post R E (static env vm False) m InstrCall fr vm)"
proof (rule stack7 [OF assms(6)])
  fix a b c d f g h st
  assume s: "fr_stack fr = a # b # c # d # f # g # h # st" "is_word c" "is_word d" "is_word f" "is_word g" "is_word h"
    "list_all is_word st" "length st + snd (instr_stack InstrCall) \<le> 1024"
  note fo = pre_frame [OF assms(6)] and co = pre_contract [OF assms(6)]
  have cv: "covers (fr_mem fr) d f" "covers (fr_mem fr) g h" by (rule ready [OF assms(6)]; simp add: s(1))+
  obtain args where args: "mem_GetPtr (big_Int64 d) (big_Int64 f) (fr_mem fr) = Inr args" "slice_ok args" by (rule covers_ptr [OF fo cv(1)])
  let ?gas = "callGasTemp vm + (if c \<noteq> 0 then CallStipend else 0)"
  have "fr_stack fr ! 2 = c" by (simp add: s(1))
  note g = call_gas [OF assms(6) _ this, simplified]
  have "safe (Call env rn (ContractRef (fr_contract fr)) (BigToAddress b) (deref (fr_mem fr) args) ?gas c vm)
      (call_result_ok R E (static env vm False) ?gas m vm)"
    by (rule Call_ok [OF assms(1-5)]) (use co s(2) deref_length [OF args(2)] g(2) assms(7-9) s(1) in \<open>simp_all add: contract_ok_def\<close>)
  from call_end [OF this assms(6) cv(2) args(2) s(7)] show ?thesis
    using s(2,8) g(1) by (simp add: opCall_def s(1) U256_id args(1) instr_calls_def)
qed simp

lemma opCallCode_ok:
  assumes "env_ok E env" "evm_db env = db" "runner_ok R E env n rn" "R (vm_db vm) m" "spec_ok (m_cur m)" "instr_pre InstrCallCode fr vm"
    "0 \<le> vm_depth vm" "1025 \<le> vm_depth vm + int n"
  shows "safe (opCallCode env rn fr vm) (state_post R E (static env vm False) m InstrCallCode fr vm)"
proof (rule stack7 [OF assms(6)])
  fix a b c d f g h st
  assume s: "fr_stack fr = a # b # c # d # f # g # h # st" "is_word c" "is_word d" "is_word f" "is_word g" "is_word h"
    "list_all is_word st" "length st + snd (instr_stack InstrCallCode) \<le> 1024"
  note fo = pre_frame [OF assms(6)] and co = pre_contract [OF assms(6)]
  have cv: "covers (fr_mem fr) d f" "covers (fr_mem fr) g h" by (rule ready [OF assms(6)]; simp add: s(1))+
  obtain args where args: "mem_GetPtr (big_Int64 d) (big_Int64 f) (fr_mem fr) = Inr args" "slice_ok args" by (rule covers_ptr [OF fo cv(1)])
  let ?gas = "callGasTemp vm + (if c \<noteq> 0 then CallStipend else 0)"
  have "fr_stack fr ! 2 = c" by (simp add: s(1))
  note g = call_gas [OF assms(6) _ this, simplified]
  have "safe (CallCode env rn (ContractRef (fr_contract fr)) (BigToAddress b) (deref (fr_mem fr) args) ?gas c vm)
      (call_result_ok R E (static env vm False) ?gas m vm)"
    by (rule CallCode_ok [OF assms(1-5)]) (use co s(2) deref_length [OF args(2)] g(2) assms(7,8) in \<open>simp_all add: contract_ok_def\<close>)
  from call_end [OF this assms(6) cv(2) args(2) s(7)] show ?thesis
    using s(2,8) g(1) by (simp add: opCallCode_def s(1) U256_id args(1) instr_calls_def)
qed simp

lemma opDelegateCall_ok:
  assumes "env_ok E env" "evm_db env = db" "runner_ok R E env n rn" "R (vm_db vm) m" "spec_ok (m_cur m)" "instr_pre InstrDelegateCall fr vm"
    "0 \<le> vm_depth vm" "1025 \<le> vm_depth vm + int n"
  shows "safe (opDelegateCall env rn fr vm) (state_post R E (static env vm False) m InstrDelegateCall fr vm)"
proof (rule stack6 [OF assms(6)])
  fix a b d f g h st
  assume s: "fr_stack fr = a # b # d # f # g # h # st" "is_word d" "is_word f" "is_word g" "is_word h"
    "list_all is_word st" "length st + snd (instr_stack InstrDelegateCall) \<le> 1024"
  note fo = pre_frame [OF assms(6)] and co = pre_contract [OF assms(6)]
  have cv: "covers (fr_mem fr) d f" "covers (fr_mem fr) g h" by (rule ready [OF assms(6)]; simp add: s(1))+
  obtain args where args: "mem_GetPtr (big_Int64 d) (big_Int64 f) (fr_mem fr) = Inr args" "slice_ok args" by (rule covers_ptr [OF fo cv(1)])
  have g: "unat (callGasTemp vm) = budget InstrDelegateCall (fr_stack fr) vm" by (simp add: budget_def)
  have g2: "unat (callGasTemp vm) < 2 ^ 62" using assms(6) g by (simp add: instr_pre_def)
  have "safe (DelegateCall env rn (ContractRef (fr_contract fr)) (BigToAddress b) (deref (fr_mem fr) args) (callGasTemp vm) vm)
      (call_result_ok R E (static env vm False) (callGasTemp vm) m vm)"
    by (rule DelegateCall_ok [OF assms(1-5) co]) (use deref_length [OF args(2)] g2 assms(7,8) in simp_all)
  from call_end [OF this assms(6) cv(2) args(2) s(6)] show ?thesis
    using s(7) g by (simp add: opDelegateCall_def s(1) args(1) instr_calls_def)
qed simp

lemma static_result:
  assumes "call_result_ok R E (static env vm True) gas m vm r"
  shows "call_result_ok R E (static env vm False) gas m vm r"
proof -
  have "leads R E (static env vm False) m s" if "leads R E (static env vm True) m s" for s
    using that by (cases "IsByzantium (chainRules env)") (auto simp: leads_def static_def intro: moved_static_any)
  then show ?thesis using assms by (auto simp: call_result_ok_def)
qed

lemma opStaticCall_ok:
  assumes "env_ok E env" "evm_db env = db" "runner_ok R E env n rn" "R (vm_db vm) m" "spec_ok (m_cur m)" "instr_pre InstrStaticCall fr vm"
    "0 \<le> vm_depth vm" "1025 \<le> vm_depth vm + int n"
  shows "safe (opStaticCall env rn fr vm) (state_post R E (static env vm False) m InstrStaticCall fr vm)"
proof (rule stack6 [OF assms(6)])
  fix a b d f g h st
  assume s: "fr_stack fr = a # b # d # f # g # h # st" "is_word d" "is_word f" "is_word g" "is_word h"
    "list_all is_word st" "length st + snd (instr_stack InstrStaticCall) \<le> 1024"
  note fo = pre_frame [OF assms(6)] and co = pre_contract [OF assms(6)]
  have cv: "covers (fr_mem fr) d f" "covers (fr_mem fr) g h" by (rule ready [OF assms(6)]; simp add: s(1))+
  obtain args where args: "mem_GetPtr (big_Int64 d) (big_Int64 f) (fr_mem fr) = Inr args" "slice_ok args" by (rule covers_ptr [OF fo cv(1)])
  have g: "unat (callGasTemp vm) = budget InstrStaticCall (fr_stack fr) vm" by (simp add: budget_def)
  have g2: "unat (callGasTemp vm) < 2 ^ 62" using assms(6) g by (simp add: instr_pre_def)
  have "safe (StaticCall env rn (ContractRef (fr_contract fr)) (BigToAddress b) (deref (fr_mem fr) args) (callGasTemp vm) vm)
      (call_result_ok R E (static env vm True) (callGasTemp vm) m vm)"
    by (rule StaticCall_ok [OF assms(1-5)]) (use co deref_length [OF args(2)] g2 assms(7,8) in \<open>simp_all add: contract_ok_def\<close>)
  from call_end [OF safe_mono [OF this static_result] assms(6) cv(2) args(2) s(6)] show ?thesis
    using s(7) g by (simp add: opStaticCall_def s(1) args(1) instr_calls_def)
qed simp

lemma Create_ok:
  assumes "env_ok E env" "evm_db env = db" "runner_ok R E env n rn" "R (vm_db vm) m" "spec_ok (m_cur m)"
    "ref_Address caller \<in> addresses" "is_word val" "length code < 2 ^ 61" "unat gas < 2 ^ 62"
    "0 \<le> vm_depth vm" "1025 \<le> vm_depth vm + int n" "\<not> static env vm False"
  shows "safe (Create env rn caller code gas val vm) (create_result_ok R E env (ref_Address caller) gas m vm)"
    "safe (Create2 env rn caller code gas val salt vm) (create_result_ok R E env (ref_Address caller) gas m vm)"
proof -
  obtain s where s: "db_GetNonce db (ref_Address caller) (vm_db vm) = (sp_nonce (m_cur m) (ref_Address caller), s)" "R s m"
    by (rule read_pair [OF GetNonce [OF assms(4,6)]])
  have a: "CreateAddress k b x \<in> addresses" "CreateAddress2 k b y z \<in> addresses" for k b x y z
    by (simp_all add: CreateAddress_def CreateAddress2_def Let_def BytesToAddress_def)
  have q: "create_result_ok R E env x g m (vm\<lparr>vm_db := s\<rparr>) = create_result_ok R E env x g m vm" for x g
    by (simp add: fun_eq_iff create_result_ok_def)
  have st: "\<not> static env (vm\<lparr>vm_db := s\<rparr>) False" using assms(12) by (simp add: static_def)
  show "safe (Create env rn caller code gas val vm) (create_result_ok R E env (ref_Address caller) gas m vm)"
    using create_ok [OF assms(1-3) _ assms(5,6) a(1) assms(7-9), of "vm\<lparr>vm_db := s\<rparr>"] s assms(2,10,11) st
    by (simp add: Create_def q)
  show "safe (Create2 env rn caller code gas val salt vm) (create_result_ok R E env (ref_Address caller) gas m vm)"
    unfolding Create2_def Let_def by (rule create_ok [OF assms(1-6) a(2) assms(7-12)])
qed

lemma div64_le: "(g :: u64) div 64 \<le> g"
  by (simp add: word_le_nat_alt unat_div)

lemma create_end:
  assumes "create_result_ok R E env self gas m vm (res, a, g, err, vm1)" "instr_pre e fr vm" "e = InstrCreate \<or> e = InstrCreate2"
    "gas \<le> Gas (fr_contract fr)" "list_all is_word st" "length st + 1 \<le> 1024" "x = 0 \<or> x = big_SetBytes a" "c = snd (UseGas gas (fr_contract fr))"
    "length b \<le> length res"
  shows "state_post R E False m e fr vm (Bytes b, None, fr\<lparr>fr_stack := x # st, fr_contract := c\<lparr>Gas := Gas c + g\<rparr>\<rparr>, vm1)"
proof -
  let ?G = "Gas (fr_contract fr)"
  have p: "length res < 2 ^ 61" "a \<in> addresses" "unat g \<le> unat gas" "vm_depth vm1 = vm_depth vm" "readOnly vm1 = readOnly vm" "leads R E False m (vm_db vm1)"
    using assms(1) by (simp_all add: create_result_ok_def)
  have c: "c = (fr_contract fr)\<lparr>Gas := ?G - gas\<rparr>" using assms(4,8) by (simp add: UseGas_def not_less [symmetric])
  have u: "unat (?G - gas) = unat ?G - unat gas" "unat gas \<le> unat ?G" using assms(4) by (simp_all add: unat_sub word_le_nat_alt)
  have G: "unat ?G < 2 ^ 62" using pre_contract [OF assms(2)] by (simp add: contract_ok_def)
  then have "unat (?G - gas) + unat g < 2 ^ 62" using u p(3) by linarith
  from gas_add [OF this] have s: "unat (?G - gas + g) \<le> unat ?G" using u p(3) by linarith
  have "is_word x" using assms(7) address_word(1) [OF p(2)] by auto
  then have "frame_ok (fr\<lparr>fr_stack := x # st, fr_contract := (fr_contract fr)\<lparr>Gas := ?G - gas + g\<rparr>\<rparr>)"
    using pre_frame [OF assms(2)] assms(5,6) s G by (auto simp: frame_ok_def contract_ok_def)
  moreover have "\<exists>g1. c\<lparr>Gas := Gas c + g\<rparr> = (fr_contract fr)\<lparr>Gas := g1\<rparr> \<and> unat g1 \<le> unat ?G + budget e (fr_stack fr) vm"
    by (rule exI [of _ "?G - gas + g"]) (use c s in simp)
  ultimately show ?thesis using p assms(3,9) c by (auto simp: state_post_def instr_post_def instr_calls_def)
qed

lemma opCreate_ok:
  assumes "env_ok E env" "evm_db env = db" "runner_ok R E env n rn" "R (vm_db vm) m" "spec_ok (m_cur m)" "instr_pre InstrCreate fr vm"
    "0 \<le> vm_depth vm" "1025 \<le> vm_depth vm + int n" "\<not> static env vm False"
  shows "safe (opCreate env rn fr vm) (state_post R E False m InstrCreate fr vm)"
proof (rule stack3 [OF assms(6)])
  fix a b d st
  assume s: "fr_stack fr = a # b # d # st" "is_word a" "is_word b" "is_word d" "list_all is_word st" "length st + snd (instr_stack InstrCreate) \<le> 1024"
  note fo = pre_frame [OF assms(6)] and co = pre_contract [OF assms(6)]
  have cv: "covers (fr_mem fr) b d" by (rule ready [OF assms(6)]) (simp_all add: s(1))
  obtain code where code: "mem_GetCopy (big_Int64 b) (big_Int64 d) (fr_mem fr) = Inr code" "length code < 2 ^ 61" by (rule covers_copy [OF fo cv])
  let ?G = "Gas (fr_contract fr)"
  let ?gas = "if IsEIP150 (chainRules env) then ?G - ?G div 64 else ?G"
  let ?c = "snd (UseGas ?gas (fr_contract fr))"
  have le: "?gas \<le> ?G" using div64_le [of ?G] by (simp add: word_sub_le)
  have g: "unat ?gas < 2 ^ 62" using le co by (simp add: contract_ok_def word_le_nat_alt)
  have self: "ref_Address (ContractRef ?c) \<in> addresses" using co by (simp add: UseGas_def contract_ok_def)
  note cr = Create_ok(1) [OF assms(1-5) self s(2) code(2) g assms(7-9)]
  show ?thesis unfolding opCreate_def s(1) list.case code(1) bindp_simps Let_def safe_bindp
    by (rule safe_mono [OF cr], clarify, unfold safe_simps) (erule create_end [OF _ assms(6) _ le s(5) _ _ refl]; use s(6) in simp)
qed simp

lemma opCreate2_ok:
  assumes "env_ok E env" "evm_db env = db" "runner_ok R E env n rn" "R (vm_db vm) m" "spec_ok (m_cur m)" "instr_pre InstrCreate2 fr vm"
    "0 \<le> vm_depth vm" "1025 \<le> vm_depth vm + int n" "\<not> static env vm False"
  shows "safe (opCreate2 env rn fr vm) (state_post R E False m InstrCreate2 fr vm)"
proof (rule stack4 [OF assms(6)])
  fix a b d f st
  assume s: "fr_stack fr = a # b # d # f # st" "is_word a" "is_word b" "is_word d" "is_word f" "list_all is_word st" "length st + snd (instr_stack InstrCreate2) \<le> 1024"
  note fo = pre_frame [OF assms(6)] and co = pre_contract [OF assms(6)]
  have cv: "covers (fr_mem fr) b d" by (rule ready [OF assms(6)]) (simp_all add: s(1))
  obtain code where code: "mem_GetCopy (big_Int64 b) (big_Int64 d) (fr_mem fr) = Inr code" "length code < 2 ^ 61" by (rule covers_copy [OF fo cv])
  let ?G = "Gas (fr_contract fr)"
  let ?gas = "?G - ?G div 64"
  let ?c = "snd (UseGas ?gas (fr_contract fr))"
  have le: "?gas \<le> ?G" using div64_le [of ?G] by (simp add: word_sub_le)
  have g: "unat ?gas < 2 ^ 62" using le co by (simp add: contract_ok_def word_le_nat_alt)
  have self: "ref_Address (ContractRef ?c) \<in> addresses" using co by (simp add: UseGas_def contract_ok_def)
  note cr = Create_ok(2) [OF assms(1-5) self s(2) code(2) g assms(7-9)]
  show ?thesis unfolding opCreate2_def s(1) list.case code(1) bindp_simps Let_def safe_bindp
    by (rule safe_mono [OF cr], clarify, unfold safe_simps) (erule create_end [OF _ assms(6) _ le s(6) _ _ refl]; use s(7) in simp)
qed simp

section \<open>All instructions\<close>

lemma execute_ok:
  assumes "env_ok E env" "evm_db env = db" "runner_ok R E env n rn" "R (vm_db vm) m" "spec_ok (m_cur m)" "instr_pre e fr vm" "e \<noteq> InstrNil"
    "0 \<le> vm_depth vm" "1025 \<le> vm_depth vm + int n" "instr_writes e \<longrightarrow> \<not> static env vm False"
    "e = InstrCall \<and> static env vm False \<longrightarrow> fr_stack fr ! 2 = 0"
  shows "safe (execute e env rn fr vm) (state_post R E (static env vm False) m e fr vm)"
proof (cases "pure_instr e")
  case True
  then show ?thesis using pure_state [OF True assms(6,4)] by simp
next
  case np: False
  let ?Q = "\<lambda>e. state_post R E (static env vm False) m e fr vm"
  have environ: "safe (environ i env rn fr vm) (?Q (Environ i))" if "e = Environ i" for i
    using environ0_ok [OF assms(1,2,4,5)] environ1_ok [OF assms(1,2,4,5)] assms(6) that
    by (cases "environ_arity i = 0") (simp_all add: environ_arity_def split: if_splits)
  note cs = assms(1-5) and d = assms(8,9)
  show ?thesis
  proof (cases e)
    case InstrCall
    then show ?thesis using opCall_ok [OF cs _ d] assms(6,11) by simp
  next
    case InstrCallCode
    then show ?thesis using opCallCode_ok [OF cs _ d] assms(6) by simp
  next
    case InstrDelegateCall
    then show ?thesis using opDelegateCall_ok [OF cs _ d] assms(6) by simp
  next
    case InstrStaticCall
    then show ?thesis using opStaticCall_ok [OF cs _ d] assms(6) by simp
  next
    case InstrCreate
    then show ?thesis using opCreate_ok [OF cs _ d] assms(6,10) by (simp add: instr_writes_def)
  next
    case InstrCreate2
    then show ?thesis using opCreate2_ok [OF cs _ d] assms(6,10) by (simp add: instr_writes_def)
  next
    case InstrSstore
    then show ?thesis using Sstore_ok [OF assms(2,4)] assms(6,10) by (simp add: instr_writes_def)
  next
    case (InstrLog k)
    then show ?thesis using Log_ok [OF assms(2,4)] assms(6,10) by (simp add: instr_writes_def)
  next
    case InstrSuicide
    then show ?thesis using Suicide_ok [OF assms(2,4)] assms(6,10) by (simp add: instr_writes_def)
  next
    case InstrSload
    then show ?thesis using Sload_ok [OF assms(2,4,5)] assms(6) by simp
  next
    case InstrSha3
    then show ?thesis using Sha3_ok [OF assms(1,2,4)] assms(6) by simp
  next
    case InstrExtCodeCopy
    then show ?thesis using ExtCodeCopy_ok [OF assms(2,4,5)] assms(6) by simp
  next
    case (Environ i)
    then show ?thesis using environ by simp
  qed (use np assms(7) in \<open>simp_all add: pure_instr_def\<close>)
qed

end

end
