(* ===== verification/EvmRunSafe.thy ===== *)
theory EvmRunSafe
  imports EvmExecSafe
begin

text \<open>
  The interpreter loop (src/core/vm/interpreter.go) keeps the invariant. A turn of the loop that does not end it uses gas,
  so the gas bounds the number of turns; the depth limit bounds the nesting. \<open>Run_ok\<close> closes the recursion between the
  interpreter and the calls by induction on the nesting.
\<close>

section \<open>One turn of the loop\<close>

lemma UseGas_cases:
  obtains "UseGas g c = (False, c)" "Gas c < g"
  | "UseGas g c = (True, c\<lparr>Gas := Gas c - g\<rparr>)" "unat (Gas c - g) + unat g = unat (Gas c)"
  by (cases "Gas c < g") (simp_all add: UseGas_def unat_sub not_less word_le_nat_alt)

text \<open>What holds after a turn: the loop goes on with less gas, or it ends.\<close>

definition step_post ::
  "('s \<Rightarrow> machine \<Rightarrow> bool) \<Rightarrow> 't backend \<Rightarrow> bool \<Rightarrow> machine \<Rightarrow> frame \<Rightarrow> 's vm \<Rightarrow> 's step_result \<Rightarrow> bool" where
  "step_post R E ro m fr vm r \<longleftrightarrow>
    (case r of
       Continue fr1 vm1 \<Rightarrow> frame_ok fr1 \<and> unat (Gas (fr_contract fr1)) < unat (Gas (fr_contract fr)) \<and> vm_depth vm1 = vm_depth vm \<and>
         readOnly vm1 = readOnly vm \<and> slice_ok (returnData vm1) \<and> leads R E ro m (vm_db vm1)
     | Halt ret err c vm1 \<Rightarrow> length ret < 2 ^ 61 \<and> unat (Gas c) \<le> unat (Gas (fr_contract fr)) \<and> vm_depth vm1 = vm_depth vm \<and>
         readOnly vm1 = readOnly vm \<and> leads R E ro m (vm_db vm1))"

lemma stop_post:
  assumes "unat (Gas (fr_contract fr1)) \<le> unat (Gas (fr_contract fr))" "vm_depth vm1 = vm_depth vm" "readOnly vm1 = readOnly vm" "leads R E ro m (vm_db vm1)"
  shows "safe (stop_with e fr1 vm1) (step_post R E ro m fr vm)"
  using assms by (simp add: stop_with_def step_post_def)

lemma required_memory_ok:
  assumes "op_memorySize p = instr_memory e" "fst (instr_stack e) \<le> length st"
  obtains "required_memory p st = Inr (0, True)" | ms where "required_memory p st = Inr (ms, True)"
  | ms where "required_memory p st = Inr (ms, False)" "32 dvd unat ms" "instr_memory e = None \<longrightarrow> ms = 0"
    "\<And>m. unat ms \<le> store_len m \<Longrightarrow> mem_ready e st m"
proof (cases "instr_memory e")
  case None
  then show thesis using that(3) [of 0] assms(1) by (simp add: required_memory_def mem_ready_def)
next
  case (Some f)
  obtain sz ov where sz: "memory_size f st = Inr (sz, ov)" using memory_size_total [OF Some assms(2)] by (metis surj_pair)
  show thesis
  proof (cases ov)
    case True
    then show ?thesis using that(1) sz Some assms(1) by (simp add: required_memory_def)
  next
    case False
    obtain ms ov2 where ms: "SafeMul (toWordSize sz) 32 = (ms, ov2)" by fastforce
    have r: "required_memory p st = Inr (ms, ov2)" using sz Some assms(1) False ms by (simp add: required_memory_def)
    show ?thesis
    proof (cases ov2)
      case True
      then show ?thesis using that(2) r by simp
    next
      case ov2: False
      have ms0: "SafeMul (toWordSize sz) 32 = (ms, False)" using ms ov2 by simp
      have sz0: "memory_size f st = Inr (sz, False)" using sz False by simp
      note rs = round_size [OF ms0]
      have "mem_ready e st m" if "unat ms \<le> store_len m" for m
        unfolding mem_ready_def using memory_size_covers [OF sz0] rs(1) that Some by fastforce
      then show ?thesis using that(3) r ov2 rs(2) Some by simp
    qed
  qed
qed

lemma after_execute_ok:
  assumes "op_wf b p" "op_valid p" "state_post R E ro m (op_execute p) fr vm r" "slice_ok (returnData vm)"
    "unat (Gas (fr_contract fr)) + budget (op_execute p) (fr_stack fr) vm \<le> unat (Gas (fr_contract fr0))"
    "op_halts p \<or> op_reverts p \<or> unat (Gas (fr_contract fr)) + budget (op_execute p) (fr_stack fr) vm < unat (Gas (fr_contract fr0))"
    "vm_depth vm = vm_depth vm0" "readOnly vm = readOnly vm0"
  shows "safe (after_execute p r) (step_post R E ro m fr0 vm0)"
proof -
  obtain res err fr1 vm1 where r: "r = (res, err, fr1, vm1)" by (cases r) auto
  have q: "slice_ok res" "err = None \<longrightarrow> frame_ok fr1" "vm_depth vm1 = vm_depth vm" "readOnly vm1 = readOnly vm"
      "\<not> instr_calls (op_execute p) \<longrightarrow> returnData vm1 = returnData vm" "leads R E ro m (vm_db vm1)"
      "unat (Gas (fr_contract fr1)) \<le> unat (Gas (fr_contract fr)) + budget (op_execute p) (fr_stack fr) vm"
    using assms(3) by (auto simp: r state_post_def instr_post_def)
  have rd: "\<not> op_returns p \<longrightarrow> returnData vm1 = returnData vm" using assms(1,2) q(5) by (auto simp: op_wf_def)
  have fp: "frame_ok (fr1\<lparr>fr_pc := x\<rparr>) = frame_ok fr1" for x by (simp add: frame_ok_def)
  show ?thesis
    using q rd assms(4-8) deref_length [OF q(1)] fp
    by (auto simp: after_execute_def r Let_def step_post_def split: option.split)
qed

lemma start_instr:
  assumes "op_wf (GetByte code pc) p" "op_valid p" "length code < 2 ^ 61" "op_execute p = InstrPush n k"
  shows "unat pc < 2 ^ 61"
proof -
  have "GetByte code pc \<noteq> 0" using assms(1,2,4) by (auto simp: op_wf_def)
  then have "pc < word_of_nat (length code)" by (auto simp: GetByte_def split: if_splits)
  then show ?thesis using assms(3) by (simp add: word_less_nat_alt unat_of_nat)
qed

lemma no_gas:
  assumes "None \<in> set (instr_gas e)"
  shows "instr_memory e = None" "\<not> gas_positive e" "budget e st vm = 0"
  using assms by (cases e; simp add: instr_gas_Arith gas_positive_def budget_def split: if_splits)+

context vm_state
begin

lemma operation_gas_ok:
  assumes "evm_db env = db" "R (vm_db vm) m" "frame_ok fr" "op_wf b p" "op_valid p" "op_minStack p \<le> length (fr_stack fr)"
    "32 dvd unat ms" "instr_memory (op_execute p) = None \<longrightarrow> ms = 0" "instr_writes (op_execute p) \<longrightarrow> \<not> ro"
  shows "safe (case op_dynamicGas p of None \<Rightarrow> Inr (Inr 0, fr, vm) | Some g \<Rightarrow> dynamic_gas g env ms fr vm)
    (\<lambda>(cost, fr1, vm1). (\<exists>m1. fr1 = fr\<lparr>fr_mem := m1\<rparr> \<and> (\<forall>c. cost = Inr c \<longrightarrow> mem_paid ms (fr_mem fr) m1)) \<and>
       vm_depth vm1 = vm_depth vm \<and> readOnly vm1 = readOnly vm \<and> returnData vm1 = returnData vm \<and>
       (\<forall>c. cost = Inr c \<longrightarrow> budget (op_execute p) (fr_stack fr) vm1 \<le> unat c \<and> (gas_positive (op_execute p) \<longrightarrow> 0 < unat c)) \<and>
       leads R E ro m (vm_db vm1))"
proof (cases "op_dynamicGas p")
  case None
  have n: "None \<in> set (instr_gas (op_execute p))" using assms(4,5) None by (simp add: op_wf_def)
  note no = no_gas [OF n]
  have "mem_paid ms (fr_mem fr) (fr_mem fr)" using no(1) assms(3,8) mem_paid_refl by (auto simp: frame_ok_def)
  then show ?thesis using None no leads_here [OF assms(2)] by (auto intro!: exI [of _ "fr_mem fr"])
next
  case (Some g)
  have g: "Some g \<in> set (instr_gas (op_execute p))" using assms(4,5) Some by (simp add: op_wf_def)
  have l: "fst (instr_stack (op_execute p)) \<le> length (fr_stack fr)" using assms(4-6) by (simp add: op_wf_def)
  show ?thesis unfolding Some option.case
    by (rule safe_mono [OF dynamic_gas_ok [OF assms(1-3) l g assms(7,8,9)]]) (auto simp: gas_post_def)
qed

end

context vm_state
begin

text \<open>The last part of a turn, after both parts of the gas have been paid.\<close>

lemma execute_paid:
  assumes env: "env_ok E env" "evm_db env = db" "runner_ok R E env n rn" "spec_ok (m_cur m)" "leads R E ro m (vm_db vm1)"
    and fr: "frame_ok fr" "slice_ok (returnData vm1)" "0 \<le> vm_depth vm1" "1025 \<le> vm_depth vm1 + int n" "ro = static env vm1 False"
    and p: "op_wf b p" "op_valid p" "op_minStack p \<le> length (fr_stack fr)" "length (fr_stack fr) \<le> op_maxStack p"
    and w: "instr_writes (op_execute p) \<longrightarrow> \<not> ro" "op_execute p = InstrCall \<and> ro \<longrightarrow> fr_stack fr ! 2 = 0"
    and push: "\<And>k l. op_execute p = InstrPush k l \<Longrightarrow> unat (fr_pc fr) < 2 ^ 61"
    and mem: "mem_paid ms (fr_mem fr) m1" "32 dvd unat ms" "\<And>m. unat ms \<le> store_len m \<Longrightarrow> mem_ready (op_execute p) (fr_stack fr) m"
    and bud: "budget (op_execute p) (fr_stack fr) vm1 \<le> unat dc" "gas_positive (op_execute p) \<longrightarrow> 0 < unat dc"
    and gas: "unat (Gas (fr_contract fr) - dc) + unat dc = unat (Gas (fr_contract fr))"
      "unat (Gas (fr_contract fr)) + unat (op_constantGas p) = unat (Gas (fr_contract fr0))"
    and vm: "vm_depth vm1 = vm_depth vm0" "readOnly vm1 = readOnly vm0"
  shows "safe (bindp (execute (op_execute p) env rn (fr\<lparr>fr_mem := m1, fr_contract := (fr_contract fr)\<lparr>Gas := Gas (fr_contract fr) - dc\<rparr>,
      fr_mem := if ms > 0 then mem_Resize (growcap env) ms m1 else m1\<rparr>) vm1) (after_execute p)) (step_post R E ro m fr0 vm0)"
proof -
  let ?e = "op_execute p" and ?G = "Gas (fr_contract fr)"
  let ?fr = "fr\<lparr>fr_contract := (fr_contract fr)\<lparr>Gas := ?G - dc\<rparr>, fr_mem := if ms > 0 then mem_Resize (growcap env) ms m1 else m1\<rparr>"
  have mo: "mem_ok (fr_mem fr)" and G: "unat ?G < 2 ^ 62" using fr(1) by (simp_all add: frame_ok_def contract_ok_def)
  note rz = mem_paid_Resize [OF mo mem(1,2), of "growcap env"]
  have fo: "frame_ok ?fr" using fr(1) rz(1,2) gas(1) G by (simp add: frame_ok_def contract_ok_def)
  have gb: "unat (?G - dc) + budget ?e (fr_stack fr) vm1 \<le> unat ?G" using bud(1) gas(1) by linarith
  have pre: "instr_pre ?e ?fr vm1" using fo p mem(3) [OF rz(3)] gb G fr(2) push by (auto simp: instr_pre_def op_wf_def)
  obtain mx where mx: "R (vm_db vm1) mx" "moved E ro m mx" using env(5) by (auto simp: leads_def)
  have ex: "safe (execute ?e env rn ?fr vm1) (state_post R E ro mx ?e ?fr vm1)"
    using execute_ok [OF env(1-3) mx(1) moved_ok [OF mx(2) env(4)] pre] p w fr(3-5) by (simp add: op_wf_def)
  have "budget ?e (fr_stack fr) vm1 = 0" if "gas_positive ?e" using that by (auto simp: gas_positive_def budget_def)
  moreover have "op_halts p \<or> op_reverts p \<or> 0 < unat (op_constantGas p) \<or> gas_positive ?e"
    using p(1,2) by (auto simp: op_wf_def word_less_nat_alt)
  ultimately have strict: "op_halts p \<or> op_reverts p \<or> unat (?G - dc) + budget ?e (fr_stack fr) vm1 < unat (Gas (fr_contract fr0))"
    using gb bud gas by fastforce
  have "state_post R E ro m ?e ?fr vm1 r" if "state_post R E ro mx ?e ?fr vm1 r" for r
    using that leads_trans [OF mx(2)] by (auto simp: state_post_def)
  then have "safe (after_execute p r) (step_post R E ro m fr0 vm0)" if "state_post R E ro mx ?e ?fr vm1 r" for r
    by (rule after_execute_ok [OF p(1,2) _ fr(2)]) (use that strict gb gas vm in simp_all)
  then show ?thesis using safe_mono [OF ex] by simp
qed

lemma run_operation_ok:
  assumes env: "env_ok E env" "evm_db env = db" "runner_ok R E env n rn" "R (vm_db vm) m" "spec_ok (m_cur m)"
    and fr: "frame_ok fr" "slice_ok (returnData vm)" "0 \<le> vm_depth vm" "1025 \<le> vm_depth vm + int n"
    and p: "op_wf b p" "op_valid p" "op_minStack p \<le> length (fr_stack fr)" "length (fr_stack fr) \<le> op_maxStack p"
    and w: "instr_writes (op_execute p) \<longrightarrow> \<not> static env vm False" "op_execute p = InstrCall \<and> static env vm False \<longrightarrow> fr_stack fr ! 2 = 0"
    and push: "\<And>k l. op_execute p = InstrPush k l \<Longrightarrow> unat (fr_pc fr) < 2 ^ 61"
    and gas: "unat (Gas (fr_contract fr)) + unat (op_constantGas p) = unat (Gas (fr_contract fr0))"
  shows "safe (run_operation env rn p fr vm) (step_post R E (static env vm False) m fr0 vm)"
proof -
  let ?e = "op_execute p" and ?ro = "static env vm False" and ?G = "Gas (fr_contract fr)"
  let ?Q = "step_post R E ?ro m fr0 vm"
  have wf: "op_memorySize p = instr_memory ?e" "fst (instr_stack ?e) \<le> length (fr_stack fr)" using p by (simp_all add: op_wf_def)
  have le: "unat ?G \<le> unat (Gas (fr_contract fr0))" using gas by simp
  have over: "required_memory p (fr_stack fr) = Inr (ms, True) \<Longrightarrow> safe (run_operation env rn p fr vm) ?Q" for ms
    using stop_post [OF le refl refl leads_here [OF env(4)]] by (simp add: run_operation_def)
  show ?thesis
  proof (rule required_memory_ok [OF wf], rule over, assumption, rule over, assumption)
    fix ms assume ms: "required_memory p (fr_stack fr) = Inr (ms, False)" "32 dvd unat ms" "instr_memory ?e = None \<longrightarrow> ms = 0"
      "\<And>m. unat ms \<le> store_len m \<Longrightarrow> mem_ready ?e (fr_stack fr) m"
    show ?thesis unfolding run_operation_def ms(1) bindp_simps prod.case if_False safe_bindp
    proof (rule safe_mono [OF operation_gas_ok [OF env(2,4) fr(1) p(1-3) ms(2,3) w(1)]], clarify)
      fix cost :: "vm_error + u64" and vm1 :: "'s vm" and m1
      assume a: "\<forall>c. cost = Inr c \<longrightarrow> mem_paid ms (fr_mem fr) m1" "vm_depth vm1 = vm_depth vm" "readOnly vm1 = readOnly vm"
        "returnData vm1 = returnData vm" "leads R E ?ro m (vm_db vm1)"
        "\<forall>c. cost = Inr c \<longrightarrow> budget ?e (fr_stack fr) vm1 \<le> unat c \<and> (gas_positive ?e \<longrightarrow> 0 < unat c)"
      let ?fr1 = "fr\<lparr>fr_mem := m1\<rparr>"
      have stop: "safe (stop_with e ?fr1 vm1) ?Q" for e by (rule stop_post) (use le a in simp_all)
      have st: "?ro = static env vm1 False" using a(3) by (simp add: static_def)
      show "safe (case cost of Inl _ \<Rightarrow> stop_with ErrOutOfGas ?fr1 vm1
        | Inr dynamicCost \<Rightarrow> (case UseGas dynamicCost (fr_contract ?fr1) of (False, _) \<Rightarrow> stop_with ErrOutOfGas ?fr1 vm1
            | (True, c) \<Rightarrow> let mm = (if ms > 0 then mem_Resize (growcap env) ms (fr_mem ?fr1) else fr_mem ?fr1)
                in bindp (execute ?e env rn (?fr1\<lparr>fr_contract := c, fr_mem := mm\<rparr>) vm1) (after_execute p))) ?Q"
      proof (cases cost)
        case (Inr dc)
        have mp: "mem_paid ms (fr_mem fr) m1" "budget ?e (fr_stack fr) vm1 \<le> unat dc" "gas_positive ?e \<longrightarrow> 0 < unat dc"
          using a(1,6) Inr by blast+
        have ex: "unat (?G - dc) + unat dc = unat ?G \<Longrightarrow> safe (bindp (execute ?e env rn (fr\<lparr>fr_mem := m1,
            fr_contract := (fr_contract fr)\<lparr>Gas := ?G - dc\<rparr>, fr_mem := if ms > 0 then mem_Resize (growcap env) ms m1 else m1\<rparr>) vm1) (after_execute p)) ?Q"
          by (rule execute_paid [OF env(1-3,5) a(5) fr(1) _ _ _ st p w push mp(1) ms(2,4) mp(2,3) _ gas]) (use fr(2-4) a(2-4) in simp_all)
        show ?thesis
          by (rule UseGas_cases [of dc "fr_contract fr"]) (use Inr stop ex in \<open>simp_all add: Let_def split: if_splits\<close>)
      qed (use stop in simp)
    qed
  qed
qed

lemma run_step_ok:
  assumes env: "env_ok E env" "evm_db env = db" "runner_ok R E env n rn" "R (vm_db vm) m" "spec_ok (m_cur m)"
    and fr: "frame_ok fr" "slice_ok (returnData vm)" "0 \<le> vm_depth vm" "1025 \<le> vm_depth vm + int n"
  shows "safe (run_step env rn fr vm) (step_post R E (static env vm False) m fr vm)"
proof -
  let ?b = "GetByte (Code (fr_contract fr)) (fr_pc fr)"
  let ?p = "jump_table env ?b"
  let ?Q = "step_post R E (static env vm False) m fr vm"
  have stop: "safe (stop_with e fr vm) ?Q" for e by (rule stop_post) (use leads_here [OF env(4)] in simp_all)
  have wf: "op_wf ?b ?p" using env(1) by (simp add: env_ok_def table_wf_def)
  show ?thesis
  proof (cases "\<not> op_valid ?p \<or> length (fr_stack fr) < op_minStack ?p \<or> length (fr_stack fr) > op_maxStack ?p \<or>
      readOnly vm \<and> IsByzantium (chainRules env) \<and> (op_writes ?p \<or> (?b = CALL \<and> fr_stack fr ! 2 \<noteq> 0))")
    case True
    then show ?thesis using stop by (auto simp: run_step_def Let_def)
  next
    case False
    then have p: "op_valid ?p" "op_minStack ?p \<le> length (fr_stack fr)" "length (fr_stack fr) \<le> op_maxStack ?p"
        "static env vm False \<longrightarrow> \<not> op_writes ?p \<and> \<not> (?b = CALL \<and> fr_stack fr ! 2 \<noteq> 0)" by (auto simp: static_def)
    have w: "instr_writes (op_execute ?p) \<longrightarrow> \<not> static env vm False" "op_execute ?p = InstrCall \<and> static env vm False \<longrightarrow> fr_stack fr ! 2 = 0"
      using wf p(1,4) by (auto simp: op_wf_def)
    have push: "unat (fr_pc fr) < 2 ^ 61" if "op_execute ?p = InstrPush k l" for k l
      using start_instr [OF wf p(1) _ that] fr(1) by (simp add: frame_ok_def contract_ok_def)
    let ?fr = "fr\<lparr>fr_contract := (fr_contract fr)\<lparr>Gas := Gas (fr_contract fr) - op_constantGas ?p\<rparr>\<rparr>"
    have op: "safe (run_operation env rn ?p ?fr vm) ?Q" if g: "unat (Gas (fr_contract fr) - op_constantGas ?p) + unat (op_constantGas ?p) = unat (Gas (fr_contract fr))"
    proof -
      have "frame_ok ?fr" using fr(1) g by (simp add: frame_ok_def contract_ok_def)
      then show ?thesis by (rule run_operation_ok [OF env _ fr(2-4) wf p(1)]) (use p(2,3) w push g in simp_all)
    qed
    have eq: "run_step env rn fr vm = (case UseGas (op_constantGas ?p) (fr_contract fr) of
        (False, _) \<Rightarrow> stop_with ErrOutOfGas fr vm | (True, c) \<Rightarrow> run_operation env rn ?p (fr\<lparr>fr_contract := c\<rparr>) vm)"
      using False by (auto simp: run_step_def Let_def)
    show ?thesis unfolding eq by (rule UseGas_cases [of "op_constantGas ?p" "fr_contract fr"]) (use stop op in simp_all)
  qed
qed

section \<open>The loop and the nesting of calls\<close>

lemma run_loop_ok:
  assumes env: "env_ok E env" "evm_db env = db" "runner_ok R E env n rn"
  shows "R (vm_db vm) m \<Longrightarrow> spec_ok (m_cur m) \<Longrightarrow> frame_ok fr \<Longrightarrow> slice_ok (returnData vm) \<Longrightarrow> 0 \<le> vm_depth vm \<Longrightarrow>
    1025 \<le> vm_depth vm + int n \<Longrightarrow> unat (Gas (fr_contract fr)) < k \<Longrightarrow>
    safe (run_loop k env rn fr vm) (run_post R E (static env vm False) (fr_contract fr) m vm)"
proof (induction k arbitrary: fr vm m)
  case (Suc k)
  let ?ro = "static env vm False"
  show ?case unfolding run_loop.simps safe_bindp
  proof (rule safe_mono [OF run_step_ok [OF env Suc.prems(1-6)]])
    fix r assume r: "step_post R E ?ro m fr vm r"
    show "safe (case r of Continue fr1 vm1 \<Rightarrow> run_loop k env rn fr1 vm1 | Halt ret err c vm1 \<Rightarrow> Inr (ret, err, c, vm1))
      (run_post R E ?ro (fr_contract fr) m vm)"
    proof (cases r)
      case (Halt ret err c vm1)
      then show ?thesis using r by (simp add: step_post_def run_post_def)
    next
      case (Continue fr1 vm1)
      have s: "frame_ok fr1" "unat (Gas (fr_contract fr1)) < unat (Gas (fr_contract fr))" "vm_depth vm1 = vm_depth vm"
          "readOnly vm1 = readOnly vm" "slice_ok (returnData vm1)" "leads R E ?ro m (vm_db vm1)" using r Continue by (simp_all add: step_post_def)
      obtain m1 where m1: "R (vm_db vm1) m1" "moved E ?ro m m1" using s(6) by (auto simp: leads_def)
      have st: "static env vm1 False = ?ro" using s(4) by (simp add: static_def)
      have "safe (run_loop k env rn fr1 vm1) (run_post R E ?ro (fr_contract fr1) m1 vm1)"
        using Suc.IH [OF m1(1) moved_ok [OF m1(2) Suc.prems(2)] s(1,5)] s(2,3) Suc.prems(5-7) st by simp
      then show ?thesis unfolding Continue step_result.case
        by (rule safe_mono) (use s(2-4) leads_trans [OF m1(2)] in \<open>auto simp: run_post_def\<close>)
    qed
  qed
qed simp

lemma Run_body_ok:
  assumes "env_ok E env" "evm_db env = db" "runner_ok R E env n rn"
  shows "runner_ok R E env (Suc n) (Run_body env rn)"
  unfolding runner_ok_def
proof (intro allI impI)
  fix c :: Contract and input :: bytes and ro and vm :: "'s vm" and m
  assume a: "contract_ok c" "length input < 2 ^ 61" "R (vm_db vm) m" "spec_ok (m_cur m)" "0 \<le> vm_depth vm" "vm_depth vm \<le> 1024"
    "1025 \<le> vm_depth vm + int (Suc n)"
  let ?en = "ro \<and> \<not> readOnly vm"
  let ?vm = "vm\<lparr>vm_depth := vm_depth vm + 1, readOnly := readOnly vm \<or> ?en, returnData := Bytes []\<rparr>"
  let ?fr = "\<lparr>fr_pc = 0, fr_mem = NewMemory, fr_stack = [], fr_contract = c\<lparr>c_Input := input\<rparr>\<rparr>"
  have st: "static env ?vm False = static env vm ro" by (auto simp: static_def)
  have fo: "frame_ok ?fr" using a(1,2) by (simp add: frame_ok_def contract_ok_def)
  have loop: "safe (run_loop (unat (Gas c) + 1) env rn ?fr ?vm) (run_post R E (static env vm ro) (c\<lparr>c_Input := input\<rparr>) m ?vm)"
    using run_loop_ok [OF assms, of ?vm m ?fr "unat (Gas c) + 1"] a(3-5,7) fo st by simp
  have leave: "safe (leave_run ?en r) (run_post R E (static env vm ro) c m vm)"
    if "run_post R E (static env vm ro) (c\<lparr>c_Input := input\<rparr>) m ?vm r" for r
    using that by (auto simp: leave_run_def run_post_def split: if_splits)
  have "run_post R E (static env vm ro) (c\<lparr>c_Input := input\<rparr>) m ?vm ([], None, c, ?vm)"
    using leads_here [OF a(3)] by (simp add: run_post_def)
  from leave [OF this] show "safe (Run_body env rn c input ro vm) (run_post R E (static env vm ro) c m vm)"
    using safe_mono [OF loop leave] by (simp add: Run_body_def Let_def)
qed

lemma Run_ok:
  assumes "env_ok E env" "evm_db env = db"
  shows "runner_ok R E env n (Run n env)"
proof (induction n)
  case 0
  show ?case by (simp add: runner_ok_def)
next
  case (Suc n)
  then show ?case using Run_body_ok [OF assms] by simp
qed

end

end
