(* ===== verification/EvmProps.thy ===== *)
theory EvmProps
  imports EvmWords
begin

text \<open>Properties of the parts of the virtual machine: arithmetic, jumps, memory and gas.\<close>

section \<open>Examples\<close>

definition idle_contract :: "bytes \<Rightarrow> Contract" where
  "idle_contract code =
    \<lparr>CallerAddress = zero_address, c_self = zero_address, Code = code, CodeHash = zero_hash, CodeAddr = None, c_Input = [],
     Gas = 100000, c_value = 0\<rparr>"

text \<open>A frame with some code, stack and memory, for examples.\<close>

definition some_frame :: "bytes \<Rightarrow> int list \<Rightarrow> bytes \<Rightarrow> frame" where
  "some_frame code st b =
    \<lparr>fr_pc = 0, fr_mem = \<lparr>arrays = [b], store_len = length b, lastGasCost = word_of_nat (mem_fee (length b div 32))\<rparr>,
     fr_stack = st, fr_contract = idle_contract code\<rparr>"

section \<open>Arithmetic\<close>

text \<open>
  C32. Every arithmetic, comparison and bit instruction, computed by the code on big integers with
  explicit reductions, replaces its operands on the stack by the result of the operation on 256-bit words.
\<close>

theorem arith_words:
  assumes "length ws = arith_arity i" "fr_stack fr = map uint ws @ st"
  shows "execute (Arith i) env rn fr vm = finish (fr\<lparr>fr_stack := uint (word_op i ws) # st\<rparr>) vm"
  using arith_word [OF assms] by simp

theorem arith_words_witness:
  "\<forall>(env :: unit EVM) rn vm. execute (Arith InstrSdiv) env rn (some_frame [] [uint (-8 :: 256 word), uint (3 :: 256 word), 7] []) vm =
    finish (some_frame [] [uint (-2 :: 256 word), 7] []) vm"
  using arith_words [of "[-8, 3]" InstrSdiv "some_frame [] [uint (-8 :: 256 word), uint (3 :: 256 word), 7] []" "[7]" "_ :: unit EVM"]
  by (simp add: some_frame_def signed_divide_int_def)

section \<open>Jumps\<close>

text \<open>
  C33. JUMP goes to its target exactly if there is a JUMPDEST byte at the start of an instruction, that is not
  inside the data of a push; any other target, however large, ends the call with an error. The bit map of
  code positions, filled eight bits at a time, decides this without leaving its bounds.
\<close>

theorem opJump_target:
  assumes "length (Code (fr_contract fr)) < 2 ^ 62" "0 \<le> pos" "fr_stack fr = pos # st"
  shows "opJump env rn fr vm =
    (if nat pos < length (Code (fr_contract fr)) \<and> Code (fr_contract fr) ! nat pos = JUMPDEST \<and> instr_start (Code (fr_contract fr)) (nat pos)
     then finish (fr\<lparr>fr_stack := st, fr_pc := big_Uint64 pos\<rparr>) vm
     else Inr (Bytes [], Some ErrInvalidJump, fr\<lparr>fr_stack := st\<rparr>, vm))"
  using validJumpdest_ok [OF assms(1,2)] assms(3) by (auto simp: opJump_def jump_to_def split: bool.split)

theorem opJump_target_witness:
  "\<forall>(env :: unit EVM) rn vm. opJump env rn (some_frame [PUSH1, JUMPDEST, JUMPDEST] [2] []) vm =
     finish ((some_frame [PUSH1, JUMPDEST, JUMPDEST] [] [])\<lparr>fr_pc := 2\<rparr>) vm"
proof -
  have "instr_start [PUSH1, JUMPDEST, JUMPDEST] 2"
    using instr_start.after [OF instr_start.first, of "[PUSH1, JUMPDEST, JUMPDEST]"] by (simp add: push_size_def) (simp add: numeral_2_eq_2)
  then show ?thesis
    using opJump_target [of "some_frame [PUSH1, JUMPDEST, JUMPDEST] [2] []" 2 "[]" "_ :: unit EVM"]
    by (simp add: some_frame_def idle_contract_def big_Uint64_def)
qed

section \<open>Memory\<close>

lemma memoryGasCost_exact:
  assumes "mem_ok m" "fee_ok m" "32 dvd unat ms"
  shows "unat ms > 0x1FFFFFFFE0 \<and> memoryGasCost ms m = (Inl ErrGasUintOverflow, m) \<or>
    unat ms \<le> 0x1FFFFFFFE0 \<and> (\<exists>g m1. memoryGasCost ms m = (Inr g, m1) \<and>
      mem_ok (mem_Resize grow ms m1) \<and> fee_ok (mem_Resize grow ms m1) \<and> store_len (mem_Resize grow ms m1) = max (store_len m) (unat ms) \<and>
      mem_fee (store_len m div 32) + unat g = mem_fee (store_len (mem_Resize grow ms m1) div 32))"
proof (cases "unat ms > 0x1FFFFFFFE0")
  case True
  then show ?thesis using memoryGasCost_ok [OF assms] by simp
next
  case False
  let ?n = "max (store_len m) (unat ms)"
  let ?f = "mem_fee (?n div 32)" and ?o = "mem_fee (store_len m div 32)"
  let ?m1 = "m\<lparr>lastGasCost := word_of_nat ?f\<rparr>"
  have n: "?n \<le> 0x1FFFFFFFE0" using False assms(1) by (simp add: mem_ok_def)
  have le: "?o \<le> ?f" by (intro mem_fee_mono div_le_mono) simp
  have u: "unat (word_of_nat ?f :: u64) = ?f" by (rule mem_fee_small [OF n])
  have ug: "unat (word_of_nat (?f - ?o) :: u64) = ?f - ?o" 
  proof -
    have "unat (word_of_nat ?f :: u64) < 2 ^ 64" by (rule unat_u64_lt)
    then show ?thesis using u by (simp add: unat_of_nat)
  qed
  have m1: "mem_ok ?m1" "store_len ?m1 = store_len m" using assms(1) by (simp_all add: mem_ok_def)
  have le2: "unat ms \<le> 0x1FFFFFFFE0" using False by simp
  note r = mem_Resize_ok [OF m1(1) assms(3) le2, of grow]
  show ?thesis using memoryGasCost_ok [OF assms] False r le ug u by (simp add: fee_ok_def)
qed

text \<open>
  C34. The 64-bit arithmetic of \<open>memoryGasCost\<close> is exact: growing the memory to a size of whole words costs the
  difference of the quadratic fees of the new and the old size, and keeps the record of the last fee, so that a
  contract pays in total the fee of its largest size. Above the limit of 0x1FFFFFFFE0 bytes it is an error.
\<close>

theorem memoryGasCost_fee:
  assumes "mem_ok m" "fee_ok m" "32 dvd unat ms"
  shows "unat ms > 0x1FFFFFFFE0 \<and> memoryGasCost ms m = (Inl ErrGasUintOverflow, m) \<or>
    unat ms \<le> 0x1FFFFFFFE0 \<and> (\<exists>g m1. memoryGasCost ms m = (Inr g, m1) \<and>
      mem_ok (mem_Resize grow ms m1) \<and> fee_ok (mem_Resize grow ms m1) \<and> store_len (mem_Resize grow ms m1) = max (store_len m) (unat ms) \<and>
      mem_fee (store_len m div 32) + unat g = mem_fee (store_len (mem_Resize grow ms m1) div 32))"
  by (rule memoryGasCost_exact [OF assms])

theorem memoryGasCost_fee_witness:
  "\<exists>g m1. memoryGasCost 64 NewMemory = (Inr g, m1) \<and> fee_ok (mem_Resize max 64 m1) \<and> unat g = 6"
proof -
  have s: "store_len NewMemory = 0" by (simp add: NewMemory_def)
  show ?thesis using memoryGasCost_fee [of NewMemory 64 max] by (auto simp: s mem_fee_def)
qed

section \<open>Gas of calls\<close>

lemma callGas_min:
  assumes "base \<le> avail" "0 \<le> cost"
  shows "\<exists>g. callGas True avail base cost = Inr g \<and>
    int (unat g) = min cost (int ((unat avail - unat base) - (unat avail - unat base) div 64))"
proof -
  let ?a = "avail - base"
  have a: "unat ?a = unat avail - unat base" by (rule unat_sub [OF assms(1)])
  have d: "unat (?a div 64) = unat ?a div 64" by (simp add: unat_div)
  have l: "?a div 64 \<le> ?a" unfolding word_le_nat_alt d by simp
  have g: "unat (?a - ?a div 64) = unat ?a - unat ?a div 64" using unat_sub [OF l] d by simp
  define av where "av = ?a - ?a div 64"
  have av: "int (unat av) < 2 ^ 64" using uint_lt2p [of av] by simp
  have e: "int (unat av) = int ((unat avail - unat base) - (unat avail - unat base) div 64)" using g a by (simp only: av_def)
  have c: "callGas True avail base cost = (if \<not> big_IsUint64 cost \<or> av < big_Uint64 cost then Inr av else Inr (big_Uint64 cost))"
    by (simp add: callGas_def Let_def av_def)
  show ?thesis
  proof (cases "cost < 2 ^ 64")
    case True
    then have u: "int (unat (big_Uint64 cost)) = cost" using unat_big_small assms(2) by blast
    moreover have "av < big_Uint64 cost \<longleftrightarrow> int (unat av) < cost" unfolding word_less_nat_alt using u by linarith
    ultimately show ?thesis using True assms(2) e c by (auto simp: big_IsUint64_iff)
  next
    case False
    then have "min cost (int (unat av)) = int (unat av)" using av by linarith
    then show ?thesis using False e c by (simp add: big_IsUint64_iff)
  qed
qed

text \<open>
  C35. Since EIP-150 a call asks for gas and gets the minimum of what it asks for and all but one 64th of what is
  left after the cost of the call itself. The request may be any 256-bit number; nothing overflows.
\<close>

theorem callGas_all_but_64th:
  assumes "base \<le> avail" "0 \<le> cost"
  shows "\<exists>g. callGas True avail base cost = Inr g \<and>
    int (unat g) = min cost (int ((unat avail - unat base) - (unat avail - unat base) div 64))"
  by (rule callGas_min [OF assms])

theorem callGas_all_but_64th_witness: "\<exists>g. callGas True 7100 700 (2 ^ 256 - 1) = Inr g \<and> uint g = 6300"
  using callGas_all_but_64th [of 700 7100 "2 ^ 256 - 1"] by auto

section \<open>The data returned by the identity contract\<close>

lemma identity_address: "precompiles rules (BigToAddress 4) = Some dataCopy"
proof -
  have "BigToAddress 4 = BytesToAddress [4]" by (simp add: BigToAddress_def big_Bytes_def nat_be_step)
  then show ?thesis
    by (simp add: precompiles_def PrecompiledContractsHomestead_def PrecompiledContractsByzantium_def PrecompiledContractsIstanbul_def
        BytesToAddress_def SetBytes_def AddressLength_def)
qed

text \<open>
  C36. The identity contract returns the slice of its input, and the call keeps it as the return data: it refers
  to the memory of the caller. A later store to that memory changes the return data of the call.
\<close>

theorem returnData_aliases_memory:
  assumes "\<not> NoRecursion (vmConfig env)" "vm_depth vm \<le> 1024" "18 \<le> unat (callGasTemp vm)" "length b = 32"
  shows "\<exists>ret fr1 vm1 fr2. opStaticCall env rn (some_frame [] [0, 4, 0, 32, 0, 0, 0, x] b) vm = Inr (ret, None, fr1, vm1) \<and>
    deref (fr_mem fr1) ret = b \<and> fr_stack fr1 = [1, 0, x] \<and>
    opMstore8 env rn (fr1\<lparr>fr_stack := [0, x]\<rparr>) vm1 = finish fr2 vm1 \<and>
    deref (fr_mem fr2) ret = word_of_int (big_Int64 x AND 0xff) # tl b"
proof -
  let ?fr = "some_frame [] [0, 4, 0, 32, 0, 0, 0, x] b"
  have p: "mem_GetPtr (big_Int64 0) (big_Int64 32) (fr_mem ?fr) = Inr (Alias 0 0 32)"
    using assms(4) by (simp add: mem_GetPtr_def some_frame_def big_Int64_def big_Uint64_def)
  have d: "deref (fr_mem ?fr) (Alias 0 0 32) = b" using assms(4) by (simp add: deref_def some_frame_def)
  have g: "dataCopy_RequiredGas b = 18" using assms(4) by (simp add: dataCopy_RequiredGas_def)
  have u: "\<not> callGasTemp vm < 18" using assms(3) by (simp add: word_less_nat_alt)
  obtain s1 s2 where c: "StaticCall env rn (ContractRef (fr_contract ?fr)) (BigToAddress 4) b (callGasTemp vm) vm =
      Inr (InputSlice, callGasTemp vm - 18, None, vm\<lparr>vm_db := s2\<rparr>)"
    using assms(1,2) g u identity_address
    by (simp add: StaticCall_def load_code_def case_prod_beta SetCallCode_def NewContract_def run_def
        RunPrecompiledContract_def UseGas_def dataCopy_Run_def revert_on_error_def)
  let ?fr1 = "?fr\<lparr>fr_stack := [1, 0, x], fr_contract := (fr_contract ?fr)\<lparr>Gas := Gas (fr_contract ?fr) + (callGasTemp vm - 18)\<rparr>\<rparr>"
  let ?v = "word_of_int (big_Int64 x AND 0xff) :: byte"
  let ?fr2 = "?fr1\<lparr>fr_mem := store_copy 0 1 [?v] (fr_mem ?fr), fr_stack := []\<rparr>"
  have s: "fr_stack ?fr = [0, 4, 0, 32, 0, 0, 0, x]" by (simp add: some_frame_def)
  have "opStaticCall env rn ?fr vm = Inr (Alias 0 0 32, None, ?fr1, vm\<lparr>vm_db := s2\<rparr>)"
    using p c d by (simp add: opStaticCall_def s end_call_def mem_Set_def Let_def big_Uint64_def)
  moreover have "opMstore8 env rn (?fr1\<lparr>fr_stack := [0, x]\<rparr>) (vm\<lparr>vm_db := s2\<rparr>) = finish ?fr2 (vm\<lparr>vm_db := s2\<rparr>)"
    using assms(4) by (simp add: opMstore8_def set_mem_def mem_Set8_def some_frame_def big_Int64_def big_Uint64_def)
  moreover have "deref (fr_mem ?fr2) (Alias 0 0 32) = ?v # tl b"
    using assms(4) by (cases b) (simp_all add: deref_def store_copy_def some_frame_def)
  moreover have "deref (fr_mem ?fr1) (Alias 0 0 32) = b" "fr_stack ?fr1 = [1, 0, x]" using d by simp_all
  ultimately show ?thesis by blast
qed

theorem returnData_aliases_memory_witness:
  "\<forall>(env :: unit EVM) rn vm. \<exists>ret fr1 vm1 fr2.
    opStaticCall (env\<lparr>vmConfig := \<lparr>NoRecursion = False, EnablePreimageRecording = False, ExtraEips = []\<rparr>\<rparr>) rn
      (some_frame [] [0, 4, 0, 32, 0, 0, 0, 7] (replicate 32 0)) (vm\<lparr>vm_depth := 0, callGasTemp := 18\<rparr>) = Inr (ret, None, fr1, vm1) \<and>
    deref (fr_mem fr1) ret = replicate 32 0 \<and>
    opMstore8 (env\<lparr>vmConfig := \<lparr>NoRecursion = False, EnablePreimageRecording = False, ExtraEips = []\<rparr>\<rparr>) rn
      (fr1\<lparr>fr_stack := [0, 7]\<rparr>) vm1 = finish fr2 vm1 \<and>
    deref (fr_mem fr2) ret = 7 # replicate 31 0"
proof (intro allI)
  fix env :: "unit EVM" and rn vm
  let ?env = "env\<lparr>vmConfig := \<lparr>NoRecursion = False, EnablePreimageRecording = False, ExtraEips = []\<rparr>\<rparr>"
  have "word_of_int (big_Int64 7 AND 0xff) = (7 :: byte)" by (simp add: big_Int64_def big_Uint64_def)
  then show "\<exists>ret fr1 vm1 fr2.
    opStaticCall ?env rn (some_frame [] [0, 4, 0, 32, 0, 0, 0, 7] (replicate 32 0)) (vm\<lparr>vm_depth := 0, callGasTemp := 18\<rparr>) = Inr (ret, None, fr1, vm1) \<and>
    deref (fr_mem fr1) ret = replicate 32 0 \<and> opMstore8 ?env rn (fr1\<lparr>fr_stack := [0, 7]\<rparr>) vm1 = finish fr2 vm1 \<and>
    deref (fr_mem fr2) ret = 7 # replicate 31 0"
    using returnData_aliases_memory [of ?env "vm\<lparr>vm_depth := 0, callGasTemp := 18\<rparr>" "replicate 32 0" rn 7] by fastforce
qed

section \<open>Configuration\<close>


end
