(* ===== verification/StateProps.thy ===== *)
theory StateProps
  imports StateSim
begin

text \<open>
  Properties of the state database: it behaves like a specification that keeps whole copies at snapshots,
  the end of a transaction, and two places where the code does more or less than its comments say.
\<close>

section \<open>Ends of transactions\<close>

definition v_empty :: "'t backend \<Rightarrow> acct_view \<Rightarrow> bool" where
  "v_empty E v \<longleftrightarrow> v_nonce v = 0 \<and> v_balance v = 0 \<and> v_codehash v = emptyCodeHash E"

text \<open>What the end of a transaction makes of an account that it touched.\<close>

definition sp_finalise :: "'t backend \<Rightarrow> bool \<Rightarrow> acct_view \<Rightarrow> acct_view option" where
  "sp_finalise E del v =
    (if v_suicided v \<or> (del \<and> v_empty E v) then None else Some (v\<lparr>v_committed := v_state v\<rparr>))"

lemma storage_trie_finalise: "storage_trie E (so_finalise obj) = storage_trie E obj"
  by (simp add: so_finalise_def storage_trie_def split: option.split sum.split)

lemma view_finalise:
  "fakeStorage obj = None \<Longrightarrow>
    view_obj E snap D (so_finalise obj) = (view_obj E snap D obj)\<lparr>v_committed := v_state (view_obj E snap D obj)\<rparr>"
  using storage_trie_finalise [of E obj]
  by (simp add: view_obj_def so_finalise_def so_CodeHash_def current_code_def current_slot_def committed_slot_def
      fun_eq_iff map_add_def split: option.split)

lemma finalise_addr_fields:
  "stateObjects (finalise_addr E del a s) b = (if b = a then map_option (\<lambda>obj.
     if suicided obj \<or> (del \<and> so_empty E obj) then obj\<lparr>deleted := True\<rparr> else so_finalise obj) (stateObjects s a)
     else stateObjects s b)"
  "sdb_snap (finalise_addr E del a s) = sdb_snap s" "sdb_trie (finalise_addr E del a s) = sdb_trie s"
  "entries (finalise_addr E del a s) = entries s" "refund (finalise_addr E del a s) = refund s"
  "dirties (finalise_addr E del a s) = dirties s"
  by (simp_all add: finalise_addr_def Let_def split: option.split)

lemma finalise_addr_destructs:
  assumes "wf_state E s"
  shows "snapDestructs (finalise_addr E del a s) = snapDestructs s \<or>
    snapDestructs (finalise_addr E del a s) = insert (Keccak256 E a) (snapDestructs s) \<and>
      (\<exists>obj. stateObjects s a = Some obj \<and> (suicided obj \<or> del \<and> so_empty E obj))"
proof (cases "stateObjects s a")
  case (Some obj)
  then have "so_addrHash obj = Keccak256 E a" using assms by (auto simp: wf_state_def obj_ok_def)
  then show ?thesis using Some by (auto simp: finalise_addr_def Let_def)
qed (simp add: finalise_addr_def)

lemma wf_finalise_addr:
  assumes "wf_state E s"
  shows "wf_state E (finalise_addr E del a s)"
proof -
  have "obj_ok E b obj" if "stateObjects (finalise_addr E del a s) b = Some obj" for b obj
    using that assms
    by (auto simp: finalise_addr_fields wf_state_def obj_ok_def so_finalise_def so_CodeHash_def split: if_splits)
  then show ?thesis using assms by (simp add: wf_state_def finalise_addr_fields)
qed

lemma sp_get_acct: "sp_get a (spec_of E s) = (case acct_of E s a of Some v \<Rightarrow> if v_deleted v then None else Some v | None \<Rightarrow> None)"
  by (simp add: sp_get_def spec_of_def)

lemma finalise_addr_other:
  assumes "wf_state E s" "b \<in> addresses" "a \<in> addresses" "b \<noteq> a"
  shows "sp_get b (spec_of E (finalise_addr E del a s)) = sp_get b (spec_of E s)"
proof -
  have l: "live_object E (finalise_addr E del a s) b = live_object E s b"
    using assms(4) by (simp add: live_object_def finalise_addr_fields split: option.split)
  have "inj_on (Keccak256 E) addresses" using assms(1) by (simp add: wf_state_def backend_ok_def)
  then have "Keccak256 E a \<noteq> Keccak256 E b" using assms(2-4) by (auto dest: inj_onD)
  then have "view_obj E (sdb_snap s) (snapDestructs (finalise_addr E del a s)) obj = cur_view E s obj"
    if "live_object E s b = Some obj" for obj
    using finalise_addr_destructs [OF assms(1), of del a] view_destructs(2) [OF live_ok [OF assms(1,2) that]] by auto
  then show ?thesis
    using l by (cases "live_object E s b") (simp_all add: sp_get_acct acct_of_def finalise_addr_fields)
qed

lemma finalise_addr_self:
  assumes "wf_state E s" "a \<in> addresses"
  shows "sp_get a (spec_of E (finalise_addr E del a s)) =
    (if stateObjects s a = None then sp_get a (spec_of E s) else Option.bind (sp_get a (spec_of E s)) (sp_finalise E del))"
proof (cases "stateObjects s a")
  case None
  then show ?thesis by (simp add: finalise_addr_def)
next
  case (Some obj)
  have f: "fakeStorage obj = None" using assms(1) Some by (auto simp: wf_state_def obj_ok_def)
  let ?s1 = "finalise_addr E del a s"
  have g: "sp_get a (spec_of E s) = (if deleted obj then None else Some (cur_view E s obj))"
    using assms(2) Some by (simp add: sp_get_acct acct_of_live) (simp add: view_obj_def)
  show ?thesis
  proof (cases "suicided obj \<or> del \<and> so_empty E obj")
    case True
    then have "stateObjects ?s1 a = Some (obj\<lparr>deleted := True\<rparr>)" using Some by (simp add: finalise_addr_fields)
    then have "sp_get a (spec_of E ?s1) = None" using assms(2) by (simp add: sp_get_acct acct_of_live) (simp add: view_obj_def)
    then show ?thesis using True Some g by (auto simp: sp_finalise_def view_obj_def v_empty_def so_empty_def)
  next
    case False
    then have o: "stateObjects ?s1 a = Some (so_finalise obj)" using Some by (auto simp: finalise_addr_fields)
    have d: "snapDestructs ?s1 = snapDestructs s" using finalise_addr_destructs [OF assms(1), of del a] False Some by auto
    have "sp_get a (spec_of E ?s1) = (if deleted obj then None
        else Some ((cur_view E s obj)\<lparr>v_committed := v_state (cur_view E s obj)\<rparr>))"
      using assms(2) o f by (simp add: sp_get_acct acct_of_live d finalise_addr_fields view_finalise) (simp add: view_obj_def)
    then show ?thesis using False Some g by (auto simp: sp_finalise_def v_empty_def so_empty_def view_obj_def)
  qed
qed

lemma finalise_fold:
  assumes "wf_state E s" "distinct as" "set as \<subseteq> addresses" "b \<in> addresses"
  shows "sp_get b (spec_of E (fold (finalise_addr E del) as s)) =
      (if b \<in> set as \<and> stateObjects s b \<noteq> None then Option.bind (sp_get b (spec_of E s)) (sp_finalise E del)
       else sp_get b (spec_of E s))"
  using assms(1-3)
proof (induction as arbitrary: s)
  case (Cons a as)
  have a: "a \<in> addresses" and d: "distinct as" "set as \<subseteq> addresses" using Cons(3,4) by auto
  have w: "wf_state E (finalise_addr E del a s)" by (rule wf_finalise_addr [OF Cons(2)])
  have ne: "stateObjects (finalise_addr E del a s) b = None \<longleftrightarrow> stateObjects s b = None"
    by (simp add: finalise_addr_fields)
  show ?case using Cons(1) [OF w d] ne finalise_addr_self [OF Cons(2) a, of del]
      finalise_addr_other [OF Cons(2) assms(4) a, of del] Cons(3) by (cases "b = a"; cases "stateObjects s b") simp_all
qed simp

lemma Finalise_get:
  assumes "wf_state E s" "distinct (iter E (dom (dirties s)))" "set (iter E (dom (dirties s))) = dom (dirties s)"
    "dom (dirties s) \<subseteq> addresses" "a \<in> addresses"
  shows "sp_get a (spec_of E (sdb_Finalise E del s)) =
      (if dirties s a \<noteq> None \<and> stateObjects s a \<noteq> None then Option.bind (sp_get a (spec_of E s)) (sp_finalise E del)
       else sp_get a (spec_of E s))"
proof -
  have c: "acct_of E (clearJournalAndRefund t) = acct_of E t" for t
    by (simp add: clearJournalAndRefund_def Let_def)
  have "a \<in> set (iter E (dom (dirties s))) \<longleftrightarrow> dirties s a \<noteq> None" using assms(3) by auto
  then show ?thesis using finalise_fold [OF assms(1,2) _ assms(5), of del] assms(3,4)
    by (simp add: sdb_Finalise_def sp_get_acct c)
qed

section \<open>Runs of operations\<close>

definition start_machine :: "'t backend \<Rightarrow> 't StateDB \<Rightarrow> machine" where
  "start_machine E s = \<lparr>m_cur = spec_of E s, m_saved = [], m_next = 0\<rparr>"

lemma refinement_holds:
  assumes "backend_ok E snap tr" "list_all op_ok ops"
  shows "map_option (spec_of E) (exec_all E ops (newStateDB tr snap)) =
    map_option m_cur (spec_all E ops (start_machine E (newStateDB tr snap)))"
proof -
  have "rel_option (sim E) (exec_all E ops (newStateDB tr snap)) (spec_all E ops (start_machine E (newStateDB tr snap)))"
    unfolding start_machine_def by (rule sim_exec_all [OF sim_start [OF assms(1)] assms(2)])
  then show ?thesis by (cases rule: option.rel_cases) (simp_all add: sim_def)
qed

lemma reachable_wf:
  assumes "backend_ok E snap tr" "list_all op_ok ops" "exec_all E ops (newStateDB tr snap) = Some s"
  obtains m where "spec_all E ops (start_machine E (newStateDB tr snap)) = Some m" "sim E s m"
proof -
  have "rel_option (sim E) (exec_all E ops (newStateDB tr snap)) (spec_all E ops (start_machine E (newStateDB tr snap)))"
    unfolding start_machine_def by (rule sim_exec_all [OF sim_start [OF assms(1)] assms(2)])
  then show thesis using assms(3) that by (cases "spec_all E ops (start_machine E (newStateDB tr snap))") auto
qed

lemma reads_hold:
  assumes "backend_ok E snap tr" "list_all op_ok ops" "exec_all E ops (newStateDB tr snap) = Some s" "a \<in> addresses"
  shows "\<exists>m. spec_all E ops (start_machine E (newStateDB tr snap)) = Some m \<and>
    (let v = sp_get a (m_cur m) in
      fst (GetBalance E a s) = (case v of Some v \<Rightarrow> v_balance v | None \<Rightarrow> 0) \<and>
      fst (GetCode E a s) = (case v of Some v \<Rightarrow> v_code v | None \<Rightarrow> None) \<and>
      fst (GetState E a k s) = (case v of Some v \<Rightarrow> v_state v k | None \<Rightarrow> zero_hash) \<and>
      fst (GetCommittedState E a k s) = (case v of Some v \<Rightarrow> v_committed v k | None \<Rightarrow> zero_hash) \<and>
      fst (Suicide E a s) = (v \<noteq> None))"
proof -
  obtain m where m: "spec_all E ops (start_machine E (newStateDB tr snap)) = Some m" "sim E s m"
    using reachable_wf [OF assms(1-3)] .
  then have w: "wf_state E s" and c: "spec_of E s = m_cur m" by (simp_all add: sim_def)
  show ?thesis
    using m(1) GetBalance_refines [OF w assms(4)] GetCode_refines [OF w assms(4)] GetState_refines [OF w assms(4), of k]
      GetCommittedState_refines [OF w assms(4), of k] Suicide_refines(2) [OF w assms(4)]
    by (simp add: c Let_def)
qed

text \<open>A revert to one of the revisions of \<open>is\<close> or later leaves them in place.\<close>

fun reverts_after :: "int \<Rightarrow> state_op \<Rightarrow> bool" where
  "reverts_after i (OpRevert j) = (i < j)"
| "reverts_after i _ = True"

lemma spec_exec_keeps:
  assumes "spec_exec E op m = Some m1" "reverts_after i op" "map_of (m_saved m) i = Some sp" "sorted_wrt (<) (map fst (m_saved m))"
    "\<forall>j \<in> fst ` set (m_saved m). j < m_next m"
  shows "map_of (m_saved m1) i = Some sp"
proof (cases op)
  case (OpRevert j)
  then obtain sp1 where m1: "m1 = m\<lparr>m_cur := sp1, m_saved := takeWhile (\<lambda>(k, _). k < j) (m_saved m)\<rparr>" "i < j"
    using assms(1,2) by (auto split: option.splits)
  have "map_of (takeWhile (\<lambda>(k, _). k < j) xs) i = Some sp"
    if "map_of xs i = Some sp" "sorted_wrt (<) (map fst xs)" for xs :: "(int \<times> spec) list"
    using that m1(2)
  proof (induction xs)
    case (Cons x xs)
    obtain k q where x: "x = (k, q)" by fastforce
    show ?case
    proof (cases "k = i")
      case True
      then show ?thesis using Cons(2,4) x by simp
    next
      case False
      then have "map_of xs i = Some sp" using Cons(2) x by simp
      then have "i \<in> fst ` set xs" by (metis domI dom_map_of_conv_image_fst)
      then have "k < i" using Cons(3) x by auto
      then show ?thesis using Cons False x by simp
    qed
  qed simp
  then show ?thesis using assms(3,4) m1(1) by simp
next
  case OpSnapshot
  then show ?thesis using assms(1,3) by (auto simp: map_of_append map_add_Some_iff)
qed (use assms(1,3) in auto)

lemma sim_saved:
  assumes "sim E s m"
  shows "sorted_wrt (<) (map fst (m_saved m))" "\<forall>j \<in> fst ` set (m_saved m). j < m_next m"
proof -
  have la: "list_all2 (\<lambda>r (i, sp). rev_id r = i \<and> i < m_next m \<and> logs_ok sp \<and> restores E s (rev_journalIndex r) sp)
      (validRevisions s) (m_saved m)"
    and o: "sorted_wrt (\<lambda>r q. rev_id r < rev_id q \<and> rev_journalIndex r \<le> rev_journalIndex q) (validRevisions s)"
    using assms by (simp_all add: sim_def)
  have ids: "map rev_id (validRevisions s) = map fst (m_saved m)"
    using la by (auto simp: list_all2_conv_all_nth case_prod_beta intro: nth_equalityI)
  show "sorted_wrt (<) (map fst (m_saved m))"
    unfolding ids [symmetric] sorted_wrt_map by (rule sorted_wrt_mono_rel [OF _ o]) simp
  show "\<forall>j \<in> fst ` set (m_saved m). j < m_next m"
    using la by (auto simp: list_all2_conv_all_nth in_set_conv_nth case_prod_beta) (metis fst_conv)
qed

lemma exec_all_keeps:
  assumes "sim E s m" "list_all op_ok ops" "list_all (reverts_after i) ops" "map_of (m_saved m) i = Some sp"
    "exec_all E ops s = Some s1"
  shows "\<exists>m1. sim E s1 m1 \<and> map_of (m_saved m1) i = Some sp"
  using assms
proof (induction ops arbitrary: s m)
  case (Cons op ops)
  then obtain s2 where s2: "exec E op s = Some s2" "exec_all E ops s2 = Some s1" by (auto split: option.splits)
  have "rel_option (sim E) (exec_all E [op] s) (spec_all E [op] m)"
    by (rule sim_exec_all [OF Cons(2)]) (use Cons(3) in simp)
  then obtain m2 where m2: "spec_exec E op m = Some m2" "sim E s2 m2"
    using s2(1) by (cases "spec_exec E op m") simp_all
  have "map_of (m_saved m2) i = Some sp"
    using spec_exec_keeps [OF m2(1) _ Cons(5) sim_saved [OF Cons(2)]] Cons(4) by simp
  then show ?case using Cons(1) [OF m2(2) _ _ _ s2(2)] Cons(3,4) by simp
qed auto

lemma revert_holds:
  assumes "backend_ok E snap tr" "list_all op_ok before" "exec_all E before (newStateDB tr snap) = Some s"
    "list_all op_ok ops" "list_all (reverts_after (fst (Snapshot s))) ops" "exec_all E ops (snd (Snapshot s)) = Some s1"
  shows "\<exists>s2. RevertToSnapshot E (fst (Snapshot s)) s1 = Some s2 \<and> spec_of E s2 = spec_of E s"
proof -
  let ?i = "fst (Snapshot s)"
  obtain m where m: "sim E s m" using reachable_wf [OF assms(1-3)] .
  let ?m1 = "m\<lparr>m_saved := m_saved m @ [(m_next m, m_cur m)], m_next := m_next m + 1\<rparr>"
  have i: "?i = m_next m" "m_cur m = spec_of E s" using m by (simp_all add: sim_def Snapshot_def)
  have "map_of (m_saved m) ?i = None" using sim_saved(2) [OF m] i(1) by (auto simp: map_of_eq_None_iff)
  then have "map_of (m_saved ?m1) ?i = Some (spec_of E s)" using i by (simp add: map_add_Some_iff)
  then obtain m2 where m2: "sim E s1 m2" "map_of (m_saved m2) ?i = Some (spec_of E s)"
    using exec_all_keeps [OF sim_Snapshot [OF m] assms(4,5) _ assms(6)] by blast
  then show ?thesis using sim_Revert [OF m2(1), of ?i]
    by (cases "RevertToSnapshot E ?i s1") (auto simp: sim_def)
qed

lemma revive_holds:
  assumes "wf_state E s" "a \<in> addresses" "stateObjects s a = Some obj" "deleted obj"
  shows "fst (Exist E a s) = False" "fst (GetBalance E a s) = 0"
    "fst (GetBalance E a (CreateAccount E a s)) = acc_Balance (so_data obj)"
proof -
  have l: "live_object E s a = Some obj" using assms(3) by (simp add: live_object_def)
  have g: "sp_get a (spec_of E s) = None" using sp_get_spec [OF assms(2), of E s] l assms(4) by simp
  then show "fst (GetBalance E a s) = 0" using GetBalance_refines [OF assms(1,2)] by simp
  show "fst (Exist E a s) = False"
    using getStateObject_fst [of E a s] l assms(4) by (simp add: Exist_def case_prod_beta)
  have c: "refines E s (CreateAccount E a s)
      (sp_put a ((fresh_acct E)\<lparr>v_balance := acc_Balance (so_data obj)\<rparr>) (spec_of E s))"
    using CreateAccount_refines [OF assms(1,2)] acct_of_live [OF assms(2,3), of E] by (simp add: spec_of_def view_obj_def)
  then have "wf_state E (CreateAccount E a s)" using journalled_wf by (auto simp: refines_def)
  from GetBalance_refines [OF this assms(2)] c
  show "fst (GetBalance E a (CreateAccount E a s)) = acc_Balance (so_data obj)"
    by (simp add: refines_def sp_get_def sp_put_def fresh_acct_def)
qed

lemma copy_refund_holds:
  assumes "sdb_Copy E s = Some t" "iter E {} = []"
  shows "refund (sdb_Finalise E del t) = refund s"
proof -
  have t: "refund t = refund s" "entries t = []" "dirties t = Map.empty"
    using assms(1) by (auto simp: sdb_Copy_def Let_def newStateDB_def split: if_splits)
  then show ?thesis using assms(2) by (simp add: sdb_Finalise_def clearJournalAndRefund_def)
qed

section \<open>A backend\<close>

text \<open>A state over an empty trie whose hash pads to 32 bytes; \<open>a0\<close> is an address.\<close>

definition a0 :: address where
  "a0 = replicate 25 1"

definition null_backend :: "unit backend" where
  "null_backend = \<lparr>Keccak256 = (\<lambda>b. take 32 (b @ replicate 32 0)), OpenTrie = (\<lambda>_. Inr ()),
    OpenStorageTrie = (\<lambda>_ _. Inr ()), emptyStorageTrie = (\<lambda>_. ()), ContractCode = (\<lambda>_ _. (None, None)),
    ContractCodeSize = (\<lambda>_ _. (0, None)), TryGet = (\<lambda>_ _. Inr []), TryUpdate = (\<lambda>_ _ _. (None, ())),
    TryDelete = (\<lambda>_ _. (None, ())), Trie_Hash = (\<lambda>_. zero_hash),
    iter = (\<lambda>S. if a0 \<in> S then [a0] else [])\<rparr>"

lemma null_backend_ok: "backend_ok null_backend None ()"
proof -
  have "inj_on (\<lambda>b. take 32 (b @ replicate 32 (0::8 word))) addresses"
    by (auto simp: inj_on_def AddressLength_def)
  moreover have "HashLength = 32" "\<forall>b :: bytes. min (length b) 32 + (32 - length b) = 32"
    by (simp_all add: HashLength_def min_def)
  ultimately show ?thesis
    by (simp add: backend_ok_def null_backend_def account_data_def trie_slot_def slot_value_def)
qed

lemma a0_address: "a0 \<in> addresses"
  by (simp add: a0_def AddressLength_def)

abbreviation empty_state :: "unit StateDB" where
  "empty_state \<equiv> newStateDB () None"

definition ops0 :: "state_op list" where
  "ops0 = [OpAddBalance a0 5, OpSnapshot, OpSetNonce a0 1, OpSetBalance a0 9, OpRevert 0]"

lemma ops0_runs: "spec_all E ops0 (start_machine E s) \<noteq> None"
  by (simp add: ops0_def start_machine_def)

text \<open>An account that destroyed itself and then received a payment, after the end of the transaction.\<close>

definition gone_state :: "unit StateDB" where
  "gone_state = sdb_Finalise null_backend True
     (AddBalance null_backend a0 7 (snd (Suicide null_backend a0 (AddBalance null_backend a0 5 empty_state))))"

lemmas run_defs = newStateDB_def AddBalance_def GetOrNewStateObject_def getStateObject_def getDeletedStateObject_def
  load_account_def trie_account_def createObject_def Let_def null_backend_def so_AddBalance_def so_SetBalance_def Suicide_def
  setStateObject_def journal_append_def journal_dirty_def newObject_def zero_Account_def setBalance_def setNonce_def

lemma gone_object: "map_option (\<lambda>obj. (deleted obj, acc_Balance (so_data obj))) (stateObjects gone_state a0) = Some (True, 7)"
  by (simp add: gone_state_def run_defs sdb_Finalise_def finalise_addr_def clearJournalAndRefund_def)

lemma wf_empty_state: "wf_state null_backend empty_state"
  using sim_start [OF null_backend_ok] by (simp add: sim_def)

lemma wf_Finalise: "wf_state E s \<Longrightarrow> wf_state E (sdb_Finalise E del s)"
proof -
  have c: "wf_state E (clearJournalAndRefund t)" if "wf_state E t" for t
    using that by (auto simp: clearJournalAndRefund_def Let_def wf_state_def)
  have "wf_state E (fold (finalise_addr E del) as t)" if "wf_state E t" for as t
    using that by (induction as arbitrary: t) (simp_all add: wf_finalise_addr)
  then show "wf_state E (sdb_Finalise E del s)" if "wf_state E s" using that c by (simp add: sdb_Finalise_def)
qed

lemma wf_gone: "wf_state null_backend gone_state"
proof -
  have step: "wf_state null_backend s1" if "refines null_backend s s1 sp" for s s1 sp
    using that journalled_wf by (auto simp: refines_def)
  have "wf_state null_backend (AddBalance null_backend a0 5 empty_state)"
    by (rule step [OF AddBalance_refines [OF wf_empty_state a0_address]])
  then have "wf_state null_backend (snd (Suicide null_backend a0 (AddBalance null_backend a0 5 empty_state)))"
    by (rule step [OF Suicide_refines(1) [OF _ a0_address]])
  then have "wf_state null_backend (AddBalance null_backend a0 7 (snd (Suicide null_backend a0 (AddBalance null_backend a0 5 empty_state))))"
    by (rule step [OF AddBalance_refines [OF _ a0_address]])
  then show ?thesis unfolding gone_state_def by (rule wf_Finalise)
qed

section \<open>Properties\<close>

text \<open>
  C3: For every sequence of balance, nonce, code, storage, self-destruct, creation, refund, log, preimage,
  read, snapshot and revert operations on a fresh state, the state shows what the specification shows that
  stores plain values and answers a revert by putting back the copy it saved; the code panics exactly when
  the specification has no result (an unknown revision, a refund below zero). The backend must have
  collision-free 32-byte hashes, well-formed accounts and empty storage behind the empty root.
\<close>

theorem state_refinement:
  assumes "backend_ok E snap tr" "list_all op_ok ops"
  shows "map_option (spec_of E) (exec_all E ops (newStateDB tr snap)) =
    map_option m_cur (spec_all E ops (start_machine E (newStateDB tr snap)))"
  by (rule refinement_holds [OF assms])

theorem state_refinement_witness:
  "map_option (spec_of null_backend) (exec_all null_backend ops0 empty_state) =
     map_option m_cur (spec_all null_backend ops0 (start_machine null_backend empty_state)) \<and>
   exec_all null_backend ops0 empty_state \<noteq> None"
  using state_refinement [OF null_backend_ok, of ops0] ops0_runs [of null_backend empty_state] a0_address
  by (auto simp: ops0_def)

text \<open>
  C10: Whatever happens after a snapshot, further snapshots and reverts to later ones included,
  \<open>RevertToSnapshot\<close> with its id does not panic and every account, the refund counter, the logs and the
  preimages are again as they were when the snapshot was taken.
\<close>

theorem RevertToSnapshot_restores:
  assumes "backend_ok E snap tr" "list_all op_ok before" "exec_all E before (newStateDB tr snap) = Some s"
    "list_all op_ok ops" "list_all (reverts_after (fst (Snapshot s))) ops" "exec_all E ops (snd (Snapshot s)) = Some s1"
  shows "\<exists>s2. RevertToSnapshot E (fst (Snapshot s)) s1 = Some s2 \<and> spec_of E s2 = spec_of E s"
  by (rule revert_holds [OF assms])

theorem RevertToSnapshot_restores_witness:
  "\<exists>s s1 s2. exec_all null_backend [OpAddBalance a0 5] empty_state = Some s \<and>
    exec_all null_backend [OpSetNonce a0 1, OpSuicide a0] (snd (Snapshot s)) = Some s1 \<and>
    RevertToSnapshot null_backend (fst (Snapshot s)) s1 = Some s2 \<and> spec_of null_backend s2 = spec_of null_backend s"
proof -
  obtain s where s: "exec_all null_backend [OpAddBalance a0 5] empty_state = Some s" by simp
  obtain s1 where s1: "exec_all null_backend [OpSetNonce a0 1, OpSuicide a0] (snd (Snapshot s)) = Some s1" by simp
  have "\<exists>s2. RevertToSnapshot null_backend (fst (Snapshot s)) s1 = Some s2 \<and> spec_of null_backend s2 = spec_of null_backend s"
    by (rule RevertToSnapshot_restores [OF null_backend_ok _ s _ _ s1]) (use a0_address in simp_all)
  then show ?thesis using s s1 by blast
qed

text \<open>
  C13: The getters of a state reached by any such sequence return what the specification holds: the
  balance, code, current and committed storage of an account that exists, zero values otherwise, and
  \<open>Suicide\<close> reports whether the account exists.
\<close>

theorem reads_return_spec:
  assumes "backend_ok E snap tr" "list_all op_ok ops" "exec_all E ops (newStateDB tr snap) = Some s" "a \<in> addresses"
  shows "\<exists>m. spec_all E ops (start_machine E (newStateDB tr snap)) = Some m \<and>
    (let v = sp_get a (m_cur m) in
      fst (GetBalance E a s) = (case v of Some v \<Rightarrow> v_balance v | None \<Rightarrow> 0) \<and>
      fst (GetCode E a s) = (case v of Some v \<Rightarrow> v_code v | None \<Rightarrow> None) \<and>
      fst (GetState E a k s) = (case v of Some v \<Rightarrow> v_state v k | None \<Rightarrow> zero_hash) \<and>
      fst (GetCommittedState E a k s) = (case v of Some v \<Rightarrow> v_committed v k | None \<Rightarrow> zero_hash) \<and>
      fst (Suicide E a s) = (v \<noteq> None))"
  by (rule reads_hold [OF assms])

theorem reads_return_spec_witness:
  "\<exists>s. exec_all null_backend [OpSetBalance a0 5] empty_state = Some s \<and> fst (GetBalance null_backend a0 s) = 5"
proof -
  obtain s where s: "exec_all null_backend [OpSetBalance a0 5] empty_state = Some s" by simp
  show ?thesis
    using reads_return_spec [OF null_backend_ok _ s a0_address] s a0_address
    by (simp add: Let_def start_machine_def sp_update_def sp_get_def sp_put_def fresh_acct_def split: option.splits)
qed

text \<open>
  C14: \<open>Finalise\<close> removes exactly the touched accounts that destroyed themselves or, with
  \<open>deleteEmptyObjects\<close>, are empty; the other touched accounts keep what they show and their storage
  becomes the committed one; accounts that were not touched stay as they are.
\<close>

theorem Finalise_accounts:
  assumes "wf_state E s" "distinct (iter E (dom (dirties s)))" "set (iter E (dom (dirties s))) = dom (dirties s)"
    "dom (dirties s) \<subseteq> addresses" "a \<in> addresses"
  shows "sp_get a (spec_of E (sdb_Finalise E del s)) =
      (if dirties s a \<noteq> None \<and> stateObjects s a \<noteq> None then Option.bind (sp_get a (spec_of E s)) (sp_finalise E del)
       else sp_get a (spec_of E s))"
  by (rule Finalise_get [OF assms])

theorem Finalise_accounts_witness:
  "sp_get a0 (spec_of null_backend (sdb_Finalise null_backend True (AddBalance null_backend a0 0 empty_state))) = None \<and>
   sp_get a0 (spec_of null_backend (AddBalance null_backend a0 0 empty_state)) \<noteq> None"
proof -
  let ?s = "AddBalance null_backend a0 0 empty_state"
  have r: "refines null_backend empty_state ?s
      (sp_update null_backend a0 (\<lambda>v. v\<lparr>v_balance := v_balance v + 0\<rparr>) (spec_of null_backend empty_state))"
    by (rule AddBalance_refines [OF wf_empty_state a0_address])
  then have w: "wf_state null_backend ?s" using journalled_wf by (auto simp: refines_def)
  have d: "\<exists>n. dirties ?s = [a0 \<mapsto> n]" "stateObjects ?s a0 \<noteq> None"
    by (auto simp: run_defs so_touch_def so_empty_def so_CodeHash_def nil_slice_def emptyCodeHash_def)
  then have i: "dom (dirties ?s) = {a0}" by (auto split: if_splits)
  have it: "iter null_backend {a0} = [a0]" by (simp add: null_backend_def)
  have "sp_get a0 (spec_of null_backend empty_state) = None"
    by (simp add: sp_get_acct acct_of_def live_object_def newStateDB_def account_data_def null_backend_def)
  then have g: "sp_get a0 (spec_of null_backend ?s) = Some (fresh_acct null_backend)"
    using r by (simp add: refines_def sp_update_def sp_get_def sp_put_def fresh_acct_def)
  show ?thesis
    using Finalise_accounts [OF w, of a0 True] i it a0_address d g
    by (auto simp: sp_finalise_def v_empty_def fresh_acct_def)
qed

text \<open>
  C30: For an account deleted at the end of an earlier transaction, which no longer exists and whose
  balance reads as zero, \<open>CreateAccount\<close> brings back the balance of the deleted object: an account that
  destroyed itself and was paid afterwards in the same transaction gets that money back.
\<close>

theorem CreateAccount_revives_balance:
  assumes "wf_state E s" "a \<in> addresses" "stateObjects s a = Some obj" "deleted obj"
  shows "fst (Exist E a s) = False \<and> fst (GetBalance E a s) = 0 \<and>
    fst (GetBalance E a (CreateAccount E a s)) = acc_Balance (so_data obj)"
  using revive_holds [OF assms] by simp

theorem CreateAccount_revives_balance_witness:
  "fst (Exist null_backend a0 gone_state) = False \<and>
   fst (GetBalance null_backend a0 (CreateAccount null_backend a0 gone_state)) = 7"
  using CreateAccount_revives_balance [OF wf_gone a0_address] gone_object by auto

text \<open>
  C31: The refund counter of a copied state survives \<open>Finalise\<close>: \<open>Copy\<close> copies the counter but not the
  journal, and the counter is cleared only when the journal has entries.
\<close>

theorem Copy_refund_survives:
  assumes "sdb_Copy E s = Some t" "iter E {} = []"
  shows "refund (sdb_Finalise E del t) = refund s"
  by (rule copy_refund_holds [OF assms])

theorem Copy_refund_survives_witness:
  "\<exists>t. sdb_Copy null_backend (AddRefund 3 empty_state) = Some t \<and> refund (sdb_Finalise null_backend True t) = 3"
proof -
  obtain t where t: "sdb_Copy null_backend (AddRefund 3 empty_state) = Some t"
    by (simp add: sdb_Copy_def AddRefund_def Let_def newStateDB_def journal_append_def)
  have "iter null_backend {} = []" by (simp add: null_backend_def)
  then show ?thesis using Copy_refund_survives [OF t, of True] t
    by (auto simp: AddRefund_def Let_def newStateDB_def)
qed

end
