(* ===== verification/EvmTheorems.thy ===== *)
theory EvmTheorems
  imports EvmRunSafe EvmProps StateProps
begin

text \<open>
  Theorems on whole runs of the virtual machine over the state database, from the interpretation of \<open>vm_state\<close> on
  \<open>StateDB\<close>, with a machine built by \<open>NewEVM\<close> for the main net as the example.
\<close>

section \<open>Runs on the state database\<close>

text \<open>What the theorems on whole runs assume of the machine and the arguments of a call.\<close>

definition call_ready :: "'t backend \<Rightarrow> 't StateDB EVM \<Rightarrow> 't StateDB vm \<Rightarrow> bool" where
  "call_ready E env vm \<longleftrightarrow> env_ok E env \<and> evm_db env = statedb_methods E \<and> (\<exists>m. sim E (vm_db vm) m) \<and>
    spec_ok (spec_of E (vm_db vm)) \<and> vm_depth vm = 0 \<and> \<not> readOnly vm"

lemma call_ready_sim:
  assumes "call_ready E env vm"
  obtains m where "sim E (vm_db vm) m" "m_cur m = spec_of E (vm_db vm)" "spec_ok (m_cur m)" "env_ok E env" "evm_db env = statedb_methods E"
    "0 \<le> vm_depth vm" "1025 \<le> vm_depth vm + int 1025"
  using assms by (auto simp: call_ready_def sim_def)

definition call_args :: "ContractRef \<Rightarrow> address \<Rightarrow> bytes \<Rightarrow> u64 \<Rightarrow> int \<Rightarrow> bool" where
  "call_args caller a input gas val \<longleftrightarrow>
    ref_Address caller \<in> addresses \<and> a \<in> addresses \<and> is_word val \<and> length input < 2 ^ 61 \<and> unat gas < 2 ^ 62"

lemma evm_Call_ok:
  assumes "call_ready E env vm" "call_args caller a input gas val"
  obtains m where "sim E (vm_db vm) m" "m_cur m = spec_of E (vm_db vm)" "spec_ok (m_cur m)"
    "safe (evm_Call env caller a input gas val vm) (call_result_ok (sim E) E False gas m vm)"
proof (rule call_ready_sim [OF assms(1)])
  fix m assume m: "sim E (vm_db vm) m" "m_cur m = spec_of E (vm_db vm)" "spec_ok (m_cur m)" "env_ok E env" "evm_db env = statedb_methods E"
    "0 \<le> vm_depth vm" "1025 \<le> vm_depth vm + int 1025"
  have st: "static env vm False = False" using assms(1) by (simp add: call_ready_def static_def)
  have "safe (evm_Call env caller a input gas val vm) (call_result_ok (sim E) E (static env vm False) gas m vm)"
    unfolding evm_Call_def
    by (rule statedb.Call_ok [OF m(4,5) statedb.Run_ok [OF m(4,5)] m(1,3) _ _ _ _ _ m(6,7)]) (use assms(2) st in \<open>simp_all add: call_args_def\<close>)
  then show thesis using that m(1-3) st by simp
qed

text \<open>A machine built by \<open>NewEVM\<close> without additional EIPs meets the assumptions, for every fork.\<close>

definition context_ok :: "Context \<Rightarrow> bool" where
  "context_ok ctx \<longleftrightarrow> is_word (ctx_GasPrice ctx) \<and> ctx_Origin ctx \<in> addresses \<and> ctx_Coinbase ctx \<in> addresses \<and>
    (\<forall>n. length (ctx_GetHash ctx n) = HashLength)"

lemma base_table_wf: "table_wf (base_table rules)"
  using tables_wf by (simp add: base_table_def)

lemma NewEVM_ok:
  assumes "NewEVM db ctx cfg vmcfg (Keccak256 E) nf grow = Inr env" "ExtraEips vmcfg = []" "context_ok ctx" "ChainID cfg = Some i" "is_word i"
    "natives_ok nf" "\<And>b. length (Keccak256 E b) = HashLength"
  shows "env_ok E env" "evm_db env = db"
  using assms base_table_wf
  by (auto simp: NewEVM_def NewEVMInterpreter_def Let_def env_ok_def context_ok_def split: if_splits)

lemma result_states:
  assumes "leads (sim E) E ro m s" "m_cur m = spec_of E s0" "spec_ok (m_cur m)"
  shows "(effect E ro)\<^sup>*\<^sup>* (spec_of E s0) (spec_of E s)" "spec_ok (spec_of E s)" "total_balance (spec_of E s) \<le> total_balance (spec_of E s0)"
proof -
  obtain m1 where m1: "sim E s m1" "moved E ro m m1" using assms(1) by (auto simp: leads_def)
  have "m_cur m1 = spec_of E s" using m1(1) by (simp add: sim_def)
  then show e: "(effect E ro)\<^sup>*\<^sup>* (spec_of E s0) (spec_of E s)" using m1(2) assms(2) by (simp add: moved_def)
  show "spec_ok (spec_of E s)" "total_balance (spec_of E s) \<le> total_balance (spec_of E s0)"
    using effects_ok [OF e] assms(2,3) by simp_all
qed

lemma same_shown: "sim E s m1 \<Longrightarrow> m_cur m1 = m_cur m \<Longrightarrow> m_cur m = spec_of E s0 \<Longrightarrow> spec_of E s = spec_of E s0"
  by (simp add: sim_def)

section \<open>Theorems\<close>


lemma Call_result:
  assumes "call_ready E env vm" "call_args caller a input gas val" "evm_Call env caller a input gas val vm = Inr (ret, g, err, vm1)"
  shows "(effect E False)\<^sup>*\<^sup>* (spec_of E (vm_db vm)) (spec_of E (vm_db vm1))" "spec_ok (spec_of E (vm_db vm1))"
    "total_balance (spec_of E (vm_db vm1)) \<le> total_balance (spec_of E (vm_db vm))"
    "err \<noteq> None \<Longrightarrow> spec_of E (vm_db vm1) = spec_of E (vm_db vm)"
proof -
  obtain m where m: "m_cur m = spec_of E (vm_db vm)" "spec_ok (m_cur m)" "safe (evm_Call env caller a input gas val vm) (call_result_ok (sim E) E False gas m vm)"
    by (rule evm_Call_ok [OF assms(1,2)])
  have l: "leads (sim E) E False m (vm_db vm1)" "err \<noteq> None \<longrightarrow> (\<exists>m1. sim E (vm_db vm1) m1 \<and> m_cur m1 = m_cur m)"
    using m(3) assms(3) by (simp_all add: call_result_ok_def)
  show "(effect E False)\<^sup>*\<^sup>* (spec_of E (vm_db vm)) (spec_of E (vm_db vm1))" "spec_ok (spec_of E (vm_db vm1))"
    "total_balance (spec_of E (vm_db vm1)) \<le> total_balance (spec_of E (vm_db vm))" by (rule result_states [OF l(1) m(1,2)])+
  show "err \<noteq> None \<Longrightarrow> spec_of E (vm_db vm1) = spec_of E (vm_db vm)" using l(2) same_shown m(1) by blast
qed

lemma Call_error_gas:
  assumes "Call env rn caller a input gas val vm = Inr (ret, g, Some err, vm1)"
  shows "g = 0 \<or> err = ErrExecutionReverted \<or> err = ErrDepth \<or> err = ErrInsufficientBalance"
  using assms
  by (auto simp: Call_def Let_def case_prod_beta bindp_Inr revert_on_error_def UseGas_def split: if_splits option.splits)







section \<open>An example machine\<close>

definition example_context :: Context where
  "example_context = \<lparr>ctx_GetHash = (\<lambda>_. zero_hash), ctx_Origin = a0, ctx_GasPrice = 1, ctx_Coinbase = a0, ctx_GasLimit = 8000000,
     ctx_BlockNumber = 1, ctx_Time = 0, ctx_Difficulty = 1\<rparr>"

definition example_natives :: natives where
  "example_natives = \<lparr>Ecrecover = (\<lambda>_ _. None), Sum256 = (\<lambda>_. zero_hash), ripemd160 = (\<lambda>_. []), G1_Unmarshal = (\<lambda>_. None),
     G1_Add = (\<lambda>_ _. []), G1_ScalarMult = (\<lambda>_ _. []), G1_Marshal = (\<lambda>_. []), G2_Unmarshal = (\<lambda>_. None), PairingCheck = (\<lambda>_ _. False),
     blake2b_F = (\<lambda>_ _ _ _ _. replicate 8 0)\<rparr>"

definition example_env :: "unit StateDB EVM" where
  "example_env = \<lparr>evm_db = statedb_methods null_backend, evm_ctx = example_context, evm_ChainID = Some 625,
     chainRules = ChainConfig_Rules MainnetChainConfig 1,
     vmConfig = \<lparr>NoRecursion = False, EnablePreimageRecording = False, ExtraEips = []\<rparr>,
     jump_table = base_table (ChainConfig_Rules MainnetChainConfig 1), evm_keccak = Keccak256 null_backend,
     evm_natives = example_natives, growcap = max\<rparr>"

definition example_vm :: "unit StateDB vm" where
  "example_vm = \<lparr>vm_db = AddBalance null_backend a0 1000 empty_state, vm_depth = 0, callGasTemp = 0, readOnly = False, returnData = Bytes []\<rparr>"

lemma example_env_new:
  "NewEVM (statedb_methods null_backend) example_context MainnetChainConfig
     \<lparr>NoRecursion = False, EnablePreimageRecording = False, ExtraEips = []\<rparr> (Keccak256 null_backend) example_natives max = Inr example_env"
  by (simp add: NewEVM_def NewEVMInterpreter_def example_env_def isForked_def MainnetChainConfig_def example_context_def Let_def)

lemma null_keccak: "length (Keccak256 null_backend b) = HashLength"
  using null_backend_ok by (simp add: backend_ok_def)

lemma example_env_ok: "env_ok null_backend example_env" "evm_db example_env = statedb_methods null_backend"
proof -
  have c: "context_ok example_context" using a0_address by (simp add: context_ok_def example_context_def zero_hash_def)
  have i: "ChainID MainnetChainConfig = Some 625" "is_word 625" by (simp_all add: MainnetChainConfig_def is_word_def)
  have n: "natives_ok example_natives" by (simp add: natives_ok_def example_natives_def zero_hash_def HashLength_def)
  show "env_ok null_backend example_env" "evm_db example_env = statedb_methods null_backend"
    by (rule NewEVM_ok [OF example_env_new _ c i n null_keccak], simp)+
qed

lemma empty_spec: "sp_accts (spec_of null_backend empty_state) = (\<lambda>_. None)"
  by (rule ext) (simp add: spec_of_def acct_of_def live_object_def newStateDB_def account_data_def null_backend_def)

lemma example_spec:
  "spec_of null_backend (vm_db example_vm) =
     sp_put a0 ((fresh_acct null_backend)\<lparr>v_balance := 1000\<rparr>) (spec_of null_backend empty_state)"
proof -
  have "refines null_backend empty_state (vm_db example_vm)
      (sp_update null_backend a0 (\<lambda>v. v\<lparr>v_balance := v_balance v + 1000\<rparr>) (spec_of null_backend empty_state))"
    unfolding example_vm_def vm.simps by (rule AddBalance_refines [OF wf_empty_state a0_address])
  then have "spec_of null_backend (vm_db example_vm) = sp_update null_backend a0 (\<lambda>v. v\<lparr>v_balance := v_balance v + 1000\<rparr>) (spec_of null_backend empty_state)"
    by (simp add: refines_def)
  then show ?thesis by (simp add: sp_update_def sp_get_def empty_spec fresh_acct_def)
qed

lemma example_ready: "call_ready null_backend example_env example_vm"
proof -
  let ?sp = "spec_of null_backend empty_state"
  have "total_balance ?sp = 0" by (simp add: total_balance_def sp_balance_def sp_get_def empty_spec)
  then have "total_balance (sp_put a0 ((fresh_acct null_backend)\<lparr>v_balance := 1000\<rparr>) ?sp) = 1000"
    using total_put [OF a0_address, of "(fresh_acct null_backend)\<lparr>v_balance := 1000\<rparr>" ?sp]
    by (simp add: sp_balance_def sp_get_def empty_spec)
  moreover have "accts_ok (sp_put a0 ((fresh_acct null_backend)\<lparr>v_balance := 1000\<rparr>) ?sp)"
    using a0_address by (intro accts_ok_put) (simp_all add: accts_ok_def empty_spec acct_ok_def fresh_acct_def zero_hash_def nil_slice_def)
  moreover have "\<exists>m. sim null_backend (vm_db example_vm) m"
  proof -
    have "exec_all null_backend [OpAddBalance a0 1000] empty_state = Some (vm_db example_vm)" by (simp add: example_vm_def)
    then show ?thesis by (rule_tac reachable_wf [OF null_backend_ok, of "[OpAddBalance a0 1000]"]) (use a0_address in auto)
  qed
  ultimately show ?thesis using example_env_ok by (simp add: call_ready_def example_spec spec_ok_def) (simp add: example_vm_def)
qed

lemma example_poor:
  "\<exists>vm1. evm_Call example_env (AccountRef a0) (BigToAddress 4) [] 21000 5000 example_vm = Inr (Fresh [], 21000, Some ErrInsufficientBalance, vm1)"
proof -
  obtain m where m: "sim null_backend (vm_db example_vm) m" "m_cur m = spec_of null_backend (vm_db example_vm)"
    using call_ready_sim [OF example_ready] by metis
  have "sp_balance (m_cur m) a0 = 1000" by (simp add: m(2) example_spec sp_balance_put)
  then obtain s1 where "CanTransfer (evm_db example_env) a0 5000 (vm_db example_vm) = (False, s1)"
    using statedb.CanTransfer_ok [OF m(1) a0_address, of 5000] example_env_ok(2) by auto
  then show ?thesis by (simp add: evm_Call_def Call_def) (simp add: example_env_def example_vm_def)
qed

section \<open>Properties\<close>






text \<open>
  C5. A call that ends with an error has no effect: every account, the logs and the refund counter are as before. Unless
  the error is a revert, or the call did not start, all its gas is gone.
\<close>

theorem evm_Call_atomic:
  assumes "call_ready E env vm" "call_args caller a input gas val" "evm_Call env caller a input gas val vm = Inr (ret, g, Some err, vm1)"
  shows "spec_of E (vm_db vm1) = spec_of E (vm_db vm) \<and> (g = 0 \<or> err \<in> {ErrExecutionReverted, ErrDepth, ErrInsufficientBalance})"
  using Call_result(4) [OF assms] Call_error_gas [OF assms(3) [unfolded evm_Call_def]] by blast

theorem evm_Call_atomic_witness:
  "\<exists>vm1. evm_Call example_env (AccountRef a0) (BigToAddress 4) [] 21000 5000 example_vm = Inr (Fresh [], 21000, Some ErrInsufficientBalance, vm1) \<and>
    spec_of null_backend (vm_db vm1) = spec_of null_backend (vm_db example_vm)"
proof -
  obtain vm1 where c: "evm_Call example_env (AccountRef a0) (BigToAddress 4) [] 21000 5000 example_vm = Inr (Fresh [], 21000, Some ErrInsufficientBalance, vm1)"
    using example_poor by blast
  have "call_args (AccountRef a0) (BigToAddress 4) [] 21000 5000" using a0_address by (simp add: call_args_def is_word_def)
  from evm_Call_atomic [OF example_ready this c] show ?thesis using c by blast
qed








end
