(* ===== verification/Spec2Isabelle.thy ===== *)
theory Spec2Isabelle
  imports Tppow EvmTheorems
begin

text \<open>
  Verification of go-luck, a blockchain node written in Go. The development covers three layers of the
  program: the serialisation every stored and transmitted object goes through, the consensus engine that
  decides which block headers are valid, and the state database that transactions modify.

  \<^bold>\<open>Conventions.\<close> Structs are records, interfaces with a fixed set of implementations are datatypes,
  machine integers are words (\<open>u64\<close>, \<open>byte\<close>), \<open>big.Int\<close> values are \<open>int\<close>, byte slices and strings are lists of
  bytes, Go maps are maps. Functions that return an error return a sum whose left side is the error; a
  panic, or a loop that does not end, is \<open>None\<close>. Pointers to objects that are shared are modelled by
  passing the updated object. Code outside the repository and cryptography are parameters: \<open>keccak\<close>
  (Keccak256), \<open>IDKey\<close> (Argon2), \<open>GetHeader\<close>/\<open>GetBlock\<close> (the chain reader), \<open>now\<close> (the clock), \<open>abort\<close> (the
  channel that stops the miner), and the record \<open>backend\<close> (trie, code store and snapshot tree below the
  state database).

  \<^bold>\<open>RLP\<close> (src/rlp). \<open>RlpEncode\<close> is encode.go: the buffer \<open>encbuf\<close> with back-patched list headers, the writers
  per Go type (\<open>rval\<close> is a Go value, \<open>writeVal\<close> the writer of its type) and \<open>EncodeToBytes\<close>; it is proved equal to
  the reference encoding \<open>enc_val\<close>. \<open>RlpRaw\<close> is raw.go. \<open>RlpStream\<close> is \<open>Stream\<close> of decode.go over a byte slice with
  the decoder for \<open>interface{}\<close>; \<open>RlpTyped\<close> has the reflective decoders of decode.go for every type \<open>rtype\<close>.
  \<open>RlpContract\<close> states what the decoders promise to each other as locales (\<open>rlp_decoder\<close>, \<open>string_decoder\<close>,
  \<open>list_body\<close>; \<open>prefix_code\<close> in \<open>RlpRaw\<close>), interprets them on the decoders, and derives that each decoder accepts exactly the
  canonical encodings of the values of its type. Fuel: a decoder for input \<open>b\<close> makes at most
  \<open>2 * length b + 1\<close> nested calls, since every second one consumes a byte, so this fuel is enough.

  \<^bold>\<open>Headers and consensus\<close> (src/core/types/block.go, src/consensus/tppow/tppow.go). \<open>BlockHeader\<close> has the
  header record, its RLP image and hash. \<open>Tppow\<close> models the two-phase proof of work: parameters
  (\<open>calcParam\<close>, \<open>calcBeta\<close>, \<open>calcDifficulty\<close>), seals (\<open>SealLuck\<close>, \<open>SealBlock\<close>), verification (\<open>VerifySeal\<close>, \<open>verifyHeader\<close>,
  \<open>VerifyUncles\<close>, \<open>verifyHeaderWorker\<close>) and mining (\<open>Prepare\<close>, \<open>mine\<close>). \<open>VerifyHeaders\<close> is the worker pool of
  \<open>VerifyHeaders\<close> as a step relation over the interleavings of its goroutines. The lemmas show what is
  accepted, that a mined header is accepted, the invariants of accepted chains, and that the pool delivers
  the verdicts in order and ends. The nonce searches may run forever and are \<open>partial_function\<close>s; \<open>mine_finds_block\<close>
  shows that they end when suitable nonces exist.

  \<^bold>\<open>State database\<close> (src/core/state). \<open>StateObject\<close> and \<open>StateDB\<close> model state_object.go, journal.go and statedb.go:
  objects with their caches of storage and code, the journal of undo entries, snapshots, the end of a
  transaction (\<open>sdb_Finalise\<close>) and of a block (\<open>IntermediateRoot\<close>). \<open>StateView\<close> reads an account off the caches
  (\<open>view_obj\<close>); \<open>StateRefine\<close> has the specification: a plain map of accounts with refund, logs and preimages, its
  operations \<open>spec_op\<close> and the machine that keeps whole copies at snapshots. \<open>StateJournal\<close> proves that
  undoing the journal restores the state, \<open>StateSim\<close> that every operation refines its specification and
  composes this into a simulation of runs, \<open>StateProps\<close> has the resulting properties.

  \<^bold>\<open>Shared parts.\<close> \<open>Prelude\<close> holds byte and word lemmas, \<open>Params\<close> the protocol constants, \<open>Common\<close> hashes,
  addresses and big-endian numbers. \<open>EvmMath\<close> has the integer functions of src/common/math and the arithmetic
  instructions of the virtual machine as operations on their operands.

  \<^bold>\<open>Not modelled.\<close> Merkle tries and databases (below the \<open>backend\<close>), networking, RPC, key management and
  command-line tools (input and output around the modelled parts), and cryptographic primitives.
\<close>

section \<open>RLP: encoder against decoder\<close>

text \<open>
  C24. Encoding and decoding are inverse: what \<open>DecodeBytes\<close> returns for an input re-encodes to that
  input, and the encoding of every decoded value is decoded to that value.
\<close>

theorem rlp_roundtrip:
  assumes "length b < 2 ^ 63" and "length (enc_item x) < 2 ^ 63"
  shows "DecodeBytes (2 * length b + 1) b = Inr (Some x) \<longleftrightarrow> EncodeToBytes (item_val x) = Some (Inr b)"
proof -
  have "EncodeToBytes (item_val x) = Some (Inr (enc_item x))"
    using EncodeToBytes_val [of "item_val x"] assms(2) by (simp add: enc_item_val item_val_nonneg)
  then show ?thesis
    using DecodeBytes_canonical [OF assms(1), of x] by (simp only: option.inject sum.inject) blast
qed

theorem rlp_roundtrip_witness:
  "DecodeBytes 9 [0xC3, 1, 0x81, 200] = Inr (Some (IList [IStr [1], IStr [200]])) \<longleftrightarrow>
   EncodeToBytes (SliceVal False [InterfaceVal (Some (BytesVal [1])), InterfaceVal (Some (BytesVal [200]))]) =
     Some (Inr [0xC3, 1, 0x81, 200])"
  using rlp_roundtrip [of "[0xC3, 1, 0x81, 200]" "IList [IStr [1], IStr [200]]"]
  by (simp add: enc_string_def enc_list_def enc_head_def)

text \<open>
  C23. Block headers survive the wire: decoding bytes into a \<open>Header\<close> succeeds exactly when they are what
  the encoder writes for a header with fields of the declared widths and no negative integer, and the
  decoded header is that header. In particular two headers with the same encoding are equal.
\<close>

theorem Header_rlp_roundtrip:
  assumes "length b < 2 ^ 63"
  shows "(DecodeBytes_typed header_type b = Inr (Some v) \<longleftrightarrow>
      (\<exists>h. header_fits h \<and> v = header_val h \<and> length (enc_val v) < 2 ^ 63 \<and> EncodeToBytes v = Some (Inr b))) \<and>
    DecodeBytes_typed header_type b \<noteq> Inr None"
proof -
  have "b = enc_val (header_val h) \<longleftrightarrow>
      length (enc_val (header_val h)) < 2 ^ 63 \<and> EncodeToBytes (header_val h) = Some (Inr b)" if "header_fits h" for h
    using EncodeToBytes_val [of "header_val h"] header_val_nonneg [OF that] assms by auto
  then show ?thesis
    using DecodeBytes_typed_canonical [OF wf_header_type assms, of v] has_type_header [of v] by metis
qed

theorem Header_rlp_roundtrip_witness:
  "DecodeBytes_typed header_type (enc_val (header_val zero_header)) = Inr (Some (header_val zero_header))"
  using Header_rlp_roundtrip [of "enc_val (header_val zero_header)" "header_val zero_header"]
    EncodeToBytes_val [of "header_val zero_header"] header_val_nonneg [OF zero_header_fits]
    zero_header_fits zero_header_size by auto

end
